(* ===== verification/Prelude.thy ===== *)
theory Prelude
  imports Main
begin

text \<open>
  Shared vocabulary of the development: the rule collections the component theories extend,
  JavaScript's truthiness and short-circuit idioms as they are used by \<^verbatim>\<open>frontend/src\<close>, ASCII
  case folding, and generic facts on options and lists.

  Strings are \<^typ>\<open>string\<close>. Every string whose characters the program counts or compares
  (addresses, decimal identifiers, transaction hashes, chain identifiers) is ASCII, so one
  \<^typ>\<open>char\<close> is one UTF-16 code unit of the source. The few labels with other characters carry
  their UTF-8 bytes; no operation looks inside them.
\<close>

named_theorems js_simps \<open>unfolding equations of the translated JavaScript helpers\<close>
named_theorems wp_simps \<open>weakest preconditions of the asynchronous program constructs\<close>
named_theorems keeps_intros \<open>programs that leave an observation of the state alone\<close>
named_theorems maintains_intros \<open>programs whose updates preserve an invariant\<close>
named_theorems silent_intros \<open>programs that only read\<close>

section \<open>Truthiness and short-circuit operators\<close>

text \<open>\<^verbatim>\<open>a || b\<close> on strings: the empty string is falsy.\<close>

definition or_str :: "string \<Rightarrow> string \<Rightarrow> string" where
  "or_str a b = (if a = [] then b else a)"

text \<open>\<^verbatim>\<open>a || b\<close> where \<open>a\<close> is a possibly absent string.\<close>

definition or_opt :: "string option \<Rightarrow> string \<Rightarrow> string" where
  "or_opt a b = (case a of None \<Rightarrow> b | Some x \<Rightarrow> or_str x b)"

text \<open>\<^verbatim>\<open>Number(x) || null\<close>: zero is falsy.\<close>

definition or_null :: "int \<Rightarrow> int option" where
  "or_null n = (if n = 0 then None else Some n)"

text \<open>\<^verbatim>\<open>xs[0] || ""\<close>: the first element, the empty string when there is none.\<close>

definition first_or_empty :: "string list \<Rightarrow> string" where
  "first_or_empty xs = (case xs of [] \<Rightarrow> [] | x # _ \<Rightarrow> x)"

lemma or_str_simps [simp]:
  "or_str [] b = b"
  "or_str (c # cs) b = c # cs"
  by (simp_all add: or_str_def)

lemma or_opt_simps [simp]:
  "or_opt None b = b"
  "or_opt (Some x) b = or_str x b"
  by (simp_all add: or_opt_def)

lemma or_null_simps [simp]:
  "or_null n = None \<longleftrightarrow> n = 0"
  "or_null n = Some m \<longleftrightarrow> n \<noteq> 0 \<and> m = n"
  by (auto simp: or_null_def)

lemma first_or_empty_simps [simp]:
  "first_or_empty [] = []"
  "first_or_empty (x # xs) = x"
  by (simp_all add: first_or_empty_def)

section \<open>ASCII case folding\<close>

text \<open>
  \<^verbatim>\<open>toLowerCase\<close> on ASCII text. Addresses are compared through it throughout the client.
\<close>

definition lower_char :: "char \<Rightarrow> char" where
  "lower_char c =
     (let k = (of_char c :: nat) in if 65 \<le> k \<and> k \<le> 90 then char_of (k + 32) else c)"

definition toLowerCase :: "string \<Rightarrow> string" where
  "toLowerCase s = map lower_char s"

abbreviation same_address :: "string \<Rightarrow> string \<Rightarrow> bool" where
  "same_address a b \<equiv> toLowerCase a = toLowerCase b"

lemma lower_char_idem [simp]: "lower_char (lower_char c) = lower_char c"
proof (cases "65 \<le> (of_char c :: nat) \<and> (of_char c :: nat) \<le> 90")
  case True
  have "of_char (char_of ((of_char c :: nat) + 32) :: char) = (of_char c :: nat) + 32"
    using True by (simp add: of_char_of)
  then show ?thesis using True by (simp add: lower_char_def)
next
  case False
  then show ?thesis by (auto simp: lower_char_def Let_def)
qed

lemma toLowerCase_idem [simp]: "toLowerCase (toLowerCase s) = toLowerCase s"
  by (simp add: toLowerCase_def comp_def)

lemma toLowerCase_Nil [simp]:
  "toLowerCase [] = []"
  "toLowerCase s = [] \<longleftrightarrow> s = []"
  "[] = toLowerCase s \<longleftrightarrow> s = []"
  by (auto simp: toLowerCase_def)

lemma length_toLowerCase [simp]: "length (toLowerCase s) = length s"
  by (simp add: toLowerCase_def)

section \<open>Lists\<close>

text \<open>\<^verbatim>\<open>xs.find(p)\<close> is \<^const>\<open>List.find\<close>, \<^verbatim>\<open>xs.some(p)\<close> is \<^const>\<open>list_ex\<close>.\<close>

lemma find_Some_iff_ex: "(\<exists>x. List.find P xs = Some x) \<longleftrightarrow> list_ex P xs"
  by (induction xs) auto

lemma find_SomeD: "List.find P xs = Some x \<Longrightarrow> x \<in> set xs \<and> P x"
  by (induction xs) (auto split: if_splits)

lemma find_None_list_ex: "List.find P xs = None \<longleftrightarrow> \<not> list_ex P xs"
  by (induction xs) auto

lemma distinct_map_filter_append:
  assumes "distinct (map f xs)" and "distinct (map f ys)"
  shows "distinct (map f (xs @ filter (\<lambda>y. \<not> list_ex (\<lambda>x. f x = f y) xs) ys))"
proof -
  have "distinct (map f (filter (\<lambda>y. \<not> list_ex (\<lambda>x. f x = f y) xs) ys))"
    using assms(2) by (simp add: distinct_map inj_on_def)
  moreover have "set (map f xs) \<inter> set (map f (filter (\<lambda>y. \<not> list_ex (\<lambda>x. f x = f y) xs) ys)) = {}"
    by (auto simp: list_ex_iff)
  ultimately show ?thesis using assms(1) by simp
qed

end
