(* ===== verification/JsText.thy ===== *)
theory JsText
  imports Prelude
begin

text \<open>
  Numbers as text: JavaScript's \<^verbatim>\<open>BigInt(string)\<close>, \<^verbatim>\<open>bigint.toString(radix)\<close>, \<^verbatim>\<open>Number(bigint)\<close>,
  \<^verbatim>\<open>padStart\<close>, \<^verbatim>\<open>slice\<close> and \<^verbatim>\<open>trim\<close> on ASCII strings, and the three presentation helpers
  \<^verbatim>\<open>short\<close>, \<^verbatim>\<open>friendly\<close> and \<^verbatim>\<open>time\<close> of \<^verbatim>\<open>frontend/src/main.tsx\<close>. Identifiers and token amounts stay
  decimal strings in the client; these functions are where they become numbers and back.
\<close>

section \<open>Digits in a base\<close>

function digits :: "nat \<Rightarrow> nat \<Rightarrow> nat list" where
  "digits b n = (if b < 2 \<or> n < b then [n] else digits b (n div b) @ [n mod b])"
  by pat_completeness auto
termination
  by (relation "measure (\<lambda>(b, n). n)") auto

declare digits.simps [simp del]

definition digit_char :: "nat \<Rightarrow> char" where
  "digit_char d = char_of (if d < 10 then 48 + d else 87 + d)"

definition digit_val :: "char \<Rightarrow> nat option" where
  "digit_val c =
     (let k = (of_char c :: nat)
      in if 48 \<le> k \<and> k \<le> 57 then Some (k - 48)
         else if 97 \<le> k \<and> k \<le> 122 then Some (k - 87)
         else if 65 \<le> k \<and> k \<le> 90 then Some (k - 55)
         else None)"

text \<open>\<^verbatim>\<open>n.toString(b)\<close> for a non-negative bigint.\<close>

definition show_nat :: "nat \<Rightarrow> nat \<Rightarrow> string" where
  "show_nat b n = map digit_char (digits b n)"

text \<open>\<^verbatim>\<open>n.toString(b)\<close> for a bigint of either sign.\<close>

definition show_int :: "nat \<Rightarrow> int \<Rightarrow> string" where
  "show_int b i = (if i < 0 then CHR ''-'' # show_nat b (nat (- i)) else show_nat b (nat i))"

fun read_acc :: "nat \<Rightarrow> nat \<Rightarrow> string \<Rightarrow> nat option" where
  "read_acc b acc [] = Some acc"
| "read_acc b acc (c # cs) =
     (case digit_val c of
        None \<Rightarrow> None
      | Some d \<Rightarrow> if d < b then read_acc b (acc * b + d) cs else None)"

definition read_nat :: "nat \<Rightarrow> string \<Rightarrow> nat option" where
  "read_nat b s = (if s = [] then None else read_acc b 0 s)"

lemma digit_val_digit_char: "d < 36 \<Longrightarrow> digit_val (digit_char d) = Some d"
  by (auto simp: digit_val_def digit_char_def of_char_of Let_def)

lemma digits_less:
  assumes "2 \<le> b"
  shows "\<forall>d \<in> set (digits b n). d < b"
  using assms
proof (induction b n rule: digits.induct)
  case (1 b n)
  then show ?case by (subst digits.simps) auto
qed

lemma digits_not_Nil [simp]: "digits b n \<noteq> []"
  by (subst digits.simps) simp

lemma show_nat_not_Nil [simp]: "show_nat b n \<noteq> []"
  by (simp add: show_nat_def)

lemma read_acc_append:
  "read_acc b acc (xs @ ys) =
     (case read_acc b acc xs of None \<Rightarrow> None | Some m \<Rightarrow> read_acc b m ys)"
  by (induction xs arbitrary: acc) (auto split: option.splits)

lemma read_acc_show_nat:
  assumes "2 \<le> b" and "b \<le> 36"
  shows "read_acc b 0 (show_nat b n) = Some n"
  using assms
proof (induction b n rule: digits.induct)
  case (1 b n)
  show ?case
  proof (cases "n < b")
    case True
    then have "digits b n = [n]" using 1 by (subst digits.simps) simp
    then show ?thesis using True 1 by (simp add: show_nat_def digit_val_digit_char)
  next
    case False
    then have d: "digits b n = digits b (n div b) @ [n mod b]"
      using 1 by (subst digits.simps) simp
    have m: "n mod b < b" using 1 by simp
    then have "digit_val (digit_char (n mod b)) = Some (n mod b)"
      using 1 by (intro digit_val_digit_char) (rule less_le_trans)
    moreover have "read_acc b 0 (show_nat b (n div b)) = Some (n div b)"
      using 1 False by simp
    ultimately show ?thesis
      using m by (simp add: show_nat_def d read_acc_append)
  qed
qed

lemma read_nat_show_nat: "2 \<le> b \<Longrightarrow> b \<le> 36 \<Longrightarrow> read_nat b (show_nat b n) = Some n"
  by (simp add: read_nat_def read_acc_show_nat)

lemma show_nat_inject [simp]: "show_nat 10 m = show_nat 10 n \<longleftrightarrow> m = n"
proof
  assume "show_nat 10 m = show_nat 10 n"
  then have "read_nat 10 (show_nat 10 m) = read_nat 10 (show_nat 10 n)" by (rule arg_cong)
  then show "m = n" by (simp add: read_nat_show_nat)
qed simp

section \<open>\<^verbatim>\<open>BigInt(string)\<close>\<close>

text \<open>
  ECMAScript's StringToBigInt on ASCII text: surrounding white space is dropped, the empty
  string is zero, \<^verbatim>\<open>0x\<close>, \<^verbatim>\<open>0o\<close> and \<^verbatim>\<open>0b\<close> select the base, only decimal literals take a sign, and
  anything else is a \<^verbatim>\<open>SyntaxError\<close> (\<^const>\<open>None\<close>).
\<close>

definition is_space :: "char \<Rightarrow> bool" where
  "is_space c = (let k = (of_char c :: nat) in (9 \<le> k \<and> k \<le> 13) \<or> k = 32)"

definition trim :: "string \<Rightarrow> string" where
  "trim s = rev (dropWhile is_space (rev (dropWhile is_space s)))"

definition parse_bigint :: "string \<Rightarrow> int option" where
  "parse_bigint s =
     (let t = trim s; p = take 2 t in
        if t = [] then Some 0
        else if p = ''0x'' \<or> p = ''0X'' then map_option int (read_nat 16 (drop 2 t))
        else if p = ''0o'' \<or> p = ''0O'' then map_option int (read_nat 8 (drop 2 t))
        else if p = ''0b'' \<or> p = ''0B'' then map_option int (read_nat 2 (drop 2 t))
        else if take 1 t = ''-'' then map_option (\<lambda>n. - int n) (read_nat 10 (drop 1 t))
        else if take 1 t = ''+'' then map_option int (read_nat 10 (drop 1 t))
        else map_option int (read_nat 10 t))"

text \<open>Digit characters are not white space, so trimming leaves a printed number alone.\<close>

lemma digit_char_not_space: "d < 36 \<Longrightarrow> \<not> is_space (digit_char d)"
  by (auto simp: is_space_def digit_char_def of_char_of Let_def)

lemma show_nat_chars:
  assumes "2 \<le> b" and "b \<le> 36" and "c \<in> set (show_nat b n)"
  obtains d where "d < b" and "c = digit_char d"
  using assms digits_less [of b n] by (auto simp: show_nat_def)

lemma show_nat_no_space:
  assumes "2 \<le> b" and "b \<le> 36" and "c \<in> set (show_nat b n)"
  shows "\<not> is_space c"
proof -
  obtain d where "d < b" and "c = digit_char d" using assms by (rule show_nat_chars)
  then show ?thesis using assms(2) digit_char_not_space by simp
qed

lemma dropWhile_none: "(\<And>x. x \<in> set xs \<Longrightarrow> \<not> P x) \<Longrightarrow> dropWhile P xs = xs"
  by (cases xs) auto

lemma trim_id: "(\<And>c. c \<in> set s \<Longrightarrow> \<not> is_space c) \<Longrightarrow> trim s = s"
proof -
  assume ns: "\<And>c. c \<in> set s \<Longrightarrow> \<not> is_space c"
  have "dropWhile is_space s = s" by (rule dropWhile_none) (rule ns)
  moreover have "dropWhile is_space (rev s) = rev s" by (rule dropWhile_none) (simp add: ns)
  ultimately show ?thesis by (simp add: trim_def)
qed

lemma trim_show_nat: "2 \<le> b \<Longrightarrow> b \<le> 36 \<Longrightarrow> trim (show_nat b n) = show_nat b n"
  by (rule trim_id) (rule show_nat_no_space)

lemma digit_char_eqs:
  assumes "d < 10"
  shows "digit_char d \<noteq> CHR ''x''" "digit_char d \<noteq> CHR ''X''" "digit_char d \<noteq> CHR ''o''"
    "digit_char d \<noteq> CHR ''O''" "digit_char d \<noteq> CHR ''b''" "digit_char d \<noteq> CHR ''B''"
    "digit_char d \<noteq> CHR ''-''" "digit_char d \<noteq> CHR ''+''"
proof -
  have *: "(of_char (digit_char d) :: nat) = 48 + d"
    using assms by (simp add: digit_char_def of_char_of)
  have "(of_char (digit_char d) :: nat) < 58" "48 \<le> (of_char (digit_char d) :: nat)"
    using * assms by auto
  then show "digit_char d \<noteq> CHR ''x''" "digit_char d \<noteq> CHR ''X''" "digit_char d \<noteq> CHR ''o''"
    "digit_char d \<noteq> CHR ''O''" "digit_char d \<noteq> CHR ''b''" "digit_char d \<noteq> CHR ''B''"
    "digit_char d \<noteq> CHR ''-''" "digit_char d \<noteq> CHR ''+''"
    by auto
qed

lemma parse_bigint_show_nat [simp]: "parse_bigint (show_nat 10 n) = Some (int n)"
proof -
  let ?s = "show_nat 10 n"
  have t: "trim ?s = ?s" by (rule trim_show_nat) simp_all
  have c: "\<And>c. c \<in> set ?s \<Longrightarrow> c \<notin> {CHR ''x'', CHR ''X'', CHR ''o'', CHR ''O'', CHR ''b'', CHR ''B'',
      CHR ''-'', CHR ''+''}"
  proof -
    fix c assume "c \<in> set ?s"
    then obtain d where "d < 10" and "c = digit_char d" by (rule show_nat_chars [rotated 2]) simp_all
    then show "c \<notin> {CHR ''x'', CHR ''X'', CHR ''o'', CHR ''O'', CHR ''b'', CHR ''B'', CHR ''-'', CHR ''+''}"
      using digit_char_eqs by simp
  qed
  have p2: "\<And>a b. b \<in> {CHR ''x'', CHR ''X'', CHR ''o'', CHR ''O'', CHR ''b'', CHR ''B''} \<Longrightarrow> take 2 ?s \<noteq> [a, b]"
  proof
    fix a b assume b: "b \<in> {CHR ''x'', CHR ''X'', CHR ''o'', CHR ''O'', CHR ''b'', CHR ''B''}" and "take 2 ?s = [a, b]"
    then have "b \<in> set (take 2 ?s)" by simp
    then have "b \<in> set ?s" by (rule in_set_takeD)
    then show False using c [of b] b by auto
  qed
  have p1: "\<And>a. a \<in> {CHR ''-'', CHR ''+''} \<Longrightarrow> take 1 ?s \<noteq> [a]"
  proof
    fix a assume a: "a \<in> {CHR ''-'', CHR ''+''}" and "take 1 ?s = [a]"
    then have "a \<in> set (take 1 ?s)" by simp
    then have "a \<in> set ?s" by (rule in_set_takeD)
    then show False using c [of a] a by auto
  qed
  show ?thesis
    using p1 p2 by (simp add: parse_bigint_def t Let_def read_nat_show_nat)
qed

lemma trim_hex: "trim (''0x'' @ show_nat 16 n) = ''0x'' @ show_nat 16 n"
proof (rule trim_id)
  fix c assume "c \<in> set (''0x'' @ show_nat 16 n)"
  then consider "c = CHR ''0''" | "c = CHR ''x''" | "c \<in> set (show_nat 16 n)" by auto
  then show "\<not> is_space c"
  proof cases
    case 3
    then show ?thesis by (rule show_nat_no_space [rotated 2]) simp_all
  qed (simp_all add: is_space_def)
qed

lemma parse_bigint_hex [simp]: "parse_bigint (CHR ''0'' # CHR ''x'' # show_nat 16 n) = Some (int n)"
  using trim_hex [of n] by (simp add: parse_bigint_def Let_def read_nat_show_nat)

lemma show_int_of_nat [simp]: "show_int b (int n) = show_nat b n"
  by (simp add: show_int_def)

section \<open>\<^verbatim>\<open>Number(bigint)\<close>\<close>

text \<open>
  A bigint becomes the nearest IEEE double, ties to the even significand. Up to \<open>2 ^ 53\<close> it is
  exact; beyond, the low bits are rounded away. (Contract values are below \<open>2 ^ 256\<close>, far from the
  largest double.)
\<close>

function bit_count :: "nat \<Rightarrow> nat" where
  "bit_count n = (if n < 2 then 1 else Suc (bit_count (n div 2)))"
  by pat_completeness auto
termination
  by (relation "measure id") auto

declare bit_count.simps [simp del]

definition round_double :: "nat \<Rightarrow> nat" where
  "round_double n =
     (if n < 2 ^ 53 then n
      else let e = bit_count n - 53; q = n div 2 ^ e; r = n mod 2 ^ e; h = 2 ^ (e - 1)
           in (if r < h \<or> (r = h \<and> even q) then q else q + 1) * 2 ^ e)"

definition js_number :: "nat \<Rightarrow> int" where
  "js_number n = int (round_double n)"

lemma js_number_exact [simp]: "n < 2 ^ 53 \<Longrightarrow> js_number n = int n"
  by (simp add: js_number_def round_double_def)

lemma bit_count_lower: "0 < n \<Longrightarrow> 2 ^ (bit_count n - 1) \<le> n"
proof (induction n rule: bit_count.induct)
  case (1 n)
  show ?case
  proof (cases "n < 2")
    case True
    then show ?thesis using 1 by (simp add: bit_count.simps [of n])
  next
    case False
    then have IH: "2 ^ (bit_count (n div 2) - 1) \<le> n div 2" using 1 by simp
    have "0 < bit_count (n div 2)" by (subst bit_count.simps) simp
    then have "(2::nat) ^ bit_count (n div 2) = 2 * 2 ^ (bit_count (n div 2) - 1)"
      by (cases "bit_count (n div 2)") auto
    also have "\<dots> \<le> 2 * (n div 2)" using IH by simp
    also have "\<dots> \<le> n" by simp
    finally show ?thesis using False by (simp add: bit_count.simps [of n])
  qed
qed

lemma bit_count_upper: "n < 2 ^ bit_count n"
proof (induction n rule: bit_count.induct)
  case (1 n)
  then show ?case by (cases "n < 2") (auto simp: bit_count.simps [of n])
qed

lemma round_double_large: "2 ^ 53 \<le> n \<Longrightarrow> 2 ^ 53 \<le> round_double n"
proof -
  assume n: "2 ^ 53 \<le> n"
  let ?e = "bit_count n - 53"
  have bc: "53 < bit_count n"
  proof (rule ccontr)
    assume "\<not> 53 < bit_count n"
    then have "(2::nat) ^ bit_count n \<le> 2 ^ 53" by (intro power_increasing) auto
    also note n
    finally have "(2::nat) ^ bit_count n \<le> n" .
    with bit_count_upper [of n] have "n < n" by (rule less_le_trans)
    then show False by simp
  qed
  have "2 ^ (bit_count n - 1) \<le> n" using n by (intro bit_count_lower) simp
  moreover have "bit_count n - 1 = 52 + ?e" using bc by simp
  ultimately have "2 ^ (52 + ?e) \<le> n" by (simp only:)
  then have lo: "2 ^ 52 * 2 ^ ?e \<le> n" by (simp only: power_add)
  have "(2::nat) ^ 52 * 2 ^ ?e div 2 ^ ?e \<le> n div 2 ^ ?e" using lo by (rule div_le_mono)
  then have q: "2 ^ 52 \<le> n div 2 ^ ?e" by (simp only: nonzero_mult_div_cancel_right power_not_zero zero_neq_numeral simp_thms)
  have e: "1 \<le> ?e" using bc by simp
  then have "(2::nat) ^ 1 \<le> 2 ^ ?e" by (intro power_increasing) auto
  then have two: "(2::nat) \<le> 2 ^ ?e" by simp
  have "(2::nat) ^ 53 = 2 ^ 52 * 2" by simp
  also have "\<dots> \<le> n div 2 ^ ?e * 2 ^ ?e" using q two by (rule mult_le_mono)
  also have "\<dots> \<le> round_double n"
    using n by (simp add: round_double_def Let_def)
  finally show ?thesis .
qed

text \<open>
  Comparing a double below \<open>2 ^ 53\<close> with a converted bigint gives the exact answer, whatever the
  size of the bigint.
\<close>

lemma js_number_le_iff:
  assumes "t < 2 ^ 53"
  shows "js_number n \<le> int t \<longleftrightarrow> n \<le> t"
proof (cases "n < 2 ^ 53")
  case True
  then show ?thesis by simp
next
  case False
  then have "2 ^ 53 \<le> round_double n" using round_double_large by simp
  then show ?thesis using False assms by (simp add: js_number_def)
qed

lemma js_number_eq_0 [simp]: "js_number n = 0 \<longleftrightarrow> n = 0"
  using js_number_le_iff [of 0 n] by (auto simp: js_number_def)

lemma js_number_nonneg [simp]: "0 \<le> js_number n"
  by (simp add: js_number_def)

section \<open>Padding and slicing\<close>

definition padStart :: "nat \<Rightarrow> char \<Rightarrow> string \<Rightarrow> string" where
  "padStart n c s = replicate (n - length s) c @ s"

text \<open>\<^verbatim>\<open>s.slice(0, n)\<close> and \<^verbatim>\<open>s.slice(-n)\<close> for positive \<open>n\<close>.\<close>

definition slice_front :: "nat \<Rightarrow> string \<Rightarrow> string" where
  "slice_front n s = take n s"

definition slice_back :: "nat \<Rightarrow> string \<Rightarrow> string" where
  "slice_back n s = drop (length s - n) s"

section \<open>Presentation helpers of main.tsx\<close>

text \<open>UTF-8 bytes of the ellipsis and the em dash.\<close>

definition ellipsis :: string where
  "ellipsis = [CHR 0xE2, CHR 0x80, CHR 0xA6]"

definition em_dash :: string where
  "em_dash = [CHR 0xE2, CHR 0x80, CHR 0x94]"

definition short :: "string option \<Rightarrow> string" where
  "short s =
     (case s of
        None \<Rightarrow> em_dash
      | Some t \<Rightarrow> if t = [] then em_dash else slice_front 6 t @ ellipsis @ slice_back 4 t)"

definition friendly :: "string \<Rightarrow> string" where
  "friendly s =
     (if s = ''ACTIVE'' then ''Tickets open''
      else if s = ''DRAWING'' then ''Drawing in progress''
      else if s = ''WINNER_DECLARED'' then ''Winner declared''
      else if s = ''COMPLETED'' then ''Prize claimed''
      else if s = ''NO_WINNER'' then ''Pool rolled over''
      else if s = ''CANCELLED'' then ''Draw cancelled''
      else s)"

text \<open>
  The countdown text. The argument is a non-negative whole number of seconds; the source's
  floating-point quotients are exact floors for every count below \<open>2 ^ 41\<close>.
\<close>

definition two_digits :: "nat \<Rightarrow> string" where
  "two_digits n = padStart 2 (CHR ''0'') (show_nat 10 n)"

definition time :: "nat \<Rightarrow> string" where
  "time n =
     two_digits (n div 3600) @ '':'' @ two_digits (n mod 3600 div 60) @ '':'' @ two_digits (n mod 60)"

lemma read_acc_zeros: "1 < b \<Longrightarrow> read_acc b 0 (replicate k (CHR ''0'') @ s) = read_acc b 0 s"
  by (induction k) (auto simp: digit_val_def)

lemma read_padded: "read_nat 10 (padStart k (CHR ''0'') (show_nat 10 n)) = Some n"
  by (simp add: read_nat_def padStart_def read_acc_zeros read_acc_show_nat)

lemma digits_one: "n < 10 \<Longrightarrow> digits 10 n = [n]"
  by (subst digits.simps) simp

lemma digits_two: "10 \<le> n \<Longrightarrow> n < 100 \<Longrightarrow> digits 10 n = [n div 10, n mod 10]"
  by (subst digits.simps) (simp add: digits_one)

lemma digits_length_two: "n < 100 \<Longrightarrow> length (digits 10 n) \<le> 2"
  by (cases "n < 10") (simp_all add: digits_one digits_two)

lemma length_two_digits: "n < 100 \<Longrightarrow> length (two_digits n) = 2"
  using digits_length_two [of n] by (simp add: two_digits_def padStart_def show_nat_def)

section \<open>Character classes\<close>

text \<open>\<^verbatim>\<open>[0-9a-fA-F]\<close>\<close>

definition hex_digit :: "char \<Rightarrow> bool" where
  "hex_digit c =
     (let k = (of_char c :: nat)
      in (48 \<le> k \<and> k \<le> 57) \<or> (97 \<le> k \<and> k \<le> 102) \<or> (65 \<le> k \<and> k \<le> 70))"

end
