(* ===== verification/Types.thy ===== *)
theory Types
  imports JsText
begin

text \<open>
  The client's data model, \<^verbatim>\<open>frontend/src/types.ts\<close>, together with the enum and struct of
  \<^verbatim>\<open>contracts/src/DLottery.sol\<close> that the client reads through the contract ABI. JavaScript numbers
  that hold whole quantities are \<^typ>\<open>int\<close>, token amounts and identifiers are decimal strings,
  \<^verbatim>\<open>T | null\<close> is an option. Fields whose name is also a HOL constant or is shared by two types
  carry a prefix.
\<close>

section \<open>types.ts\<close>

record Config =
  chainId :: string
  lotteryAddress :: string
  tokenAddress :: string
  tokenDecimals :: nat
  daoAddress :: string
  randomnessProvider :: string
  deploymentBlock :: int
  confirmations :: int

record Ticket =
  number :: int
  wallet :: "string option"
  refunded :: bool

record Draw =
  draw_id :: string
  status :: string
  startTime :: int
  deadline :: int
  finalizedAt :: "int option"
  ticketPrice :: string
  minimumParticipants :: int
  participantCount :: int
  luckyNumber :: "int option"
  winner :: "string option"
  pool :: string
  inheritedRollover :: string
  rollover :: string
  daoFee :: string
  winnerPrize :: string
  prizeClaimed :: bool
  daoFeePaid :: string
  requestId :: "string option"
  tickets :: "Ticket list"
  remainingSeconds :: int
  draw_canPerformDraw :: bool

record APIResponse =
  api_draw :: "Draw option"
  indexedBlock :: int
  indexedBlockHash :: string
  chainTime :: int
  observedHead :: int
  synced :: bool

record HistoryResponse =
  hist_draws :: "Draw list"
  nextCursor :: "string option"
  hist_synced :: bool
  hist_indexedBlock :: int

text \<open>The methods the client calls on the injected \<^verbatim>\<open>EVMProvider\<close>.\<close>

datatype wallet_method =
    eth_chainId
  | eth_accounts
  | eth_requestAccounts
  | wallet_requestPermissions
  | wallet_switchEthereumChain string

section \<open>The contract's enum and struct, as the ABI delivers them\<close>

datatype Status = ACTIVE | DRAWING | WINNER_DECLARED | COMPLETED | NO_WINNER | CANCELLED

text \<open>The enum's ordinal, \<^verbatim>\<open>uint8(status)\<close> in Solidity and the ABI's value.\<close>

fun status_code :: "Status \<Rightarrow> nat" where
  "status_code ACTIVE = 0"
| "status_code DRAWING = 1"
| "status_code WINNER_DECLARED = 2"
| "status_code COMPLETED = 3"
| "status_code NO_WINNER = 4"
| "status_code CANCELLED = 5"

text \<open>
  The struct \<^verbatim>\<open>Draw\<close>. Unsigned integers are \<^typ>\<open>nat\<close>, kept in range by the operations; the type
  parameter is the representation of addresses (numbers in the contract, text in the client).
\<close>

record 'addr SolDraw =
  s_id :: nat
  s_status :: Status
  s_startTime :: nat
  s_deadline :: nat
  s_finalizedAt :: nat
  s_participantCount :: nat
  s_luckyNumber :: nat
  s_winner :: 'addr
  s_inheritedRollover :: nat
  s_pool :: nat
  s_daoFee :: nat
  s_winnerPrize :: nat
  s_requestId :: nat

lemma status_code_less: "status_code s < 6"
  by (cases s) simp_all

lemma status_code_inject [simp]: "status_code s = status_code t \<longleftrightarrow> s = t"
  by (cases s; cases t) simp_all

end
