(* ===== verification/Async.thy ===== *)
theory Async
  imports Types
begin

text \<open>
  The asynchronous part of the client. An \<^verbatim>\<open>async\<close> function is a program tree: it reads or updates
  the application's state, throws, or awaits the answer to a request (a wallet call, an RPC read, a
  transaction, an HTTP fetch). Code between two awaits runs without interruption, as in
  JavaScript; at an await other handlers may run, so the state may be another one when the answer
  arrives. \<open>run\<close> executes a program against a script of answers and of the other handlers' effects;
  \<open>wp\<close> is the weakest precondition with a guarantee on every request issued, under an assumption
  on the environment.
\<close>

section \<open>Requests, answers and errors\<close>

record Receipt =
  rc_hash :: string
  rc_blockNumber :: int
  rc_status :: "int option"

datatype err_code = NoCode | StrCode string | NumCode int

text \<open>What a script reads of a mined transaction.\<close>

record log =
  log_address :: string
  log_topics :: "string list"

record mined =
  m_status :: "int option"
  m_blockNumber :: int
  m_contractAddress :: "string option"
  m_logs :: "log list"

record subscription =
  sub_balance :: nat
  sub_native :: nat
  sub_requests :: nat
  sub_owner :: string
  sub_consumers :: "string list"

text \<open>An error: \<open>e_inner\<close> is \<^verbatim>\<open>error.error?.message\<close>, the message of a node inside a library error.\<close>

record jserr =
  e_code :: err_code
  e_shortMessage :: "string option"
  e_message :: "string option"
  e_cancelled :: bool
  e_receipt :: "Receipt option"
  e_inner :: "string option"

definition new_Error :: "string \<Rightarrow> jserr" where
  "new_Error m =
     \<lparr>e_code = NoCode, e_shortMessage = None, e_message = Some m, e_cancelled = False, e_receipt = None,
      e_inner = None\<rparr>"

definition TypeError :: jserr where
  "TypeError = new_Error ''TypeError''"

definition SyntaxError :: "string \<Rightarrow> jserr" where
  "SyntaxError s = new_Error (''Cannot convert '' @ s @ '' to a BigInt'')"

text \<open>Read-only contract methods and the transactions the client sends.\<close>

datatype view_call =
    currentDrawId
  | getDraw string
  | ticketOwners string
  | call_ticketPrice
  | call_minimumParticipants
  | call_refunded string string
  | ticketOf string string
  | call_canPerformDraw string
  | balanceOf string
  | allowance string string
  | decimals
  | getSubscription string
  | call_liabilities

datatype tx_call =
    mint string int
  | approve string int
  | buyTicket string
  | performDraw string
  | claimPrize string
  | claimRefund string
  | finalizeDraw string
  | startDraw string
  | createSubscription
  | fundSubscriptionWithNative string int
  | addConsumer string string
  | setLottery string
  | fulfill string int

datatype arg = ArgStr string | ArgInt int | ArgBool bool

text \<open>
  \<open>Read\<close> goes to the configured RPC at a contract address and an optional block tag;
  \<open>SignerRead\<close> and \<open>Send\<close> go through the signer of an account. A \<open>Batch\<close> is a \<^verbatim>\<open>Promise.all\<close>;
  its \<^const>\<open>None\<close> elements are values that are no promise and need no request. The requests from
  \<open>RpcCall\<close> on are those of the scripts: calls of a node and transactions of a key the script holds,
  and the operating system's timers, ports and processes. A \<open>Race\<close> waits for the first answer to
  one of several requests that are outstanding together.
\<close>

datatype req =
    GetNetwork
  | GetBlockLatest
  | GetBlockNumber
  | Read string view_call "int option"
  | SignerRead string string view_call
  | Send string string tx_call
  | WaitReplaceable string int
  | Wallet wallet_method
  | GetSigner string
  | SignerAddress string
  | Fetch string
  | BodyJson
  | BodyText
  | Batch "req option list"
  | RpcCall string "int list"
  | RpcText string string
  | WaitTx string
  | DeployTx string string "arg list"
  | SendValue string string nat
  | GetBalance string
  | Sleep nat
  | Race "req option list"
  | Listen int
  | Dial int
  | Kill nat string
  | Run string "string list"
  | WaitExit nat nat

datatype body =
    ConfigBody Config
  | CurrentBody APIResponse
  | HistoryBody HistoryResponse
  | ErrorBody "string option"

datatype resp =
    Rej jserr
  | RUnit
  | RNat nat
  | RInt int
  | RBool bool
  | RStr string
  | RStrs "string list"
  | RBlock "(int \<times> int) option"
  | RDraw "string SolDraw"
  | RReceipt "Receipt option"
  | RHttp bool nat
  | RBody body
  | RAll "resp list"
  | RMined "mined option"
  | RSub subscription
  | RPick nat resp
  | RExit "int option"

section \<open>Programs\<close>

datatype (dead 's, 'a) prog =
    Ret 'a
  | Throw jserr
  | Get "'s \<Rightarrow> ('s, 'a) prog"
  | Upd "'s \<Rightarrow> 's" "('s, 'a) prog"
  | Await req "resp \<Rightarrow> ('s, 'a) prog"

lemma prog_induct [case_names Ret Throw Get Upd Await, induct type: prog]:
  assumes "\<And>a. P (Ret a)" and "\<And>e. P (Throw e)"
    and "\<And>k. (\<And>s. P (k s)) \<Longrightarrow> P (Get k)"
    and "\<And>u p. P p \<Longrightarrow> P (Upd u p)"
    and "\<And>q k. (\<And>r. P (k r)) \<Longrightarrow> P (Await q k)"
  shows "P p"
  by (rule prog.induct) (auto intro: assms)

primrec bind :: "('s, 'a) prog \<Rightarrow> ('a \<Rightarrow> ('s, 'b) prog) \<Rightarrow> ('s, 'b) prog" where
  "bind (Ret a) f = f a"
| "bind (Throw e) f = Throw e"
| "bind (Get k) f = Get (\<lambda>s. bind (k s) f)"
| "bind (Upd u p) f = Upd u (bind p f)"
| "bind (Await q k) f = Await q (\<lambda>r. bind (k r) f)"

text \<open>\<^verbatim>\<open>try { p } catch (e) { h(e) }\<close>\<close>

primrec catch :: "('s, 'a) prog \<Rightarrow> (jserr \<Rightarrow> ('s, 'a) prog) \<Rightarrow> ('s, 'a) prog" where
  "catch (Ret a) h = Ret a"
| "catch (Throw e) h = h e"
| "catch (Get k) h = Get (\<lambda>s. catch (k s) h)"
| "catch (Upd u p) h = Upd u (catch p h)"
| "catch (Await q k) h = Await q (\<lambda>r. catch (k r) h)"

text \<open>\<^verbatim>\<open>try { p } finally { u }\<close>, for a synchronous state update \<open>u\<close>.\<close>

primrec finally_do :: "('s, 'a) prog \<Rightarrow> ('s \<Rightarrow> 's) \<Rightarrow> ('s, 'a) prog" where
  "finally_do (Ret a) u = Upd u (Ret a)"
| "finally_do (Throw e) u = Upd u (Throw e)"
| "finally_do (Get k) u = Get (\<lambda>s. finally_do (k s) u)"
| "finally_do (Upd v p) u = Upd v (finally_do p u)"
| "finally_do (Await q k) u = Await q (\<lambda>r. finally_do (k r) u)"

definition update :: "('s \<Rightarrow> 's) \<Rightarrow> ('s, unit) prog" where
  "update u = Upd u (Ret ())"

definition seq :: "('s, 'a) prog \<Rightarrow> ('s, 'b) prog \<Rightarrow> ('s, 'b) prog" where
  "seq p q = bind p (\<lambda>_. q)"

text \<open>
  \<^verbatim>\<open>await q\<close> with the cast the source applies to the answer: a rejected promise throws its error,
  an answer of another shape than the cast promises is a type error.
\<close>

definition reply :: "(resp \<Rightarrow> 'a option) \<Rightarrow> resp \<Rightarrow> jserr + 'a" where
  "reply cast r =
     (case r of
        Rej e \<Rightarrow> Inl e
      | _ \<Rightarrow> (case cast r of Some a \<Rightarrow> Inr a | None \<Rightarrow> Inl TypeError))"

definition await :: "(resp \<Rightarrow> 'a option) \<Rightarrow> req \<Rightarrow> ('s, 'a) prog" where
  "await cast q = Await q (\<lambda>r. case reply cast r of Inl e \<Rightarrow> Throw e | Inr a \<Rightarrow> Ret a)"

fun as_any :: "resp \<Rightarrow> unit option" where
  "as_any r = Some ()"

fun as_nat :: "resp \<Rightarrow> nat option" where
  "as_nat (RNat n) = Some n"
| "as_nat _ = None"

fun as_int :: "resp \<Rightarrow> int option" where
  "as_int (RInt n) = Some n"
| "as_int _ = None"

fun as_bool :: "resp \<Rightarrow> bool option" where
  "as_bool (RBool b) = Some b"
| "as_bool _ = None"

fun as_str :: "resp \<Rightarrow> string option" where
  "as_str (RStr s) = Some s"
| "as_str _ = None"

fun as_strs :: "resp \<Rightarrow> string list option" where
  "as_strs (RStrs xs) = Some xs"
| "as_strs _ = None"

fun as_block :: "resp \<Rightarrow> (int \<times> int) option option" where
  "as_block (RBlock b) = Some b"
| "as_block _ = None"

fun as_receipt :: "resp \<Rightarrow> Receipt option option" where
  "as_receipt (RReceipt r) = Some r"
| "as_receipt _ = None"

fun as_mined :: "resp \<Rightarrow> mined option option" where
  "as_mined (RMined m) = Some m"
| "as_mined _ = None"

fun as_sub :: "resp \<Rightarrow> subscription option" where
  "as_sub (RSub x) = Some x"
| "as_sub _ = None"

fun as_exit :: "resp \<Rightarrow> int option option" where
  "as_exit (RExit x) = Some x"
| "as_exit _ = None"

fun as_http :: "resp \<Rightarrow> (bool \<times> nat) option" where
  "as_http (RHttp ok n) = Some (ok, n)"
| "as_http _ = None"

fun as_body :: "resp \<Rightarrow> body option" where
  "as_body (RBody b) = Some b"
| "as_body _ = None"

section \<open>Laws\<close>

lemma bind_Ret [simp]: "bind p Ret = p"
  by (induction p) (simp_all add: fun_eq_iff)

lemma bind_assoc: "bind (bind p f) g = bind p (\<lambda>a. bind (f a) g)"
  by (induction p) simp_all

lemma catch_Throw [simp]: "catch p Throw = p"
  by (induction p) (simp_all add: fun_eq_iff)

lemma update_simps [simp]:
  "bind (update u) f = Upd u (f ())"
  "seq (update u) q = Upd u q"
  by (simp_all add: update_def seq_def)

section \<open>Execution against a script\<close>

datatype 'a outcome = Returned 'a | Raised jserr | Waiting req

text \<open>
  One script element answers one await: the answer, and what the other handlers did to the state
  meanwhile. The trace lists every request with the state in which it was issued.
\<close>

primrec run ::
  "('s, 'a) prog \<Rightarrow> (resp \<times> ('s \<Rightarrow> 's)) list \<Rightarrow> 's \<Rightarrow> (req \<times> 's) list \<times> 's \<times> 'a outcome" where
  "run (Ret a) env s = ([], s, Returned a)"
| "run (Throw e) env s = ([], s, Raised e)"
| "run (Get k) env s = run (k s) env s"
| "run (Upd u p) env s = run p env (u s)"
| "run (Await q k) env s =
     (case env of
        [] \<Rightarrow> ([(q, s)], s, Waiting q)
      | x # env' \<Rightarrow>
          (case run (k (fst x)) env' (snd x s) of (tr, t) \<Rightarrow> ((q, s) # tr, t)))"

definition trace :: "('s, 'a) prog \<Rightarrow> (resp \<times> ('s \<Rightarrow> 's)) list \<Rightarrow> 's \<Rightarrow> (req \<times> 's) list" where
  "trace p env s = fst (run p env s)"

definition final :: "('s, 'a) prog \<Rightarrow> (resp \<times> ('s \<Rightarrow> 's)) list \<Rightarrow> 's \<Rightarrow> 's" where
  "final p env s = fst (snd (run p env s))"

definition outcome :: "('s, 'a) prog \<Rightarrow> (resp \<times> ('s \<Rightarrow> 's)) list \<Rightarrow> 's \<Rightarrow> 'a outcome" where
  "outcome p env s = snd (snd (run p env s))"

lemma trace_simps [simp]:
  "trace (Ret a) env s = []"
  "trace (Throw e) env s = []"
  "trace (Get g) env s = trace (g s) env s"
  "trace (Upd u p) env s = trace p env (u s)"
  "trace (Await q k) [] s = [(q, s)]"
  "trace (Await q k) (x # env) s = (q, s) # trace (k (fst x)) env (snd x s)"
  by (simp_all add: trace_def split: prod.split)

lemma final_simps [simp]:
  "final (Ret a) env s = s"
  "final (Throw e) env s = s"
  "final (Get g) env s = final (g s) env s"
  "final (Upd u p) env s = final p env (u s)"
  "final (Await q k) [] s = s"
  "final (Await q k) (x # env) s = final (k (fst x)) env (snd x s)"
  by (simp_all add: final_def split: prod.split)

lemma outcome_simps [simp]:
  "outcome (Ret a) env s = Returned a"
  "outcome (Throw e) env s = Raised e"
  "outcome (Get g) env s = outcome (g s) env s"
  "outcome (Upd u p) env s = outcome p env (u s)"
  "outcome (Await q k) [] s = Waiting q"
  "outcome (Await q k) (x # env) s = outcome (k (fst x)) env (snd x s)"
  by (simp_all add: outcome_def split: prod.split)

fun finished :: "'a outcome \<Rightarrow> bool" where
  "finished (Waiting q) = False"
| "finished _ = True"

text \<open>Where a run ended: a return satisfies \<open>Q\<close>, a throw \<open>E\<close>, a run still waiting owes nothing.\<close>

fun ends_in ::
  "'a outcome \<Rightarrow> ('a \<Rightarrow> 's \<Rightarrow> bool) \<Rightarrow> (jserr \<Rightarrow> 's \<Rightarrow> bool) \<Rightarrow> 's \<Rightarrow> bool" where
  "ends_in (Returned a) Q E s = Q a s"
| "ends_in (Raised e) Q E s = E e s"
| "ends_in (Waiting q) Q E s = True"

text \<open>
  The script respects an assumption \<open>R\<close>: for each request actually issued, \<open>R\<close> relates the request,
  the state it was issued in, the answer, and the state in which the answer arrives.
\<close>

primrec conforms ::
  "(req \<Rightarrow> 's \<Rightarrow> resp \<Rightarrow> 's \<Rightarrow> bool) \<Rightarrow> ('s, 'a) prog \<Rightarrow> (resp \<times> ('s \<Rightarrow> 's)) list \<Rightarrow> 's \<Rightarrow> bool" where
  "conforms R (Ret a) env s = True"
| "conforms R (Throw e) env s = True"
| "conforms R (Get k) env s = conforms R (k s) env s"
| "conforms R (Upd u p) env s = conforms R p env (u s)"
| "conforms R (Await q k) env s =
     (case env of
        [] \<Rightarrow> True
      | x # env' \<Rightarrow> R q s (fst x) (snd x s) \<and> conforms R (k (fst x)) env' (snd x s))"

section \<open>Weakest preconditions\<close>

text \<open>
  \<open>wp R G p Q E s\<close>: started in \<open>s\<close>, in every environment allowed by \<open>R\<close>, every request of \<open>p\<close>
  satisfies \<open>G\<close> in the state it is issued in, a normal return satisfies \<open>Q\<close> and a throw \<open>E\<close>.
\<close>

primrec wp ::
  "(req \<Rightarrow> 's \<Rightarrow> resp \<Rightarrow> 's \<Rightarrow> bool) \<Rightarrow> (req \<Rightarrow> 's \<Rightarrow> bool) \<Rightarrow> ('s, 'a) prog
     \<Rightarrow> ('a \<Rightarrow> 's \<Rightarrow> bool) \<Rightarrow> (jserr \<Rightarrow> 's \<Rightarrow> bool) \<Rightarrow> 's \<Rightarrow> bool" where
  "wp R G (Ret a) Q E s = Q a s"
| "wp R G (Throw e) Q E s = E e s"
| "wp R G (Get k) Q E s = wp R G (k s) Q E s"
| "wp R G (Upd u p) Q E s = wp R G p Q E (u s)"
| "wp R G (Await q k) Q E s = (G q s \<and> (\<forall>r t. R q s r t \<longrightarrow> wp R G (k r) Q E t))"

lemma wp_bind [wp_simps]:
  "wp R G (bind p f) Q E s = wp R G p (\<lambda>a. wp R G (f a) Q E) E s"
  by (induction p arbitrary: s) simp_all

lemma wp_catch [wp_simps]:
  "wp R G (catch p h) Q E s = wp R G p Q (\<lambda>e. wp R G (h e) Q E) s"
  by (induction p arbitrary: s) simp_all

lemma wp_finally [wp_simps]:
  "wp R G (finally_do p u) Q E s = wp R G p (\<lambda>a s. Q a (u s)) (\<lambda>e s. E e (u s)) s"
  by (induction p arbitrary: s) simp_all

lemma wp_seq [wp_simps]:
  "wp R G (seq p q) Q E s = wp R G p (\<lambda>_. wp R G q Q E) E s"
  by (simp add: seq_def wp_bind)

lemma wp_update [wp_simps]: "wp R G (update u) Q E s = Q () (u s)"
  by (simp add: update_def)

lemma wp_Ret_ext: "wp R G (Ret a) Q E = Q a"
  by (simp add: fun_eq_iff)

lemma wp_update_ext: "wp R G (update u) Q E = (\<lambda>s. Q () (u s))"
  by (simp add: fun_eq_iff wp_update)

lemma wp_mono:
  assumes "wp R G p Q E s"
    and "\<And>a s. Q a s \<Longrightarrow> Q' a s" and "\<And>e s. E e s \<Longrightarrow> E' e s" and "\<And>q s. G q s \<Longrightarrow> G' q s"
  shows "wp R G' p Q' E' s"
  using assms(1) by (induction p arbitrary: s) (auto simp: assms(2-4))

lemma reply_Inr: "reply cast r = Inr a \<Longrightarrow> cast r = Some a"
  by (cases r) (auto simp: reply_def split: option.splits)

lemma reply_Rej [simp]: "reply cast (Rej e) = Inl e"
  by (simp add: reply_def)

lemma wp_await [wp_simps]:
  "wp R G (await cast q) Q E s \<longleftrightarrow>
     G q s \<and>
     (\<forall>r t. R q s r t \<longrightarrow> (case reply cast r of Inl e \<Rightarrow> E e t | Inr a \<Rightarrow> Q a t))"
  unfolding await_def by (auto split: sum.split)

text \<open>The rule used to verify an await: the value branch and the error branch.\<close>

lemma wp_awaitI:
  assumes "G q s"
    and "\<And>r t a. R q s r t \<Longrightarrow> cast r = Some a \<Longrightarrow> Q a t"
    and "\<And>r t e. R q s r t \<Longrightarrow> E e t"
  shows "wp R G (await cast q) Q E s"
  unfolding wp_await using assms by (auto split: sum.split dest: reply_Inr)


lemma wp_trace:
  assumes "wp R G p Q E s" and "conforms R p env s" and "(q, t) \<in> set (trace p env s)"
  shows "G q t"
  using assms
proof (induction p arbitrary: s env)
  case (Get k)
  show ?case by (rule Get.IH [of s s env]) (use Get.prems in simp_all)
next
  case (Await q' k)
  show ?case
  proof (cases env)
    case Nil
    then show ?thesis using Await.prems by auto
  next
    case (Cons x env')
    then show ?thesis
      using Await.prems Await.IH [of "fst x" "snd x s" env'] by auto
  qed
qed simp_all

lemma wp_outcome:
  assumes "wp R G p Q E s" and "conforms R p env s"
  shows "ends_in (outcome p env s) Q E (final p env s)"
  using assms
proof (induction p arbitrary: s env)
  case (Get k)
  show ?case using Get.IH [of s s env] Get.prems by simp
next
  case (Await q k)
  show ?case
  proof (cases env)
    case Nil
    then show ?thesis by simp
  next
    case (Cons x env')
    then show ?thesis using Await.prems Await.IH [of "fst x" "snd x s" env'] by simp
  qed
qed simp_all

lemma wp_conj:
  "wp R G p Q E s \<Longrightarrow> wp R G' p Q' E' s \<Longrightarrow>
     wp R G p (\<lambda>a t. Q a t \<and> Q' a t) (\<lambda>e t. E e t \<and> E' e t) s"
  by (induction p arbitrary: s) auto

text \<open>An invariant that holds whenever a request is issued holds wherever the program is stopped.\<close>

lemma wp_final:
  assumes "wp R (\<lambda>_. I) p (\<lambda>_. I) (\<lambda>_. I) s" and "conforms R p env s"
  shows "I (final p env s)"
  using assms
proof (induction p arbitrary: s env)
  case (Get k)
  show ?case using Get.IH [of s s env] Get.prems by simp
next
  case (Await q k)
  then show ?case by (cases env) auto
qed simp_all

section \<open>Costs and settling\<close>

text \<open>
  \<open>cost w p n\<close>: whatever the answers, the requests \<open>p\<close> issues weigh at most \<open>n\<close> together under the
  weight \<open>w\<close>. With weight one it bounds the number of awaits, with a weight on \<open>Send\<close> the number of
  transactions.
\<close>

primrec cost :: "(req \<Rightarrow> nat) \<Rightarrow> ('s, 'a) prog \<Rightarrow> nat \<Rightarrow> bool" where
  "cost w (Ret a) n = True"
| "cost w (Throw e) n = True"
| "cost w (Get k) n = (\<forall>s. cost w (k s) n)"
| "cost w (Upd u p) n = cost w p n"
| "cost w (Await q k) n = (w q \<le> n \<and> (\<forall>r. cost w (k r) (n - w q)))"

definition each_await :: "req \<Rightarrow> nat" where
  "each_await q = 1"

fun each_send :: "req \<Rightarrow> nat" where
  "each_send (Send a b c) = 1"
| "each_send _ = 0"

lemma cost_mono: "cost w p m \<Longrightarrow> m \<le> n \<Longrightarrow> cost w p n"
proof (induction p arbitrary: m n)
  case (Await q k)
  then show ?case by (auto intro: Await.IH [of _ "m - w q" "n - w q"] diff_le_mono)
qed auto

lemma cost_bind: "cost w p m \<Longrightarrow> (\<And>a. cost w (f a) n) \<Longrightarrow> cost w (bind p f) (m + n)"
proof (induction p arbitrary: m)
  case (Ret a)
  from Ret.prems(2) [of a] have "cost w (f a) (m + n)" by (rule cost_mono) simp
  then show ?case by simp
next
  case (Await q k)
  have "cost w (bind (k r) f) (m - w q + n)" for r
    using Await.prems by (intro Await.IH) auto
  moreover have "m - w q + n = m + n - w q" using Await.prems(1) by simp
  ultimately show ?case using Await.prems(1) by simp
qed auto

lemma cost_catch: "cost w p m \<Longrightarrow> (\<And>e. cost w (h e) n) \<Longrightarrow> cost w (catch p h) (m + n)"
proof (induction p arbitrary: m)
  case (Throw e)
  from Throw.prems(2) [of e] have "cost w (h e) (m + n)" by (rule cost_mono) simp
  then show ?case by simp
next
  case (Await q k)
  have "cost w (catch (k r) h) (m - w q + n)" for r
    using Await.prems by (intro Await.IH) auto
  moreover have "m - w q + n = m + n - w q" using Await.prems(1) by simp
  ultimately show ?case using Await.prems(1) by simp
qed auto

lemma cost_finally: "cost w p m \<Longrightarrow> cost w (finally_do p u) m"
  by (induction p arbitrary: m) auto

lemma cost_seq: "cost w p m \<Longrightarrow> cost w q n \<Longrightarrow> cost w (seq p q) (m + n)"
  unfolding seq_def by (rule cost_bind)

lemma cost_await: "cost w (await f q) (w q)"
  by (auto simp: await_def split: sum.split)

lemma cost_0_catch: "cost w p m \<Longrightarrow> (\<And>e. cost w (h e) 0) \<Longrightarrow> cost w (catch p h) m"
  using cost_catch [of w p m h 0] by simp

text \<open>The same rules read backwards, with the budget that is left as a difference.\<close>

lemma cost_bindI:
  assumes "cost w p m" and "m \<le> n" and "\<And>a. cost w (f a) (n - m)"
  shows "cost w (bind p f) n"
  using cost_bind [of w p m f "n - m"] assms by simp

lemma cost_catchI:
  assumes "cost w p m" and "m \<le> n" and "\<And>e. cost w (h e) (n - m)"
  shows "cost w (catch p h) n"
  using cost_catch [of w p m h "n - m"] assms by simp

lemma cost_seqI:
  assumes "cost w p m" and "m \<le> n" and "cost w q (n - m)"
  shows "cost w (seq p q) n"
  unfolding seq_def using assms by (rule cost_bindI)

lemma cost_bind_await:
  assumes "w q \<le> n" and "\<And>a. cost w (f a) (n - w q)"
  shows "cost w (bind (await c q) f) n"
  using cost_await assms by (rule cost_bindI)

lemma cost_bind_catch:
  assumes "cost w (catch p h) m" and "m \<le> n" and "\<And>a. cost w (f a) (n - m)"
  shows "cost w (bind (catch p h) f) n"
  using assms by (rule cost_bindI)

lemma cost_await_iff [simp]: "cost w (await c q) n \<longleftrightarrow> w q \<le> n"
  by (auto simp: await_def split: sum.split)

lemma each_await_simp [simp]: "each_await q = 1"
  by (simp add: each_await_def)

lemma cost_update [simp]: "cost w (update u) n"
  by (simp add: update_def)

text \<open>The weights of a run's trace add up to at most the cost.\<close>

lemma cost_trace:
  "cost w p n \<Longrightarrow> sum_list (map (\<lambda>(q, s). w q) (trace p env s)) \<le> n"
proof (induction p arbitrary: n env s)
  case (Await q k)
  show ?case
  proof (cases env)
    case Nil
    then show ?thesis using Await.prems by simp
  next
    case (Cons x env')
    have "sum_list (map (\<lambda>(q, s). w q) (trace (k (fst x)) env' (snd x s))) \<le> n - w q"
      using Await.prems by (intro Await.IH) simp
    then show ?thesis using Cons Await.prems by auto
  qed
qed simp_all

text \<open>A program whose every path has at most \<open>n\<close> awaits is finished after \<open>n\<close> answers.\<close>

lemma cost_finished:
  assumes "cost each_await p n" and "n \<le> length env"
  shows "finished (outcome p env s)"
  using assms
proof (induction p arbitrary: n env s)
  case (Get k)
  show ?case using Get.IH [of s n env s] Get.prems by simp
next
  case (Await q k)
  then obtain x env' where env: "env = x # env'"
    by (cases env) auto
  then show ?case
    using Await.prems Await.IH [of "fst x" "n - 1" env' "snd x s"] by auto
qed simp_all

text \<open>
  A program that sends nothing satisfies every guarantee that speaks of transactions only.
\<close>

lemma wp_no_send:
  assumes "cost each_send p 0" and "\<And>q s. each_send q = 0 \<Longrightarrow> G q s"
    and "\<And>a s. Q a s" and "\<And>e s. E e s"
  shows "wp R G p Q E s"
  using assms(1) by (induction p arbitrary: s) (auto simp: assms(2-4))

text \<open>A \<^verbatim>\<open>finally\<close> block has run when the program has finished.\<close>

lemma outcome_finally [simp]: "outcome (finally_do p u) env s = outcome p env s"
proof (induction p arbitrary: env s)
  case (Await q k)
  then show ?case by (cases env) auto
qed auto

lemma final_finally:
  "finished (outcome p env s) \<Longrightarrow> final (finally_do p u) env s = u (final p env s)"
proof (induction p arbitrary: env s)
  case (Await q k)
  then show ?case by (cases env) auto
qed auto

section \<open>Holding a flag\<close>

text \<open>
  \<open>keeps f p\<close>: no update of \<open>p\<close> changes the observation \<open>f\<close>. \<open>holds_flag f p\<close>: the updates of \<open>p\<close>
  leave the flag \<open>f\<close> alone until the very last one, which clears it, and every path ends so.
\<close>

primrec keeps :: "('s \<Rightarrow> 'v) \<Rightarrow> ('s, 'a) prog \<Rightarrow> bool" where
  "keeps f (Ret a) = True"
| "keeps f (Throw e) = True"
| "keeps f (Get k) = (\<forall>s. keeps f (k s))"
| "keeps f (Upd u p) = ((\<forall>s. f (u s) = f s) \<and> keeps f p)"
| "keeps f (Await q k) = (\<forall>r. keeps f (k r))"

fun is_end :: "('s, 'a) prog \<Rightarrow> bool" where
  "is_end (Ret a) = True"
| "is_end (Throw e) = True"
| "is_end _ = False"

primrec holds_flag :: "('s \<Rightarrow> bool) \<Rightarrow> ('s, 'a) prog \<Rightarrow> bool" where
  "holds_flag f (Ret a) = False"
| "holds_flag f (Throw e) = False"
| "holds_flag f (Get k) = (\<forall>s. holds_flag f (k s))"
| "holds_flag f (Upd u p) =
     (((\<forall>s. f (u s) = f s) \<and> holds_flag f p) \<or> ((\<forall>s. \<not> f (u s)) \<and> is_end p))"
| "holds_flag f (Await q k) = (\<forall>r. holds_flag f (k r))"

lemma keeps_bind [keeps_intros]: "keeps f p \<Longrightarrow> (\<And>a. keeps f (g a)) \<Longrightarrow> keeps f (bind p g)"
  by (induction p) auto

lemma keeps_catch [keeps_intros]: "keeps f p \<Longrightarrow> (\<And>e. keeps f (h e)) \<Longrightarrow> keeps f (catch p h)"
  by (induction p) auto

lemma keeps_finally [keeps_intros]: "keeps f p \<Longrightarrow> (\<And>s. f (u s) = f s) \<Longrightarrow> keeps f (finally_do p u)"
  by (induction p) auto

lemma keeps_seq [keeps_intros]: "keeps f p \<Longrightarrow> keeps f q \<Longrightarrow> keeps f (seq p q)"
  unfolding seq_def by (rule keeps_bind)

lemma keeps_await [keeps_intros]: "keeps f (await c q)"
  by (auto simp: await_def split: sum.split)

lemma keeps_update [keeps_intros]: "(\<And>s. f (u s) = f s) \<Longrightarrow> keeps f (update u)"
  by (simp add: update_def)

lemma holds_finally:
  assumes "keeps f p" and "\<And>s. \<not> f (u s)"
  shows "holds_flag f (finally_do p u)"
  using assms by (induction p) auto

text \<open>Invariants of single updates: \<open>maintains I p\<close>.\<close>

primrec maintains :: "('s \<Rightarrow> bool) \<Rightarrow> ('s, 'a) prog \<Rightarrow> bool" where
  "maintains I (Ret a) = True"
| "maintains I (Throw e) = True"
| "maintains I (Get k) = (\<forall>s. I s \<longrightarrow> maintains I (k s))"
| "maintains I (Upd u p) = ((\<forall>s. I s \<longrightarrow> I (u s)) \<and> maintains I p)"
| "maintains I (Await q k) = (\<forall>r. maintains I (k r))"

lemma maintains_bind [maintains_intros]:
  "maintains I p \<Longrightarrow> (\<And>a. maintains I (g a)) \<Longrightarrow> maintains I (bind p g)"
  by (induction p) auto

lemma maintains_catch [maintains_intros]:
  "maintains I p \<Longrightarrow> (\<And>e. maintains I (h e)) \<Longrightarrow> maintains I (catch p h)"
  by (induction p) auto

lemma maintains_finally [maintains_intros]:
  "maintains I p \<Longrightarrow> (\<And>s. I s \<Longrightarrow> I (u s)) \<Longrightarrow> maintains I (finally_do p u)"
  by (induction p) auto

lemma maintains_seq [maintains_intros]:
  "maintains I p \<Longrightarrow> maintains I q \<Longrightarrow> maintains I (seq p q)"
  unfolding seq_def by (rule maintains_bind)

lemma maintains_update [maintains_intros]: "(\<And>s. I s \<Longrightarrow> I (u s)) \<Longrightarrow> maintains I (update u)"
  by (simp add: update_def)

section \<open>Reading only\<close>

text \<open>\<open>silent p\<close>: the program updates nothing and only reads the state.\<close>

primrec silent :: "('s, 'a) prog \<Rightarrow> bool" where
  "silent (Ret a) = True"
| "silent (Throw e) = True"
| "silent (Get k) = (\<forall>s. silent (k s))"
| "silent (Upd u p) = False"
| "silent (Await q k) = (\<forall>r. silent (k r))"

lemma silent_bind [silent_intros]: "silent p \<Longrightarrow> (\<And>a. silent (g a)) \<Longrightarrow> silent (bind p g)"
  by (induction p) auto

lemma silent_catch [silent_intros]: "silent p \<Longrightarrow> (\<And>e. silent (h e)) \<Longrightarrow> silent (catch p h)"
  by (induction p) auto

lemma silent_await [silent_intros]: "silent (await c q)"
  by (auto simp: await_def split: sum.split)

lemma silent_maintains: "silent p \<Longrightarrow> maintains I p"
  by (induction p) auto

lemma silent_keeps: "silent p \<Longrightarrow> keeps f p"
  by (induction p) auto

end
