(* ===== verification/Chain.thy ===== *)
theory Chain
  imports Async
begin

text \<open>
  \<^verbatim>\<open>frontend/src/chain.ts\<close>: the access layer of the client. \<open>api\<close> fetches from the history service,
  \<open>chainDraw\<close> reads one round at one block, \<open>walletContracts\<close> puts the wallet on the lottery's
  network and checks the account, \<open>confirmed\<close> waits for a transaction that may be replaced, and
  \<open>message\<close> turns an error into text. The program's state type stays a parameter; the access to
  \<^verbatim>\<open>window.ethereum\<close> is the argument \<open>injected\<close>.
\<close>

section \<open>Constants\<close>

definition ZeroAddress :: string where
  "ZeroAddress = ''0x0000000000000000000000000000000000000000''"

definition statusNames :: "string list" where
  "statusNames =
     [''ACTIVE'', ''DRAWING'', ''WINNER_DECLARED'', ''COMPLETED'', ''NO_WINNER'', ''CANCELLED'']"

text \<open>The build-time configuration (\<^verbatim>\<open>import.meta.env\<close>); an unset variable is \<^const>\<open>None\<close>.\<close>

record build =
  VITE_RPC_URL :: "string option"
  VITE_API_URL :: "string option"
  VITE_TEST_TOKEN_ADDRESS :: "string option"

definition RPC_URL :: "build \<Rightarrow> string" where
  "RPC_URL b = or_opt (VITE_RPC_URL b) ''http://127.0.0.1:8545''"

definition API_URL :: "build \<Rightarrow> string" where
  "API_URL b = or_opt (VITE_API_URL b) []"

section \<open>The history service\<close>

text \<open>
  \<^verbatim>\<open>api(path)\<close>: a response that is not ok becomes an error carrying the service's message, or the
  HTTP status when the body has none or is no JSON.
\<close>

definition http_failure :: "nat \<Rightarrow> body option \<Rightarrow> jserr" where
  "http_failure st b =
     new_Error
       (or_opt (case b of Some (ErrorBody m) \<Rightarrow> m | _ \<Rightarrow> None)
          (''History service returned '' @ show_nat 10 st))"

definition api :: "build \<Rightarrow> string \<Rightarrow> ('s, body) prog" where
  "api b path =
     bind (await as_http (Fetch (API_URL b @ path))) (\<lambda>(ok, st).
       if \<not> ok then
         bind (catch (bind (await as_body BodyJson) (\<lambda>x. Ret (Some x))) (\<lambda>_. Ret None))
           (\<lambda>x. Throw (http_failure st x))
       else await as_body BodyJson)"

section \<open>Reading a round\<close>

definition statusName :: "Status \<Rightarrow> string" where
  "statusName st = statusNames ! status_code st"

text \<open>A difference of two whole JavaScript numbers, rounded as a double is.\<close>

definition js_sub :: "int \<Rightarrow> int \<Rightarrow> int" where
  "js_sub a b = (if b \<le> a then js_number (nat (a - b)) else - js_number (nat (b - a)))"

text \<open>The \<^verbatim>\<open>tickets\<close> array: position \<open>i\<close> is ticket number \<open>i + 1\<close>.\<close>

definition ticket_rows :: "string list \<Rightarrow> bool list \<Rightarrow> Ticket list" where
  "ticket_rows owners refunds =
     map (\<lambda>(i, a, r). \<lparr>number = int i + 1, wallet = (if a = ZeroAddress then None else Some a), refunded = r\<rparr>)
       (zip [0..<length owners] (zip owners refunds))"

text \<open>The object \<^verbatim>\<open>chainDraw\<close> assembles from the values read at a block with timestamp \<open>ts\<close>.\<close>

definition draw_view ::
  "int \<Rightarrow> string SolDraw \<Rightarrow> string list \<Rightarrow> nat \<Rightarrow> nat \<Rightarrow> bool list \<Rightarrow> Draw" where
  "draw_view ts d owners price mn refunds =
     (let st = statusName (s_status d) in
       \<lparr>draw_id = show_nat 10 (s_id d),
        status = st,
        startTime = js_number (s_startTime d),
        deadline = js_number (s_deadline d),
        finalizedAt = or_null (js_number (s_finalizedAt d)),
        ticketPrice = show_nat 10 price,
        minimumParticipants = js_number mn,
        participantCount = js_number (s_participantCount d),
        luckyNumber = or_null (js_number (s_luckyNumber d)),
        winner = (if s_winner d = ZeroAddress then None else Some (s_winner d)),
        pool = show_nat 10 (s_pool d),
        inheritedRollover = show_nat 10 (s_inheritedRollover d),
        rollover =
          (if st = ''NO_WINNER'' then show_nat 10 (s_pool d)
           else if st = ''CANCELLED'' then show_nat 10 (s_inheritedRollover d)
           else ''0''),
        daoFee = show_nat 10 (s_daoFee d),
        winnerPrize = show_nat 10 (s_winnerPrize d),
        prizeClaimed = (st = ''COMPLETED''),
        daoFeePaid = (if st = ''COMPLETED'' then show_nat 10 (s_daoFee d) else ''0''),
        requestId = (if s_requestId d = 0 then None else Some (show_nat 10 (s_requestId d))),
        tickets = ticket_rows owners refunds,
        remainingSeconds = max 0 (js_sub (js_number (s_deadline d)) ts),
        draw_canPerformDraw =
          (st = ''ACTIVE'' \<and>
           (js_number (s_participantCount d) = 5 \<or> js_number (s_deadline d) \<le> ts))\<rparr>)"

fun as_draw :: "resp \<Rightarrow> string SolDraw option" where
  "as_draw (RDraw d) = Some d"
| "as_draw _ = None"

fun as_all :: "resp \<Rightarrow> resp list option" where
  "as_all (RAll rs) = Some rs"
| "as_all _ = None"

definition as_round :: "resp \<Rightarrow> (string SolDraw \<times> string list \<times> nat \<times> nat) option" where
  "as_round r =
     (case as_all r of
        Some [a, b, x, y] \<Rightarrow>
          (case (as_draw a, as_strs b, as_nat x, as_nat y) of
             (Some d, Some owners, Some price, Some mn) \<Rightarrow> Some (d, owners, price, mn)
           | _ \<Rightarrow> None)
      | _ \<Rightarrow> None)"

definition refund_queries :: "Config \<Rightarrow> string \<Rightarrow> int \<Rightarrow> string SolDraw \<Rightarrow> string list \<Rightarrow> req option list" where
  "refund_queries c i block d owners =
     map (\<lambda>a. if a \<noteq> ZeroAddress \<and> js_number (status_code (s_status d)) = 5
              then Some (Read (lotteryAddress c) (call_refunded i a) (Some block)) else None) owners"

text \<open>One flag per query: a query that was not needed is \<^verbatim>\<open>false\<close>.\<close>

fun as_refunds :: "req option list \<Rightarrow> resp \<Rightarrow> bool list option" where
  "as_refunds qs (RAll rs) =
     (if length rs = length qs
      then Some (map (\<lambda>(q, r). q \<noteq> None \<and> r = RBool True) (zip qs rs)) else None)"
| "as_refunds qs _ = None"

definition round_queries :: "Config \<Rightarrow> string \<Rightarrow> int \<Rightarrow> req option list" where
  "round_queries c i block =
     map (\<lambda>v. Some (Read (lotteryAddress c) v (Some block)))
       [getDraw i, ticketOwners i, call_ticketPrice, call_minimumParticipants]"

record fresh_draw =
  fd_draw :: Draw
  fd_time :: int
  fd_block :: int

definition chainDraw :: "Config \<Rightarrow> string \<Rightarrow> ('s, fresh_draw) prog" where
  "chainDraw c i =
     bind (await as_nat GetNetwork) (\<lambda>net.
       if show_nat 10 net \<noteq> chainId c
       then Throw (new_Error ''The read RPC is on a different network from this lottery.'')
       else bind (await as_block GetBlockLatest) (\<lambda>blk.
         case blk of
           None \<Rightarrow> Throw (new_Error ''Cannot read latest block'')
         | Some (block, ts) \<Rightarrow>
             bind (await as_round (Batch (round_queries c i block))) (\<lambda>(d, owners, price, mn).
               bind (await (as_refunds (refund_queries c i block d owners))
                      (Batch (refund_queries c i block d owners))) (\<lambda>refunds.
                 Ret \<lparr>fd_draw = draw_view ts d owners price mn refunds,
                      fd_time = ts, fd_block = block\<rparr>))))"

section \<open>The wallet\<close>

text \<open>\<^verbatim>\<open>BigInt(String(x)).toString()\<close> on a chain identifier reported by the wallet.\<close>

definition chain_text :: "string \<Rightarrow> ('s, string) prog" where
  "chain_text x =
     (case parse_bigint x of None \<Rightarrow> Throw (SyntaxError x) | Some n \<Rightarrow> Ret (show_int 10 n))"

text \<open>The parameter of the network switch, \<^verbatim>\<open>"0x" + BigInt(c.chainId).toString(16)\<close>.\<close>

definition chain_hex :: "Config \<Rightarrow> ('s, string) prog" where
  "chain_hex c =
     (case parse_bigint (chainId c) of
        None \<Rightarrow> Throw (SyntaxError (chainId c))
      | Some n \<Rightarrow> Ret (''0x'' @ show_int 16 n))"

definition ensure_chain :: "Config \<Rightarrow> ('s, unit) prog" where
  "ensure_chain c =
     bind (await as_str (Wallet eth_chainId)) (\<lambda>chain.
     bind (chain_text chain) (\<lambda>here.
       if here = chainId c then Ret ()
       else bind (chain_hex c) (\<lambda>hex.
            bind (await as_any (Wallet (wallet_switchEthereumChain hex))) (\<lambda>_.
            bind (await as_str (Wallet eth_chainId)) (\<lambda>chain2.
            bind (chain_text chain2) (\<lambda>there.
              if there = chainId c then Ret ()
              else Throw (new_Error ''Switch your wallet to the lottery network.'')))))))"

text \<open>The contracts bound to a signer: the handle is the account the signer was requested for.\<close>

record wallet_contracts =
  wc_lottery :: string
  wc_token :: string
  wc_signer :: string
  wc_address :: string

definition walletContracts :: "('s \<Rightarrow> bool) \<Rightarrow> Config \<Rightarrow> string \<Rightarrow> ('s, wallet_contracts) prog" where
  "walletContracts injected c address =
     Get (\<lambda>s.
       if \<not> injected s then Throw (new_Error ''Install an EVM wallet to participate.'')
       else bind (ensure_chain c) (\<lambda>_.
         bind (await as_strs (Wallet eth_accounts)) (\<lambda>accounts.
           if address = [] \<or> \<not> list_ex (\<lambda>a. same_address a address) accounts
           then Throw (new_Error
             ''Connect the selected account using Switch wallet before continuing.'')
           else bind (await as_any (GetSigner address)) (\<lambda>_.
             bind (await as_str (SignerAddress address)) (\<lambda>me.
               Ret \<lparr>wc_lottery = lotteryAddress c, wc_token = tokenAddress c,
                    wc_signer = address, wc_address = me\<rparr>)))))"

section \<open>Waiting for a transaction\<close>

definition receipt_ok :: "Receipt option \<Rightarrow> bool" where
  "receipt_ok r = (case r of None \<Rightarrow> False | Some x \<Rightarrow> rc_status x = Some 1)"

text \<open>
  \<^verbatim>\<open>confirmed(tx, startBlock)\<close>: the receipt of the transaction, or of the transaction that replaced
  it without cancelling it; anything else is thrown.
\<close>

definition confirmed :: "string \<Rightarrow> int \<Rightarrow> ('s, Receipt) prog" where
  "confirmed tx startBlock =
     catch
       (bind (await as_receipt (WaitReplaceable tx startBlock)) (\<lambda>receipt.
          case receipt of
            None \<Rightarrow> Throw (new_Error ''Transaction reverted.'')
          | Some x \<Rightarrow>
              if rc_status x \<noteq> Some 1 then Throw (new_Error ''Transaction reverted.'') else Ret x))
       (\<lambda>e. case e_receipt e of
              Some x \<Rightarrow>
                if e_code e = StrCode ''TRANSACTION_REPLACED'' \<and> \<not> e_cancelled e \<and> rc_status x = Some 1
                then Ret x else Throw e
            | None \<Rightarrow> Throw e)"

definition message :: "jserr \<Rightarrow> string" where
  "message e =
     (if e_code e = StrCode ''ACTION_REJECTED'' \<or> e_code e = NumCode 4001
      then ''Request declined in your wallet. You can try again.''
      else if e_code e = StrCode ''TRANSACTION_REPLACED''
      then ''The transaction was cancelled or replaced in your wallet.''
      else or_opt (e_shortMessage e)
             (or_opt (e_message e) ''Something went wrong. Please try again.''))"

section \<open>Laws of the access layer\<close>

text \<open>Nothing in this file writes the application's state.\<close>

lemma silent_api [silent_intros]: "silent (api b path)"
  unfolding api_def by (auto intro!: silent_intros)

lemma silent_chain_text [silent_intros]: "silent (chain_text x)"
  by (simp add: chain_text_def split: option.split)

lemma silent_chain_hex [silent_intros]: "silent (chain_hex c)"
  by (simp add: chain_hex_def split: option.split)

lemma silent_ensure_chain [silent_intros]: "silent (ensure_chain c)"
  unfolding ensure_chain_def by (auto intro!: silent_intros)

lemma silent_chainDraw [silent_intros]: "silent (chainDraw c i)"
  unfolding chainDraw_def by (auto intro!: silent_intros split: option.split)

lemma silent_walletContracts [silent_intros]: "silent (walletContracts injected c a)"
  unfolding walletContracts_def by (auto intro!: silent_intros)

lemma silent_confirmed [silent_intros]: "silent (confirmed tx n)"
  unfolding confirmed_def by (auto intro!: silent_intros split: option.split)

text \<open>Numbers of awaits and of transactions.\<close>

lemma cost_chain_text [simp]: "cost w (chain_text x) n"
  by (simp add: chain_text_def split: option.split)

lemma cost_chain_hex [simp]: "cost w (chain_hex c) n"
  by (simp add: chain_hex_def split: option.split)

lemma awaits_api: "cost each_await (api b path) 2"
  unfolding api_def
  by (auto intro!: cost_bind_await cost_bindI [of _ _ 1] cost_0_catch)

lemma awaits_ensure_chain: "cost each_await (ensure_chain c) 3"
  unfolding ensure_chain_def
  by (auto intro!: cost_bind_await cost_bindI [of _ "chain_text _" 0] cost_bindI [of _ "chain_hex _" 0])

lemma awaits_walletContracts: "cost each_await (walletContracts injected c a) 6"
  unfolding walletContracts_def
  by (auto intro!: cost_bind_await cost_bindI [OF awaits_ensure_chain])

lemma awaits_chainDraw: "cost each_await (chainDraw c i) 4"
  unfolding chainDraw_def by (auto intro!: cost_bind_await split: option.split)

lemma awaits_confirmed: "cost each_await (confirmed tx n) 1"
  unfolding confirmed_def
  by (auto intro!: cost_0_catch cost_bind_await split: option.split)

lemma sends_api: "cost each_send (api b path) 0"
  unfolding api_def
  by (auto intro!: cost_bind_await cost_bindI [of _ _ 0] cost_0_catch)

lemma sends_ensure_chain: "cost each_send (ensure_chain c) 0"
  unfolding ensure_chain_def
  by (auto intro!: cost_bind_await cost_bindI [of _ "chain_text _" 0] cost_bindI [of _ "chain_hex _" 0])

lemma sends_walletContracts: "cost each_send (walletContracts injected c a) 0"
  unfolding walletContracts_def
  by (auto intro!: cost_bind_await cost_bindI [OF sends_ensure_chain])

lemma sends_chainDraw: "cost each_send (chainDraw c i) 0"
  unfolding chainDraw_def by (auto intro!: cost_bind_await split: option.split)

lemma sends_confirmed: "cost each_send (confirmed tx n) 0"
  unfolding confirmed_def
  by (auto intro!: cost_0_catch cost_bind_await split: option.split)

end
