(* ===== verification/AppState.thy ===== *)
theory AppState
  imports Chain
begin

text \<open>
  The state of the \<^verbatim>\<open>App\<close> component of \<^verbatim>\<open>frontend/src/main.tsx\<close>: every \<^verbatim>\<open>useState\<close> cell and every
  \<^verbatim>\<open>useRef\<close>, and the two pieces of the browser the handlers look at (whether a wallet is injected,
  and the wall clock in milliseconds). Handlers run against this state; what a handler has closed
  over is the snapshot of the state at the render that created it, passed as an argument \<open>cl\<close>.

  \<^verbatim>\<open>config\<close> is compared by reference in the dependency lists of \<^verbatim>\<open>useCallback\<close>, so the cell is kept
  with a reference number that changes whenever a new object is stored.
\<close>

record app =
  config :: "Config option"
  config_ref :: nat
  account :: string
  walletChain :: string
  walletAccounts :: "string list"
  walletOpen :: bool
  walletBusy :: bool
  walletError :: string
  draw :: "Draw option"
  currentID :: string
  selectedID :: "string option"
  balance :: string
  history :: "Draw list"
  cursor :: "string option"
  error :: string
  historyError :: string
  notice :: string
  busy :: string
  sync :: "APIResponse option"
  now :: int
  txHash :: string
  receiptBlock :: int
  loading :: bool
  historyBusy :: bool
  clock_time :: int
  clock_at :: int
  pending :: bool
  generation :: nat
  refreshBusy :: bool
  historyPages :: nat
  selectedAccount :: string
  active :: bool
  ethereum :: bool
  date_now :: int

text \<open>The state before the first render, with the given browser.\<close>

definition initial_app :: "bool \<Rightarrow> int \<Rightarrow> app" where
  "initial_app eth ms =
     \<lparr>config = None, config_ref = 0, account = [], walletChain = [], walletAccounts = [],
      walletOpen = False, walletBusy = False, walletError = [], draw = None, currentID = ''0'',
      selectedID = None, balance = ''0'', history = [], cursor = None, error = [],
      historyError = [], notice = [], busy = [], sync = None, now = 0, txHash = [],
      receiptBlock = 0, loading = True, historyBusy = False, clock_time = 0, clock_at = ms,
      pending = False, generation = 0, refreshBusy = False, historyPages = 1,
      selectedAccount = [], active = True, ethereum = eth, date_now = ms\<rparr>"

text \<open>The kinds of transaction a visitor can start.\<close>

datatype action_kind = Buy | DrawRound | Prize | Refund | Start | Finalize | Mint

section \<open>Selecting an account or a round\<close>

definition selectAccount :: "string \<Rightarrow> app \<Rightarrow> app" where
  "selectAccount address s =
     s\<lparr>generation := Suc (generation s), selectedAccount := address, account := address,
       balance := ''0'', notice := [], error := [], txHash := []\<rparr>"

definition selectDraw :: "string option \<Rightarrow> app \<Rightarrow> app" where
  "selectDraw i s = s\<lparr>selectedID := i, draw := None, loading := True\<rparr>"

section \<open>Loading the configuration\<close>

definition setConfig :: "Config \<Rightarrow> app \<Rightarrow> app" where
  "setConfig c s = s\<lparr>config := Some c, config_ref := Suc (config_ref s)\<rparr>"

fun as_config :: "body \<Rightarrow> Config option" where
  "as_config (ConfigBody c) = Some c"
| "as_config _ = None"

text \<open>A body of the wrong shape where the source casts.\<close>

definition cast_body :: "(body \<Rightarrow> 'a option) \<Rightarrow> body \<Rightarrow> ('s, 'a) prog" where
  "cast_body f b = (case f b of Some a \<Rightarrow> Ret a | None \<Rightarrow> Throw TypeError)"

definition load :: "build \<Rightarrow> (app, unit) prog" where
  "load b =
     catch
       (bind (bind (api b ''/api/v1/config'') (cast_body as_config)) (\<lambda>c.
          Get (\<lambda>s. if active s then update (\<lambda>s. (setConfig c s)\<lparr>error := []\<rparr>) else Ret ())))
       (\<lambda>e. Get (\<lambda>s. if active s
                     then update (\<lambda>s. s\<lparr>error := message e, loading := False\<rparr>) else Ret ()))"

text \<open>The retry timer of the same effect, and its clean-up.\<close>

definition config_tick :: "build \<Rightarrow> (app, unit) prog" where
  "config_tick b = Get (\<lambda>s. if active s then load b else Ret ())"

definition config_cleanup :: "app \<Rightarrow> app" where
  "config_cleanup s = s\<lparr>active := False\<rparr>"

section \<open>The clock\<close>

text \<open>The one-second timer: chain time at the last refresh plus the whole seconds elapsed since.\<close>

definition clock_tick :: "app \<Rightarrow> app" where
  "clock_tick s = s\<lparr>now := clock_time s + (date_now s - clock_at s) div 1000\<rparr>"

definition set_clock :: "int \<Rightarrow> app \<Rightarrow> app" where
  "set_clock t s = s\<lparr>clock_time := t, clock_at := date_now s, now := t\<rparr>"

section \<open>Amounts and the faucet\<close>

text \<open>\<open>formatUnits\<close> is the library's; the component drops a trailing \<^verbatim>\<open>.0\<close>.\<close>

definition drop_point_zero :: "string \<Rightarrow> string" where
  "drop_point_zero s =
     (if 2 \<le> length s \<and> drop (length s - 2) s = ''.0'' then take (length s - 2) s else s)"

definition amount :: "(string \<Rightarrow> nat \<Rightarrow> string) \<Rightarrow> app \<Rightarrow> string \<Rightarrow> string" where
  "amount formatUnits cl value =
     drop_point_zero
       (formatUnits (or_str value ''0'')
          (case config cl of None \<Rightarrow> 8 | Some c \<Rightarrow> tokenDecimals c))"

definition testTokenAvailable :: "build \<Rightarrow> app \<Rightarrow> bool" where
  "testTokenAvailable b cl =
     (case (config cl, VITE_TEST_TOKEN_ADDRESS b) of
        (Some c, Some t) \<Rightarrow>
          chainId c = ''11155111'' \<and> t \<noteq> [] \<and> toLowerCase (tokenAddress c) = toLowerCase t
      | _ \<Rightarrow> False)"

section \<open>A deployment for concrete runs\<close>

definition sample_config :: Config where
  "sample_config =
     \<lparr>chainId = ''31337'', lotteryAddress = ''0xL'', tokenAddress = ''0xT'', tokenDecimals = 8,
      daoAddress = ''0xD'', randomnessProvider = ''0xR'', deploymentBlock = 1, confirmations = 3\<rparr>"

definition sample_build :: build where
  "sample_build = \<lparr>VITE_RPC_URL = None, VITE_API_URL = None, VITE_TEST_TOKEN_ADDRESS = None\<rparr>"

text \<open>A page with the deployment loaded and the account \<^verbatim>\<open>0xA\<close> selected, idle.\<close>

definition sample_app :: app where
  "sample_app = selectAccount ''0xA'' (setConfig sample_config (initial_app True 0))"

end
