(* ===== verification/Wallet.thy ===== *)
theory Wallet
  imports AppState
begin

text \<open>
  The wallet handlers of \<^verbatim>\<open>frontend/src/main.tsx\<close>: the two event listeners of the injected provider and
  the requests made when the page opens, \<^verbatim>\<open>connect\<close>, \<^verbatim>\<open>openWallet\<close> and the choice of an account
  in the menu.
\<close>

section \<open>Events of the provider\<close>

text \<open>\<^verbatim>\<open>accountsChanged\<close>: an absent argument counts as no accounts.\<close>

definition accountsChanged :: "string list option \<Rightarrow> app \<Rightarrow> app" where
  "accountsChanged args s =
     (let accounts = (case args of None \<Rightarrow> [] | Some xs \<Rightarrow> xs)
      in selectAccount (first_or_empty accounts) (s\<lparr>walletAccounts := accounts\<rparr>))"

text \<open>\<^verbatim>\<open>chainChanged\<close>: the generation is bumped before the identifier is parsed, which may throw.\<close>

definition chainChanged :: "string \<Rightarrow> (app, unit) prog" where
  "chainChanged x =
     Upd (\<lambda>s. s\<lparr>generation := Suc (generation s)\<rparr>)
       (bind (chain_text x) (\<lambda>t. update (\<lambda>s. s\<lparr>walletChain := t\<rparr>)))"

text \<open>The two requests of the effect; a failure of either is ignored.\<close>

definition init_accounts :: "(app, unit) prog" where
  "init_accounts =
     Get (\<lambda>s. if \<not> ethereum s then Ret ()
       else catch
         (bind (await as_strs (Wallet eth_accounts)) (\<lambda>a. update (accountsChanged (Some a))))
         (\<lambda>_. Ret ()))"

definition init_chain :: "(app, unit) prog" where
  "init_chain =
     Get (\<lambda>s. if \<not> ethereum s then Ret ()
       else catch (bind (await as_str (Wallet eth_chainId)) chainChanged) (\<lambda>_. Ret ()))"

section \<open>\<^verbatim>\<open>connect\<close>\<close>

definition connect_failure :: "jserr \<Rightarrow> string" where
  "connect_failure e =
     (if e_code e = NumCode 4200 \<or> e_code e = NumCode (-32601)
      then ''Open your wallet's site permissions to connect another account, then reopen Switch wallet.''
      else message e)"

definition connect_body :: "bool \<Rightarrow> (app, unit) prog" where
  "connect_body requestMore =
     catch
       (seq (if requestMore
             then bind (await as_any (Wallet wallet_requestPermissions)) (\<lambda>_. Ret ()) else Ret ())
         (bind (await as_strs (Wallet eth_requestAccounts)) (\<lambda>accounts.
            update (\<lambda>s.
              (selectAccount (first_or_empty accounts) (s\<lparr>walletAccounts := accounts\<rparr>))
                \<lparr>walletOpen := (requestMore \<or> 1 < length accounts)\<rparr>))))
       (\<lambda>e. update (\<lambda>s. s\<lparr>walletError := connect_failure e, walletOpen := True\<rparr>))"

definition begin_connect :: "app \<Rightarrow> app" where
  "begin_connect s = s\<lparr>pending := True, walletBusy := True, walletError := []\<rparr>"

definition end_connect :: "app \<Rightarrow> app" where
  "end_connect s = s\<lparr>pending := False, walletBusy := False\<rparr>"

definition connect :: "bool \<Rightarrow> (app, unit) prog" where
  "connect requestMore =
     Get (\<lambda>s.
       if pending s then Ret ()
       else if \<not> ethereum s
       then update (\<lambda>s. s\<lparr>error := ''Install an EVM wallet such as MetaMask to participate.''\<rparr>)
       else Upd begin_connect (finally_do (connect_body requestMore) end_connect))"

section \<open>\<^verbatim>\<open>openWallet\<close> and the account menu\<close>

text \<open>
  \<^verbatim>\<open>account\<close> and \<^verbatim>\<open>walletOpen\<close> are the values of the render; the reconciliation with the wallet's
  accounts uses the current \<^verbatim>\<open>selectedAccount\<close> reference.
\<close>

definition reconcile_accounts :: "string list \<Rightarrow> app \<Rightarrow> app" where
  "reconcile_accounts accounts s =
     (let s' = s\<lparr>walletAccounts := accounts\<rparr>
      in if list_ex (\<lambda>a. same_address a (selectedAccount s)) accounts then s'
         else selectAccount (first_or_empty accounts) s')"

definition openWallet :: "app \<Rightarrow> (app, unit) prog" where
  "openWallet cl =
     Get (\<lambda>s.
       if pending s then Ret ()
       else if account cl = [] then connect False
       else Upd (\<lambda>s. s\<lparr>walletOpen := \<not> walletOpen cl, walletError := []\<rparr>)
         (if \<not> walletOpen cl \<and> ethereum s
          then catch
            (bind (await as_strs (Wallet eth_accounts)) (\<lambda>accounts.
               update (reconcile_accounts accounts)))
            (\<lambda>e. update (\<lambda>s. s\<lparr>walletError := message e\<rparr>))
          else Ret ()))"

text \<open>Picking an account in the menu selects it and closes the menu.\<close>

definition choose_account :: "string \<Rightarrow> app \<Rightarrow> app" where
  "choose_account address s = (selectAccount address s)\<lparr>walletOpen := False\<rparr>"

end
