(* ===== verification/Rounds.thy ===== *)
theory Rounds
  imports AppState
begin

text \<open>
  Loading rounds in \<^verbatim>\<open>frontend/src/main.tsx\<close>: \<^verbatim>\<open>loadHistory\<close> (pages of settled rounds from the
  history service), \<^verbatim>\<open>refresh\<close> (the selected round from the contract), their timers, and the
  effects React runs after a render whose dependencies changed.
\<close>

section \<open>\<^verbatim>\<open>loadHistory\<close>\<close>

fun as_history :: "body \<Rightarrow> HistoryResponse option" where
  "as_history (HistoryBody h) = Some h"
| "as_history _ = None"

text \<open>\<^verbatim>\<open>next ? a : b\<close> on an optional string: absent and empty are falsy.\<close>

definition truthy :: "string option \<Rightarrow> bool" where
  "truthy x = (case x of None \<Rightarrow> False | Some t \<Rightarrow> t \<noteq> [])"

definition history_path :: "string option \<Rightarrow> string" where
  "history_path nxt =
     ''/api/v1/draws/history?limit=10'' @ (if truthy nxt then ''&cursor='' @ the nxt else [])"

text \<open>The functional update of the \<^verbatim>\<open>history\<close> cell: a further page adds the rounds not yet listed.\<close>

definition merge_history :: "string option \<Rightarrow> Draw list \<Rightarrow> Draw list \<Rightarrow> Draw list" where
  "merge_history nxt old new =
     (if truthy nxt
      then old @ filter (\<lambda>d. \<not> list_ex (\<lambda>e. draw_id e = draw_id d) old) new
      else new)"

definition store_page :: "string option \<Rightarrow> HistoryResponse \<Rightarrow> app \<Rightarrow> app" where
  "store_page nxt data s =
     s\<lparr>history := merge_history nxt (history s) (hist_draws data),
       cursor := nextCursor data,
       historyPages := (if truthy nxt then Suc (historyPages s) else 1),
       historyError := []\<rparr>"

definition loadHistory :: "build \<Rightarrow> app \<Rightarrow> string option \<Rightarrow> (app, unit) prog" where
  "loadHistory b cl nxt =
     (if config cl = None then Ret ()
      else Upd (\<lambda>s. s\<lparr>historyBusy := True\<rparr>)
        (finally_do
          (catch
            (bind (bind (api b (history_path nxt)) (cast_body as_history)) (\<lambda>data.
               update (store_page nxt data)))
            (\<lambda>e. update (\<lambda>s. s\<lparr>historyError := message e\<rparr>)))
          (\<lambda>s. s\<lparr>historyBusy := False\<rparr>)))"

section \<open>\<^verbatim>\<open>refresh\<close>\<close>

fun as_current :: "body \<Rightarrow> APIResponse option" where
  "as_current (CurrentBody r) = Some r"
| "as_current _ = None"

text \<open>Reading the selected round and the balance, both optional.\<close>

definition read_selected :: "Config \<Rightarrow> string \<Rightarrow> (app, fresh_draw option) prog" where
  "read_selected c selected =
     (if selected \<noteq> ''0'' then bind (chainDraw c selected) (\<lambda>x. Ret (Some x)) else Ret None)"

definition read_balance :: "Config \<Rightarrow> string \<Rightarrow> (app, string) prog" where
  "read_balance c me =
     (if me \<noteq> []
      then bind (await as_nat (Read (tokenAddress c) (balanceOf me) None)) (\<lambda>n. Ret (show_nat 10 n))
      else Ret ''0'')"

definition store_round :: "string \<Rightarrow> fresh_draw option \<Rightarrow> string \<Rightarrow> app \<Rightarrow> app" where
  "store_round i result bal s =
     (let s' = s\<lparr>currentID := i, draw := map_option fd_draw result, balance := bal\<rparr>;
          s'' = (case result of None \<Rightarrow> s' | Some x \<Rightarrow> set_clock (fd_time x) s')
      in s''\<lparr>error := []\<rparr>)"

definition load_sync :: "build \<Rightarrow> (app, unit) prog" where
  "load_sync b =
     catch
       (bind (bind (api b ''/api/v1/draws/current'') (cast_body as_current)) (\<lambda>r.
          update (\<lambda>s. s\<lparr>sync := Some r\<rparr>)))
       (\<lambda>_. update (\<lambda>s. s\<lparr>sync := None\<rparr>))"

definition refresh_body :: "build \<Rightarrow> app \<Rightarrow> Config \<Rightarrow> nat \<Rightarrow> (app, unit) prog" where
  "refresh_body b cl c gen =
     catch
       (bind (await as_nat (Read (lotteryAddress c) currentDrawId None)) (\<lambda>n.
        bind (read_selected c (or_opt (selectedID cl) (show_nat 10 n))) (\<lambda>result.
        bind (read_balance c (account cl)) (\<lambda>bal.
          Get (\<lambda>s.
            if gen \<noteq> generation s then Ret ()
            else Upd (store_round (show_nat 10 n) result bal) (load_sync b))))))
       (\<lambda>e. Get (\<lambda>s. if gen = generation s
                     then update (\<lambda>s. s\<lparr>error := message e\<rparr>) else Ret ()))"

definition begin_refresh :: "app \<Rightarrow> app" where
  "begin_refresh s = s\<lparr>refreshBusy := True\<rparr>"

definition end_refresh :: "app \<Rightarrow> app" where
  "end_refresh s = s\<lparr>loading := False, refreshBusy := False\<rparr>"

definition refresh :: "build \<Rightarrow> app \<Rightarrow> (app, unit) prog" where
  "refresh b cl =
     Get (\<lambda>s. case config cl of
         None \<Rightarrow> Ret ()
       | Some c \<Rightarrow>
           if refreshBusy s then Ret ()
           else Upd begin_refresh
             (finally_do (refresh_body b cl c (generation s)) end_refresh))"

section \<open>Timers and effects\<close>

definition refresh_tick :: "build \<Rightarrow> app \<Rightarrow> (app, unit) prog" where
  "refresh_tick b cl = refresh b cl"

definition refresh_effect :: "build \<Rightarrow> app \<Rightarrow> (app, unit) prog" where
  "refresh_effect b cl = Upd (\<lambda>s. s\<lparr>generation := Suc (generation s)\<rparr>) (refresh b cl)"

definition history_tick :: "build \<Rightarrow> app \<Rightarrow> (app, unit) prog" where
  "history_tick b cl = Get (\<lambda>s. if historyPages s = 1 then loadHistory b cl None else Ret ())"

definition history_effect :: "build \<Rightarrow> app \<Rightarrow> (app, unit) prog" where
  "history_effect b cl = loadHistory b cl None"

text \<open>
  After a render, the effects whose callback was recreated: \<^verbatim>\<open>refresh\<close> depends on the configuration
  object, the account and the selection, \<^verbatim>\<open>loadHistory\<close> on the configuration object.
\<close>

definition effects_after :: "build \<Rightarrow> app \<Rightarrow> app \<Rightarrow> (app, unit) prog list" where
  "effects_after b old new =
     (if config_ref old \<noteq> config_ref new \<or> account old \<noteq> account new \<or> selectedID old \<noteq> selectedID new
      then [refresh_effect b new] else []) @
     (if config_ref old \<noteq> config_ref new then [history_effect b new] else [])"

end
