(* ===== verification/Action.thy ===== *)
theory Action
  imports Wallet Rounds
begin

text \<open>
  \<^verbatim>\<open>action\<close> of \<^verbatim>\<open>frontend/src/main.tsx\<close>: the seven transactions a visitor can start. One reference,
  \<^verbatim>\<open>pending\<close>, admits one wallet flow at a time; every flow checks the wallet, submits through
  \<open>send\<close>, waits for the confirmation, and reloads the round and the history.
\<close>

section \<open>Submitting a transaction\<close>

definition send :: "string \<Rightarrow> string \<Rightarrow> tx_call \<Rightarrow> string \<Rightarrow> (app, Receipt) prog" where
  "send signer contract call label =
     Upd (\<lambda>s. s\<lparr>busy := label\<rparr>)
       (bind (await as_int GetBlockNumber) (\<lambda>startBlock.
        bind (await as_str (Send signer contract call)) (\<lambda>tx.
          Upd (\<lambda>s. s\<lparr>txHash := tx, busy := ''Waiting for blockchain confirmation''\<rparr>)
            (bind (confirmed tx startBlock) (\<lambda>receipt.
              Upd (\<lambda>s. s\<lparr>txHash := rc_hash receipt, receiptBlock := rc_blockNumber receipt\<rparr>)
                (Ret receipt))))))"

definition set_notice :: "string \<Rightarrow> (app, unit) prog" where
  "set_notice t = update (\<lambda>s. s\<lparr>notice := t\<rparr>)"

section \<open>The seven kinds\<close>

definition act_mint :: "build \<Rightarrow> app \<Rightarrow> Config \<Rightarrow> wallet_contracts \<Rightarrow> (app, unit) prog" where
  "act_mint b cl c w =
     (if \<not> testTokenAvailable b cl then Throw (new_Error ''Test token faucet is unavailable.'')
      else seq (send (wc_signer w) (wc_token w) (mint (wc_address w) (1000 * 10 ^ tokenDecimals c))
                  ''Confirm your test USD8 request'')
             (set_notice ''1,000 test USD8 sent to your wallet.''))"

text \<open>The eligibility check on the freshly read round.\<close>

definition holds_ticket :: "Draw \<Rightarrow> string \<Rightarrow> bool" where
  "holds_ticket d address =
     list_ex (\<lambda>t. case wallet t of None \<Rightarrow> False | Some a \<Rightarrow> same_address a address) (tickets d)"

definition entry_closed :: "fresh_draw \<Rightarrow> string \<Rightarrow> bool" where
  "entry_closed fresh address =
     (let d = fd_draw fresh
      in status d \<noteq> ''ACTIVE'' \<or> 5 \<le> participantCount d \<or> deadline d \<le> fd_time fresh \<or>
         holds_ticket d address)"

text \<open>The last check before the purchase: account, wallet and network are still the ones reviewed.\<close>

definition wallet_changed_error :: jserr where
  "wallet_changed_error = new_Error ''Wallet changed. Please review and buy again.''"

definition recheck_wallet :: "Config \<Rightarrow> string \<Rightarrow> (app, unit) prog" where
  "recheck_wallet c address =
     bind (await as_strs (Wallet eth_accounts)) (\<lambda>accts.
     bind (await as_str (Wallet eth_chainId)) (\<lambda>chain.
       Get (\<lambda>s.
         if \<not> same_address (selectedAccount s) address \<or>
            \<not> list_ex (\<lambda>a. same_address a address) accts
         then Throw wallet_changed_error
         else bind (chain_text chain) (\<lambda>t.
           if t \<noteq> chainId c then Throw wallet_changed_error else Ret ()))))"

definition ensure_allowance :: "Config \<Rightarrow> wallet_contracts \<Rightarrow> int \<Rightarrow> (app, unit) prog" where
  "ensure_allowance c w price =
     bind (await as_nat
            (SignerRead (wc_signer w) (wc_token w) (allowance (wc_address w) (lotteryAddress c))))
       (\<lambda>al. if int al < price
             then seq (send (wc_signer w) (wc_token w) (approve (lotteryAddress c) price)
                         ''Approve 10 USD8 in your wallet'') (Ret ())
             else Ret ())"

text \<open>The purchase after the eligibility check, at the price read.\<close>

definition buy_rest :: "Config \<Rightarrow> wallet_contracts \<Rightarrow> string \<Rightarrow> int \<Rightarrow> (app, unit) prog" where
  "buy_rest c w i price =
     bind (await as_nat (SignerRead (wc_signer w) (wc_token w) (balanceOf (wc_address w)))) (\<lambda>bal.
       if int bal < price
       then Throw (new_Error ''You need at least 10 USD8 to buy a ticket.'')
       else seq (ensure_allowance c w price)
         (seq (recheck_wallet c (wc_address w))
         (seq (send (wc_signer w) (wc_lottery w) (buyTicket i) ''Confirm your ticket purchase'')
         (bind (await as_nat (SignerRead (wc_signer w) (wc_lottery w) (ticketOf i (wc_address w))))
           (\<lambda>assigned.
             set_notice (''Ticket '' @ show_nat 10 assigned @ '' is yours. Good luck!''))))))"

definition act_buy :: "Config \<Rightarrow> wallet_contracts \<Rightarrow> string \<Rightarrow> (app, unit) prog" where
  "act_buy c w i =
     bind (chainDraw c i) (\<lambda>fresh.
       if entry_closed fresh (wc_address w)
       then Throw (new_Error ''Tickets are closed or this wallet already has a ticket.'')
       else (case parse_bigint (ticketPrice (fd_draw fresh)) of
           None \<Rightarrow> Throw (SyntaxError (ticketPrice (fd_draw fresh)))
         | Some price \<Rightarrow> buy_rest c w i price))"

definition act_draw :: "wallet_contracts \<Rightarrow> string \<Rightarrow> (app, unit) prog" where
  "act_draw w i =
     bind (await as_bool (SignerRead (wc_signer w) (wc_lottery w) (call_canPerformDraw i))) (\<lambda>ok.
       if \<not> ok then Throw (new_Error ''This round is not eligible for settlement yet.'')
       else seq (send (wc_signer w) (wc_lottery w) (performDraw i) ''Confirm the lottery draw'')
              (set_notice
                ''Transaction confirmed. The round is cancelled or awaiting its random result.''))"

definition dispatch ::
  "build \<Rightarrow> app \<Rightarrow> Config \<Rightarrow> wallet_contracts \<Rightarrow> string \<Rightarrow> action_kind \<Rightarrow> (app, unit) prog" where
  "dispatch b cl c w i kind =
     (case kind of
        Mint \<Rightarrow> act_mint b cl c w
      | Buy \<Rightarrow> act_buy c w i
      | DrawRound \<Rightarrow> act_draw w i
      | Prize \<Rightarrow>
          seq (send (wc_signer w) (wc_lottery w) (claimPrize i) ''Confirm your prize claim'')
            (set_notice ''Prize sent to your wallet.'')
      | Refund \<Rightarrow>
          seq (send (wc_signer w) (wc_lottery w) (claimRefund i) ''Confirm your refund'')
            (set_notice ''Your 10 USD8 ticket payment has been returned.'')
      | Finalize \<Rightarrow>
          seq (send (wc_signer w) (wc_lottery w) (finalizeDraw i) ''Deliver the existing random result'')
            (set_notice ''Result delivered.'')
      | Start \<Rightarrow>
          seq (send (wc_signer w) (wc_lottery w) (startDraw (currentID cl)) ''Start the next round'')
            (Upd (selectDraw None) (set_notice ''A new round is open.'')))"

section \<open>\<^verbatim>\<open>action\<close>\<close>

definition shown_id :: "app \<Rightarrow> string" where
  "shown_id cl = (case draw cl of None \<Rightarrow> ''0'' | Some d \<Rightarrow> or_str (draw_id d) ''0'')"

definition action_body :: "build \<Rightarrow> app \<Rightarrow> Config \<Rightarrow> action_kind \<Rightarrow> (app, unit) prog" where
  "action_body b cl c kind =
     catch
       (bind (walletContracts ethereum c (account cl)) (\<lambda>w.
          seq (dispatch b cl c w (shown_id cl) kind)
            (seq (refresh b cl) (loadHistory b cl None))))
       (\<lambda>e. update (\<lambda>s. s\<lparr>error := message e\<rparr>))"

definition begin_action :: "app \<Rightarrow> app" where
  "begin_action s =
     s\<lparr>pending := True, error := [], notice := [], txHash := [], busy := ''Check your wallet''\<rparr>"

definition end_action :: "app \<Rightarrow> app" where
  "end_action s = s\<lparr>pending := False, busy := []\<rparr>"

definition action :: "build \<Rightarrow> app \<Rightarrow> action_kind \<Rightarrow> (app, unit) prog" where
  "action b cl kind =
     Get (\<lambda>s. case config cl of
         None \<Rightarrow> Ret ()
       | Some c \<Rightarrow>
           if pending s then Ret ()
           else Upd begin_action (finally_do (action_body b cl c kind) end_action))"

text \<open>The state updates of the handlers, as one bundle of equations.\<close>

lemmas state_defs =
  selectAccount_def selectDraw_def setConfig_def clock_tick_def set_clock_def accountsChanged_def
  reconcile_accounts_def choose_account_def store_page_def store_round_def begin_connect_def
  end_connect_def begin_refresh_def end_refresh_def begin_action_def end_action_def
  config_cleanup_def Let_def

end
