(* ===== verification/Guards.thy ===== *)
theory Guards
  imports Action
begin

text \<open>
  The busy-flag discipline. \<^verbatim>\<open>action\<close>, \<^verbatim>\<open>connect\<close> and \<^verbatim>\<open>refresh\<close> follow one pattern: return if a
  reference is set, set it, work, and clear it in a \<^verbatim>\<open>finally\<close> block. The locale \<open>busy_flag\<close> states
  what the pattern promises for any such reference; it is interpreted on the three handlers' own
  set and clear steps, and the properties below are its facts about them.
\<close>

definition guarded ::
  "('s \<Rightarrow> bool) \<Rightarrow> ('s \<Rightarrow> 's) \<Rightarrow> ('s \<Rightarrow> ('s, unit) prog) \<Rightarrow> ('s \<Rightarrow> 's) \<Rightarrow> ('s, unit) prog" where
  "guarded flag acquire body release =
     Get (\<lambda>s. if flag s then Ret () else Upd acquire (finally_do (body s) release))"

locale busy_flag =
  fixes flag :: "'s \<Rightarrow> bool"
    and acquire :: "'s \<Rightarrow> 's"
    and release :: "'s \<Rightarrow> 's"
  assumes acquire_sets: "flag (acquire s)"
    and release_clears: "\<not> flag (release s)"
begin

lemma reentrant:
  assumes "flag s"
  shows "trace (guarded flag acquire body release) env s = []"
    and "final (guarded flag acquire body release) env s = s"
  using assms by (simp_all add: guarded_def)

lemma settled:
  assumes "\<not> flag s" and "cost each_await (body s) n" and "n \<le> length env"
  shows "finished (outcome (guarded flag acquire body release) env s)"
    and "\<exists>t. final (guarded flag acquire body release) env s = release t"
proof -
  have f: "finished (outcome (body s) env (acquire s))"
    using assms(2,3) by (rule cost_finished)
  then show "finished (outcome (guarded flag acquire body release) env s)"
    using assms(1) by (simp add: guarded_def)
  show "\<exists>t. final (guarded flag acquire body release) env s = release t"
    using assms(1) f by (auto simp: guarded_def final_finally)
qed

lemma cleared:
  assumes "\<not> flag s" and "cost each_await (body s) n" and "n \<le> length env"
  shows "\<not> flag (final (guarded flag acquire body release) env s)"
proof -
  obtain t where "final (guarded flag acquire body release) env s = release t"
    using settled(2) [where body = body and s = s] assms by blast
  then show ?thesis by (simp add: release_clears)
qed

lemma holds:
  assumes "keeps flag (body s)"
  shows "holds_flag flag (finally_do (body s) release)"
  using assms release_clears by (rule holds_finally)

end

section \<open>Interpretations\<close>

interpretation action_flow: busy_flag pending begin_action end_action
  by unfold_locales (simp_all add: begin_action_def end_action_def)

interpretation connect_flow: busy_flag pending begin_connect end_connect
  by unfold_locales (simp_all add: begin_connect_def end_connect_def)

interpretation refresh_flow: busy_flag refreshBusy begin_refresh end_refresh
  by unfold_locales (simp_all add: begin_refresh_def end_refresh_def)

text \<open>The handlers are instances of the pattern.\<close>

lemma action_guarded:
  "config cl = Some c \<Longrightarrow>
   action b cl kind = guarded pending begin_action (\<lambda>_. action_body b cl c kind) end_action"
  by (simp add: action_def guarded_def)

lemma refresh_guarded:
  "config cl = Some c \<Longrightarrow>
   refresh b cl = guarded refreshBusy begin_refresh (\<lambda>s. refresh_body b cl c (generation s)) end_refresh"
  by (simp add: refresh_def guarded_def)

lemma connect_cases:
  "ethereum s \<Longrightarrow>
   run (connect m) env s =
   run (guarded pending begin_connect (\<lambda>_. connect_body m) end_connect) env s"
  by (simp add: connect_def guarded_def)

section \<open>Frames\<close>

lemma cast_body_silent [silent_intros]: "silent (cast_body f b)"
  by (simp add: cast_body_def split: option.split)

lemma read_selected_silent [silent_intros]: "silent (read_selected c i)"
  unfolding read_selected_def by (auto intro!: silent_intros)

lemma read_balance_silent [silent_intros]: "silent (read_balance c i)"
  unfolding read_balance_def by (auto intro!: silent_intros)

lemma recheck_wallet_silent [silent_intros]: "silent (recheck_wallet c a)"
  unfolding recheck_wallet_def by (auto intro!: silent_intros)

lemmas reading_programs =
  silent_api silent_chain_text silent_chain_hex silent_ensure_chain silent_chainDraw
  silent_walletContracts silent_confirmed cast_body_silent read_selected_silent
  read_balance_silent recheck_wallet_silent silent_await

lemmas reading_keeps [keeps_intros] = reading_programs [THEN silent_keeps]

lemmas reading_maintains [maintains_intros] = reading_programs [THEN silent_maintains]

lemma pending_load: "keeps pending (load b)"
  unfolding load_def
  by (auto intro!: keeps_intros simp: state_defs)

lemma pending_loadHistory [keeps_intros]: "keeps pending (loadHistory b cl nxt)"
  unfolding loadHistory_def
  by (auto intro!: keeps_intros simp: state_defs)

lemma pending_load_sync [keeps_intros]: "keeps pending (load_sync b)"
  unfolding load_sync_def
  by (auto intro!: keeps_intros simp: state_defs)

lemma pending_refresh [keeps_intros]: "keeps pending (refresh b cl)"
  unfolding refresh_def refresh_body_def
  by (auto intro!: keeps_intros simp: state_defs split: option.split)

lemma pending_send [keeps_intros]: "keeps pending (send sg ct call l)"
  unfolding send_def by (auto intro!: keeps_intros)

lemma pending_set_notice [keeps_intros]: "keeps pending (set_notice t)"
  unfolding set_notice_def by (auto intro!: keeps_intros)

lemma pending_ensure_allowance [keeps_intros]: "keeps pending (ensure_allowance c w p)"
  unfolding ensure_allowance_def by (auto intro!: keeps_intros)

lemma pending_act_buy [keeps_intros]: "keeps pending (act_buy c w i)"
  unfolding act_buy_def buy_rest_def
  by (auto intro!: keeps_intros split: option.split)

lemma pending_dispatch [keeps_intros]: "keeps pending (dispatch b cl c w i kind)"
  by (cases kind)
     (auto simp: dispatch_def act_mint_def act_draw_def state_defs intro!: keeps_intros)

lemma pending_action_body: "keeps pending (action_body b cl c kind)"
  unfolding action_body_def
  by (auto intro!: keeps_intros)

lemma pending_connect_body: "keeps pending (connect_body m)"
  unfolding connect_body_def by (auto intro!: keeps_intros simp: state_defs)

section \<open>Counting\<close>

lemma awaits_cast_body [simp]: "cost w (cast_body f x) n"
  by (simp add: cast_body_def split: option.split)

lemma awaits_read_selected: "cost each_await (read_selected c i) 4"
  unfolding read_selected_def by (auto intro!: cost_bindI [OF awaits_chainDraw])

lemma sends_read_selected: "cost each_send (read_selected c i) 0"
  unfolding read_selected_def by (auto intro!: cost_bindI [OF sends_chainDraw])

lemma awaits_read_balance: "cost each_await (read_balance c i) 1"
  unfolding read_balance_def by (auto intro!: cost_bind_await)

lemma sends_read_balance: "cost each_send (read_balance c i) 0"
  unfolding read_balance_def by (auto intro!: cost_bind_await)

lemma awaits_load_sync: "cost each_await (load_sync b) 2"
  unfolding load_sync_def
  by (auto intro!: cost_0_catch cost_bindI [OF cost_bindI [OF awaits_api]])

lemma sends_load_sync: "cost each_send (load_sync b) 0"
  unfolding load_sync_def
  by (auto intro!: cost_0_catch cost_bindI [OF cost_bindI [OF sends_api]])

lemma awaits_refresh_body: "cost each_await (refresh_body b cl c g) 8"
  unfolding refresh_body_def
  by (auto intro!: cost_0_catch cost_bind_await cost_bindI [OF awaits_read_selected]
      cost_bindI [OF awaits_read_balance] awaits_load_sync)

lemma sends_refresh_body: "cost each_send (refresh_body b cl c g) 0"
  unfolding refresh_body_def
  by (auto intro!: cost_0_catch cost_bind_await cost_bindI [OF sends_read_selected]
      cost_bindI [OF sends_read_balance] sends_load_sync)

lemma awaits_refresh: "cost each_await (refresh b cl) 8"
  unfolding refresh_def by (auto intro!: cost_finally awaits_refresh_body split: option.split)

lemma sends_refresh: "cost each_send (refresh b cl) 0"
  unfolding refresh_def by (auto intro!: cost_finally sends_refresh_body split: option.split)

lemma awaits_loadHistory: "cost each_await (loadHistory b cl nxt) 2"
  unfolding loadHistory_def
  by (auto intro!: cost_finally cost_0_catch cost_bindI [OF cost_bindI [OF awaits_api]])

lemma sends_loadHistory: "cost each_send (loadHistory b cl nxt) 0"
  unfolding loadHistory_def
  by (auto intro!: cost_finally cost_0_catch cost_bindI [OF cost_bindI [OF sends_api]])

end
