(* ===== verification/Samples.thy ===== *)
theory Samples
  imports Action
begin

text \<open>
  Concrete data for the witnesses: a round as the chain reports it, a page showing it, and scripts of
  answers in which nothing else happens. \<open>run_simps\<close> evaluates a handler on such a script.
\<close>

section \<open>Evaluated texts\<close>

lemma sample_digits:
  "digit_char 0 = CHR ''0''" "digit_char 1 = CHR ''1''" "digit_char (Suc 0) = CHR ''1''"
  "digit_char 2 = CHR ''2''" "digit_char 3 = CHR ''3''" "digit_char 7 = CHR ''7''"
  by (simp_all add: digit_char_def) code_simp+

lemma sample_numbers:
  "show_nat 10 31337 = ''31337''" "show_nat 10 0 = ''0''" "show_nat 10 1 = ''1''"
  "show_nat 10 (Suc 0) = ''1''" "show_nat 10 2 = ''2''"
  by (simp_all add: show_nat_def sample_digits digits.simps [of 10 31337] digits.simps [of 10 3133]
      digits.simps [of 10 313] digits.simps [of 10 31] digits.simps [of 10 3]
      digits.simps [of 10 0] digits.simps [of 10 1] digits.simps [of 10 "Suc 0"]
      digits.simps [of 10 2])

lemma sample_chain:
  "show_int 10 31337 = ''31337''"
  "parse_bigint ''0x7a69'' = Some 31337"
  "parse_bigint ''31337'' = Some 31337"
  "parse_bigint ''0x1'' = Some 1"
  using show_int_of_nat [of 10 31337] sample_numbers
  by (simp_all add: parse_bigint_def trim_def is_space_def read_nat_def digit_val_def)

lemma sample_lower:
  "toLowerCase ''0xA'' = ''0xa''" "toLowerCase ''0xa'' = ''0xa''" "toLowerCase ''0xB'' = ''0xb''"
  "toLowerCase ''0xC'' = ''0xc''"
  by (simp_all add: toLowerCase_def lower_char_def) code_simp+

section \<open>A purchase\<close>

text \<open>The answers to a complete purchase at the price of 10 tokens with 8 decimals, the third ticket of round 1.\<close>

definition sample_draw :: "string SolDraw" where
  "sample_draw =
     \<lparr>s_id = 1, s_status = ACTIVE, s_startTime = 1000, s_deadline = 87400, s_finalizedAt = 0,
      s_participantCount = 2, s_luckyNumber = 0, s_winner = ZeroAddress, s_inheritedRollover = 0,
      s_pool = 2000000000, s_daoFee = 0, s_winnerPrize = 0, s_requestId = 0\<rparr>"

definition sample_owners :: "string list" where
  "sample_owners = [''0xB'', ''0xC''] @ replicate 8 ZeroAddress"

definition sample_round :: resp where
  "sample_round = RAll [RDraw sample_draw, RStrs sample_owners, RNat 1000000000, RNat 2]"

definition sample_receipt :: resp where
  "sample_receipt = RReceipt (Some \<lparr>rc_hash = ''0x1'', rc_blockNumber = 7, rc_status = Some 1\<rparr>)"

definition sample_page :: app where
  "sample_page = sample_app\<lparr>draw := Some (draw_view 2000 sample_draw sample_owners 1000000000 2
     (replicate 10 False)), currentID := ''1''\<rparr>"

definition calm :: "resp list \<Rightarrow> (resp \<times> (app \<Rightarrow> app)) list" where
  "calm rs = map (\<lambda>r. (r, \<lambda>s. s)) rs"

definition sample_purchase :: "resp list" where
  "sample_purchase =
     [RStr ''0x7a69'', RStrs [''0xa''], RUnit, RStr ''0xA'',
      RNat 31337, RBlock (Some (6, 2000)), sample_round, RAll (replicate 10 (RBool False)),
      RNat 5000000000, RNat 0, RInt 6, RStr ''0x1'', sample_receipt,
      RStrs [''0xA''], RStr ''31337'', RInt 7, RStr ''0x2'', sample_receipt, RNat 3]"

lemmas sample_defs =
  sample_draw_def sample_owners_def sample_round_def sample_receipt_def sample_page_def calm_def
  sample_purchase_def sample_app_def sample_config_def sample_build_def initial_app_def


lemma sample_replicate:
  "replicate 8 x = [x, x, x, x, x, x, x, x]"
  "replicate 10 x = [x, x, x, x, x, x, x, x, x, x]"
  by (simp_all add: numeral_eq_Suc)

lemmas run_simps =
  sample_defs sample_replicate sample_numbers sample_chain sample_lower state_defs await_def reply_def seq_def update_def
  action_def action_body_def dispatch_def shown_id_def send_def set_notice_def confirmed_def
  act_buy_def buy_rest_def ensure_allowance_def recheck_wallet_def entry_closed_def
  holds_ticket_def act_draw_def act_mint_def
  walletContracts_def ensure_chain_def chain_text_def chain_hex_def
  chainDraw_def as_round_def refund_queries_def round_queries_def draw_view_def ticket_rows_def
  statusName_def statusNames_def ZeroAddress_def
  refresh_def refresh_body_def read_selected_def read_balance_def load_sync_def loadHistory_def
  api_def cast_body_def upt_rec

end
