(* ===== verification/Purchase.thy ===== *)
theory Purchase
  imports Guards Samples
begin

text \<open>
  What the transaction flows of \<^verbatim>\<open>action\<close> guarantee: they always finish and release the wallet, they
  submit a bounded number of transactions, and the purchase approves exactly the ticket price for
  the lottery, refuses closed rounds, and submits for the reviewed account.
\<close>

section \<open>Counting the flows\<close>

lemma awaits_send: "cost each_await (send sg ct call l) 3"
  unfolding send_def by (auto intro!: cost_bind_await cost_bindI [OF awaits_confirmed])

lemma sends_send: "cost each_send (send sg ct call l) 1"
  unfolding send_def
  by (auto intro!: cost_bind_await cost_bindI [OF sends_confirmed])

lemma awaits_set_notice [simp]: "cost w (set_notice t) n"
  by (simp add: set_notice_def)

lemma awaits_ensure_allowance: "cost each_await (ensure_allowance c w p) 4"
  unfolding ensure_allowance_def
  by (auto intro!: cost_bind_await cost_seqI [OF awaits_send])

lemma sends_ensure_allowance: "cost each_send (ensure_allowance c w p) 1"
  unfolding ensure_allowance_def
  by (auto intro!: cost_bind_await cost_seqI [OF sends_send])

lemma awaits_recheck: "cost each_await (recheck_wallet c a) 2"
  unfolding recheck_wallet_def
  by (auto intro!: cost_bind_await cost_bindI [of _ "chain_text _" 0])

lemma sends_recheck: "cost each_send (recheck_wallet c a) 0"
  unfolding recheck_wallet_def
  by (auto intro!: cost_bind_await cost_bindI [of _ "chain_text _" 0])

lemma awaits_buy_rest: "cost each_await (buy_rest c w i p) 11"
  unfolding buy_rest_def
  by (auto intro!: cost_bind_await cost_seqI [OF awaits_ensure_allowance] cost_seqI [OF awaits_recheck]
      cost_seqI [OF awaits_send])

lemma sends_buy_rest: "cost each_send (buy_rest c w i p) 2"
  unfolding buy_rest_def
  by (auto intro!: cost_bind_await cost_seqI [OF sends_ensure_allowance] cost_seqI [OF sends_recheck]
      cost_seqI [OF sends_send])

lemma awaits_act_buy: "cost each_await (act_buy c w i) 15"
  unfolding act_buy_def
  by (auto intro!: cost_bindI [OF awaits_chainDraw] awaits_buy_rest split: option.split)

lemma sends_act_buy: "cost each_send (act_buy c w i) 2"
  unfolding act_buy_def
  by (auto intro!: cost_bindI [OF sends_chainDraw] sends_buy_rest [simplified] split: option.split)

lemma awaits_dispatch: "cost each_await (dispatch b cl c w i kind) 15"
  by (cases kind)
     (auto simp: dispatch_def act_mint_def act_draw_def
      intro!: awaits_act_buy cost_seqI [OF awaits_send] cost_bind_await)

lemma sends_dispatch: "cost each_send (dispatch b cl c w i kind) (if kind = Buy then 2 else 1)"
  by (cases kind)
     (auto simp: dispatch_def act_mint_def act_draw_def
      intro!: sends_act_buy [simplified] cost_seqI [OF sends_send] cost_bind_await)

lemma awaits_action_body: "cost each_await (action_body b cl c kind) 31"
  unfolding action_body_def
  by (auto intro!: cost_0_catch cost_bindI [OF awaits_walletContracts] cost_seqI [OF awaits_dispatch]
      cost_seqI [OF awaits_refresh] cost_mono [OF awaits_loadHistory])

lemma sends_action_body:
  "cost each_send (action_body b cl c kind) (if kind = Buy then 2 else 1)"
  unfolding action_body_def
  by (rule cost_0_catch)
     (auto intro!: cost_bindI [OF sends_walletContracts] cost_seqI [OF sends_dispatch]
      cost_seqI [OF sends_refresh] cost_mono [OF sends_loadHistory])

text \<open>The requests that are transactions.\<close>

definition sent :: "(req \<times> 's) list \<Rightarrow> req list" where
  "sent tr = filter (\<lambda>q. each_send q = 1) (map fst tr)"

lemma length_sent: "length (sent tr) = sum_list (map (\<lambda>(q, s). each_send q) tr)"
proof (induction tr)
  case (Cons x tr)
  have "each_send (fst x) \<le> 1" by (cases "fst x") simp_all
  then show ?case using Cons by (auto simp: sent_def split: prod.splits)
qed (simp add: sent_def)

section \<open>What the chain answers\<close>

definition round_answer :: "req \<Rightarrow> resp \<Rightarrow> (string SolDraw \<times> string list \<times> nat \<times> nat) option" where
  "round_answer q r =
     (case q of
        Batch (Some (Read a (getDraw i) blk) # qs) \<Rightarrow> as_round r
      | _ \<Rightarrow> None)"

lemma round_answer_queries [simp]: "round_answer (Batch (round_queries c i n)) r = as_round r"
  by (simp add: round_answer_def round_queries_def)

lemma as_refunds_length: "as_refunds qs r = Some fs \<Longrightarrow> length fs = length qs"
  by (cases r) (auto split: if_splits)

lemma wp_chainDraw:
  assumes G: "\<And>q s. each_send q = 0 \<Longrightarrow> G q s" and E: "\<And>e s. E e s"
    and Q: "\<And>x y z u v r d owners price mn refunds ts n t.
      \<lbrakk>R GetBlockLatest x y z; as_block y = Some (Some (n, ts)); R (Batch (round_queries c i n)) u r v; as_round r = Some (d, owners, price, mn);
       length refunds = length owners\<rbrakk> \<Longrightarrow>
      Q \<lparr>fd_draw = draw_view ts d owners price mn refunds, fd_time = ts, fd_block = n\<rparr> t"
  shows "wp R G (chainDraw c i) Q E s"
  unfolding chainDraw_def
  by (auto simp: wp_bind E G refund_queries_def dest!: as_refunds_length
      intro!: wp_awaitI Q split: option.split)

section \<open>Every flow finishes, exclusively, with few transactions\<close>

text \<open>Whatever the wallet, the chain and the history service answer, and whatever other handlers do
  meanwhile, a started action is finished after at most 31 answers, and then it has released the
  wallet reference and cleared the busy text.\<close>

theorem action_settles:
  assumes "config cl = Some c" and "\<not> pending s" and "31 \<le> length env"
  shows "finished (outcome (action b cl kind) env s) \<and>
    \<not> pending (final (action b cl kind) env s) \<and> busy (final (action b cl kind) env s) = []"
proof -
  note settled = action_flow.settled [where body = "\<lambda>_. action_body b cl c kind" and s = s,
      OF assms(2) awaits_action_body assms(3), folded action_guarded [OF assms(1)]]
  obtain t where "final (action b cl kind) env s = end_action t" using settled(2) by blast
  then show ?thesis using settled(1) by (simp add: end_action_def)
qed

theorem action_settles_witness:
  "busy (final (action sample_build sample_app Buy)
     (replicate 31 (Rej (new_Error ''offline''), \<lambda>s. s\<lparr>pending := True\<rparr>)) sample_app) = []"
  using action_settles [of sample_app sample_config sample_app
      "replicate 31 (Rej (new_Error ''offline''), \<lambda>s. s\<lparr>pending := True\<rparr>)" sample_build Buy]
  by (simp add: sample_app_def state_defs initial_app_def)

text \<open>While one wallet flow is in progress, starting another action, another connection or opening
  the wallet menu issues no request and changes nothing.\<close>

theorem wallet_flows_exclusive:
  assumes "pending s"
  shows "trace (action b cl kind) env s = [] \<and> final (action b cl kind) env s = s \<and>
    trace (connect m) env s = [] \<and> final (connect m) env s = s \<and>
    trace (openWallet cl) env s = [] \<and> final (openWallet cl) env s = s"
proof (cases "config cl")
  case None
  then show ?thesis using assms by (simp add: action_def connect_def openWallet_def)
next
  case (Some c)
  then show ?thesis
    using action_flow.reentrant [OF assms] assms
    by (simp add: action_guarded [OF Some] connect_def openWallet_def)
qed

theorem wallet_flows_exclusive_witness:
  "final (action sample_build sample_app Prize) [] (sample_app\<lparr>pending := True\<rparr>) =
     sample_app\<lparr>pending := True\<rparr>"
  using wallet_flows_exclusive [of "sample_app\<lparr>pending := True\<rparr>" sample_build sample_app Prize "[]"]
  by simp

text \<open>Whatever happens, a purchase asks the wallet for at most two transactions (an approval and the
  ticket) and every other action for at most one.\<close>

theorem action_transactions:
  "length (sent (trace (action b cl kind) env s)) \<le> (if kind = Buy then 2 else 1)"
proof -
  have "cost each_send (action b cl kind) (if kind = Buy then 2 else 1)"
    unfolding action_def by (auto intro!: cost_finally sends_action_body [THEN cost_mono] split: option.split)
  then show ?thesis unfolding length_sent by (rule cost_trace)
qed

section \<open>The purchase\<close>

lemma holds_ticket_view:
  assumes "length refunds = length owners"
  shows "holds_ticket (draw_view ts d owners price mn refunds) me \<longleftrightarrow>
    list_ex (\<lambda>a. a \<noteq> ZeroAddress \<and> same_address a me) owners"
proof -
  have absent: "(case if a = ZeroAddress then None else Some a of
      None \<Rightarrow> False | Some x \<Rightarrow> same_address x me) \<longleftrightarrow> a \<noteq> ZeroAddress \<and> same_address a me" for a
    by simp
  let ?Z = "zip [0..<length owners] (zip owners refunds)"
  have "holds_ticket (draw_view ts d owners price mn refunds) me \<longleftrightarrow>
      list_ex (\<lambda>x. fst (snd x) \<noteq> ZeroAddress \<and> same_address (fst (snd x)) me) ?Z"
    by (simp add: holds_ticket_def draw_view_def ticket_rows_def Let_def list_ex_iff case_prod_beta
        absent)
  also have "\<dots> \<longleftrightarrow> (\<exists>i < length owners. owners ! i \<noteq> ZeroAddress \<and> same_address (owners ! i) me)"
    using assms by (auto simp: list_ex_length)
  also have "\<dots> \<longleftrightarrow> list_ex (\<lambda>a. a \<noteq> ZeroAddress \<and> same_address a me) owners"
    by (simp add: list_ex_length)
  finally show ?thesis .
qed

lemma wp_send:
  assumes "\<And>q s. each_send q = 0 \<Longrightarrow> G q s" and "\<And>u r v. R GetBlockNumber u r v \<Longrightarrow> G (Send sg ct call) v"
    and "\<And>a s. Q a s" and "\<And>e s. E e s"
  shows "wp R G (send sg ct call l) Q E s"
  unfolding send_def
  by (auto simp: wp_bind assms intro!: wp_awaitI wp_no_send [OF sends_confirmed])

text \<open>The environment answers round queries with the ticket price \<open>p\<close>; nothing else is assumed.\<close>

definition price_is :: "nat \<Rightarrow> req \<Rightarrow> app \<Rightarrow> resp \<Rightarrow> app \<Rightarrow> bool" where
  "price_is p q s r t \<longleftrightarrow>
     (case round_answer q r of Some (d, owners, price, mn) \<Rightarrow> price = p | None \<Rightarrow> True)"

definition purchase_only :: "Config \<Rightarrow> app \<Rightarrow> nat \<Rightarrow> req \<Rightarrow> bool" where
  "purchase_only c cl p q =
     (case q of
        Send sg ct call \<Rightarrow>
          sg = account cl \<and>
          ((ct = tokenAddress c \<and> call = approve (lotteryAddress c) (int p)) \<or>
           (ct = lotteryAddress c \<and> call = buyTicket (shown_id cl)))
      | _ \<Rightarrow> True)"

lemma purchase_only_reads: "each_send q = 0 \<Longrightarrow> purchase_only c cl p q"
  by (cases q) (simp_all add: purchase_only_def)

text \<open>\<open>walletContracts\<close> hands out the configured contracts and the signer of the given account.\<close>

lemma wp_walletContracts:
  assumes G: "\<And>q s. each_send q = 0 \<Longrightarrow> G q s" and E: "\<And>e s. E e s"
    and Q: "\<And>me u r v t. \<lbrakk>R (SignerAddress a) u r v; as_str r = Some me\<rbrakk> \<Longrightarrow>
      Q \<lparr>wc_lottery = lotteryAddress c, wc_token = tokenAddress c, wc_signer = a, wc_address = me\<rparr> t"
  shows "wp R G (walletContracts ij c a) Q E s"
  unfolding walletContracts_def
  by (auto simp: wp_bind E G intro!: wp_awaitI Q wp_no_send [OF sends_ensure_chain])

lemma wp_act_buy_price:
  assumes w: "wc_lottery w = lotteryAddress c" "wc_token w = tokenAddress c" "wc_signer w = account cl"
    and Q: "\<And>a s. Q a s" and E: "\<And>e s. E e s"
  shows "wp (price_is p) (\<lambda>q _. purchase_only c cl p q) (act_buy c w (shown_id cl)) Q E s"
proof -
  let ?G = "\<lambda>q (_::app). purchase_only c cl p q"
  have buy: "wp (price_is p) ?G
      (send (wc_signer w) (wc_lottery w) (buyTicket (shown_id cl)) l) Q' E s"
    if "\<And>a s. Q' a s" for Q' l s
    by (rule wp_send) (auto simp: that E w purchase_only_def split: req.split)
  have allow: "wp (price_is p) ?G (ensure_allowance c w (int p)) Q' E s" if "\<And>a s. Q' a s" for Q' s
    unfolding ensure_allowance_def
    by (auto simp: wp_bind wp_seq that E w purchase_only_reads purchase_only_def
        intro!: wp_awaitI wp_send split: req.split)
  have rest: "wp (price_is p) ?G (recheck_wallet c (wc_address w)) Q' E s" if "\<And>a s. Q' a s" for Q' s
    by (rule wp_no_send [OF sends_recheck]) (simp_all add: that E purchase_only_reads)
  have after: "wp (price_is p) ?G
      (if entry_closed fresh (wc_address w)
       then Throw (new_Error ''Tickets are closed or this wallet already has a ticket.'')
       else (case parse_bigint (ticketPrice (fd_draw fresh)) of
           None \<Rightarrow> Throw (SyntaxError (ticketPrice (fd_draw fresh)))
         | Some price \<Rightarrow> buy_rest c w (shown_id cl) price)) Q E s"
    if "ticketPrice (fd_draw fresh) = show_nat 10 p" for fresh s
    unfolding buy_rest_def wp_bind wp_seq using that
    by (auto simp: E wp_bind wp_seq intro!: wp_awaitI allow rest buy wp_no_send [OF awaits_set_notice]
        simp: Q purchase_only_reads)
  show ?thesis
    unfolding act_buy_def wp_bind
  proof (rule wp_chainDraw, goal_cases)
    case (3 x y z u v r d owners price mn refunds ts n t)
    then show ?case
      by (intro after) (simp add: price_is_def draw_view_def Let_def)
  qed (simp_all add: E purchase_only_reads)
qed

text \<open>C4: The only transactions a purchase can request are signed by the account shown on the page, and are
  either an approval on the configured token, for the configured lottery, of exactly the price the
  contract reported, or the purchase of a ticket of the round shown.\<close>

theorem purchase_requests:
  assumes "conforms (price_is p) (action b cl Buy) env s" and "config cl = Some c"
  shows "list_all (purchase_only c cl p) (map fst (trace (action b cl Buy) env s))"
proof -
  let ?G = "\<lambda>q (_::app). purchase_only c cl p q"
  have reload: "wp (price_is p) ?G (seq (refresh b cl) (loadHistory b cl None)) Q E s"
    if "\<And>a s. Q a s" "\<And>e s. E e s" for Q E s
    unfolding wp_seq
    by (intro wp_no_send [OF sends_refresh] wp_no_send [OF sends_loadHistory])
       (simp_all add: that purchase_only_reads)
  have "wp (price_is p) ?G (action b cl Buy) (\<lambda>_ _. True) (\<lambda>_ _. True) s"
    unfolding action_def action_body_def
    by (auto simp: assms(2) wp_finally wp_catch wp_bind wp_update dispatch_def purchase_only_reads
        wp_seq [of _ _ "act_buy c w i" for c w i]
        intro!: wp_walletContracts wp_act_buy_price reload)
  from wp_trace [OF this assms(1)] show ?thesis by (fastforce simp: list_all_iff)
qed

theorem purchase_requests_witness:
  "list_all (purchase_only sample_config sample_page 1000000000)
     (map fst (trace (action sample_build sample_page Buy) (calm sample_purchase) sample_page)) \<and>
   sent (trace (action sample_build sample_page Buy) (calm sample_purchase) sample_page) =
     [Send ''0xA'' ''0xT'' (approve ''0xL'' 1000000000), Send ''0xA'' ''0xL'' (buyTicket ''1'')]"
proof -
  have "conforms (price_is 1000000000) (action sample_build sample_page Buy) (calm sample_purchase) sample_page"
    by (simp add: run_simps price_is_def round_answer_def)
  moreover have "config sample_page = Some sample_config" by (simp add: run_simps)
  moreover have "sent (trace (action sample_build sample_page Buy) (calm sample_purchase) sample_page) =
     [Send ''0xA'' ''0xT'' (approve ''0xL'' 1000000000), Send ''0xA'' ''0xL'' (buyTicket ''1'')]"
    by (simp add: run_simps sent_def)
  ultimately show ?thesis using purchase_requests by blast
qed

section \<open>Closed rounds\<close>

text \<open>
  The environment reports the signer's own address (up to letter case), blocks no older than \<open>T\<close>, and
  rounds that are closed at \<open>T\<close> or in which \<open>me\<close> already holds a ticket.
\<close>

definition closed_round :: "string \<Rightarrow> nat \<Rightarrow> req \<Rightarrow> app \<Rightarrow> resp \<Rightarrow> app \<Rightarrow> bool" where
  "closed_round me T q s r t \<longleftrightarrow>
     (case q of
        GetBlockLatest \<Rightarrow> (case as_block r of Some (Some (n, ts)) \<Rightarrow> int T \<le> ts | _ \<Rightarrow> True)
      | SignerAddress a \<Rightarrow> (case as_str r of Some x \<Rightarrow> same_address x a | None \<Rightarrow> True)
      | _ \<Rightarrow>
          (case round_answer q r of
             Some (d, owners, price, mn) \<Rightarrow>
               s_status d \<noteq> ACTIVE \<or> 5 \<le> s_participantCount d \<or> s_deadline d \<le> T \<or>
               list_ex (\<lambda>a. a \<noteq> ZeroAddress \<and> same_address a me) owners
           | None \<Rightarrow> True))"

lemma statusName_ACTIVE [simp]: "statusName st = ''ACTIVE'' \<longleftrightarrow> st = ACTIVE"
  by (cases st) (simp_all add: statusName_def statusNames_def)

lemma js_number_ge: "k < 2 ^ 53 \<Longrightarrow> int k \<le> js_number n \<longleftrightarrow> k \<le> n"
  using js_number_le_iff [of "k - 1" n] js_number_nonneg [of n] by (cases k) auto

lemma entry_closed_view:
  assumes "length refunds = length owners"
  shows "entry_closed \<lparr>fd_draw = draw_view ts d owners price mn refunds, fd_time = ts, fd_block = n\<rparr> me \<longleftrightarrow>
    s_status d \<noteq> ACTIVE \<or> 5 \<le> s_participantCount d \<or> js_number (s_deadline d) \<le> ts \<or>
    list_ex (\<lambda>a. a \<noteq> ZeroAddress \<and> same_address a me) owners"
  using js_number_ge [of 5 "s_participantCount d"] holds_ticket_view [OF assms, of ts d price mn me]
  by (simp add: entry_closed_def Let_def) (simp add: draw_view_def Let_def)

text \<open>C14: A purchase in a round that is closed, full, past its deadline, or in which the account already
  holds a ticket, is stopped before any transaction is requested from the wallet.\<close>

theorem closed_round_sends_nothing:
  assumes "conforms (closed_round (account cl) T) (action b cl Buy) env s" and "T < 2 ^ 53"
  shows "sent (trace (action b cl Buy) env s) = []"
proof -
  let ?R = "closed_round (account cl) T" and ?G = "\<lambda>q (_::app). each_send q = 0"
  have deadline: "js_number n \<le> ts" if "int T \<le> ts" "n \<le> T" for n ts
    using js_number_le_iff [OF assms(2), of n] that by simp
  have buy: "wp ?R ?G (act_buy c w i) Q E s"
    if "same_address (wc_address w) (account cl)" "\<And>e s. E e s" for c w i Q E s
    unfolding act_buy_def wp_bind
  proof (rule wp_chainDraw, goal_cases)
    case (3 x y z u v r d owners price mn refunds ts n t)
    then have "entry_closed \<lparr>fd_draw = draw_view ts d owners price mn refunds, fd_time = ts, fd_block = n\<rparr>
        (wc_address w)"
      using that(1) by (auto simp: entry_closed_view closed_round_def intro: deadline)
    then show ?case by (simp add: that)
  qed (simp_all add: that)
  have reload: "wp ?R ?G (seq (refresh b cl) (loadHistory b cl None)) Q E s"
    if "\<And>a s. Q a s" "\<And>e s. E e s" for Q E s
    unfolding wp_seq
    by (intro wp_no_send [OF sends_refresh] wp_no_send [OF sends_loadHistory]) (simp_all add: that)
  have "wp ?R ?G (action b cl Buy) (\<lambda>_ _. True) (\<lambda>_ _. True) s"
    unfolding action_def action_body_def
    by (auto simp: wp_finally wp_catch wp_bind wp_update dispatch_def
        wp_seq [of _ _ "act_buy c w i" for c w i] closed_round_def [of _ _ "SignerAddress _"]
        intro!: wp_walletContracts buy split: option.split)
  from wp_trace [OF this assms(1)] show ?thesis
    by (force simp: sent_def filter_empty_conv)
qed

theorem closed_round_sends_nothing_witness:
  "sent (trace (action sample_build sample_page Buy)
     (calm (take 5 sample_purchase @ [RBlock (Some (9, 87400))] @ take 2 (drop 6 sample_purchase)))
     sample_page) = []"
  by (rule closed_round_sends_nothing [where T = 87400])
     (simp_all add: run_simps closed_round_def round_answer_def)

section \<open>The reviewed account\<close>

text \<open>
  The environment reports the signer's own address, and the selected account does not change while
  the block number that \<open>send\<close> reads first is on its way.
\<close>

definition steady :: "req \<Rightarrow> app \<Rightarrow> resp \<Rightarrow> app \<Rightarrow> bool" where
  "steady q s r t \<longleftrightarrow>
     (case q of
        GetBlockNumber \<Rightarrow> selectedAccount t = selectedAccount s
      | SignerAddress a \<Rightarrow> (case as_str r of Some x \<Rightarrow> same_address x a | None \<Rightarrow> True)
      | _ \<Rightarrow> True)"

definition reviewed :: "req \<Rightarrow> app \<Rightarrow> bool" where
  "reviewed q t \<longleftrightarrow>
     (case q of Send sg ct (buyTicket i) \<Rightarrow> same_address (selectedAccount t) sg | _ \<Rightarrow> True)"

lemma reviewed_other: "each_send q = 0 \<Longrightarrow> reviewed q t"
  by (cases q) (simp_all add: reviewed_def)

lemma wp_recheck:
  assumes "\<And>s. same_address (selectedAccount s) a \<Longrightarrow> Q () s" and "\<And>e s. E e s"
    and "\<And>q s. each_send q = 0 \<Longrightarrow> G q s"
  shows "wp R G (recheck_wallet c a) Q E s"
  unfolding recheck_wallet_def
  by (auto simp: assms wp_bind chain_text_def intro!: wp_awaitI split: option.split)

text \<open>When a ticket purchase is handed to the wallet, the account signing it is the account selected
  on the page at that moment, provided the selection does not change during the last network read.\<close>

theorem purchase_for_selected_account:
  assumes "conforms steady (action b cl Buy) env s"
  shows "list_all (\<lambda>(q, t). reviewed q t) (trace (action b cl Buy) env s)"
proof -
  have send_simps: "reviewed (Send sg ct (approve x p)) t"
    "reviewed (Send sg ct (buyTicket i)) t \<longleftrightarrow> same_address (selectedAccount t) sg" for sg ct x p i t
    by (simp_all add: reviewed_def)
  have allow: "wp steady reviewed (ensure_allowance c w p) Q E s"
    if "\<And>a s. Q a s" "\<And>e s. E e s" for c w p Q E s
    unfolding ensure_allowance_def
    by (auto simp: wp_bind wp_seq that reviewed_other send_simps intro!: wp_awaitI wp_send)
  have buy: "wp steady reviewed (send sg ct (buyTicket i) l) Q E s"
    if "same_address (selectedAccount s) sg" "\<And>a s. Q a s" "\<And>e s. E e s" for sg ct i l Q E s
    unfolding send_def using that(1)
    by (auto simp: wp_bind that(2,3) reviewed_other send_simps steady_def
        intro!: wp_awaitI wp_no_send [OF sends_confirmed])
  have rest: "wp steady reviewed (act_buy c w i) Q E s"
    if "same_address (wc_address w) (wc_signer w)" "\<And>a s. Q a s" "\<And>e s. E e s" for c w i Q E s
    unfolding act_buy_def buy_rest_def using that(1)
    by (auto simp: wp_bind wp_seq that(2,3) reviewed_other set_notice_def wp_update
        intro!: wp_chainDraw wp_awaitI allow wp_recheck buy split: option.split)
  have reload: "wp steady reviewed (seq (refresh b cl) (loadHistory b cl None)) Q E s"
    if "\<And>a s. Q a s" "\<And>e s. E e s" for Q E s
    unfolding wp_seq
    by (intro wp_no_send [OF sends_refresh] wp_no_send [OF sends_loadHistory])
       (simp_all add: that reviewed_other)
  have "wp steady reviewed (action b cl Buy) (\<lambda>_ _. True) (\<lambda>_ _. True) s"
    unfolding action_def action_body_def
    by (auto simp: wp_finally wp_catch wp_bind wp_update dispatch_def reviewed_other
        wp_seq [of _ _ "act_buy c w i" for c w i] steady_def [of "SignerAddress _"]
        intro!: wp_walletContracts rest reload split: option.split)
  from wp_trace [OF this assms] show ?thesis by (fastforce simp: list_all_iff)
qed

theorem purchase_for_selected_account_witness:
  "list_all (\<lambda>(q, t). reviewed q t)
     (trace (action sample_build sample_page Buy) (calm sample_purchase) sample_page)"
  by (rule purchase_for_selected_account) (simp add: run_simps steady_def)

end
