(* ===== verification/Complete.thy ===== *)
theory Complete
  imports Purchase
begin

text \<open>
  The purchase seen as a whole: with an open round, enough tokens and a wallet that answers, it goes
  through, and it approves only when the allowance is short.
\<close>

section \<open>A cooperative environment\<close>

record purchase_world =
  pw_chain :: nat
  pw_me :: string
  pw_block :: int
  pw_time :: nat
  pw_round :: "string SolDraw"
  pw_owners :: "string list"
  pw_price :: nat
  pw_minimum :: nat
  pw_balance :: nat
  pw_allowance :: nat
  pw_receipt :: Receipt
  pw_number :: nat

text \<open>The round is open to the account, which can pay.\<close>

definition open_for :: "purchase_world \<Rightarrow> bool" where
  "open_for w \<longleftrightarrow>
     s_status (pw_round w) = ACTIVE \<and> s_participantCount (pw_round w) < 5 \<and>
     pw_time w < s_deadline (pw_round w) \<and> pw_time w < 2 ^ 53 \<and>
     \<not> list_ex (\<lambda>a. a \<noteq> ZeroAddress \<and> same_address a (pw_me w)) (pw_owners w) \<and>
     pw_price w \<le> pw_balance w \<and> rc_status (pw_receipt w) = Some 1"

definition sending :: "purchase_world \<Rightarrow> resp list" where
  "sending w = [RInt (pw_block w), RStr (rc_hash (pw_receipt w)), RReceipt (Some (pw_receipt w))]"

text \<open>The answers of the wallet and the chain, in the order the flow asks for them: up to the last check of
  the wallet, and then for the ticket itself.\<close>

definition answers_before_ticket :: "purchase_world \<Rightarrow> resp list" where
  "answers_before_ticket w =
     [RStr (''0x'' @ show_nat 16 (pw_chain w)), RStrs [pw_me w], RUnit, RStr (pw_me w),
      RNat (pw_chain w), RBlock (Some (pw_block w, int (pw_time w))),
      RAll [RDraw (pw_round w), RStrs (pw_owners w), RNat (pw_price w), RNat (pw_minimum w)],
      RAll (map (\<lambda>a. RBool False) (pw_owners w)), RNat (pw_balance w), RNat (pw_allowance w)] @
     (if pw_allowance w < pw_price w then sending w else []) @
     [RStrs [pw_me w], RStr (''0x'' @ show_nat 16 (pw_chain w))]"

definition purchase_answers :: "purchase_world \<Rightarrow> resp list" where
  "purchase_answers w = answers_before_ticket w @ sending w @ [RNat (pw_number w)]"

section \<open>The reload after a transaction\<close>

lemma keeps_final_calm: "keeps f p \<Longrightarrow> f (final p (calm rs) s) = f s"
proof (induction p arbitrary: rs s)
  case (Await q k)
  then show ?case by (cases rs) (simp_all add: calm_def)
qed simp_all

lemma sent_nothing: "cost each_send p 0 \<Longrightarrow> sent (trace p env s) = []"
  using cost_trace [of each_send p 0 env s] length_sent [of "trace p env s"]
  by (metis le_zero_eq length_0_conv)

lemma sent_Cons: "sent ((q, t) # tr) = (if each_send q = 1 then q # sent tr else sent tr)"
  by (simp add: sent_def)

lemma sent_Nil: "sent [] = []"
  by (simp add: sent_def)

definition reload :: "build \<Rightarrow> app \<Rightarrow> (app, unit) prog" where
  "reload b cl =
     finally_do
       (catch (seq (refresh b cl) (loadHistory b cl None)) (\<lambda>e. update (\<lambda>s. s\<lparr>error := message e\<rparr>)))
       end_action"

lemma notice_reload: "keeps notice (reload b cl)"
  unfolding reload_def refresh_def refresh_body_def loadHistory_def load_sync_def
  by (auto intro!: keeps_intros simp: state_defs split: option.split)

lemma sends_reload: "cost each_send (reload b cl) 0"
  unfolding reload_def
  by (auto intro!: cost_finally cost_0_catch cost_seqI [OF sends_refresh] sends_loadHistory [THEN cost_mono])

lemma reload_tail:
  "sent (trace (reload b cl) (calm rs) s) = []"
  "notice (final (reload b cl) (calm rs) s) = notice s"
  by (rule sent_nothing [OF sends_reload]) (rule keeps_final_calm [OF notice_reload])

lemma open_for_enter:
  assumes "open_for w" and "length refunds = length (pw_owners w)"
  shows "\<not> entry_closed \<lparr>fd_draw = draw_view (int (pw_time w)) (pw_round w) (pw_owners w)
      (pw_price w) (pw_minimum w) refunds, fd_time = int (pw_time w), fd_block = pw_block w\<rparr> (pw_me w)"
  using assms(1) js_number_le_iff [of "pw_time w" "s_deadline (pw_round w)"]
  by (simp add: open_for_def entry_closed_view [OF assms(2)])

lemma draw_view_price: "ticketPrice (draw_view t d owners p mn refunds) = show_nat 10 p"
  by (simp add: draw_view_def Let_def)

lemma shown_id_Some: "draw cl = Some d \<Longrightarrow> draw_id d \<noteq> [] \<Longrightarrow> shown_id cl = draw_id d"
  by (cases "draw_id d") (simp_all add: shown_id_def)

text \<open>C8: In an open round, with enough tokens and a wallet that confirms, the purchase requests an
  approval of the exact price if and only if the allowance is below it, then the ticket, and reports
  the ticket's number.\<close>

theorem purchase_completes:
  assumes "open_for w" and "config cl = Some c" and "chainId c = show_nat 10 (pw_chain w)"
    and "pw_me w \<noteq> []" and "account cl = pw_me w" and "selectedAccount s = pw_me w"
    and "draw cl = Some d" and "draw_id d \<noteq> []" and "\<not> pending s" and "ethereum s"
  shows "sent (trace (action b cl Buy) (calm (purchase_answers w @ rs)) s) =
      (if pw_allowance w < pw_price w
       then [Send (pw_me w) (tokenAddress c) (approve (lotteryAddress c) (int (pw_price w)))] else []) @
      [Send (pw_me w) (lotteryAddress c) (buyTicket (draw_id d))] \<and>
    notice (final (action b cl Buy) (calm (purchase_answers w @ rs)) s) =
      ''Ticket '' @ show_nat 10 (pw_number w) @ '' is yours. Good luck!''"
proof -
  note o = assms(1) [unfolded open_for_def]
  note enter = open_for_enter [OF assms(1)]
  have i: "shown_id cl = draw_id d" using assms(7,8) by (rule shown_id_Some)
  note tail = reload_tail [of b cl, unfolded reload_def seq_def update_def]
  show ?thesis
    using o assms(2-)
    by (simp add: purchase_answers_def answers_before_ticket_def sending_def calm_def action_def action_body_def
      walletContracts_def ensure_chain_def chain_text_def await_def reply_def seq_def update_def
      state_defs dispatch_def act_buy_def chainDraw_def as_round_def refund_queries_def enter draw_view_price i
      buy_rest_def ensure_allowance_def recheck_wallet_def send_def confirmed_def set_notice_def
      sent_Cons tail [unfolded calm_def])
qed

definition sample_world :: purchase_world where
  "sample_world =
     \<lparr>pw_chain = 31337, pw_me = ''0xA'', pw_block = 6, pw_time = 2000, pw_round = sample_draw,
      pw_owners = sample_owners, pw_price = 1000000000, pw_minimum = 2, pw_balance = 5000000000,
      pw_allowance = 0,
      pw_receipt = \<lparr>rc_hash = ''0x1'', rc_blockNumber = 7, rc_status = Some 1\<rparr>, pw_number = 3\<rparr>"

lemma sample_world_open: "open_for sample_world"
  by (simp add: open_for_def sample_world_def sample_defs sample_replicate sample_lower ZeroAddress_def)

theorem purchase_completes_witness:
  "sent (trace (action sample_build sample_page Buy) (calm (purchase_answers sample_world @ [])) sample_page) =
     [Send ''0xA'' ''0xT'' (approve ''0xL'' 1000000000), Send ''0xA'' ''0xL'' (buyTicket ''1'')]"
proof -
  show ?thesis
    using sample_world_open purchase_completes [of sample_world sample_page sample_config sample_page _ sample_build "[]"]
    by (simp add: sample_world_def sample_page_def sample_app_def state_defs initial_app_def
        sample_config_def sample_numbers draw_view_def sample_draw_def)
qed

section \<open>An account switched at the last moment\<close>

text \<open>C17: The check that account, wallet and network are still the ones reviewed does not cover the whole way
  to the signature: in the world above, with any accounts the wallet announces while the function send reads the
  block number, the ticket is still requested, signed by the account of before; the account selected
  on the page at that moment is already the first one announced, whatever it is.\<close>

theorem purchase_after_switch:
  assumes "open_for w" and "config cl = Some c" and "chainId c = show_nat 10 (pw_chain w)"
    and "pw_me w \<noteq> []" and "account cl = pw_me w" and "selectedAccount s = pw_me w"
    and "draw cl = Some d" and "draw_id d \<noteq> []" and "\<not> pending s" and "ethereum s"
    and "env = calm (answers_before_ticket w) @ [(RInt (pw_block w), accountsChanged (Some accts))]"
  shows "sent (trace (action b cl Buy) env s) =
      (if pw_allowance w < pw_price w
       then [Send (pw_me w) (tokenAddress c) (approve (lotteryAddress c) (int (pw_price w)))] else []) @
      [Send (pw_me w) (lotteryAddress c) (buyTicket (draw_id d))] \<and>
    fst (last (trace (action b cl Buy) env s)) = Send (pw_me w) (lotteryAddress c) (buyTicket (draw_id d)) \<and>
    selectedAccount (snd (last (trace (action b cl Buy) env s))) = first_or_empty accts"
proof -
  note o = assms(1) [unfolded open_for_def]
  note enter = open_for_enter [OF assms(1)]
  have i: "shown_id cl = draw_id d" using assms(7,8) by (rule shown_id_Some)
  show ?thesis
    using o assms(2-)
    by (simp add: answers_before_ticket_def sending_def calm_def action_def action_body_def
      walletContracts_def ensure_chain_def chain_text_def await_def reply_def seq_def update_def
      state_defs dispatch_def act_buy_def chainDraw_def as_round_def refund_queries_def enter draw_view_price i
      buy_rest_def ensure_allowance_def recheck_wallet_def send_def confirmed_def set_notice_def sent_Cons sent_Nil)
qed

text \<open>The visitor switches to another account while the block number is on its way.\<close>

theorem purchase_after_switch_witness:
  "let env = calm (answers_before_ticket sample_world) @ [(RInt 6, accountsChanged (Some [''0xB'', ''0xA'']))];
       tr = trace (action sample_build sample_page Buy) env sample_page
   in fst (last tr) = Send ''0xA'' ''0xL'' (buyTicket ''1'') \<and> selectedAccount (snd (last tr)) = ''0xB''"
  using purchase_after_switch [of sample_world sample_page sample_config sample_page _
      "calm (answers_before_ticket sample_world) @ [(RInt 6, accountsChanged (Some [''0xB'', ''0xA'']))]"
      "[''0xB'', ''0xA'']" sample_build] sample_world_open
  by (simp add: sample_world_def sample_page_def sample_app_def state_defs initial_app_def
      sample_config_def sample_numbers draw_view_def sample_draw_def)

end
