(* ===== verification/Transactions.thy ===== *)
theory Transactions
  imports AppState
begin

text \<open>
  The page as data, and the two self-contained panels: \<^verbatim>\<open>frontend/src/Transactions.tsx\<close> (look a
  transaction up in the block explorer) and \<^verbatim>\<open>frontend/src/Help.tsx\<close> (the bilingual questions). A
  rendered element is a \<open>node\<close>: its tag, its class and its children; links and buttons carry what
  they lead to. Accessibility attributes and element identifiers are left out.
\<close>

section \<open>Rendered elements\<close>

datatype click =
    OpenWallet
  | CloseMenu
  | ChooseAccount string
  | Connect
  | ConnectAnother
  | Act action_kind
  | RetryRefresh
  | SelectDraw "string option"
  | ReloadHistory
  | LoadOlder string
  | SubmitLookup
  | SetLanguage string

datatype node =
    Txt string
  | Link string string
  | Btn string bool click
  | El string string "node list"

text \<open>The buttons of a page: label, whether disabled, and the handler, in document order.\<close>

fun node_buttons :: "node \<Rightarrow> (string \<times> bool \<times> click) list" where
  "node_buttons (Txt t) = []"
| "node_buttons (Link t h) = []"
| "node_buttons (Btn l dis k) = [(l, dis, k)]"
| "node_buttons (El t c kids) = concat (map node_buttons kids)"

definition page_buttons :: "node list \<Rightarrow> (string \<times> bool \<times> click) list" where
  "page_buttons ns = concat (map node_buttons ns)"

fun node_links :: "node \<Rightarrow> string list" where
  "node_links (Txt t) = []"
| "node_links (Link t h) = [h]"
| "node_links (Btn l dis k) = []"
| "node_links (El t c kids) = concat (map node_links kids)"

text \<open>\<^verbatim>\<open>{cond && <X/>}\<close>\<close>

definition render_if :: "bool \<Rightarrow> node list \<Rightarrow> node list" where
  "render_if c ns = (if c then ns else [])"

definition enabled :: "node list \<Rightarrow> click \<Rightarrow> bool" where
  "enabled ns k \<longleftrightarrow> (\<exists>l. (l, False, k) \<in> set (page_buttons ns))"

lemma page_buttons_simps [simp]:
  "page_buttons [] = []"
  "page_buttons (n # ns) = node_buttons n @ page_buttons ns"
  "page_buttons (ms @ ns) = page_buttons ms @ page_buttons ns"
  by (simp_all add: page_buttons_def)

lemma node_buttons_El [simp]: "node_buttons (El t c kids) = page_buttons kids"
  by (simp add: page_buttons_def)

declare node_buttons.simps(4) [simp del]

lemma enabled_simps [simp]:
  "\<not> enabled [] k"
  "enabled (Txt t # ns) k \<longleftrightarrow> enabled ns k"
  "enabled (Link t h # ns) k \<longleftrightarrow> enabled ns k"
  "enabled (Btn l dis k' # ns) k \<longleftrightarrow> (\<not> dis \<and> k' = k) \<or> enabled ns k"
  "enabled (El tg c kids # ns) k \<longleftrightarrow> enabled kids k \<or> enabled ns k"
  "enabled (ms @ ns) k \<longleftrightarrow> enabled ms k \<or> enabled ns k"
  "enabled (render_if b ns) k \<longleftrightarrow> b \<and> enabled ns k"
  "enabled (if b then ms else ns) k \<longleftrightarrow> (if b then enabled ms k else enabled ns k)"
  by (auto simp: enabled_def render_if_def)

lemma enabled_concat_map: "enabled (concat (map f xs)) k \<longleftrightarrow> (\<exists>x \<in> set xs. enabled (f x) k)"
  by (induction xs) auto

section \<open>Characters outside ASCII\<close>

definition utf8 :: "nat list \<Rightarrow> string" where
  "utf8 bs = map char_of bs"

definition arrow_ne :: string where "arrow_ne = utf8 [0xE2, 0x86, 0x97]"

definition arrow_right :: string where "arrow_right = utf8 [0xE2, 0x86, 0x92]"

definition arrow_left :: string where "arrow_left = utf8 [0xE2, 0x86, 0x90]"

definition check_mark :: string where "check_mark = utf8 [0xE2, 0x9C, 0x93]"

definition star :: string where "star = utf8 [0xE2, 0x9C, 0xA6]"

definition cross :: string where "cross = utf8 [0xE2, 0x9C, 0x95]"

definition clockwise :: string where "clockwise = utf8 [0xE2, 0x86, 0xBB]"

definition anticlockwise :: string where "anticlockwise = utf8 [0xE2, 0x86, 0xBA]"

definition middle_dot :: string where "middle_dot = utf8 [0xC2, 0xB7]"

definition en_dash :: string where "en_dash = utf8 [0xE2, 0x80, 0x93]"

section \<open>Transactions.tsx\<close>

definition explorerURL :: "string option \<Rightarrow> string option" where
  "explorerURL c = (if c = Some ''11155111'' then Some ''https://sepolia.etherscan.io'' else None)"

text \<open>The input's handler, and the pattern the browser enforces before a submit.\<close>

definition setHash :: "string \<Rightarrow> string" where
  "setHash value = trim value"

definition hash_pattern :: "string \<Rightarrow> bool" where
  "hash_pattern h \<longleftrightarrow> take 2 h = ''0x'' \<and> length h = 66 \<and> list_all hex_digit (drop 2 h)"

text \<open>Submitting the form: the page opened, if the required pattern holds.\<close>

definition open_lookup :: "string \<Rightarrow> string \<Rightarrow> string option" where
  "open_lookup explorer hash =
     (if hash_pattern hash then Some (explorer @ ''/tx/'' @ trim hash) else None)"

definition transactions_panel :: "Config \<Rightarrow> string \<Rightarrow> node list" where
  "transactions_panel c acct =
     (case explorerURL (Some (chainId c)) of
        None \<Rightarrow> []
      | Some explorer \<Rightarrow>
          [El ''section'' ''panel transactions''
            [El ''div'' ''panel-top''
               [El ''div'' []
                  [El ''span'' ''eyebrow'' [Txt ''VERIFY ON SEPOLIA''],
                   El ''h2'' [] [Txt ''Check transactions'']]],
             El ''p'' []
               [Txt ''Open Etherscan to inspect transaction status, sender, fees and token transfers. No wallet connection is needed to look up a hash.''],
             El ''div'' ''explorer-links''
               ([Link (''Lottery contract activity '' @ arrow_ne)
                   (explorer @ ''/address/'' @ lotteryAddress c),
                 Link (''USD8 token transfers '' @ arrow_ne)
                   (explorer @ ''/token/'' @ tokenAddress c)] @
                render_if (acct \<noteq> [])
                  [Link (''My wallet activity '' @ arrow_ne) (explorer @ ''/address/'' @ acct)]),
             El ''form'' []
               [Txt ''Sepolia transaction hash'',
                El ''div'' ''transaction-lookup''
                  [El ''input'' [] [], Btn (''Open transaction '' @ arrow_ne) False SubmitLookup],
                El ''p'' []
                  [Txt ''Approval and ticket purchase are separate transactions. A successful approval alone does not buy a ticket. Newly submitted transactions may take a moment to appear on Etherscan.'']]]])"

section \<open>Help.tsx\<close>

text \<open>
  The panel shows each question in the chosen language. The question texts themselves are an
  argument; the Chinese labels are UTF-8.
\<close>

definition zh_guide :: string where "zh_guide = utf8 [0xE6, 0xBC, 0x94, 0xE7, 0xA4, 0xBA, 0xE6, 0x8C, 0x87, 0xE5, 0x8D, 0x97]"

definition zh_heading :: string where "zh_heading = utf8 [0xE5, 0xB8, 0xAE, 0xE5, 0x8A, 0xA9, 0xE4, 0xB8, 0x8E, 0xE5, 0xB8, 0xB8, 0xE8, 0xA7, 0x81, 0xE9, 0x97, 0xAE, 0xE9, 0xA2, 0x98]"

definition zh_name :: string where "zh_name = utf8 [0xE4, 0xB8, 0xAD, 0xE6, 0x96, 0x87]"

definition zh_intro :: string where "zh_intro = utf8 [0xE7, 0x82, 0xB9, 0xE5, 0x87, 0xBB, 0xE9, 0x97, 0xAE, 0xE9, 0xA2, 0x98, 0xE5, 0xB1, 0x95, 0xE5, 0xBC, 0x80, 0xE7, 0xAD, 0x94, 0xE6, 0xA1, 0x88, 0xEF, 0xBC, 0x8C, 0xE6, 0x97, 0xA0, 0xE9, 0x9C, 0x80, 0xE8, 0xBF, 0x9E, 0xE6, 0x8E, 0xA5, 0xE9, 0x92, 0xB1, 0xE5, 0x8C, 0x85, 0xE3, 0x80, 0x82, 0xE8, 0xAF, 0xAD, 0xE8, 0xA8, 0x80, 0xE5, 0x88, 0x87, 0xE6, 0x8D, 0xA2, 0xE4, 0xBB, 0x85, 0xE9, 0x80, 0x82, 0xE7, 0x94, 0xA8, 0xE4, 0xBA, 0x8E, 0xE6, 0x9C, 0xAC, 0xE5, 0xB8, 0xAE, 0xE5, 0x8A, 0xA9, 0xE5, 0x8C, 0xBA, 0xE5, 0x9F, 0x9F, 0xE3, 0x80, 0x82]"

definition zh_history :: string where "zh_history = utf8 [0xE6, 0x9F, 0xA5, 0xE7, 0x9C, 0x8B, 0xE5, 0x8E, 0x86, 0xE5, 0x8F, 0xB2, 0xE5, 0xBC, 0x80, 0xE5, 0xA5, 0x96, 0x20, 0xE2, 0x86, 0x92]"

definition zh_full :: string where "zh_full = utf8 [0xE5, 0xAE, 0x8C, 0xE6, 0x95, 0xB4, 0xE8, 0xAF, 0x84, 0xE5, 0xAE, 0xA1, 0xE6, 0x8C, 0x87, 0xE5, 0x8D, 0x97, 0x20, 0xE2, 0x86, 0x97]"

record question =
  q_en :: "string \<times> string"
  q_zh :: "string \<times> string"

definition guide_link :: "bool \<Rightarrow> string" where
  "guide_link chinese =
     ''https://github.com/dreamerinsgp/DLottery/blob/main/docs/examiner-guide'' @
     (if chinese then ''.zh-CN'' else []) @ ''.md''"

definition help_question :: "bool \<Rightarrow> question \<Rightarrow> node" where
  "help_question chinese q =
     (let p = (if chinese then q_zh q else q_en q)
      in El ''details'' [] [El ''summary'' [] [Txt (fst p)], El ''p'' [] [Txt (snd p)]])"

definition Help :: "question list \<Rightarrow> string \<Rightarrow> node list" where
  "Help questions language =
     (let chinese = (language = ''zh'') in
       [El ''section'' ''panel help''
         [El ''div'' ''panel-top help-heading''
            [El ''div'' []
               [El ''span'' ''eyebrow''
                  [Txt (if chinese then ''SEPOLIA '' @ zh_guide else ''SEPOLIA DEMO GUIDE'')],
                El ''h2'' [] [Txt (if chinese then zh_heading else ''Help & common questions'')]],
             El ''div'' ''help-languages''
               [Btn ''English'' False (SetLanguage ''en''), Btn zh_name False (SetLanguage ''zh'')]],
          El ''p'' ''help-intro''
            [Txt (if chinese then zh_intro
                  else ''Select a question to read its answer. No wallet needed. The language switch applies to this help section.'')],
          El ''div'' ''help-questions'' (map (help_question chinese) questions),
          El ''div'' ''help-links''
            [Link (if chinese then zh_history else ''View past draws '' @ arrow_right) ''#history'',
             Link (if chinese then zh_full else ''Full examiner guide '' @ arrow_ne)
               (guide_link chinese)]]])"

end
