(* ===== verification/View.thy ===== *)
theory View
  imports Action Transactions
begin

text \<open>
  What \<^verbatim>\<open>App\<close> derives from its state and renders, \<^verbatim>\<open>frontend/src/main.tsx\<close> from \<^verbatim>\<open>const mine\<close> to the
  end of the component: each panel is a list of nodes computed from the snapshot \<open>cl\<close> of the
  render. Rendering functions of libraries (\<^verbatim>\<open>formatUnits\<close>, \<^verbatim>\<open>toLocaleString\<close>) are the fields of
  \<open>lib\<close>.
\<close>

record lib =
  formatUnits :: "string \<Rightarrow> nat \<Rightarrow> string"
  toLocaleString :: "int \<Rightarrow> string"
  toLocaleDateString :: "int \<Rightarrow> string"

section \<open>Derived values\<close>

text \<open>\<^verbatim>\<open>t.wallet?.toLowerCase() === account.toLowerCase()\<close>\<close>

definition owned_by :: "string \<Rightarrow> Ticket \<Rightarrow> bool" where
  "owned_by acct t = (case wallet t of None \<Rightarrow> False | Some a \<Rightarrow> same_address a acct)"

definition mine :: "app \<Rightarrow> Ticket option" where
  "mine cl = (case draw cl of None \<Rightarrow> None | Some d \<Rightarrow> List.find (owned_by (account cl)) (tickets d))"

definition isWinner :: "app \<Rightarrow> bool" where
  "isWinner cl \<longleftrightarrow>
     account cl \<noteq> [] \<and>
     (case draw cl of
        None \<Rightarrow> False
      | Some d \<Rightarrow> (case winner d of None \<Rightarrow> False | Some a \<Rightarrow> same_address a (account cl)))"

definition remaining :: "app \<Rightarrow> int" where
  "remaining cl = (case draw cl of None \<Rightarrow> 0 | Some d \<Rightarrow> max 0 (js_sub (deadline d) (now cl)))"

definition has_status :: "app \<Rightarrow> string \<Rightarrow> bool" where
  "has_status cl st = (case draw cl of None \<Rightarrow> False | Some d \<Rightarrow> status d = st)"

definition eligible :: "app \<Rightarrow> bool" where
  "eligible cl \<longleftrightarrow>
     has_status cl ''ACTIVE'' \<and>
     (case draw cl of None \<Rightarrow> False | Some d \<Rightarrow> participantCount d = 5 \<or> remaining cl = 0)"

definition canBuy :: "app \<Rightarrow> bool" where
  "canBuy cl \<longleftrightarrow>
     account cl \<noteq> [] \<and> has_status cl ''ACTIVE'' \<and> mine cl = None \<and>
     (case draw cl of None \<Rightarrow> False | Some d \<Rightarrow> participantCount d < 5) \<and> 0 < remaining cl"

definition settled_statuses :: "string list" where
  "settled_statuses = [''WINNER_DECLARED'', ''COMPLETED'', ''NO_WINNER'', ''CANCELLED'']"

definition canStart :: "app \<Rightarrow> bool" where
  "canStart cl \<longleftrightarrow>
     currentID cl = ''0'' \<or>
     (case draw cl of
        None \<Rightarrow> False
      | Some d \<Rightarrow> draw_id d = currentID cl \<and> status d \<in> set settled_statuses)"

definition wrongChain :: "app \<Rightarrow> bool" where
  "wrongChain cl \<longleftrightarrow>
     account cl \<noteq> [] \<and> (case config cl of None \<Rightarrow> False | Some c \<Rightarrow> walletChain cl \<noteq> chainId c)"

definition syncing :: "app \<Rightarrow> bool" where
  "syncing cl \<longleftrightarrow>
     (case sync cl of None \<Rightarrow> True | Some r \<Rightarrow> \<not> synced r) \<or>
     (case sync cl of None \<Rightarrow> -1 | Some r \<Rightarrow> indexedBlock r) < receiptBlock cl"

definition explorer :: "app \<Rightarrow> string option" where
  "explorer cl = explorerURL (map_option chainId (config cl))"

text \<open>\<^verbatim>\<open>!!busy\<close>, and the condition shared by the wallet menu's buttons.\<close>

definition is_busy :: "app \<Rightarrow> bool" where
  "is_busy cl \<longleftrightarrow> busy cl \<noteq> []"

definition blocked :: "app \<Rightarrow> bool" where
  "blocked cl \<longleftrightarrow> is_busy cl \<or> walletBusy cl"

section \<open>Header\<close>

definition account_row :: "app \<Rightarrow> string \<Rightarrow> node list" where
  "account_row cl address =
     [El ''div'' ''wallet-account''
       ([Btn address (blocked cl) (ChooseAccount address)] @
        render_if (same_address address (account cl)) [El ''small'' [] [Txt ''Selected'']])]"

definition wallet_menu :: "app \<Rightarrow> node list" where
  "wallet_menu cl =
     [El ''section'' ''wallet-menu''
       ([El ''div'' ''wallet-menu-heading''
           [El ''strong'' [] [Txt ''Choose an account''], Btn cross False CloseMenu],
         El ''p'' [] [Txt ''Select the account to use in DLottery.''],
         El ''div'' ''wallet-account-list'' (concat (map (account_row cl) (walletAccounts cl))),
         Btn (if walletBusy cl then ''Check MetaMask'' @ ellipsis else ''Connect another account'')
           (blocked cl) ConnectAnother,
         El ''p'' []
           [Txt ''Missing a player? Connect another account and select it in MetaMask.'']] @
        render_if (walletError cl \<noteq> []) [El ''p'' [] [Txt (walletError cl)]])]"

definition header :: "app \<Rightarrow> node list" where
  "header cl =
     [El ''header'' ''topbar''
       [El ''a'' ''brand'' [Txt ''D'', Txt star, Txt ''DLottery'', Txt ''MVP''],
        El ''nav'' []
          ([Link ''How it works'' ''#how'', Link ''Past draws'' ''#history''] @
           render_if (explorer cl \<noteq> None) [Link ''Transactions'' ''#transactions'']),
        El ''div'' ''wallet-control''
          ([Btn (if account cl \<noteq> [] then short (Some (account cl)) @ ''Switch wallet''
                 else ''Connect wallet '' @ arrow_ne)
              (blocked cl) OpenWallet] @
           render_if (walletOpen cl) (wallet_menu cl))]]"

text \<open>The introduction. The Chinese half of its link label is spelled as its UTF-8 bytes.\<close>

definition common_questions :: string where
  "common_questions =
     utf8 [0xE5, 0xB8, 0xB8, 0xE8, 0xA7, 0x81, 0xE9, 0x97, 0xAE, 0xE9, 0xA2, 0x98]"

definition intro :: "node list" where
  "intro =
     [El ''section'' ''intro''
       [El ''div'' []
          [El ''div'' ''eyebrow'' [El ''span'' ''live-dot'' [], Txt '' ON-CHAIN. OPEN TO EVERYONE.''],
           El ''h1'' []
             [Txt ''Your number.'', El ''br'' [] [],
              El ''span'' [] [Txt ''Your next possibility.'']],
           El ''p'' []
             [Txt ''Five players. Ten numbers. One transparent draw.'', El ''br'' [] [],
              Txt ''Enter with 10 USD8 and let chance do the rest.''],
           Link (''Need help? Common questions / '' @ common_questions @ '' '' @ arrow_right) ''#help''],
        El ''div'' ''intro-stamp''
          [El ''span'' [] [Txt ''EVERY TICKET''],
           El ''strong'' [] [Txt ''10''],
           El ''span'' [] [Txt ''USD8 / ROUND'']]]]"

section \<open>Messages\<close>

definition tx_line :: "app \<Rightarrow> node list" where
  "tx_line cl =
     [El ''div'' ''tx-line''
       ([Txt ''Transaction '', El ''code'' [] [Txt (txHash cl)]] @
        (case explorer cl of
           None \<Rightarrow> []
         | Some e \<Rightarrow> [Link (''View on Etherscan '' @ arrow_ne) (e @ ''/tx/'' @ txHash cl)]) @
        render_if (syncing cl \<and> \<not> is_busy cl)
          [Txt ('' '' @ middle_dot @ '' Confirmed; history is synchronizing'')])]"

definition messages :: "build \<Rightarrow> app \<Rightarrow> node list" where
  "messages b cl =
     [El ''div'' ''messages''
       (render_if (testTokenAvailable b cl)
          [El ''div'' ''message''
            [Txt ''Sepolia demo. Connect a wallet with Sepolia ETH, then get test USD8 to play.'',
             Btn ''Get 1,000 test USD8'' (account cl = [] \<or> is_busy cl \<or> walletBusy cl) (Act Mint)]] @
        render_if (error cl \<noteq> [])
          [El ''div'' ''message error'' [Txt (error cl), Btn ''Retry'' False RetryRefresh]] @
        render_if (wrongChain cl)
          [El ''div'' ''message''
            [Txt (''Your wallet is on another network. The next action will request a switch to chain '' @
                  (case config cl of None \<Rightarrow> [] | Some c \<Rightarrow> chainId c) @ ''.'')]] @
        render_if (notice cl \<noteq> []) [El ''div'' ''message success'' [Txt (notice cl)]] @
        render_if (is_busy cl) [El ''div'' ''message'' [El ''span'' ''spinner'' [], Txt (busy cl)]] @
        render_if (txHash cl \<noteq> []) (tx_line cl))]"

section \<open>The round\<close>

text \<open>\<^verbatim>\<open>BigInt(draw.inheritedRollover) > 0n\<close>; the field is always the text of a bigint.\<close>

definition has_rollover :: "Draw \<Rightarrow> bool" where
  "has_rollover d = (case parse_bigint (inheritedRollover d) of None \<Rightarrow> False | Some n \<Rightarrow> 0 < n)"

definition draw_title :: "app \<Rightarrow> string" where
  "draw_title cl =
     (case draw cl of
        Some d \<Rightarrow> ''Draw #'' @ padStart 3 (CHR ''0'') (draw_id d)
      | None \<Rightarrow> if loading cl then ''Loading draw'' @ ellipsis else ''Ready for a new round'')"

definition pool_panel :: "lib \<Rightarrow> app \<Rightarrow> node list" where
  "pool_panel L cl =
     [El ''div'' ''pool''
       [El ''span'' [] [Txt ''Total prize pool''],
        El ''div'' []
          [Txt (case draw cl of None \<Rightarrow> ''0'' | Some d \<Rightarrow> amount (formatUnits L) cl (pool d)),
           El ''small'' [] [Txt ''USD8'']],
        El ''p'' []
          [Txt (case draw cl of
               Some d \<Rightarrow>
                 if has_rollover d
                 then ''Includes '' @ amount (formatUnits L) cl (inheritedRollover d) @
                      '' USD8 from the previous round''
                 else ''The prize grows with every participant''
             | None \<Rightarrow> ''The prize grows with every participant'')]]]"

definition players :: "app \<Rightarrow> int" where
  "players cl = (case draw cl of None \<Rightarrow> 0 | Some d \<Rightarrow> participantCount d)"

definition round_stats :: "lib \<Rightarrow> app \<Rightarrow> node list" where
  "round_stats L cl =
     [El ''div'' ''round-stats''
       [El ''div'' []
          [El ''span'' [] [Txt ''Players joined''],
           El ''strong'' [] [Txt (show_int 10 (players cl)), El ''small'' [] [Txt '' / 5'']],
           El ''div'' ''player-bars''
             (map (\<lambda>i. El ''i'' (if int i < players cl then ''filled'' else []) []) [0..<5])],
        El ''div'' []
          [El ''span'' [] [Txt (if has_status cl ''ACTIVE'' then ''Time remaining'' else ''Round closed'')],
           El ''strong'' ''countdown''
             [Txt (if has_status cl ''ACTIVE'' then time (nat (remaining cl))
                   else em_dash @ '' : '' @ em_dash @ '' : '' @ em_dash)],
           El ''small'' []
             [Txt (if has_status cl ''ACTIVE'' then ''Draws at 5 players or when time runs out''
                   else case Option.bind (draw cl) finalizedAt of
                          Some f \<Rightarrow> if f \<noteq> 0 then toLocaleString L (f * 1000)
                                    else ''Waiting for verifiable randomness''
                        | None \<Rightarrow> ''Waiting for verifiable randomness'')]]]]"

text \<open>The number board: the round's tickets, or ten blank ones before a round is loaded.\<close>

definition blank_tickets :: "Ticket list" where
  "blank_tickets = map (\<lambda>i. \<lparr>number = int i + 1, wallet = None, refunded = False\<rparr>) [0..<10]"

definition board_tickets :: "app \<Rightarrow> Ticket list" where
  "board_tickets cl = (case draw cl of None \<Rightarrow> blank_tickets | Some d \<Rightarrow> tickets d)"

definition is_lucky :: "app \<Rightarrow> Ticket \<Rightarrow> bool" where
  "is_lucky cl t = (case draw cl of None \<Rightarrow> False | Some d \<Rightarrow> luckyNumber d = Some (number t))"

definition has_wallet :: "Ticket \<Rightarrow> bool" where
  "has_wallet t = truthy (wallet t)"

definition number_class :: "app \<Rightarrow> Ticket \<Rightarrow> string" where
  "number_class cl t =
     ''number '' @ (if has_wallet t then ''taken'' else []) @ '' '' @
     (if owned_by (account cl) t then ''mine'' else []) @ '' '' @
     (if is_lucky cl t then ''winning'' else [])"

definition number_caption :: "app \<Rightarrow> Ticket \<Rightarrow> string" where
  "number_caption cl t =
     (if is_lucky cl t then star @ '' LUCKY NUMBER''
      else if has_wallet t
      then (if owned_by (account cl) t then ''YOUR TICKET'' else short (wallet t))
      else ''Unassigned'')"

definition number_cell :: "app \<Rightarrow> Ticket \<Rightarrow> node" where
  "number_cell cl t =
     El ''div'' (number_class cl t)
       [El ''strong'' [] [Txt (padStart 2 (CHR ''0'') (show_int 10 (number t)))],
        El ''span'' [] [Txt (number_caption cl t)]]"

definition allocation_row :: "Ticket \<Rightarrow> node" where
  "allocation_row t =
     El ''tr'' []
       [El ''td'' [] [Txt (show_int 10 (number t))],
        El ''td'' ''address'' [Txt (or_opt (wallet t) ''Unassigned'')],
        El ''td'' [] [Txt (if refunded t then ''Claimed'' else em_dash)]]"

definition main_panel :: "lib \<Rightarrow> app \<Rightarrow> node list" where
  "main_panel L cl =
     [El ''article'' ''panel main-panel''
       ([El ''div'' ''panel-top''
           [El ''div'' []
              [El ''span'' ''eyebrow''
                 [Txt (if truthy (selectedID cl) then ''DRAW DETAILS'' else ''THE CURRENT ROUND'')],
               El ''h2'' [] [Txt (draw_title cl)]],
            El ''span''
              (''status '' @ (case draw cl of None \<Rightarrow> [] | Some d \<Rightarrow> toLowerCase (status d)))
              [Txt (case draw cl of None \<Rightarrow> ''Getting started'' | Some d \<Rightarrow> friendly (status d))]]] @
        render_if (truthy (selectedID cl))
          [Btn (arrow_left @ '' Back to current draw'') False (SelectDraw None)] @
        pool_panel L cl @ round_stats L cl @
        [El ''div'' ''allocation-heading''
           [El ''h3'' [] [Txt ''The number board''],
            El ''span'' [] [Txt (''10 possible numbers '' @ middle_dot @ '' 5 available tickets'')]],
         El ''div'' ''numbers'' (map (number_cell cl) (board_tickets cl)),
         El ''details'' ''allocation-table''
           [El ''summary'' [] [Txt ''View full ticket allocation''],
            El ''table'' []
              [El ''tr'' [] [Txt ''Number'', Txt ''Wallet'', Txt ''Refund''],
               El ''tbody'' []
                 (case draw cl of None \<Rightarrow> [] | Some d \<Rightarrow> map allocation_row (tickets d))]]])]"

section \<open>Entry and result\<close>

definition entry_button :: "app \<Rightarrow> node list" where
  "entry_button cl =
     (if account cl = [] then [Btn (''Connect wallet '' @ arrow_ne) (walletBusy cl) Connect]
      else [Btn ((if mine cl \<noteq> None then ''Ticket secured '' @ check_mark
                  else if eligible cl then ''Entry has closed'' else ''Buy one ticket'') @ arrow_ne)
              (\<not> canBuy cl \<or> is_busy cl) (Act Buy)])"

text \<open>The three secondary actions share their disabled condition.\<close>

definition cannot_act :: "app \<Rightarrow> bool" where
  "cannot_act cl \<longleftrightarrow> account cl = [] \<or> is_busy cl"

definition drawing_note :: "app \<Rightarrow> node list" where
  "drawing_note cl =
     [El ''div'' ''drawing''
       [El ''span'' ''spinner'' [],
        El ''p'' [] [Txt ''Waiting for the random result. This can take a few minutes.''],
        Btn ''Retry delivery of a ready result'' (cannot_act cl) (Act Finalize)]]"

definition entry_panel :: "lib \<Rightarrow> app \<Rightarrow> node list" where
  "entry_panel L cl =
     [El ''article'' ''panel entry-panel''
       ([El ''span'' ''eyebrow'' [Txt ''A LITTLE CHANCE, A BIG POSSIBILITY''],
         El ''h2'' []
           [Txt (case mine cl of
                Some t \<Rightarrow> ''You're in. No. '' @ show_int 10 (number t)
              | None \<Rightarrow> ''Make it your round.'')],
         El ''p'' []
           [Txt (if mine cl \<noteq> None
                 then ''Your ticket is recorded on-chain. Come back for the result.''
                 else ''One ticket per wallet. A unique number assigned when you enter.'')],
         El ''div'' ''price-row''
           [El ''span'' [] [Txt ''Your ticket''],
            El ''strong'' [] [Txt ''10 '', El ''small'' [] [Txt ''USD8'']]],
         El ''div'' ''balance-row''
           [El ''span'' [] [Txt ''Wallet balance''],
            El ''span'' []
              [Txt (if account cl \<noteq> [] then amount (formatUnits L) cl (balance cl) @ '' USD8''
                    else ''Connect to view'')]]] @
        entry_button cl @
        [El ''p'' ''fine-print''
           [Txt ''Only an allowance of 10 USD8 is requested.'', El ''br'' [] [],
            Txt ''Your wallet confirms every transaction.'']] @
        render_if (eligible cl)
          [Btn (''Perform lottery draw '' @ arrow_right) (cannot_act cl) (Act DrawRound)] @
        render_if (has_status cl ''DRAWING'') (drawing_note cl) @
        render_if (canStart cl)
          [Btn (''Start next draw '' @ arrow_right) (cannot_act cl) (Act Start)])]"

definition lucky_text :: "Draw \<Rightarrow> string" where
  "lucky_text d = (case luckyNumber d of None \<Rightarrow> [] | Some n \<Rightarrow> show_int 10 n)"

definition winner_result :: "lib \<Rightarrow> app \<Rightarrow> Draw \<Rightarrow> string \<Rightarrow> node list" where
  "winner_result L cl d w =
     [El ''h3'' [] [Txt (''Lucky number '' @ lucky_text d @ '' '' @ star)],
      El ''p'' [] [Txt ''Winner: '', El ''span'' ''address'' [Txt w]],
      El ''dl'' []
        [El ''dt'' [] [Txt ''Total pool''],
         El ''dd'' [] [Txt (amount (formatUnits L) cl (pool d) @ '' USD8'')],
         El ''dt'' [] [Txt ''DAO fee''],
         El ''dd'' [] [Txt (amount (formatUnits L) cl (daoFee d) @ '' USD8'')],
         El ''dt'' [] [Txt ''Winner receives''],
         El ''dd'' [] [Txt (amount (formatUnits L) cl (winnerPrize d) @ '' USD8'')]]] @
     render_if (isWinner cl)
       [Btn (if prizeClaimed d then ''Prize claimed '' @ check_mark
             else ''Claim your prize '' @ arrow_ne)
          (prizeClaimed d \<or> is_busy cl) (Act Prize)]"

definition no_winner_result :: "lib \<Rightarrow> app \<Rightarrow> Draw \<Rightarrow> node list" where
  "no_winner_result L cl d =
     [El ''h3'' [] [Txt ''No match this time.''],
      El ''p'' []
        [Txt (''Lucky number '' @ lucky_text d @ '' was unassigned. All '' @
              amount (formatUnits L) cl (rollover d) @ '' USD8 carries forward to the next draw.'')]] @
     render_if (draw_id d \<noteq> currentID cl)
       [Btn (''View the next/current draw '' @ arrow_right) False (SelectDraw None)]"

definition cancelled_result :: "lib \<Rightarrow> app \<Rightarrow> Draw \<Rightarrow> node list" where
  "cancelled_result L cl d =
     [El ''h3'' [] [Txt ''Everyone gets their ticket back.''],
      El ''p'' []
        [Txt (''The round ended below its minimum of '' @ show_int 10 (minimumParticipants d) @
              '' participants. Inherited rollover: '' @ amount (formatUnits L) cl (rollover d) @
              '' USD8.'')]] @
     (case mine cl of
        None \<Rightarrow> []
      | Some t \<Rightarrow>
          [Btn (if refunded t then ''Refund claimed '' @ check_mark
                else ''Claim refund '' @ em_dash @ '' 10 USD8'')
             (refunded t \<or> is_busy cl) (Act Refund)])"

definition rules_result :: "node list" where
  "rules_result =
     [El ''h3'' [] [Txt ''A fair shot. Every round.''],
      El ''p'' []
        [Txt (''The lucky number is chosen from 1'' @ en_dash @ ''10. No match? The entire pool rolls forward. Too few players? Your ticket is refundable.'')],
      El ''div'' ''rule-note''
        [Txt ''95% of net profit + your principal goes to the winner. 5% supports the DAO.'']]"

text \<open>The branches of the result panel, in the order of the source.\<close>

definition result_body :: "lib \<Rightarrow> app \<Rightarrow> node list" where
  "result_body L cl =
     (case draw cl of
        None \<Rightarrow> rules_result
      | Some d \<Rightarrow>
          (if truthy (winner d) then winner_result L cl d (the (winner d))
           else if status d = ''NO_WINNER'' then no_winner_result L cl d
           else if status d = ''CANCELLED'' then cancelled_result L cl d
           else rules_result))"

definition has_lucky :: "app \<Rightarrow> bool" where
  "has_lucky cl =
     (case Option.bind (draw cl) luckyNumber of None \<Rightarrow> False | Some n \<Rightarrow> n \<noteq> 0)"

definition result_panel :: "lib \<Rightarrow> app \<Rightarrow> node list" where
  "result_panel L cl =
     [El ''article'' ''panel result-panel''
       (El ''span'' ''eyebrow''
          [Txt (if has_lucky cl then ''THE RESULT IS IN'' else ''THE RULES ARE SIMPLE'')] #
        result_body L cl)]"

section \<open>History, footer and page\<close>

definition how_cards :: "node list" where
  "how_cards =
     [El ''section'' ''how''
       [El ''div'' []
          [El ''span'' [] [Txt ''01 / ENTER''],
           El ''h3'' [] [Txt ''Choose to take a chance.''],
           El ''p'' [] [Txt ''Connect your wallet, approve USD8, and buy one unique ticket.'']],
        El ''div'' []
          [El ''span'' [] [Txt ''02 / DRAW''],
           El ''h3'' [] [Txt ''Let the numbers decide.''],
           El ''p'' [] [Txt ''At five players or after 24 hours, anyone can trigger settlement.'']],
        El ''div'' []
          [El ''span'' [] [Txt ''03 / CLAIM''],
           El ''h3'' [] [Txt ''Your prize. Your wallet.''],
           El ''p'' [] [Txt ''Match the lucky number and claim your prize directly from the contract.'']]]]"

definition history_row :: "lib \<Rightarrow> app \<Rightarrow> Draw \<Rightarrow> node" where
  "history_row L cl d =
     El ''tr'' []
       [El ''td'' [] [Txt (''#'' @ padStart 3 (CHR ''0'') (draw_id d))],
        El ''td'' [] [El ''span'' ''history-status'' [Txt (friendly (status d))]],
        El ''td'' []
          [Txt (case luckyNumber d of None \<Rightarrow> em_dash | Some n \<Rightarrow> show_int 10 n)],
        El ''td'' [] [Txt (short (winner d))],
        El ''td'' [] [Txt (amount (formatUnits L) cl (pool d))],
        El ''td'' [] [Txt (amount (formatUnits L) cl (daoFee d))],
        El ''td'' [] [Txt (amount (formatUnits L) cl (winnerPrize d))],
        El ''td'' []
          [Txt (case finalizedAt d of
               Some f \<Rightarrow> if f \<noteq> 0 then toLocaleDateString L (f * 1000) else em_dash
             | None \<Rightarrow> em_dash)],
        El ''td'' [] [Btn (''View '' @ arrow_right) False (SelectDraw (Some (draw_id d)))]]"

definition history_heads :: "string list" where
  "history_heads =
     [''Draw'', ''Result'', ''Lucky number'', ''Winner'', ''Pool'', ''DAO fee'', ''Winner prize'',
      ''Settled'']"

definition history_panel :: "lib \<Rightarrow> app \<Rightarrow> node list" where
  "history_panel L cl =
     [El ''section'' ''panel history''
       ([El ''div'' ''panel-top''
           [El ''span'' ''eyebrow'' [Txt ''EVERY ROUND LEAVES A RECORD''],
            El ''h2'' [] [Txt ''Past draws''],
            Btn (''Refresh '' @ clockwise) (historyBusy cl) ReloadHistory]] @
        render_if (historyError cl \<noteq> []) [El ''p'' ''error-text'' [Txt (historyError cl)]] @
        [El ''div'' ''table-wrap''
           ([El ''table'' []
               [El ''thead'' [] (map (\<lambda>h. El ''th'' [] [Txt h]) history_heads),
                El ''tbody'' [] (map (history_row L cl) (history cl))]] @
            render_if (history cl = [])
              [El ''div'' ''empty''
                [El ''span'' [] [Txt anticlockwise],
                 El ''h3'' [] [Txt ''The first story is still being written.''],
                 El ''p'' []
                   [Txt ''Completed, cancelled, and rolled-over rounds will appear here.'']]])] @
        render_if (truthy (cursor cl))
          [Btn ''Load older draws'' (historyBusy cl) (LoadOlder (the (cursor cl)))])]"

definition footer :: "app \<Rightarrow> node list" where
  "footer cl =
     [El ''footer'' []
       [El ''a'' ''brand'' [Txt ''DLottery'', Txt star],
        El ''span'' [] [Txt ''Transparent by design. Settled on-chain.''],
        El ''span'' ''sync-state''
          [El ''i'' (''live-dot '' @ (if syncing cl then ''amber'' else [])) [],
           Txt (if syncing cl then ''History synchronizing''
                else ''Indexed through block '' @
                     (case sync cl of None \<Rightarrow> [] | Some r \<Rightarrow> show_int 10 (indexedBlock r))),
           Txt '' '',
           Txt (case config cl of None \<Rightarrow> [] | Some c \<Rightarrow> middle_dot @ '' Chain '' @ chainId c)]]]"

definition contract_note :: "app \<Rightarrow> node list" where
  "contract_note cl =
     (case config cl of
        None \<Rightarrow> []
      | Some c \<Rightarrow>
          [El ''div'' ''contract-note''
            ([Txt ''Lottery '', El ''code'' [] [Txt (lotteryAddress c)],
              Txt ('' '' @ middle_dot @ '' USD8 ''), El ''code'' [] [Txt (tokenAddress c)]] @
             render_if (chainId c = ''31337'' \<or> chainId c = ''1337'')
               [El ''strong'' []
                 [Txt ('' '' @ middle_dot @ '' Local demonstration '' @ middle_dot @
                       '' mock randomness'')]])])"

text \<open>The whole page.\<close>

definition page :: "build \<Rightarrow> lib \<Rightarrow> question list \<Rightarrow> string \<Rightarrow> app \<Rightarrow> node list" where
  "page b L questions language cl =
     header cl @ intro @ messages b cl @ main_panel L cl @ entry_panel L cl @ result_panel L cl @
     how_cards @ history_panel L cl @ Help questions language @
     (case config cl of None \<Rightarrow> [] | Some c \<Rightarrow> transactions_panel c (account cl)) @
     footer cl @ contract_note cl"

section \<open>Handlers\<close>

text \<open>The program each control starts; \<open>cl\<close> is the render's snapshot.\<close>

fun handler :: "build \<Rightarrow> app \<Rightarrow> click \<Rightarrow> (app, unit) prog" where
  "handler b cl OpenWallet = openWallet cl"
| "handler b cl CloseMenu = update (\<lambda>s. s\<lparr>walletOpen := False\<rparr>)"
| "handler b cl (ChooseAccount a) = update (choose_account a)"
| "handler b cl Connect = connect False"
| "handler b cl ConnectAnother = connect True"
| "handler b cl (Act k) = action b cl k"
| "handler b cl RetryRefresh = refresh b cl"
| "handler b cl (SelectDraw i) = update (selectDraw i)"
| "handler b cl ReloadHistory = loadHistory b cl None"
| "handler b cl (LoadOlder c) = loadHistory b cl (Some c)"
| "handler b cl SubmitLookup = Ret ()"
| "handler b cl (SetLanguage l) = Ret ()"

end
