(* ===== verification/Session.thy ===== *)
theory Session
  imports View Purchase "HOL-Library.Multiset"
begin

text \<open>
  The page as a running program: the state, the last rendered snapshot, and the handlers that are
  waiting for an answer. Each step of the event loop starts a handler or resumes one with an answer
  and runs it to its next await, commits a render with its effects, or changes the browser. What
  holds in every reachable session is proved by rule induction.
\<close>

section \<open>Running to the next await\<close>

primrec advance :: "('s, 'a) prog \<Rightarrow> 's \<Rightarrow> ('s, 'a) prog \<times> 's" where
  "advance (Ret a) s = (Ret a, s)"
| "advance (Throw e) s = (Throw e, s)"
| "advance (Get k) s = advance (k s) s"
| "advance (Upd u p) s = advance p (u s)"
| "advance (Await q k) s = (Await q k, s)"

lemma advance_cost: "cost w p n \<Longrightarrow> cost w (fst (advance p s)) n"
  by (induction p arbitrary: s) auto

lemma advance_keeps: "keeps f p \<Longrightarrow> keeps f (fst (advance p s)) \<and> f (snd (advance p s)) = f s"
  by (induction p arbitrary: s) auto

lemma advance_maintains:
  "maintains I p \<Longrightarrow> I s \<Longrightarrow> maintains I (fst (advance p s)) \<and> I (snd (advance p s))"
  by (induction p arbitrary: s) auto

lemma advance_is_end: "is_end p \<Longrightarrow> advance p s = (p, s)"
  by (cases p) auto

lemma advance_holds:
  "holds_flag f p \<Longrightarrow>
     (holds_flag f (fst (advance p s)) \<and> f (snd (advance p s)) = f s) \<or>
     (is_end (fst (advance p s)) \<and> \<not> f (snd (advance p s)))"
proof (induction p arbitrary: s)
  case (Upd u p)
  then consider "\<forall>s. f (u s) = f s" "holds_flag f p" | "\<forall>s. \<not> f (u s)" "is_end p" by auto
  then show ?case
  proof cases
    case 1
    then show ?thesis using Upd.IH [of "u s"] by simp
  next
    case 2
    then show ?thesis by (simp add: advance_is_end)
  qed
qed auto

text \<open>A program that never touches a flag that can be set does not hold it.\<close>

lemma keeps_not_holds: "keeps f p \<Longrightarrow> f s \<Longrightarrow> \<not> holds_flag f p"
proof (induction p)
  case (Get k)
  then show ?case by (auto intro: Get.IH [of s])
next
  case (Upd u p)
  then have "f (u s)" by simp
  then show ?case using Upd by auto
qed auto

lemma holds_flag_final:
  "holds_flag f p \<Longrightarrow> finished (outcome p env s) \<Longrightarrow> \<not> f (final p env s)"
proof (induction p arbitrary: env s)
  case (Upd u p)
  then consider "holds_flag f p" | "\<forall>s. \<not> f (u s)" "is_end p" by auto
  then show ?case
  proof cases
    case 1
    then show ?thesis using Upd by simp
  next
    case 2
    then show ?thesis by (cases p) auto
  qed
next
  case (Await q k)
  then show ?case by (cases env) auto
qed auto

section \<open>The event loop\<close>

record session =
  st :: app
  shown :: app
  threads :: "(app, unit) prog multiset"

definition waiting :: "('s, 'a) prog \<Rightarrow> ('s, 'a) prog multiset" where
  "waiting p = (if is_end p then {#} else {#p#})"

text \<open>A handler starts, or resumes, and runs until it waits or ends.\<close>

definition start :: "(app, unit) prog \<Rightarrow> session \<Rightarrow> session" where
  "start p \<sigma> =
     \<sigma>\<lparr>st := snd (advance p (st \<sigma>)), threads := threads \<sigma> + waiting (fst (advance p (st \<sigma>)))\<rparr>"

definition timers :: "build \<Rightarrow> app \<Rightarrow> (app, unit) prog list" where
  "timers b cl = [config_tick b, refresh_tick b cl, history_tick b cl, update clock_tick]"

definition mount_effects :: "build \<Rightarrow> app \<Rightarrow> (app, unit) prog list" where
  "mount_effects b cl =
     [load b, init_accounts, init_chain, refresh_effect b cl, history_effect b cl]"

definition mount :: "build \<Rightarrow> bool \<Rightarrow> int \<Rightarrow> session" where
  "mount b eth ms =
     fold start (mount_effects b (initial_app eth ms))
       \<lparr>st = initial_app eth ms, shown = initial_app eth ms, threads = {#}\<rparr>"

definition render :: "build \<Rightarrow> session \<Rightarrow> session" where
  "render b \<sigma> = fold start (effects_after b (shown \<sigma>) (st \<sigma>)) (\<sigma>\<lparr>shown := st \<sigma>\<rparr>)"

inductive step ::
  "build \<Rightarrow> lib \<Rightarrow> question list \<Rightarrow> string \<Rightarrow> session \<Rightarrow> session \<Rightarrow> bool"
  for b :: build and L :: lib and qs :: "question list" and lang :: string where
  click: "enabled (page b L qs lang (shown \<sigma>)) k \<Longrightarrow>
    step b L qs lang \<sigma> (start (handler b (shown \<sigma>) k) \<sigma>)"
| timer: "p \<in> set (timers b (shown \<sigma>)) \<Longrightarrow> step b L qs lang \<sigma> (start p \<sigma>)"
| accounts: "step b L qs lang \<sigma> (start (update (accountsChanged args)) \<sigma>)"
| chain: "step b L qs lang \<sigma> (start (chainChanged x) \<sigma>)"
| answer: "threads \<sigma> = add_mset (Await q k) rest \<Longrightarrow>
    step b L qs lang \<sigma> (start (k r) (\<sigma>\<lparr>threads := rest\<rparr>))"
| commit: "step b L qs lang \<sigma> (render b \<sigma>)"
| browser: "step b L qs lang \<sigma> (\<sigma>\<lparr>st := (st \<sigma>)\<lparr>ethereum := eth, date_now := ms\<rparr>\<rparr>)"
| unmount: "step b L qs lang \<sigma> (\<sigma>\<lparr>st := config_cleanup (st \<sigma>)\<rparr>)"

inductive reachable :: "build \<Rightarrow> lib \<Rightarrow> question list \<Rightarrow> string \<Rightarrow> session \<Rightarrow> bool"
  for b :: build and L :: lib and qs :: "question list" and lang :: string where
  mounted: "reachable b L qs lang (mount b eth ms)"
| stepped: "reachable b L qs lang \<sigma> \<Longrightarrow> step b L qs lang \<sigma> \<tau> \<Longrightarrow> reachable b L qs lang \<tau>"

inductive_cases stepE: "step b L qs lang \<sigma> \<tau>"

section \<open>Programs that respect the wallet reference\<close>

text \<open>
  Outside the wallet flows a program neither touches \<^verbatim>\<open>pending\<close> nor sends a transaction; a wallet
  flow, once started, holds the reference until its last update and has at most 31 awaits.
\<close>

definition outsider :: "(app, unit) prog \<Rightarrow> bool" where
  "outsider p \<longleftrightarrow> keeps pending p \<and> cost each_send p 0"

definition owner :: "(app, unit) prog \<Rightarrow> bool" where
  "owner p \<longleftrightarrow> holds_flag pending p \<and> cost each_await p 31"

text \<open>A handler is polite when, in every state, it acts as an outsider or takes the free reference.\<close>

definition polite :: "(app, unit) prog \<Rightarrow> bool" where
  "polite p \<longleftrightarrow>
     (\<forall>s. (outsider (fst (advance p s)) \<and> pending (snd (advance p s)) = pending s) \<or>
          (\<not> pending s \<and> pending (snd (advance p s)) \<and> owner (fst (advance p s))))"

definition consistent :: "app \<Rightarrow> bool" where
  "consistent s \<longleftrightarrow> account s = selectedAccount s"

lemma outsider_polite: "outsider p \<Longrightarrow> polite p"
  by (simp add: polite_def outsider_def advance_keeps advance_cost)

lemma outsiderI: "keeps pending p \<Longrightarrow> cost each_send p 0 \<Longrightarrow> outsider p"
  by (simp add: outsider_def)

lemma holds_not_outsider: "outsider p \<Longrightarrow> \<not> holds_flag pending p"
  using keeps_not_holds [of pending p "begin_action s" for s]
  by (auto simp: outsider_def begin_action_def)

context busy_flag
begin

lemma acquires:
  assumes "keeps flag (body s)"
  shows "(is_end (fst (advance (guarded flag acquire body release) s)) \<and>
      flag (snd (advance (guarded flag acquire body release) s)) = flag s) \<or>
    (\<not> flag s \<and> flag (snd (advance (guarded flag acquire body release) s)) \<and>
      holds_flag flag (fst (advance (guarded flag acquire body release) s)))"
proof (cases "flag s")
  case True
  then show ?thesis by (simp add: guarded_def)
next
  case False
  have "holds_flag flag (finally_do (body s) release)" using assms by (rule holds)
  from advance_holds [OF this, of "acquire s"] False show ?thesis
    by (auto simp: guarded_def acquire_sets)
qed

end

lemma is_end_outsider: "is_end p \<Longrightarrow> outsider p"
  by (cases p) (simp_all add: outsider_def)

lemma guarded_polite:
  assumes "busy_flag pending acq rel" and "\<And>s. keeps pending (body s)"
    and "\<And>s. cost each_await (body s) 31"
  shows "polite (guarded pending acq body rel)"
proof -
  have "cost each_await (guarded pending acq body rel) 31"
    by (simp add: guarded_def assms(3) cost_finally)
  then show ?thesis
    using busy_flag.acquires [OF assms(1), of body] assms(2)
    by (auto simp: polite_def owner_def advance_cost intro: is_end_outsider)
qed

lemma politeI:
  assumes "\<And>s. \<exists>q. polite q \<and> advance p s = advance q s"
  shows "polite p"
  unfolding polite_def
proof
  fix s
  obtain q where "polite q" and "advance p s = advance q s" using assms by blast
  then show "(outsider (fst (advance p s)) \<and> pending (snd (advance p s)) = pending s) \<or>
      (\<not> pending s \<and> pending (snd (advance p s)) \<and> owner (fst (advance p s)))"
    unfolding polite_def by metis
qed

lemma polite_Ret [simp]: "polite (Ret a)"
  by (simp add: polite_def outsider_def)

text \<open>Every handler is polite.\<close>

lemma polite_action: "polite (action b cl kind)"
proof (cases "config cl")
  case None
  then show ?thesis by (simp add: action_def polite_def outsider_def)
next
  case (Some c)
  show ?thesis
    unfolding action_guarded [OF Some]
    by (rule guarded_polite [OF action_flow.busy_flag_axioms pending_action_body awaits_action_body])
qed

lemma awaits_connect_body: "cost each_await (connect_body m) 31"
  unfolding connect_body_def
  by (auto intro!: cost_0_catch cost_seqI [of _ _ 1] cost_bind_await)

lemma polite_connect: "polite (connect m)"
proof (rule politeI)
  fix s :: app
  let ?flow = "guarded pending begin_connect (\<lambda>_. connect_body m) end_connect"
  have flow: "polite ?flow"
    by (rule guarded_polite [OF connect_flow.busy_flag_axioms pending_connect_body awaits_connect_body])
  have msg: "polite (update (\<lambda>s. s\<lparr>error := t\<rparr>))" for t
    by (intro outsider_polite outsiderI) (auto intro!: keeps_intros)
  consider "pending s" | "\<not> pending s" "ethereum s" | "\<not> pending s" "\<not> ethereum s" by blast
  then show "\<exists>q. polite q \<and> advance (connect m) s = advance q s"
  proof cases
    case 1
    then show ?thesis by (intro exI [of _ "Ret ()"]) (simp add: connect_def)
  next
    case 2
    then show ?thesis using flow by (intro exI [of _ ?flow]) (simp add: connect_def guarded_def)
  next
    case 3
    then show ?thesis
      using msg by (intro exI [of _ "update (\<lambda>s. s\<lparr>error := t\<rparr>)" for t]) (simp add: connect_def)
  qed
qed

lemma outsider_update: "(\<And>s. pending (u s) = pending s) \<Longrightarrow> outsider (update u)"
  by (simp add: outsider_def keeps_update)

lemma outsider_refresh: "outsider (refresh b cl)"
  by (intro outsiderI pending_refresh sends_refresh)

lemma outsider_history: "outsider (loadHistory b cl nxt)"
  by (intro outsiderI pending_loadHistory sends_loadHistory)

lemma outsider_load: "outsider (load b)"
proof (intro outsiderI pending_load)
  show "cost each_send (load b) 0"
    unfolding load_def
    by (auto intro!: cost_0_catch cost_bindI [OF cost_bindI [OF sends_api]])
qed

lemma outsider_init: "outsider init_accounts" "outsider init_chain"
  unfolding init_accounts_def init_chain_def outsider_def chainChanged_def
  by (auto simp: state_defs intro!: keeps_intros cost_0_catch cost_bind_await cost_bindI [of _ "chain_text _" 0])

lemma outsider_chainChanged: "outsider (chainChanged x)"
  unfolding chainChanged_def outsider_def
  by (auto intro!: keeps_intros cost_bindI [of _ "chain_text _" 0])

lemma polite_openWallet: "polite (openWallet cl)"
proof (rule politeI)
  fix s :: app
  let ?ask = "Upd (\<lambda>s. s\<lparr>walletOpen := \<not> walletOpen cl, walletError := []\<rparr>)
     (if \<not> walletOpen cl \<and> ethereum s
      then catch (bind (await as_strs (Wallet eth_accounts)) (\<lambda>accounts. update (reconcile_accounts accounts)))
        (\<lambda>e. update (\<lambda>s. s\<lparr>walletError := message e\<rparr>))
      else Ret ())"
  have "outsider ?ask"
    by (auto simp: outsider_def state_defs intro!: keeps_intros cost_0_catch cost_bind_await split: if_splits)
  then have "polite ?ask" by (rule outsider_polite)
  then have "polite (if pending s then Ret () else if account cl = [] then connect False else ?ask)"
    using polite_connect by simp
  then show "\<exists>q. polite q \<and> advance (openWallet cl) s = advance q s"
    unfolding openWallet_def advance.simps by blast
qed

lemma polite_handler: "polite (handler b cl k)"
proof (cases k)
  case (SelectDraw i)
  then show ?thesis by (auto simp: selectDraw_def intro!: outsider_polite outsider_update)
next
  case (ChooseAccount a)
  then show ?thesis by (auto simp: state_defs intro!: outsider_polite outsider_update)
next
  case CloseMenu
  then show ?thesis by (auto intro!: outsider_polite outsider_update)
qed (auto intro: polite_action polite_connect polite_openWallet outsider_polite [OF outsider_refresh]
  outsider_polite [OF outsider_history])

lemma outsider_effects: "p \<in> set (effects_after b old cl) \<Longrightarrow> outsider p"
  using outsider_refresh [of b cl] outsider_history [of b cl]
  by (auto simp: effects_after_def refresh_effect_def history_effect_def outsider_def split: if_splits)

lemma outsider_mount: "p \<in> set (mount_effects b cl) \<Longrightarrow> outsider p"
  using outsider_refresh [of b cl] outsider_history [of b cl] outsider_load outsider_init
  by (auto simp: mount_effects_def refresh_effect_def history_effect_def outsider_def)

lemma outsider_timers: "p \<in> set (timers b cl) \<Longrightarrow> outsider p"
  using outsider_refresh [of b cl] outsider_history [of b cl] outsider_load [of b]
    outsider_update [of clock_tick]
  by (auto simp: timers_def config_tick_def refresh_tick_def history_tick_def clock_tick_def outsider_def)

section \<open>The account reference\<close>

lemma consistent_select [simp]: "consistent (selectAccount a s)"
  by (simp add: consistent_def selectAccount_def)

lemmas consistent_state = consistent_def state_defs

lemma consistent_load: "maintains consistent (load b)"
  unfolding load_def by (auto intro!: maintains_intros simp: consistent_state)

lemma consistent_loadHistory [maintains_intros]: "maintains consistent (loadHistory b cl nxt)"
  unfolding loadHistory_def by (auto intro!: maintains_intros simp: consistent_state)

lemma consistent_load_sync [maintains_intros]: "maintains consistent (load_sync b)"
  unfolding load_sync_def by (auto intro!: maintains_intros simp: consistent_state)

lemma consistent_refresh [maintains_intros]: "maintains consistent (refresh b cl)"
  unfolding refresh_def refresh_body_def
  by (auto intro!: maintains_intros simp: consistent_state split: option.split)

lemma consistent_send [maintains_intros]: "maintains consistent (send sg ct call l)"
  unfolding send_def by (auto intro!: maintains_intros simp: consistent_state)

lemma consistent_notice [maintains_intros]: "maintains consistent (set_notice t)"
  unfolding set_notice_def by (auto intro!: maintains_intros simp: consistent_state)

lemma consistent_dispatch [maintains_intros]: "maintains consistent (dispatch b cl c w i kind)"
  unfolding dispatch_def act_mint_def act_buy_def buy_rest_def ensure_allowance_def act_draw_def
  by (cases kind) (auto intro!: maintains_intros simp: consistent_state split: option.split)

lemma consistent_action: "maintains consistent (action b cl kind)"
  unfolding action_def action_body_def
  by (auto intro!: maintains_intros simp: consistent_state split: option.split)

lemma consistent_chainChanged [maintains_intros]: "maintains consistent (chainChanged x)"
  unfolding chainChanged_def by (auto intro!: maintains_intros simp: consistent_state)

lemma consistent_connect: "maintains consistent (connect m)"
  unfolding connect_def connect_body_def
  by (auto intro!: maintains_intros simp: consistent_state)

lemma consistent_openWallet: "maintains consistent (openWallet cl)"
  unfolding openWallet_def
  by (auto intro!: maintains_intros consistent_connect simp: consistent_state split: if_splits)

lemma consistent_handler: "maintains consistent (handler b cl k)"
  by (cases k)
     (auto intro!: maintains_intros consistent_action consistent_connect consistent_openWallet
      simp: consistent_state)

lemma consistent_effects:
  "p \<in> set (effects_after b old cl) \<Longrightarrow> maintains consistent p"
  "p \<in> set (mount_effects b cl) \<Longrightarrow> maintains consistent p"
  "p \<in> set (timers b cl) \<Longrightarrow> maintains consistent p"
  by (auto simp: effects_after_def mount_effects_def timers_def refresh_effect_def history_effect_def
      config_tick_def refresh_tick_def history_tick_def init_accounts_def init_chain_def consistent_state
      intro!: maintains_intros consistent_load split: if_splits)

section \<open>The invariant of a session\<close>

definition session_ok :: "session \<Rightarrow> bool" where
  "session_ok \<sigma> \<longleftrightarrow>
     consistent (st \<sigma>) \<and>
     (\<forall>p \<in># threads \<sigma>. maintains consistent p \<and> (outsider p \<or> owner p)) \<and>
     size (filter_mset (holds_flag pending) (threads \<sigma>)) = (if pending (st \<sigma>) then 1 else 0)"

lemma holders_waiting_outsider:
  "outsider p \<Longrightarrow> filter_mset (holds_flag pending) (waiting p) = {#}"
  by (simp add: waiting_def holds_not_outsider)

lemma session_ok_start:
  assumes "session_ok \<sigma>" and "polite p" and "maintains consistent p"
  shows "session_ok (start p \<sigma>)"
proof -
  let ?p = "fst (advance p (st \<sigma>))" and ?s = "snd (advance p (st \<sigma>))"
  have m: "maintains consistent ?p" "consistent ?s"
    using advance_maintains [OF assms(3)] assms(1) by (auto simp: session_ok_def)
  consider "outsider ?p" "pending ?s = pending (st \<sigma>)"
    | "\<not> pending (st \<sigma>)" "pending ?s" "owner ?p" "holds_flag pending ?p"
    using assms(2) by (auto simp: polite_def owner_def)
  then show ?thesis
  proof cases
    case 1
    then show ?thesis
      using assms(1) m
      by (auto simp: session_ok_def start_def holders_waiting_outsider) (auto simp: waiting_def split: if_splits)
  next
    case 2
    have "waiting ?p = {#?p#}" using 2(4) by (cases ?p) (simp_all add: waiting_def)
    then show ?thesis using assms(1) m 2 by (auto simp: session_ok_def start_def)
  qed
qed

lemma session_ok_fold:
  "session_ok \<sigma> \<Longrightarrow> (\<And>p. p \<in> set ps \<Longrightarrow> polite p \<and> maintains consistent p) \<Longrightarrow> session_ok (fold start ps \<sigma>)"
  by (induction ps arbitrary: \<sigma>) (auto intro!: session_ok_start)

text \<open>Resuming a waiting handler.\<close>

lemma session_ok_answer:
  assumes "session_ok \<sigma>" and "threads \<sigma> = add_mset (Await q k) rest"
  shows "session_ok (start (k r) (\<sigma>\<lparr>threads := rest\<rparr>))"
proof -
  have m: "maintains consistent (k r)" and c: "outsider (Await q k) \<or> owner (Await q k)"
    using assms by (auto simp: session_ok_def)
  from c show ?thesis
  proof
    assume o: "outsider (Await q k)"
    then have "session_ok (\<sigma>\<lparr>threads := rest\<rparr>)"
      using assms holds_not_outsider [OF o] by (auto simp: session_ok_def simp del: holds_flag.simps)
    moreover have "outsider (k r)" using o by (simp add: outsider_def)
    ultimately show ?thesis using m by (intro session_ok_start outsider_polite)
  next
    assume o: "owner (Await q k)"
    let ?p = "fst (advance (k r) (st \<sigma>))" and ?s = "snd (advance (k r) (st \<sigma>))"
    have h: "holds_flag pending (Await q k)" "holds_flag pending (k r)" using o by (auto simp: owner_def)
    then have free: "pending (st \<sigma>)" "filter_mset (holds_flag pending) rest = {#}"
      using assms by (auto simp: session_ok_def split: if_splits)
    have cost: "cost each_await ?p 31"
      using o by (intro advance_cost) (auto simp: owner_def intro: cost_mono)
    have cons: "maintains consistent ?p" "consistent ?s"
      using advance_maintains [OF m] assms(1) by (auto simp: session_ok_def)
    have others: "\<forall>p \<in># rest. maintains consistent p \<and> (outsider p \<or> owner p)"
      using assms by (auto simp: session_ok_def)
    from advance_holds [OF h(2), of "st \<sigma>"] show ?thesis
    proof
      assume a: "holds_flag pending ?p \<and> pending ?s = pending (st \<sigma>)"
      then have "waiting ?p = {#?p#}" by (cases ?p) (simp_all add: waiting_def)
      then show ?thesis using a free cost cons others by (auto simp: session_ok_def start_def owner_def)
    next
      assume a: "is_end ?p \<and> \<not> pending ?s"
      then show ?thesis using free cons others by (auto simp: session_ok_def start_def waiting_def)
    qed
  qed
qed

lemma session_ok_step:
  assumes "step b L qs lang \<sigma> \<tau>" and "session_ok \<sigma>"
  shows "session_ok \<tau>"
  using assms(1)
proof (cases rule: step.cases)
  case (click k)
  then show ?thesis using assms(2) by (simp add: session_ok_start polite_handler consistent_handler)
next
  case (timer p)
  then show ?thesis
    using assms(2) by (simp add: session_ok_start outsider_polite outsider_timers consistent_effects)
next
  case (accounts args)
  have "outsider (update (accountsChanged args))" by (rule outsider_update) (simp add: state_defs)
  moreover have "maintains consistent (update (accountsChanged args))"
    by (auto intro!: maintains_intros simp: consistent_state)
  ultimately show ?thesis using accounts assms(2) by (simp add: session_ok_start outsider_polite)
next
  case (chain x)
  then show ?thesis
    using assms(2) by (simp add: session_ok_start outsider_polite outsider_chainChanged consistent_chainChanged)
next
  case (answer q k rest r)
  then show ?thesis using session_ok_answer [OF assms(2)] by simp
next
  case commit
  have "session_ok (\<sigma>\<lparr>shown := st \<sigma>\<rparr>)" using assms(2) by (simp add: session_ok_def)
  then show ?thesis
    unfolding commit render_def
    by (rule session_ok_fold) (auto intro: outsider_polite outsider_effects consistent_effects)
qed (use assms(2) in \<open>auto simp: session_ok_def consistent_state\<close>)

lemma reachable_ok: "reachable b L qs lang \<sigma> \<Longrightarrow> session_ok \<sigma>"
proof (induction rule: reachable.induct)
  case (mounted eth ms)
  show ?case
    unfolding mount_def
    by (rule session_ok_fold)
       (auto simp: session_ok_def consistent_state initial_app_def
        intro: outsider_polite outsider_mount consistent_effects)
next
  case (stepped \<sigma> \<tau>)
  then show ?case by (blast intro: session_ok_step)
qed

section \<open>Properties of every reachable session\<close>

text \<open>In every reachable session the account shown is the account the purchase compares with: the
  state cell and the reference never diverge between two steps.\<close>

theorem account_is_selected:
  assumes "reachable b L qs lang \<sigma>"
  shows "account (st \<sigma>) = selectedAccount (st \<sigma>)"
  using reachable_ok [OF assms] by (simp add: session_ok_def consistent_def)

fun at_wallet :: "(app, unit) prog \<Rightarrow> bool" where
  "at_wallet (Await q k) \<longleftrightarrow> each_send q = 1"
| "at_wallet _ \<longleftrightarrow> False"

lemma at_wallet_not_outsider: "outsider p \<Longrightarrow> \<not> at_wallet p"
  by (cases p rule: at_wallet.cases) (auto simp: outsider_def)

text \<open>A concrete session: the page is opened and the visitor clicks \<^verbatim>\<open>Connect wallet\<close>.\<close>

definition sample_lib :: lib where
  "sample_lib = \<lparr>formatUnits = (\<lambda>v n. v), toLocaleString = (\<lambda>n. []), toLocaleDateString = (\<lambda>n. [])\<rparr>"

definition sample_session :: session where
  "sample_session =
     start (handler sample_build (initial_app True 0) Connect) (mount sample_build True 0)"

lemma sample_reachable: "reachable sample_build sample_lib [] [] sample_session"
proof -
  have "shown (mount sample_build True 0) = initial_app True 0"
    by (simp add: mount_def mount_effects_def start_def)
  moreover have "enabled (page sample_build sample_lib [] [] (initial_app True 0)) Connect"
    by (simp add: page_def header_def messages_def main_panel_def entry_panel_def entry_button_def
        initial_app_def)
  ultimately show ?thesis
    unfolding sample_session_def by (metis reachable.mounted reachable.stepped step.click)
qed

lemma sample_pending: "pending (st sample_session)"
  by (simp add: sample_session_def start_def mount_def mount_effects_def load_def api_def await_def
      init_accounts_def init_chain_def refresh_effect_def history_effect_def refresh_def loadHistory_def
      initial_app_def connect_def connect_body_def begin_connect_def seq_def)

theorem account_is_selected_witness:
  "account (st sample_session) = selectedAccount (st sample_session)"
  by (rule account_is_selected [OF sample_reachable])

lemma size_filter_mono:
  "(\<And>x. x \<in># M \<Longrightarrow> P x \<Longrightarrow> Q x) \<Longrightarrow> size (filter_mset P M) \<le> size (filter_mset Q M)"
  by (induction M) (auto intro: le_SucI)

text \<open>C12: However clicks, timers, wallet events and answers interleave, at most one transaction request is
  ever outstanding at the wallet, and none while no wallet flow holds the reference.\<close>

theorem one_transaction_outstanding:
  assumes "reachable b L qs lang \<sigma>"
  shows "size (filter_mset at_wallet (threads \<sigma>)) \<le> (if pending (st \<sigma>) then 1 else 0)"
proof -
  have "holds_flag pending p" if "p \<in># threads \<sigma>" "at_wallet p" for p
    using reachable_ok [OF assms] that at_wallet_not_outsider by (auto simp: session_ok_def owner_def)
  then have "size (filter_mset at_wallet (threads \<sigma>)) \<le> size (filter_mset (holds_flag pending) (threads \<sigma>))"
    by (rule size_filter_mono)
  then show ?thesis
    using reachable_ok [OF assms] by (auto simp: session_ok_def)
qed

theorem one_transaction_outstanding_witness:
  "size (filter_mset at_wallet (threads sample_session)) \<le> 1"
  using one_transaction_outstanding [OF sample_reachable] sample_pending by simp

text \<open>C13: The page cannot lock up: whenever the wallet reference is held, a waiting handler holds it, and
  after at most 31 more answers to that handler, whatever they are, the reference is free.\<close>

theorem wallet_reference_is_released:
  assumes "reachable b L qs lang \<sigma>" and "pending (st \<sigma>)"
  shows "\<exists>p. p \<in># threads \<sigma> \<and>
    (\<forall>env s. 31 \<le> length env \<longrightarrow> finished (outcome p env s) \<and> \<not> pending (final p env s))"
proof -
  have "size (filter_mset (holds_flag pending) (threads \<sigma>)) = 1"
    using reachable_ok [OF assms(1)] assms(2) by (simp add: session_ok_def)
  then obtain p where "filter_mset (holds_flag pending) (threads \<sigma>) = {#p#}"
    using size_1_singleton_mset by blast
  then have "p \<in># filter_mset (holds_flag pending) (threads \<sigma>)" by simp
  then have p: "p \<in># threads \<sigma>" "holds_flag pending p" by simp_all
  have "\<not> outsider p" using p(2) holds_not_outsider by blast
  then have "owner p" using reachable_ok [OF assms(1)] p(1) by (auto simp: session_ok_def)
  then have "finished (outcome p env s)" if "31 \<le> length env" for env s
    using that by (auto simp: owner_def intro: cost_finished)
  then have "\<forall>env s. 31 \<le> length env \<longrightarrow> finished (outcome p env s) \<and> \<not> pending (final p env s)"
    by (simp add: holds_flag_final [OF p(2)])
  with p(1) show ?thesis by (intro exI conjI)
qed

theorem wallet_reference_is_released_witness:
  "\<exists>p. p \<in># threads sample_session \<and>
    (\<forall>env s. 31 \<le> length env \<longrightarrow> finished (outcome p env s) \<and> \<not> pending (final p env s))"
  by (rule wallet_reference_is_released [OF sample_reachable sample_pending])

end
