(* ===== verification/Lottery.thy ===== *)
theory Lottery
  imports Types
begin

text \<open>
  The contract \<^verbatim>\<open>contracts/src/DLottery.sol\<close>. Unsigned integers are naturals with the checks and
  truncations of Solidity 0.8 written out; mappings are total functions with the default value;
  a revert is \<^const>\<open>Inl\<close>. The token and the randomness provider are code the contract is deployed
  with: they are records of functions over a state type of their own, and an external call may call
  back into the contract before it returns.
\<close>

section \<open>Results\<close>

datatype error =
    InvalidConfiguration
  | InvalidDraw
  | InvalidState
  | NotEligible
  | AlreadyParticipated
  | TicketsClosed
  | WrongPaymentAmount
  | NotClaimable
  | Unauthorized
  | Reentrant
  | Panic
  | ExternalRevert

type_synonym 'a result = "error + 'a"

definition andThen :: "'a result \<Rightarrow> ('a \<Rightarrow> 'b result) \<Rightarrow> 'b result" where
  "andThen r f = (case r of Inl e \<Rightarrow> Inl e | Inr a \<Rightarrow> f a)"

text \<open>Checked arithmetic: a sum or product that does not fit \<open>n\<close> bits panics.\<close>

definition checked :: "nat \<Rightarrow> nat \<Rightarrow> nat result" where
  "checked n x = (if x < 2 ^ n then Inr x else Inl Panic)"

definition checked_sub :: "nat \<Rightarrow> nat \<Rightarrow> nat result" where
  "checked_sub a b = (if b \<le> a then Inr (a - b) else Inl Panic)"

text \<open>\<^verbatim>\<open>uint64(x)\<close> keeps the low bits.\<close>

definition uint64 :: "nat \<Rightarrow> nat" where
  "uint64 x = x mod 2 ^ 64"

lemma andThen_simps [simp]:
  "andThen (Inl e) f = Inl e"
  "andThen (Inr a) f = f a"
  by (simp_all add: andThen_def)

lemma andThen_Inr: "andThen r f = Inr b \<longleftrightarrow> (\<exists>a. r = Inr a \<and> f a = Inr b)"
  by (cases r) simp_all

lemma checked_Inr [simp]: "checked n x = Inr y \<longleftrightarrow> y = x \<and> x < 2 ^ n"
  by (auto simp: checked_def)

lemma checked_sub_Inr [simp]: "checked_sub a b = Inr y \<longleftrightarrow> b \<le> a \<and> y = a - b"
  by (auto simp: checked_sub_def)

section \<open>State\<close>

type_synonym addr = nat

record immutables =
  im_tokenDecimals :: nat
  im_ticketPrice :: nat
  im_minimumParticipants :: nat
  im_dao :: addr
  im_randomnessProvider :: addr
  im_this :: addr

datatype event =
    DrawStarted nat nat nat nat nat nat
  | TicketBought nat addr nat nat nat nat
  | RandomnessRequested nat nat
  | LotteryDrawn nat nat addr nat nat nat nat
  | DrawCancelled nat nat nat nat
  | PrizeClaimed nat addr nat addr nat
  | RefundClaimed nat addr nat

record lottery =
  l_currentDrawId :: nat
  l_pendingRollover :: nat
  l_activePool :: nat
  l_outstandingPrizes :: nat
  l_outstandingRefunds :: nat
  l_draws :: "nat \<Rightarrow> addr SolDraw"
  l_owners :: "nat \<Rightarrow> addr list"
  l_ticketOf :: "nat \<Rightarrow> addr \<Rightarrow> nat"
  l_refunded :: "nat \<Rightarrow> addr \<Rightarrow> bool"
  l_requestDraw :: "nat \<Rightarrow> nat"
  l_entered :: bool
  l_log :: "event list"

definition zero_draw :: "addr SolDraw" where
  "zero_draw =
     \<lparr>s_id = 0, s_status = ACTIVE, s_startTime = 0, s_deadline = 0, s_finalizedAt = 0,
      s_participantCount = 0, s_luckyNumber = 0, s_winner = 0, s_inheritedRollover = 0, s_pool = 0,
      s_daoFee = 0, s_winnerPrize = 0, s_requestId = 0\<rparr>"

definition fresh_lottery :: lottery where
  "fresh_lottery =
     \<lparr>l_currentDrawId = 0, l_pendingRollover = 0, l_activePool = 0, l_outstandingPrizes = 0,
      l_outstandingRefunds = 0, l_draws = (\<lambda>_. zero_draw), l_owners = (\<lambda>_. replicate 10 0),
      l_ticketOf = (\<lambda>_ _. 0), l_refunded = (\<lambda>_ _. False), l_requestDraw = (\<lambda>_. 0),
      l_entered = False, l_log = []\<rparr>"

definition DURATION :: nat where "DURATION = 24 * 60 * 60"

definition MAX_PARTICIPANTS :: nat where "MAX_PARTICIPANTS = 5"

text \<open>
  The constructor: whether the token and the provider have code, the token's decimals (\<^const>\<open>None\<close>
  when that call reverts), and the address of the new contract.
\<close>

definition construct ::
  "bool \<Rightarrow> bool \<Rightarrow> nat option \<Rightarrow> addr \<Rightarrow> nat \<Rightarrow> addr \<Rightarrow> addr \<Rightarrow> immutables result" where
  "construct token_code provider_code decimals dao minimum provider this =
     (if \<not> token_code \<or> \<not> provider_code \<or> dao = 0 \<or> dao = this \<or> minimum < 1 \<or> 5 < minimum
      then Inl InvalidConfiguration
      else case decimals of
        None \<Rightarrow> Inl ExternalRevert
      | Some dec \<Rightarrow>
          if 75 < dec then Inl InvalidConfiguration
          else andThen (checked 256 (10 * 10 ^ dec)) (\<lambda>price.
            Inr \<lparr>im_tokenDecimals = dec, im_ticketPrice = price, im_minimumParticipants = minimum,
                 im_dao = dao, im_randomnessProvider = provider, im_this = this\<rparr>))"

section \<open>Views\<close>

definition getDraw_sol :: "lottery \<Rightarrow> nat \<Rightarrow> addr SolDraw result" where
  "getDraw_sol s i = (if i = 0 \<or> l_currentDrawId s < i then Inl InvalidDraw else Inr (l_draws s i))"

definition ticketOwners_sol :: "lottery \<Rightarrow> nat \<Rightarrow> addr list result" where
  "ticketOwners_sol s i = (if i = 0 \<or> l_currentDrawId s < i then Inl InvalidDraw else Inr (l_owners s i))"

definition canStartDraw :: "lottery \<Rightarrow> bool" where
  "canStartDraw s \<longleftrightarrow>
     l_currentDrawId s = 0 \<or>
     status_code WINNER_DECLARED \<le> status_code (s_status (l_draws s (l_currentDrawId s)))"

definition canPerformDraw :: "nat \<Rightarrow> lottery \<Rightarrow> nat \<Rightarrow> bool" where
  "canPerformDraw timestamp s i =
     (if i = 0 \<or> i \<noteq> l_currentDrawId s then False
      else let d = l_draws s i
           in s_status d = ACTIVE \<and>
              (s_participantCount d = MAX_PARTICIPANTS \<or> s_deadline d \<le> timestamp))"

definition claimable :: "immutables \<Rightarrow> lottery \<Rightarrow> nat \<Rightarrow> addr \<Rightarrow> nat \<times> nat" where
  "claimable im s i a =
     (let d = l_draws s i in
       (if s_status d = WINNER_DECLARED \<and> s_winner d = a then s_winnerPrize d else 0,
        if s_status d = CANCELLED \<and> l_ticketOf s i a \<noteq> 0 \<and> \<not> l_refunded s i a
        then im_ticketPrice im else 0))"

definition liabilities :: "lottery \<Rightarrow> nat result" where
  "liabilities s =
     andThen (checked 256 (l_activePool s + l_pendingRollover s)) (\<lambda>a.
     andThen (checked 256 (a + l_outstandingPrizes s)) (\<lambda>b.
       checked 256 (b + l_outstandingRefunds s)))"

section \<open>The world and external calls\<close>

text \<open>The external functions of the contract, as an external callee may call them.\<close>

datatype call =
    call_startDraw nat
  | call_buyTicket nat
  | call_performDraw nat
  | call_fulfillRandomness nat nat
  | call_finalizeDraw nat
  | call_claimPrize nat
  | call_claimRefund nat

text \<open>
  The ERC-20 token over its state \<open>'t\<close>: a transfer reverts (or returns false, which \<^verbatim>\<open>SafeERC20\<close>
  turns into a revert) or returns the new state and the calls it made meanwhile, with their senders.
\<close>

record 't token =
  t_balanceOf :: "'t \<Rightarrow> addr \<Rightarrow> nat"
  t_transferFrom :: "addr \<Rightarrow> addr \<Rightarrow> addr \<Rightarrow> nat \<Rightarrow> 't \<Rightarrow> ((addr \<times> call) list \<times> 't) option"
  t_transfer :: "addr \<Rightarrow> addr \<Rightarrow> nat \<Rightarrow> 't \<Rightarrow> ((addr \<times> call) list \<times> 't) option"

text \<open>
  The provider over its state \<open>'p\<close>: a request yields an identifier; \<^verbatim>\<open>deliver\<close> reverts, does nothing,
  or calls \<^verbatim>\<open>fulfillRandomness\<close> with the word it holds.
\<close>

record 'p provider =
  p_request :: "addr \<Rightarrow> 'p \<Rightarrow> (nat \<times> (addr \<times> call) list \<times> 'p) option"
  p_deliver :: "nat \<Rightarrow> 'p \<Rightarrow> ((nat \<times> nat) option \<times> 'p) option"

record ('t, 'p) world =
  w_lottery :: lottery
  w_token :: 't
  w_provider :: 'p
  w_time :: nat

definition change :: "(lottery \<Rightarrow> lottery) \<Rightarrow> ('t, 'p) world \<Rightarrow> ('t, 'p) world" where
  "change f w = w\<lparr>w_lottery := f (w_lottery w)\<rparr>"

definition change_draw :: "nat \<Rightarrow> (addr SolDraw \<Rightarrow> addr SolDraw) \<Rightarrow> lottery \<Rightarrow> lottery" where
  "change_draw i f s = s\<lparr>l_draws := (l_draws s)(i := f (l_draws s i))\<rparr>"

definition emit :: "event \<Rightarrow> lottery \<Rightarrow> lottery" where
  "emit e s = s\<lparr>l_log := l_log s @ [e]\<rparr>"

definition nonReentrant :: "(('t, 'p) world \<Rightarrow> ('t, 'p) world result) \<Rightarrow> ('t, 'p) world \<Rightarrow> ('t, 'p) world result" where
  "nonReentrant f w =
     (if l_entered (w_lottery w) then Inl Reentrant
      else andThen (f (change (\<lambda>s. s\<lparr>l_entered := True\<rparr>) w))
             (\<lambda>v. Inr (change (\<lambda>s. s\<lparr>l_entered := False\<rparr>) v)))"

section \<open>The random result\<close>

definition fulfillRandomness ::
  "immutables \<Rightarrow> addr \<Rightarrow> nat \<Rightarrow> nat \<Rightarrow> ('t, 'p) world \<Rightarrow> ('t, 'p) world result" where
  "fulfillRandomness im sender rid word w =
     (if sender \<noteq> im_randomnessProvider im then Inl Unauthorized
      else let s = w_lottery w; i = l_requestDraw s rid; d = l_draws s i in
        if i = 0 \<or> s_status d \<noteq> DRAWING then Inr w
        else let lucky = word mod 10 + 1; who = l_owners s i ! (lucky - 1);
                 d1 = d\<lparr>s_luckyNumber := lucky, s_winner := who, s_finalizedAt := uint64 (w_time w)\<rparr>
          in if who = 0
             then andThen (checked 256 (l_pendingRollover s + s_pool d)) (\<lambda>pr.
               Inr (change (\<lambda>s. emit (LotteryDrawn i lucky 0 (s_pool d) (s_daoFee d) (s_winnerPrize d) (s_pool d))
                 (s\<lparr>l_activePool := 0, l_pendingRollover := pr,
                    l_draws := (l_draws s)(i := d1\<lparr>s_status := NO_WINNER\<rparr>)\<rparr>)) w))
             else andThen (checked_sub (s_pool d) (im_ticketPrice im)) (\<lambda>profit.
               let fee = profit * 500 div 10000 in
               andThen (checked_sub (s_pool d) fee) (\<lambda>prize.
               andThen (checked 256 (l_outstandingPrizes s + s_pool d)) (\<lambda>op.
               Inr (change (\<lambda>s. emit (LotteryDrawn i lucky who (s_pool d) fee prize 0)
                 (s\<lparr>l_activePool := 0, l_outstandingPrizes := op,
                    l_draws := (l_draws s)
                      (i := d1\<lparr>s_status := WINNER_DECLARED, s_daoFee := fee, s_winnerPrize := prize\<rparr>)\<rparr>)) w)))))"

definition finalizeDraw ::
  "immutables \<Rightarrow> 'p provider \<Rightarrow> nat \<Rightarrow> ('t, 'p) world \<Rightarrow> ('t, 'p) world result" where
  "finalizeDraw im P i w =
     (let d = l_draws (w_lottery w) i in
       if i = 0 \<or> s_status d \<noteq> DRAWING then Inl InvalidState
       else case p_deliver P (s_requestId d) (w_provider w) of
         None \<Rightarrow> Inl ExternalRevert
       | Some (None, p) \<Rightarrow> Inr (w\<lparr>w_provider := p\<rparr>)
       | Some (Some (r, word), p) \<Rightarrow>
           fulfillRandomness im (im_randomnessProvider im) r word (w\<lparr>w_provider := p\<rparr>))"

text \<open>
  Calls made from inside an external call. The lock is set then, so the guarded functions revert and
  the revert is absorbed by the callee; the two functions without the guard run.
\<close>

definition absorb :: "('t, 'p) world \<Rightarrow> ('t, 'p) world result \<Rightarrow> ('t, 'p) world" where
  "absorb w r = (case r of Inl e \<Rightarrow> w | Inr v \<Rightarrow> v)"

definition reenter1 :: "immutables \<Rightarrow> 'p provider \<Rightarrow> addr \<times> call \<Rightarrow> ('t, 'p) world \<Rightarrow> ('t, 'p) world" where
  "reenter1 im P c w =
     (case snd c of
        call_fulfillRandomness r word \<Rightarrow> absorb w (fulfillRandomness im (fst c) r word w)
      | call_finalizeDraw i \<Rightarrow> absorb w (finalizeDraw im P i w)
      | _ \<Rightarrow> w)"

definition reenter :: "immutables \<Rightarrow> 'p provider \<Rightarrow> (addr \<times> call) list \<Rightarrow> ('t, 'p) world \<Rightarrow> ('t, 'p) world" where
  "reenter im P cs w = fold (reenter1 im P) cs w"

definition call_token ::
  "immutables \<Rightarrow> 'p provider \<Rightarrow> ('t \<Rightarrow> ((addr \<times> call) list \<times> 't) option) \<Rightarrow> ('t, 'p) world
     \<Rightarrow> ('t, 'p) world result" where
  "call_token im P operation w =
     (case operation (w_token w) of
        None \<Rightarrow> Inl ExternalRevert
      | Some (cs, t) \<Rightarrow> Inr (reenter im P cs (w\<lparr>w_token := t\<rparr>)))"

section \<open>The guarded operations\<close>

definition startDraw_body :: "immutables \<Rightarrow> nat \<Rightarrow> ('t, 'p) world \<Rightarrow> ('t, 'p) world result" where
  "startDraw_body im expected w =
     (let s = w_lottery w in
       if expected \<noteq> l_currentDrawId s then Inl InvalidDraw
       else if \<not> canStartDraw s then Inl InvalidState
       else andThen (checked 256 (l_currentDrawId s + 1)) (\<lambda>i.
         andThen (checked 256 (w_time w + DURATION)) (\<lambda>dl.
           let d = (l_draws s i)\<lparr>s_id := i, s_startTime := uint64 (w_time w), s_deadline := uint64 dl,
                 s_inheritedRollover := l_pendingRollover s, s_pool := l_pendingRollover s\<rparr>
           in Inr (change (\<lambda>s. emit
               (DrawStarted i (s_startTime d) (s_deadline d) (im_ticketPrice im)
                  (im_minimumParticipants im) (s_inheritedRollover d))
               (s\<lparr>l_currentDrawId := i, l_draws := (l_draws s)(i := d),
                  l_activePool := l_pendingRollover s, l_pendingRollover := 0\<rparr>)) w))))"

definition buyTicket_body ::
  "immutables \<Rightarrow> 't token \<Rightarrow> 'p provider \<Rightarrow> addr \<Rightarrow> nat \<Rightarrow> ('t, 'p) world \<Rightarrow> ('t, 'p) world result" where
  "buyTicket_body im T P sender i w =
     (let s = w_lottery w; d = l_draws s i; price = im_ticketPrice im; this = im_this im in
       if i = 0 \<or> i \<noteq> l_currentDrawId s then Inl InvalidDraw
       else if s_status d \<noteq> ACTIVE \<or> s_deadline d \<le> w_time w \<or> MAX_PARTICIPANTS \<le> s_participantCount d
       then Inl TicketsClosed
       else if l_ticketOf s i sender \<noteq> 0 then Inl AlreadyParticipated
       else let beforeBalance = t_balanceOf T (w_token w) this in
         andThen (call_token im P (t_transferFrom T this sender this price) w) (\<lambda>v.
         andThen (checked 256 (beforeBalance + price)) (\<lambda>expected.
           if t_balanceOf T (w_token v) this \<noteq> expected then Inl WrongPaymentAmount
           else let s2 = w_lottery v; d2 = l_draws s2 i in
             andThen (checked 8 (s_participantCount d2 + 1)) (\<lambda>number.
             andThen (checked 256 (s_pool d2 + price)) (\<lambda>pl.
             andThen (checked 256 (l_activePool s2 + price)) (\<lambda>ap.
               Inr (change (\<lambda>s. emit (TicketBought i sender number price number pl)
                 (s\<lparr>l_owners := (l_owners s)(i := (l_owners s i)[number - 1 := sender]),
                    l_ticketOf := (l_ticketOf s)(i := (l_ticketOf s i)(sender := number)),
                    l_draws := (l_draws s)(i := d2\<lparr>s_participantCount := number, s_pool := pl\<rparr>),
                    l_activePool := ap\<rparr>)) v)))))))"

definition performDraw_body ::
  "immutables \<Rightarrow> 'p provider \<Rightarrow> nat \<Rightarrow> ('t, 'p) world \<Rightarrow> ('t, 'p) world result" where
  "performDraw_body im P i w =
     (let s = w_lottery w; d = l_draws s i in
       if \<not> canPerformDraw (w_time w) s i then Inl NotEligible
       else if s_participantCount d < im_minimumParticipants im
       then andThen (checked 256 (s_participantCount d * im_ticketPrice im)) (\<lambda>refunds.
         andThen (checked 256 (l_outstandingRefunds s + refunds)) (\<lambda>orf.
         andThen (checked 256 (l_pendingRollover s + s_inheritedRollover d)) (\<lambda>pr.
           Inr (change (\<lambda>s. emit (DrawCancelled i (s_participantCount d) refunds (s_inheritedRollover d))
             (s\<lparr>l_activePool := 0, l_outstandingRefunds := orf, l_pendingRollover := pr,
                l_draws := (l_draws s)(i := d\<lparr>s_status := CANCELLED, s_finalizedAt := uint64 (w_time w)\<rparr>)\<rparr>)) w))))
       else let w1 = change (\<lambda>s. change_draw i (\<lambda>d. d\<lparr>s_status := DRAWING\<rparr>)
                  (s\<lparr>l_activePool := s_pool d\<rparr>)) w in
         case p_request P (im_this im) (w_provider w1) of
           None \<Rightarrow> Inl ExternalRevert
         | Some (r, cs, p) \<Rightarrow>
             let v = reenter im P cs (w1\<lparr>w_provider := p\<rparr>) in
             if r = 0 \<or> l_requestDraw (w_lottery v) r \<noteq> 0 then Inl InvalidState
             else Inr (change (\<lambda>s. emit (RandomnessRequested i r)
               (change_draw i (\<lambda>d. d\<lparr>s_requestId := r\<rparr>)
                 (s\<lparr>l_requestDraw := (l_requestDraw s)(r := i)\<rparr>))) v))"

definition claimPrize_body ::
  "immutables \<Rightarrow> 't token \<Rightarrow> 'p provider \<Rightarrow> addr \<Rightarrow> nat \<Rightarrow> ('t, 'p) world \<Rightarrow> ('t, 'p) world result" where
  "claimPrize_body im T P sender i w =
     (let s = w_lottery w; d = l_draws s i; this = im_this im in
       if s_status d \<noteq> WINNER_DECLARED \<or> s_winner d \<noteq> sender then Inl NotClaimable
       else andThen (checked_sub (l_outstandingPrizes s) (s_pool d)) (\<lambda>op.
         let w1 = change (\<lambda>s. change_draw i (\<lambda>d. d\<lparr>s_status := COMPLETED\<rparr>)
                    (s\<lparr>l_outstandingPrizes := op\<rparr>)) w in
         andThen (if s_daoFee d \<noteq> 0 then call_token im P (t_transfer T this (im_dao im) (s_daoFee d)) w1
                  else Inr w1) (\<lambda>w2.
         andThen (call_token im P (t_transfer T this sender (s_winnerPrize d)) w2) (\<lambda>w3.
           Inr (change (emit (PrizeClaimed i sender (s_winnerPrize d) (im_dao im) (s_daoFee d))) w3)))))"

definition claimRefund_body ::
  "immutables \<Rightarrow> 't token \<Rightarrow> 'p provider \<Rightarrow> addr \<Rightarrow> nat \<Rightarrow> ('t, 'p) world \<Rightarrow> ('t, 'p) world result" where
  "claimRefund_body im T P sender i w =
     (let s = w_lottery w; price = im_ticketPrice im in
       if s_status (l_draws s i) \<noteq> CANCELLED \<or> l_ticketOf s i sender = 0 \<or> l_refunded s i sender
       then Inl NotClaimable
       else andThen (checked_sub (l_outstandingRefunds s) price) (\<lambda>orf.
         let w1 = change (\<lambda>s. s\<lparr>l_refunded := (l_refunded s)(i := (l_refunded s i)(sender := True)),
                    l_outstandingRefunds := orf\<rparr>) w in
         andThen (call_token im P (t_transfer T (im_this im) sender price) w1) (\<lambda>w2.
           Inr (change (emit (RefundClaimed i sender price)) w2))))"

text \<open>The external interface.\<close>

definition transact ::
  "immutables \<Rightarrow> 't token \<Rightarrow> 'p provider \<Rightarrow> addr \<Rightarrow> call \<Rightarrow> ('t, 'p) world \<Rightarrow> ('t, 'p) world result" where
  "transact im T P sender c =
     (case c of
        call_startDraw n \<Rightarrow> nonReentrant (startDraw_body im n)
      | call_buyTicket i \<Rightarrow> nonReentrant (buyTicket_body im T P sender i)
      | call_performDraw i \<Rightarrow> nonReentrant (performDraw_body im P i)
      | call_fulfillRandomness r word \<Rightarrow> fulfillRandomness im sender r word
      | call_finalizeDraw i \<Rightarrow> finalizeDraw im P i
      | call_claimPrize i \<Rightarrow> nonReentrant (claimPrize_body im T P sender i)
      | call_claimRefund i \<Rightarrow> nonReentrant (claimRefund_body im T P sender i))"

end
