(* ===== verification/Accounts.thy ===== *)
theory Accounts
  imports Lottery
begin

text \<open>
  The books of \<^verbatim>\<open>DLottery.sol\<close>: what every round records, and that the four running totals of the
  contract are the sums of what the rounds owe. Every external function, called by anyone with any
  token and provider, keeps them, also when the token or the provider calls back.
\<close>

section \<open>What a round owes\<close>

definition live :: "addr SolDraw \<Rightarrow> bool" where
  "live d \<longleftrightarrow> s_status d = ACTIVE \<or> s_status d = DRAWING"

definition carry :: "addr SolDraw \<Rightarrow> nat" where
  "carry d =
     (if s_status d = NO_WINNER then s_pool d
      else if s_status d = CANCELLED then s_inheritedRollover d else 0)"

definition prize_due :: "addr SolDraw \<Rightarrow> nat" where
  "prize_due d = (if s_status d = WINNER_DECLARED then s_pool d else 0)"

definition refunds_due :: "immutables \<Rightarrow> addr SolDraw \<Rightarrow> addr list \<Rightarrow> (addr \<Rightarrow> bool) \<Rightarrow> nat" where
  "refunds_due im d os rf =
     (if s_status d = CANCELLED
      then im_ticketPrice im * length (filter (\<lambda>a. \<not> rf a) (take (s_participantCount d) os)) else 0)"

definition fee_of :: "immutables \<Rightarrow> nat \<Rightarrow> nat" where
  "fee_of im pl = (pl - im_ticketPrice im) * 500 div 10000"

section \<open>The invariant\<close>

definition tickets_ok :: "nat \<Rightarrow> addr list \<Rightarrow> (addr \<Rightarrow> nat) \<Rightarrow> bool" where
  "tickets_ok n os tk \<longleftrightarrow>
     n \<le> MAX_PARTICIPANTS \<and> length os = 10 \<and>
     (\<forall>j < n. os ! j \<noteq> 0 \<and> tk (os ! j) = Suc j) \<and>
     (\<forall>j. n \<le> j \<and> j < 10 \<longrightarrow> os ! j = 0) \<and>
     (\<forall>a. tk a \<noteq> 0 \<longrightarrow> tk a \<le> n \<and> os ! (tk a - 1) = a)"

definition result_ok :: "immutables \<Rightarrow> addr SolDraw \<Rightarrow> addr list \<Rightarrow> bool" where
  "result_ok im d os \<longleftrightarrow>
     (case s_status d of
        ACTIVE \<Rightarrow> s_luckyNumber d = 0 \<and> s_winner d = 0 \<and> s_daoFee d = 0 \<and> s_winnerPrize d = 0 \<and> s_requestId d = 0
      | DRAWING \<Rightarrow> s_luckyNumber d = 0 \<and> s_winner d = 0 \<and> s_daoFee d = 0 \<and> s_winnerPrize d = 0
      | CANCELLED \<Rightarrow> s_luckyNumber d = 0 \<and> s_winner d = 0 \<and> s_daoFee d = 0 \<and> s_winnerPrize d = 0 \<and>
          s_participantCount d < im_minimumParticipants im
      | NO_WINNER \<Rightarrow> 1 \<le> s_luckyNumber d \<and> s_luckyNumber d \<le> 10 \<and> os ! (s_luckyNumber d - 1) = 0 \<and>
          s_winner d = 0 \<and> s_daoFee d = 0 \<and> s_winnerPrize d = 0
      | _ \<Rightarrow> 1 \<le> s_luckyNumber d \<and> s_luckyNumber d \<le> 10 \<and> s_winner d = os ! (s_luckyNumber d - 1) \<and>
          s_winner d \<noteq> 0 \<and> s_daoFee d = fee_of im (s_pool d) \<and>
          s_winnerPrize d + s_daoFee d = s_pool d)"

definition round_ok :: "immutables \<Rightarrow> nat \<Rightarrow> addr SolDraw \<Rightarrow> addr list \<Rightarrow> (addr \<Rightarrow> nat) \<Rightarrow> (addr \<Rightarrow> bool) \<Rightarrow> bool" where
  "round_ok im i d os tk rf \<longleftrightarrow>
     s_id d = i \<and>
     s_pool d = s_inheritedRollover d + s_participantCount d * im_ticketPrice im \<and>
     tickets_ok (s_participantCount d) os tk \<and> result_ok im d os \<and>
     (\<forall>a. rf a \<longrightarrow> s_status d = CANCELLED \<and> tk a \<noteq> 0)"

definition untouched :: "addr SolDraw \<Rightarrow> addr list \<Rightarrow> (addr \<Rightarrow> nat) \<Rightarrow> (addr \<Rightarrow> bool) \<Rightarrow> bool" where
  "untouched d os tk rf \<longleftrightarrow>
     d = zero_draw \<and> os = replicate 10 0 \<and> tk = (\<lambda>_. 0) \<and> rf = (\<lambda>_. False)"

definition rounds_ok :: "immutables \<Rightarrow> lottery \<Rightarrow> bool" where
  "rounds_ok im s \<longleftrightarrow>
     (\<forall>i. (if 1 \<le> i \<and> i \<le> l_currentDrawId s
           then round_ok im i (l_draws s i) (l_owners s i) (l_ticketOf s i) (l_refunded s i)
           else untouched (l_draws s i) (l_owners s i) (l_ticketOf s i) (l_refunded s i))) \<and>
     (\<forall>i. 1 \<le> i \<and> i < l_currentDrawId s \<longrightarrow> \<not> live (l_draws s i))"

definition totals_ok :: "immutables \<Rightarrow> lottery \<Rightarrow> bool" where
  "totals_ok im s \<longleftrightarrow>
     (let d = l_draws s (l_currentDrawId s) in
       l_activePool s = (if live d then s_pool d else 0) \<and> l_pendingRollover s = carry d) \<and>
     l_outstandingPrizes s = (\<Sum>i \<in> {1..l_currentDrawId s}. prize_due (l_draws s i)) \<and>
     l_outstandingRefunds s =
       (\<Sum>i \<in> {1..l_currentDrawId s}. refunds_due im (l_draws s i) (l_owners s i) (l_refunded s i))"

definition books :: "immutables \<Rightarrow> lottery \<Rightarrow> bool" where
  "books im s \<longleftrightarrow> rounds_ok im s \<and> totals_ok im s"

text \<open>Everything the contract owes, without the overflow check of the view.\<close>

definition owed :: "lottery \<Rightarrow> nat" where
  "owed s = l_activePool s + l_pendingRollover s + l_outstandingPrizes s + l_outstandingRefunds s"

lemma sum_change:
  fixes F G :: "nat \<Rightarrow> nat"
  assumes "i \<in> {1..n}" and "\<And>j. j \<in> {1..n} \<Longrightarrow> j \<noteq> i \<Longrightarrow> G j = F j"
  shows "sum G {1..n} + F i = sum F {1..n} + G i"
proof -
  have "sum G ({1..n} - {i}) = sum F ({1..n} - {i})" by (rule sum.cong) (auto simp: assms(2))
  then show ?thesis using assms(1) by (simp add: sum.remove)
qed

lemma books_fresh: "books im fresh_lottery"
  by (simp add: books_def rounds_ok_def totals_ok_def untouched_def fresh_lottery_def zero_draw_def
      live_def carry_def)

lemma rounds_ok_round:
  "rounds_ok im s \<Longrightarrow> 1 \<le> i \<Longrightarrow> i \<le> l_currentDrawId s \<Longrightarrow>
   round_ok im i (l_draws s i) (l_owners s i) (l_ticketOf s i) (l_refunded s i)"
  unfolding rounds_ok_def by (metis (full_types))

lemma rounds_ok_beyond:
  "rounds_ok im s \<Longrightarrow> i = 0 \<or> l_currentDrawId s < i \<Longrightarrow>
   untouched (l_draws s i) (l_owners s i) (l_ticketOf s i) (l_refunded s i)"
  unfolding rounds_ok_def by (metis (full_types) not_less not_one_le_zero)

text \<open>Only the current round can be drawing.\<close>

lemma drawing_current:
  assumes "rounds_ok im s" and "s_status (l_draws s i) = DRAWING"
  shows "i = l_currentDrawId s \<and> 1 \<le> i"
proof -
  have "\<not> (i = 0 \<or> l_currentDrawId s < i)"
  proof
    assume "i = 0 \<or> l_currentDrawId s < i"
    then have "l_draws s i = zero_draw"
      using rounds_ok_beyond [OF assms(1)] by (simp add: untouched_def)
    then show False using assms(2) by (simp add: zero_draw_def)
  qed
  moreover have "\<not> i < l_currentDrawId s \<or> i = 0"
    using assms unfolding rounds_ok_def live_def by (metis One_nat_def Suc_leI neq0_conv)
  ultimately show ?thesis by auto
qed

lemma no_live_refunds [simp]:
  "s_status d \<noteq> CANCELLED \<Longrightarrow> refunds_due im d os rf = 0"
  by (simp add: refunds_due_def)

section \<open>Updating one round\<close>

lemma books_update:
  assumes b: "books im s" and i: "1 \<le> i" "i \<le> l_currentDrawId s"
    and s': "l_currentDrawId s' = l_currentDrawId s" "l_draws s' = (l_draws s)(i := d')"
      "l_owners s' = (l_owners s)(i := os')" "l_ticketOf s' = (l_ticketOf s)(i := tk')"
      "l_refunded s' = (l_refunded s)(i := rf')"
    and r: "round_ok im i d' os' tk' rf'" and past: "i < l_currentDrawId s \<Longrightarrow> \<not> live d'"
    and act: "l_activePool s' =
      (if i = l_currentDrawId s then (if live d' then s_pool d' else 0) else l_activePool s)"
    and pend: "l_pendingRollover s' = (if i = l_currentDrawId s then carry d' else l_pendingRollover s)"
    and prz: "l_outstandingPrizes s' + prize_due (l_draws s i) = l_outstandingPrizes s + prize_due d'"
    and rfd: "l_outstandingRefunds s' + refunds_due im (l_draws s i) (l_owners s i) (l_refunded s i) =
      l_outstandingRefunds s + refunds_due im d' os' rf'"
  shows "books im s'"
proof -
  let ?n = "l_currentDrawId s"
  have R: "rounds_ok im s" and T: "totals_ok im s" using b by (auto simp: books_def)
  have "rounds_ok im s'"
    using R r past i by (auto simp: rounds_ok_def s')
  moreover
  have "sum (\<lambda>j. prize_due (l_draws s' j)) {1..?n} + prize_due (l_draws s i) =
      sum (\<lambda>j. prize_due (l_draws s j)) {1..?n} + prize_due d'"
    using sum_change [of i ?n "\<lambda>j. prize_due (l_draws s' j)" "\<lambda>j. prize_due (l_draws s j)"] i
    by (simp add: s')
  then have "l_outstandingPrizes s' = sum (\<lambda>j. prize_due (l_draws s' j)) {1..?n}"
    using prz T by (simp add: totals_ok_def)
  moreover
  have "sum (\<lambda>j. refunds_due im (l_draws s' j) (l_owners s' j) (l_refunded s' j)) {1..?n} +
        refunds_due im (l_draws s i) (l_owners s i) (l_refunded s i) =
      sum (\<lambda>j. refunds_due im (l_draws s j) (l_owners s j) (l_refunded s j)) {1..?n} + refunds_due im d' os' rf'"
    using sum_change [of i ?n "\<lambda>j. refunds_due im (l_draws s' j) (l_owners s' j) (l_refunded s' j)"
        "\<lambda>j. refunds_due im (l_draws s j) (l_owners s j) (l_refunded s j)"] i
    by (simp add: s')
  then have "l_outstandingRefunds s' =
      sum (\<lambda>j. refunds_due im (l_draws s' j) (l_owners s' j) (l_refunded s' j)) {1..?n}"
    using rfd T by (simp add: totals_ok_def)
  moreover have "l_activePool s' = (if live (l_draws s' ?n) then s_pool (l_draws s' ?n) else 0)"
    "l_pendingRollover s' = carry (l_draws s' ?n)"
    using act pend T by (auto simp: totals_ok_def s' Let_def)
  ultimately show ?thesis
    unfolding books_def totals_ok_def Let_def s'(1) by (intro conjI)
qed

text \<open>The books do not see the lock, the log, the request table or the request identifiers.\<close>

lemma books_irrelevant [simp]:
  "books im (s\<lparr>l_entered := e\<rparr>) = books im s"
  "books im (s\<lparr>l_log := lg\<rparr>) = books im s"
  "books im (s\<lparr>l_requestDraw := rq\<rparr>) = books im s"
  "books im (emit ev s) = books im s"
  by (simp_all add: books_def rounds_ok_def totals_ok_def emit_def)

lemma owed_irrelevant [simp]:
  "owed (s\<lparr>l_entered := e\<rparr>) = owed s"
  "owed (s\<lparr>l_log := lg\<rparr>) = owed s"
  "owed (s\<lparr>l_requestDraw := rq\<rparr>) = owed s"
  "owed (emit ev s) = owed s"
  by (simp_all add: owed_def emit_def)

section \<open>The random result\<close>

text \<open>The two ways a random result changes the contract.\<close>

definition declared ::
  "immutables \<Rightarrow> nat \<Rightarrow> nat \<Rightarrow> nat \<Rightarrow> lottery \<Rightarrow> lottery" where
  "declared im i lucky tm s =
     (let d = l_draws s i; who = l_owners s i ! (lucky - 1);
          d1 = d\<lparr>s_luckyNumber := lucky, s_winner := who, s_finalizedAt := uint64 tm\<rparr>;
          fee = fee_of im (s_pool d)
      in if who = 0
         then emit (LotteryDrawn i lucky 0 (s_pool d) (s_daoFee d) (s_winnerPrize d) (s_pool d))
           (s\<lparr>l_activePool := 0, l_pendingRollover := l_pendingRollover s + s_pool d,
              l_draws := (l_draws s)(i := d1\<lparr>s_status := NO_WINNER\<rparr>)\<rparr>)
         else emit (LotteryDrawn i lucky who (s_pool d) fee (s_pool d - fee) 0)
           (s\<lparr>l_activePool := 0, l_outstandingPrizes := l_outstandingPrizes s + s_pool d,
              l_draws := (l_draws s)(i := d1\<lparr>s_status := WINNER_DECLARED, s_daoFee := fee,
                s_winnerPrize := s_pool d - fee\<rparr>)\<rparr>))"

lemma fulfill_cases:
  assumes "fulfillRandomness im sender r word w = Inr v"
  obtains (ignored) "v = w" "sender = im_randomnessProvider im"
      "l_requestDraw (w_lottery w) r = 0 \<or> s_status (l_draws (w_lottery w) (l_requestDraw (w_lottery w) r)) \<noteq> DRAWING"
  | (drawn) i where "i = l_requestDraw (w_lottery w) r" "i \<noteq> 0" "sender = im_randomnessProvider im"
      "s_status (l_draws (w_lottery w) i) = DRAWING"
      "v = change (declared im i (word mod 10 + 1) (w_time w)) w"
      "l_owners (w_lottery w) i ! (word mod 10) = 0 \<or> im_ticketPrice im \<le> s_pool (l_draws (w_lottery w) i)"
proof -
  have p: "sender = im_randomnessProvider im"
    using assms by (auto simp: fulfillRandomness_def split: if_splits)
  let ?i = "l_requestDraw (w_lottery w) r" let ?d = "l_draws (w_lottery w) ?i"
  show thesis
  proof (cases "?i = 0 \<or> s_status ?d \<noteq> DRAWING")
    case True
    then show ?thesis using assms p ignored by (auto simp: fulfillRandomness_def Let_def)
  next
    case False
    then have "v = change (declared im ?i (word mod 10 + 1) (w_time w)) w"
      and "l_owners (w_lottery w) ?i ! (word mod 10) = 0 \<or> im_ticketPrice im \<le> s_pool ?d"
      using assms p
      by (auto simp: fulfillRandomness_def Let_def andThen_Inr change_def declared_def fee_of_def
          split: if_splits)
    then show ?thesis using False p drawn [of ?i] by simp
  qed
qed

text \<open>What the books say about the round being drawn.\<close>

lemma drawing_round:
  assumes "books im s" and "s_status (l_draws s i) = DRAWING"
  shows "i = l_currentDrawId s" "1 \<le> i" "l_activePool s = s_pool (l_draws s i)" "l_pendingRollover s = 0"
    "round_ok im i (l_draws s i) (l_owners s i) (l_ticketOf s i) (l_refunded s i)"
proof -
  have R: "rounds_ok im s" and T: "totals_ok im s" using assms(1) by (auto simp: books_def)
  show i: "i = l_currentDrawId s" "1 \<le> i" using drawing_current [OF R assms(2)] by auto
  show "l_activePool s = s_pool (l_draws s i)" "l_pendingRollover s = 0"
    using T assms(2) i by (auto simp: totals_ok_def Let_def live_def carry_def)
  show "round_ok im i (l_draws s i) (l_owners s i) (l_ticketOf s i) (l_refunded s i)"
    using rounds_ok_round [OF R] i by simp
qed

lemma fee_le: "fee_of im pl \<le> pl"
proof -
  have "(pl - im_ticketPrice im) * 500 div 10000 \<le> (pl - im_ticketPrice im) * 10000 div 10000"
    by (intro div_le_mono mult_le_mono) simp_all
  then show ?thesis by (simp add: fee_of_def)
qed

lemma declared_simps [simp]:
  "l_currentDrawId (declared im i k tm s) = l_currentDrawId s"
  "l_owners (declared im i k tm s) = l_owners s"
  "l_ticketOf (declared im i k tm s) = l_ticketOf s"
  "l_refunded (declared im i k tm s) = l_refunded s"
  "l_requestDraw (declared im i k tm s) = l_requestDraw s"
  "l_entered (declared im i k tm s) = l_entered s"
  "j \<noteq> i \<Longrightarrow> l_draws (declared im i k tm s) j = l_draws s j"
  by (simp_all add: declared_def Let_def emit_def)

lemma declared_books:
  assumes b: "books im s" and d: "s_status (l_draws s i) = DRAWING" and k: "1 \<le> k" "k \<le> 10"
  shows "books im (declared im i k tm s)" and "owed (declared im i k tm s) = owed s"
proof -
  note D = drawing_round [OF b d]
  let ?d = "l_draws s i" and ?who = "l_owners s i ! (k - 1)"
  show "owed (declared im i k tm s) = owed s"
    using D by (simp add: declared_def owed_def emit_def Let_def)
  show "books im (declared im i k tm s)"
  proof (cases "?who = 0")
    case True
    let ?d' = "?d\<lparr>s_luckyNumber := k, s_winner := 0, s_finalizedAt := uint64 tm, s_status := NO_WINNER\<rparr>"
    show ?thesis
      by (rule books_update [OF b, where i = i and d' = ?d' and os' = "l_owners s i"
            and tk' = "l_ticketOf s i" and rf' = "l_refunded s i"])
         (use True D d k in \<open>simp_all add: declared_def Let_def emit_def live_def carry_def prize_due_def
            round_ok_def result_ok_def\<close>)
  next
    case False
    let ?fee = "fee_of im (s_pool ?d)"
    let ?d' = "?d\<lparr>s_luckyNumber := k, s_winner := ?who, s_finalizedAt := uint64 tm,
      s_status := WINNER_DECLARED, s_daoFee := ?fee, s_winnerPrize := s_pool ?d - ?fee\<rparr>"
    show ?thesis
      by (rule books_update [OF b, where i = i and d' = ?d' and os' = "l_owners s i"
            and tk' = "l_ticketOf s i" and rf' = "l_refunded s i"])
         (use False D d k fee_le [of im "s_pool ?d"] in \<open>simp_all add: declared_def Let_def emit_def
            live_def carry_def prize_due_def round_ok_def result_ok_def\<close>)
  qed
qed

section \<open>Calls from inside a call\<close>

lemma finalize_cases:
  assumes "finalizeDraw im P i w = Inr v"
  obtains (quiet) p where "p_deliver P (s_requestId (l_draws (w_lottery w) i)) (w_provider w) = Some (None, p)"
      "v = w\<lparr>w_provider := p\<rparr>"
  | (delivered) p r word where
      "p_deliver P (s_requestId (l_draws (w_lottery w) i)) (w_provider w) = Some (Some (r, word), p)"
      "fulfillRandomness im (im_randomnessProvider im) r word (w\<lparr>w_provider := p\<rparr>) = Inr v"
proof (cases "p_deliver P (s_requestId (l_draws (w_lottery w) i)) (w_provider w)")
  case None
  then show ?thesis using assms by (simp add: finalizeDraw_def Let_def split: if_splits)
next
  case (Some x)
  then show ?thesis
    using assms that by (cases x; cases "fst x") (auto simp: finalizeDraw_def Let_def split: if_splits)
qed

text \<open>
  A condition on the contract that every random result and every internal step of the provider keep
  is kept by whatever an external callee does before it returns.
\<close>

locale reentry_safe =
  fixes im :: immutables and I :: "('t, 'p) world \<Rightarrow> bool"
  assumes result_keeps: "\<And>sender r word w v.
      I w \<Longrightarrow> fulfillRandomness im sender r word w = Inr v \<Longrightarrow> I v"
    and provider_keeps: "\<And>w p. I w \<Longrightarrow> I (w\<lparr>w_provider := p\<rparr>)"
begin

lemma finalize_keeps:
  assumes I: "I w" and f: "finalizeDraw im P i w = Inr v"
  shows "I v"
  using f
proof (cases rule: finalize_cases)
  case (quiet p)
  then show ?thesis using provider_keeps [OF I] by simp
next
  case (delivered p r word)
  from provider_keeps [OF I] this(2) show ?thesis by (rule result_keeps)
qed

lemma reenter1_keeps:
  assumes "I w"
  shows "I (reenter1 im P c w)"
  using result_keeps [OF assms] finalize_keeps [OF assms] assms
  by (auto simp: reenter1_def absorb_def split: call.split sum.split)

lemma reenter_keeps: "I w \<Longrightarrow> I (reenter im P cs w)"
  unfolding reenter_def by (induction cs arbitrary: w) (auto intro: reenter1_keeps)

lemma call_token_keeps:
  assumes "call_token im P op w = Inr v"
    and "\<And>t cs. op (w_token w) = Some (cs, t) \<Longrightarrow> I (w\<lparr>w_token := t\<rparr>)"
  shows "I v"
proof -
  obtain t cs where "op (w_token w) = Some (cs, t)" and v: "v = reenter im P cs (w\<lparr>w_token := t\<rparr>)"
    using assms(1) by (auto simp: call_token_def split: option.splits)
  then have "I (w\<lparr>w_token := t\<rparr>)" by (intro assms(2))
  then show ?thesis unfolding v by (rule reenter_keeps)
qed

end

text \<open>
  The condition used for the contract: the books hold, the total owed is the one at the call, and
  nothing changed but rounds that were waiting for their random result.
\<close>

definition advanced :: "addr SolDraw \<Rightarrow> addr SolDraw \<Rightarrow> bool" where
  "advanced d e \<longleftrightarrow>
     e = d \<or>
     (s_status d = DRAWING \<and> (s_status e = NO_WINNER \<or> s_status e = WINNER_DECLARED) \<and>
      s_requestId e = s_requestId d \<and> s_pool e = s_pool d \<and> s_participantCount e = s_participantCount d)"

lemma advanced_refl [simp]: "advanced d d"
  by (simp add: advanced_def)

lemma advanced_trans: "advanced d e \<Longrightarrow> advanced e f \<Longrightarrow> advanced d f"
  by (auto simp: advanced_def)

lemma declared_advanced:
  "s_status (l_draws s i) = DRAWING \<Longrightarrow> advanced (l_draws s j) (l_draws (declared im i k tm s) j)"
  by (cases "j = i") (auto simp: declared_def Let_def emit_def advanced_def)

text \<open>
  What a call from inside adds to the log: one event for every round it decided, which states the
  result, and none about the others.
\<close>

fun round_of :: "event \<Rightarrow> nat" where
  "round_of (DrawStarted i st dl price mn inh) = i"
| "round_of (TicketBought i a n price k pl) = i"
| "round_of (RandomnessRequested i r) = i"
| "round_of (LotteryDrawn i k a pl fee prize ro) = i"
| "round_of (DrawCancelled i k tot ro) = i"
| "round_of (PrizeClaimed i a prize dao fee) = i"
| "round_of (RefundClaimed i a price) = i"

definition result_event :: "nat \<Rightarrow> addr SolDraw \<Rightarrow> event" where
  "result_event i d =
     LotteryDrawn i (s_luckyNumber d) (s_winner d) (s_pool d) (s_daoFee d) (s_winnerPrize d)
       (if s_winner d = 0 then s_pool d else 0)"

definition decided_as :: "nat \<Rightarrow> addr SolDraw \<Rightarrow> addr SolDraw \<Rightarrow> bool" where
  "decided_as tm d e \<longleftrightarrow>
     s_status d = DRAWING \<and>
     (\<exists>k a fee prize. 1 \<le> k \<and> k \<le> 10 \<and>
        e = d\<lparr>s_luckyNumber := k, s_winner := a, s_finalizedAt := uint64 tm,
              s_status := (if a = 0 then NO_WINNER else WINNER_DECLARED), s_daoFee := fee,
              s_winnerPrize := prize\<rparr>)"

lemma decided_status: "decided_as tm d e \<Longrightarrow> s_status e \<noteq> DRAWING"
  by (auto simp: decided_as_def split: if_splits)

definition announced :: "lottery \<Rightarrow> ('t, 'p) world \<Rightarrow> bool" where
  "announced s w \<longleftrightarrow>
     (\<exists>es. l_log (w_lottery w) = l_log s @ es \<and>
        (\<forall>i. l_draws (w_lottery w) i = l_draws s i \<and> filter (\<lambda>e. round_of e = i) es = [] \<or>
             decided_as (w_time w) (l_draws s i) (l_draws (w_lottery w) i) \<and>
             filter (\<lambda>e. round_of e = i) es = [result_event i (l_draws (w_lottery w) i)]))"

lemma announced_refl [simp]: "w_lottery w = s \<Longrightarrow> announced s w"
  by (simp add: announced_def)

lemma announced_environment [simp]:
  "announced s (w\<lparr>w_provider := p\<rparr>) = announced s w"
  "announced s (w\<lparr>w_token := t\<rparr>) = announced s w"
  by (simp_all add: announced_def)

lemma declared_decides:
  assumes "s_status (l_draws s i) = DRAWING" and "1 \<le> k" and "k \<le> 10"
  shows "decided_as tm (l_draws s i) (l_draws (declared im i k tm s) i)"
    and "l_log (declared im i k tm s) = l_log s @ [result_event i (l_draws (declared im i k tm s) i)]"
proof -
  let ?d = "l_draws s i" let ?e = "l_draws (declared im i k tm s) i"
  have "?e = ?d\<lparr>s_luckyNumber := k, s_winner := s_winner ?e, s_finalizedAt := uint64 tm,
      s_status := (if s_winner ?e = 0 then NO_WINNER else WINNER_DECLARED), s_daoFee := s_daoFee ?e,
      s_winnerPrize := s_winnerPrize ?e\<rparr>"
    by (simp add: declared_def emit_def Let_def)
  then show "decided_as tm ?d ?e" using assms unfolding decided_as_def by blast
  show "l_log (declared im i k tm s) = l_log s @ [result_event i ?e]"
    by (simp add: declared_def result_event_def emit_def Let_def)
qed

lemma declared_announced:
  assumes "announced s w" and "s_status (l_draws (w_lottery w) i) = DRAWING" and "1 \<le> k" and "k \<le> 10"
  shows "announced s (change (declared im i k (w_time w)) w)"
proof -
  let ?u = "w_lottery w" let ?v = "declared im i k (w_time w) ?u"
  obtain es where l: "l_log ?u = l_log s @ es"
    and e: "\<And>j. l_draws ?u j = l_draws s j \<and> filter (\<lambda>e. round_of e = j) es = [] \<or>
      decided_as (w_time w) (l_draws s j) (l_draws ?u j) \<and>
      filter (\<lambda>e. round_of e = j) es = [result_event j (l_draws ?u j)]"
    using assms(1) unfolding announced_def by blast
  have "\<not> decided_as (w_time w) (l_draws s i) (l_draws ?u i)"
    using assms(2) decided_status by blast
  then have i: "l_draws ?u i = l_draws s i" "filter (\<lambda>e. round_of e = i) es = []" using e [of i] by auto
  note D = declared_decides [OF assms(2-4), where tm = "w_time w" and im = im]
  have r: "round_of (result_event j d) = j" for j d by (simp add: result_event_def)
  show ?thesis
    unfolding announced_def
  proof (intro exI [of _ "es @ [result_event i (l_draws ?v i)]"] conjI allI)
    fix j
    show "l_draws (w_lottery (change (declared im i k (w_time w)) w)) j = l_draws s j \<and>
        filter (\<lambda>e. round_of e = j) (es @ [result_event i (l_draws ?v i)]) = [] \<or>
      decided_as (w_time (change (declared im i k (w_time w)) w)) (l_draws s j)
        (l_draws (w_lottery (change (declared im i k (w_time w)) w)) j) \<and>
      filter (\<lambda>e. round_of e = j) (es @ [result_event i (l_draws ?v i)]) =
        [result_event j (l_draws (w_lottery (change (declared im i k (w_time w)) w)) j)]"
      using e [of j] D(1) i r by (cases "j = i") (simp_all add: change_def)
  qed (use D(2) l in \<open>simp add: change_def\<close>)
qed

definition settled_from :: "immutables \<Rightarrow> lottery \<Rightarrow> 't \<Rightarrow> ('t, 'p) world \<Rightarrow> bool" where
  "settled_from im s t w \<longleftrightarrow>
     (let v = w_lottery w in
       books im v \<and> owed v = owed s \<and> w_token w = t \<and>
       l_currentDrawId v = l_currentDrawId s \<and> l_owners v = l_owners s \<and>
       l_ticketOf v = l_ticketOf s \<and> l_refunded v = l_refunded s \<and>
       l_requestDraw v = l_requestDraw s \<and> l_entered v = l_entered s \<and>
       (\<forall>j. advanced (l_draws s j) (l_draws v j)) \<and> announced s w)"

interpretation books_reentry: reentry_safe im "settled_from im s t" for im s t
proof unfold_locales
  fix sender r word and w v :: "('a, 'b) world"
  assume w: "settled_from im s t w" and f: "fulfillRandomness im sender r word w = Inr v"
  from f show "settled_from im s t v"
  proof (cases rule: fulfill_cases)
    case ignored
    then show ?thesis using w by simp
  next
    case (drawn i)
    have b: "books im (w_lottery w)" using w by (simp add: settled_from_def Let_def)
    have k: "1 \<le> word mod 10 + 1" "word mod 10 + 1 \<le> 10" by auto
    have "advanced (l_draws s j) (l_draws (declared im i (word mod 10 + 1) (w_time w) (w_lottery w)) j)" for j
      using w declared_advanced [OF drawn(4)] unfolding settled_from_def Let_def
      by (blast intro: advanced_trans)
    moreover have "announced s (change (declared im i (word mod 10 + 1) (w_time w)) w)"
      by (rule declared_announced [OF _ drawn(4) k]) (use w in \<open>simp add: settled_from_def Let_def\<close>)
    ultimately show ?thesis
      using w declared_books [OF b drawn(4) k] unfolding settled_from_def Let_def drawn(5) change_def
      by (simp del: One_nat_def)
  qed
qed (simp add: settled_from_def)

text \<open>No time passes.\<close>

interpretation time_reentry: reentry_safe im "\<lambda>w. w_time w = tm" for im tm
proof unfold_locales
  fix sender r word and w v :: "('a, 'b) world"
  assume w: "w_time w = tm" and f: "fulfillRandomness im sender r word w = Inr v"
  from f show "w_time v = tm" by (cases rule: fulfill_cases) (use w in \<open>simp_all add: change_def\<close>)
qed simp

text \<open>A round no request points to cannot be decided from inside a call.\<close>

definition undecided :: "nat \<Rightarrow> addr SolDraw \<Rightarrow> ('t, 'p) world \<Rightarrow> bool" where
  "undecided i d w \<longleftrightarrow>
     l_draws (w_lottery w) i = d \<and> (\<forall>r. l_requestDraw (w_lottery w) r \<noteq> i)"

interpretation undecided_reentry: reentry_safe im "undecided i d" for im i d
proof unfold_locales
  fix sender r word and w v :: "('a, 'b) world"
  assume w: "undecided i d w" and f: "fulfillRandomness im sender r word w = Inr v"
  from f show "undecided i d v"
  proof (cases rule: fulfill_cases)
    case (drawn j)
    then have "j \<noteq> i" using w by (auto simp: undecided_def)
    then show ?thesis using w by (simp add: undecided_def drawn(5) change_def)
  qed (use w in simp)
qed (simp add: undecided_def)

end
