(* ===== verification/Ledger.thy ===== *)
theory Ledger
  imports Accounts
begin

text \<open>
  Each external function of \<^verbatim>\<open>DLottery.sol\<close> keeps the books, and what it adds to or takes from the
  total owed. The effect lemmas state, for a call that returns, the state it leaves and the token
  transfers it made.
\<close>

lemma change_simps [simp]:
  "w_token (change f w) = w_token w" "w_provider (change f w) = w_provider w"
  "w_time (change f w) = w_time w" "w_lottery (change f w) = f (w_lottery w)"
  by (simp_all add: change_def)

section \<open>External calls keep the books\<close>

lemma settled_from_refl: "books im s \<Longrightarrow> w_lottery w = s \<Longrightarrow> w_token w = t \<Longrightarrow> settled_from im s t w"
  by (simp add: settled_from_def)

lemma call_token_settled:
  assumes "call_token im P op w = Inr v" and "books im (w_lottery w)"
  obtains cs t where "op (w_token w) = Some (cs, t)" and "settled_from im (w_lottery w) t v"
proof -
  obtain cs t where t: "op (w_token w) = Some (cs, t)" and v: "v = reenter im P cs (w\<lparr>w_token := t\<rparr>)"
    using assms(1) by (auto simp: call_token_def split: option.splits)
  have "settled_from im (w_lottery w) t (w\<lparr>w_token := t\<rparr>)"
    using assms(2) by (simp add: settled_from_def)
  then have "settled_from im (w_lottery w) t v" unfolding v by (rule books_reentry.reenter_keeps)
  with t show ?thesis by (rule that)
qed

lemma settled_from_books: "settled_from im s t w \<Longrightarrow> books im (w_lottery w)"
  by (simp add: settled_from_def Let_def)

lemma settled_from_owed: "settled_from im s t w \<Longrightarrow> owed (w_lottery w) = owed s"
  by (simp add: settled_from_def Let_def)

lemma settled_from_token: "settled_from im s t w \<Longrightarrow> w_token w = t"
  by (simp add: settled_from_def Let_def)

lemma settled_from_draw:
  "settled_from im s t w \<Longrightarrow> s_status (l_draws s i) \<noteq> DRAWING \<Longrightarrow> l_draws (w_lottery w) i = l_draws s i"
  by (metis advanced_def settled_from_def)

lemma settled_from_advanced:
  "settled_from im s t w \<Longrightarrow> advanced (l_draws s i) (l_draws (w_lottery w) i)"
  by (simp add: settled_from_def Let_def)

lemma settled_from_announced: "settled_from im s t w \<Longrightarrow> announced s w"
  by (simp add: settled_from_def Let_def)

lemma settled_from_frame:
  "settled_from im s t w \<Longrightarrow>
     l_currentDrawId (w_lottery w) = l_currentDrawId s \<and> l_owners (w_lottery w) = l_owners s \<and>
     l_ticketOf (w_lottery w) = l_ticketOf s \<and> l_refunded (w_lottery w) = l_refunded s \<and>
     l_requestDraw (w_lottery w) = l_requestDraw s"
  by (simp add: settled_from_def Let_def)

lemma call_token_time: "call_token im P op w = Inr v \<Longrightarrow> w_time v = w_time w"
  by (rule time_reentry.call_token_keeps) simp_all

section \<open>Tickets\<close>

lemma tickets_ok_buy:
  assumes "tickets_ok n os tk" and "tk a = 0" and "a \<noteq> 0" and "n < MAX_PARTICIPANTS"
  shows "tickets_ok (Suc n) (os[n := a]) (tk(a := Suc n))"
proof -
  have len: "length os = 10" "n < 10" using assms(1,4) by (auto simp: tickets_ok_def MAX_PARTICIPANTS_def)
  have new: "os ! j \<noteq> a" if "j < n" for j
    using assms(1,2) that unfolding tickets_ok_def by (metis nat.simps(3))
  have holder: "k \<le> Suc n \<and> os[n := a] ! (k - 1) = b"
    if "(tk(a := Suc n)) b = k" "k \<noteq> 0" for b k
  proof (cases "b = a")
    case True
    then show ?thesis using that len by auto
  next
    case False
    then have "k \<le> n" "os ! (k - 1) = b"
      using assms(1) that by (auto simp: tickets_ok_def split: if_splits)
    then show ?thesis using that(2) by auto
  qed
  show ?thesis
    unfolding tickets_ok_def
    using assms len new holder
    by (auto simp: tickets_ok_def nth_list_update less_Suc_eq)
qed

lemma tickets_ok_distinct: "tickets_ok n os tk \<Longrightarrow> distinct (take n os)"
  by (auto simp: tickets_ok_def distinct_conv_nth MAX_PARTICIPANTS_def) (metis nat.inject)

lemma tickets_ok_member:
  assumes "tickets_ok n os tk" and "tk a \<noteq> 0"
  shows "a \<in> set (take n os)"
proof -
  have "tk a - 1 < n" "os ! (tk a - 1) = a" "n \<le> length os"
    using assms by (auto simp: tickets_ok_def MAX_PARTICIPANTS_def intro: less_le_trans [of _ "tk a"])
  then show ?thesis by (auto simp: in_set_conv_nth intro!: exI [of _ "tk a - 1"])
qed

lemma refund_count:
  assumes "tickets_ok n os tk" and "tk a \<noteq> 0" and "\<not> rf a"
  shows "Suc (length (filter (\<lambda>b. \<not> (rf(a := True)) b) (take n os))) = length (filter (\<lambda>b. \<not> rf b) (take n os))"
proof -
  let ?xs = "take n os"
  have d: "distinct ?xs" and m: "a \<in> set ?xs"
    using tickets_ok_distinct [OF assms(1)] tickets_ok_member [OF assms(1,2)] .
  have "set (filter (\<lambda>b. \<not> (rf(a := True)) b) ?xs) = set (filter (\<lambda>b. \<not> rf b) ?xs) - {a}" by auto
  moreover have "a \<in> set (filter (\<lambda>b. \<not> rf b) ?xs)" using m assms(3) by simp
  moreover have "length (filter Q ?xs) = card (set (filter Q ?xs))" for Q
    using d distinct_card [OF distinct_filter, of ?xs Q] by simp
  ultimately show ?thesis by (metis card_Suc_Diff1 finite_set)
qed

section \<open>Starting a round\<close>

lemma sum_extend:
  fixes F G :: "nat \<Rightarrow> nat"
  assumes "\<And>j. 1 \<le> j \<Longrightarrow> j \<le> n \<Longrightarrow> G j = F j" and "G (Suc n) = 0"
  shows "sum G {1..Suc n} = sum F {1..n}"
  using assms by simp

lemma startDraw_effect:
  assumes "startDraw_body im n w = Inr v" and "books im (w_lottery w)"
  shows "books im (w_lottery v) \<and> owed (w_lottery v) = owed (w_lottery w) \<and> w_token v = w_token w"
proof -
  let ?s = "w_lottery w" let ?n = "l_currentDrawId ?s" let ?i = "Suc ?n"
  have R: "rounds_ok im ?s" and T: "totals_ok im ?s" using assms(2) by (auto simp: books_def)
  obtain dl where can: "canStartDraw ?s" and v: "v = change (\<lambda>s. emit
      (DrawStarted ?i (uint64 (w_time w)) (uint64 dl) (im_ticketPrice im) (im_minimumParticipants im)
        (l_pendingRollover ?s))
      (s\<lparr>l_currentDrawId := ?i,
         l_draws := (l_draws s)(?i := (l_draws s ?i)\<lparr>s_id := ?i, s_startTime := uint64 (w_time w),
           s_deadline := uint64 dl, s_inheritedRollover := l_pendingRollover s, s_pool := l_pendingRollover s\<rparr>),
         l_activePool := l_pendingRollover s, l_pendingRollover := 0\<rparr>)) w"
    using assms(1) by (auto simp: startDraw_body_def Let_def andThen_Inr change_def split: if_splits)
  have new: "untouched (l_draws ?s ?i) (l_owners ?s ?i) (l_ticketOf ?s ?i) (l_refunded ?s ?i)"
    by (rule rounds_ok_beyond [OF R]) simp
  have old: "\<not> live (l_draws ?s ?n)" if "1 \<le> ?n"
    using can that by (cases "s_status (l_draws ?s ?n)") (auto simp: canStartDraw_def live_def)
  have idle: "l_activePool ?s = 0"
  proof (cases "1 \<le> ?n")
    case True
    then show ?thesis using old T by (simp add: totals_ok_def Let_def)
  next
    case False
    then have "untouched (l_draws ?s ?n) (l_owners ?s ?n) (l_ticketOf ?s ?n) (l_refunded ?s ?n)"
      by (intro rounds_ok_beyond [OF R]) simp
    then show ?thesis using T by (simp add: totals_ok_def untouched_def zero_draw_def Let_def)
  qed
  have "round_ok im ?i (l_draws (w_lottery v) ?i) (l_owners ?s ?i) (l_ticketOf ?s ?i) (l_refunded ?s ?i)"
    using new by (simp add: v change_def emit_def untouched_def zero_draw_def round_ok_def
        tickets_ok_def result_ok_def)
  then have "rounds_ok im (w_lottery v)"
    using R old
    by (auto simp: v change_def emit_def rounds_ok_def less_Suc_eq le_Suc_eq)
  moreover
  have "(\<Sum>j \<in> {1..?i}. prize_due (l_draws (w_lottery v) j)) = (\<Sum>j \<in> {1..?n}. prize_due (l_draws ?s j))"
    using new by (intro sum_extend)
      (auto simp: v change_def emit_def prize_due_def untouched_def zero_draw_def)
  moreover
  have "(\<Sum>j \<in> {1..?i}. refunds_due im (l_draws (w_lottery v) j) (l_owners ?s j) (l_refunded ?s j)) =
      (\<Sum>j \<in> {1..?n}. refunds_due im (l_draws ?s j) (l_owners ?s j) (l_refunded ?s j))"
    using new by (intro sum_extend)
      (auto simp: v change_def emit_def refunds_due_def untouched_def zero_draw_def)
  moreover have "live (l_draws (w_lottery v) ?i)" "carry (l_draws (w_lottery v) ?i) = 0"
    "s_pool (l_draws (w_lottery v) ?i) = l_activePool (w_lottery v)"
    using new by (simp_all add: v change_def emit_def live_def carry_def untouched_def zero_draw_def)
  moreover have "l_currentDrawId (w_lottery v) = ?i" "l_pendingRollover (w_lottery v) = 0"
    "l_outstandingPrizes (w_lottery v) = l_outstandingPrizes ?s"
    "l_outstandingRefunds (w_lottery v) = l_outstandingRefunds ?s"
    "l_owners (w_lottery v) = l_owners ?s" "l_refunded (w_lottery v) = l_refunded ?s"
    by (simp_all add: v change_def emit_def)
  ultimately have "books im (w_lottery v)"
    using T by (simp add: books_def totals_ok_def)
  then show ?thesis using idle by (simp add: v change_def owed_def emit_def)
qed

section \<open>Buying a ticket\<close>

text \<open>The state after a purchase whose token call left the contract in state \<open>s\<close>.\<close>

definition bought :: "immutables \<Rightarrow> addr \<Rightarrow> nat \<Rightarrow> lottery \<Rightarrow> lottery" where
  "bought im a i s =
     (let d = l_draws s i; n = s_participantCount d + 1; price = im_ticketPrice im in
       emit (TicketBought i a n price n (s_pool d + price))
         (s\<lparr>l_owners := (l_owners s)(i := (l_owners s i)[n - 1 := a]),
            l_ticketOf := (l_ticketOf s)(i := (l_ticketOf s i)(a := n)),
            l_draws := (l_draws s)(i := d\<lparr>s_participantCount := n, s_pool := s_pool d + price\<rparr>),
            l_activePool := l_activePool s + price\<rparr>))"

lemma bought_books:
  assumes b: "books im s" and i: "i = l_currentDrawId s" "1 \<le> i" and d: "s_status (l_draws s i) = ACTIVE"
    and n: "s_participantCount (l_draws s i) < MAX_PARTICIPANTS" and a: "a \<noteq> 0" "l_ticketOf s i a = 0"
  shows "books im (bought im a i s)" and "owed (bought im a i s) = owed s + im_ticketPrice im"
proof -
  let ?d = "l_draws s i" let ?n = "s_participantCount ?d"
  let ?d' = "?d\<lparr>s_participantCount := Suc ?n, s_pool := s_pool ?d + im_ticketPrice im\<rparr>"
  have R: "rounds_ok im s" and T: "totals_ok im s" using b by (auto simp: books_def)
  have r: "round_ok im i ?d (l_owners s i) (l_ticketOf s i) (l_refunded s i)"
    using rounds_ok_round [OF R] i by simp
  have tk: "tickets_ok (Suc ?n) ((l_owners s i)[?n := a]) ((l_ticketOf s i)(a := Suc ?n))"
    using r a n by (intro tickets_ok_buy) (auto simp: round_ok_def)
  have t: "l_activePool s = s_pool ?d" "l_pendingRollover s = 0"
    using T i d by (auto simp: totals_ok_def Let_def live_def carry_def)
  show "owed (bought im a i s) = owed s + im_ticketPrice im"
    by (simp add: bought_def owed_def emit_def Let_def)
  show "books im (bought im a i s)"
    by (rule books_update [OF b, where i = i and d' = ?d' and os' = "(l_owners s i)[?n := a]"
          and tk' = "(l_ticketOf s i)(a := Suc ?n)" and rf' = "l_refunded s i"])
       (use i d r tk t in \<open>simp_all add: bought_def Let_def emit_def live_def carry_def prize_due_def
          round_ok_def result_ok_def\<close>)
qed

lemma buyTicket_effect:
  assumes "buyTicket_body im T P a i w = Inr v" and b: "books im (w_lottery w)" and "a \<noteq> 0"
  obtains u cs where
    "i = l_currentDrawId (w_lottery w)" "1 \<le> i"
    "s_status (l_draws (w_lottery w) i) = ACTIVE" "w_time w < s_deadline (l_draws (w_lottery w) i)"
    "s_participantCount (l_draws (w_lottery w) i) < MAX_PARTICIPANTS" "l_ticketOf (w_lottery w) i a = 0"
    "t_transferFrom T (im_this im) a (im_this im) (im_ticketPrice im) (w_token w) = Some (cs, w_token v)"
    "t_balanceOf T (w_token v) (im_this im) = t_balanceOf T (w_token w) (im_this im) + im_ticketPrice im"
    "settled_from im (w_lottery w) (w_token v) u" "v = change (bought im a i) u"
proof -
  let ?self = "im_this im" and ?price = "im_ticketPrice im"
  obtain u where g: "i = l_currentDrawId (w_lottery w)" "1 \<le> i"
      "s_status (l_draws (w_lottery w) i) = ACTIVE" "w_time w < s_deadline (l_draws (w_lottery w) i)"
      "s_participantCount (l_draws (w_lottery w) i) < MAX_PARTICIPANTS" "l_ticketOf (w_lottery w) i a = 0"
    and c: "call_token im P (t_transferFrom T ?self a ?self ?price) w = Inr u"
    and e: "t_balanceOf T (w_token u) ?self = t_balanceOf T (w_token w) ?self + ?price"
    and v: "v = change (bought im a i) u"
    using assms(1)
    by (auto simp: buyTicket_body_def Let_def andThen_Inr change_def bought_def split: if_splits)
  obtain cs t where "t_transferFrom T ?self a ?self ?price (w_token w) = Some (cs, t)"
      and s: "settled_from im (w_lottery w) t u"
    using call_token_settled [OF c b] .
  moreover have "w_token v = t" using settled_from_token [OF s] by (simp add: v change_def)
  moreover have "w_token u = t" using settled_from_token [OF s] .
  ultimately show thesis using that g e v by simp
qed

lemma buyTicket_keeps:
  assumes "buyTicket_body im T P a i w = Inr v" and "books im (w_lottery w)" and "a \<noteq> 0"
  shows "books im (w_lottery v) \<and> owed (w_lottery v) = owed (w_lottery w) + im_ticketPrice im"
  using assms
proof (rule buyTicket_effect)
  fix u cs
  assume g: "i = l_currentDrawId (w_lottery w)" "1 \<le> i" "s_status (l_draws (w_lottery w) i) = ACTIVE"
    "s_participantCount (l_draws (w_lottery w) i) < MAX_PARTICIPANTS" "l_ticketOf (w_lottery w) i a = 0"
    and s: "settled_from im (w_lottery w) (w_token v) u" and v: "v = change (bought im a i) u"
  have "l_draws (w_lottery u) i = l_draws (w_lottery w) i"
    using settled_from_draw [OF s] g(3) by simp
  then show ?thesis
    using bought_books [OF settled_from_books [OF s], of i a] settled_from_frame [OF s]
      settled_from_owed [OF s] g assms(3)
    by (simp add: v change_def)
qed

section \<open>Closing a round\<close>

lemma cancel_books:
  assumes b: "books im s" and i: "i = l_currentDrawId s" "1 \<le> i" and d: "s_status (l_draws s i) = ACTIVE"
    and n: "s_participantCount (l_draws s i) < im_minimumParticipants im"
    and s': "s' = s\<lparr>l_activePool := 0,
      l_outstandingRefunds := l_outstandingRefunds s + s_participantCount (l_draws s i) * im_ticketPrice im,
      l_pendingRollover := l_pendingRollover s + s_inheritedRollover (l_draws s i),
      l_draws := (l_draws s)(i := (l_draws s i)\<lparr>s_status := CANCELLED, s_finalizedAt := tm\<rparr>)\<rparr>"
  shows "books im s' \<and> owed s' = owed s"
proof -
  let ?d = "l_draws s i"
  let ?d' = "?d\<lparr>s_status := CANCELLED, s_finalizedAt := tm\<rparr>"
  have R: "rounds_ok im s" and T: "totals_ok im s" using b by (auto simp: books_def)
  have r: "round_ok im i ?d (l_owners s i) (l_ticketOf s i) (l_refunded s i)"
    using rounds_ok_round [OF R] i by simp
  have t: "l_activePool s = s_pool ?d" "l_pendingRollover s = 0"
    using T i d by (auto simp: totals_ok_def Let_def live_def carry_def)
  have none: "\<not> l_refunded s i a" for a using r d by (auto simp: round_ok_def)
  have len: "length (take (s_participantCount ?d) (l_owners s i)) = s_participantCount ?d"
    using r by (auto simp: round_ok_def tickets_ok_def MAX_PARTICIPANTS_def)
  have "books im s'"
    by (rule books_update [OF b, where i = i and d' = ?d' and os' = "l_owners s i"
          and tk' = "l_ticketOf s i" and rf' = "l_refunded s i"])
       (use i d r t n none len in \<open>simp_all add: s' live_def carry_def prize_due_def refunds_due_def
          round_ok_def result_ok_def\<close>)
  moreover have "owed s' = owed s"
    using t r by (simp add: s' owed_def round_ok_def)
  ultimately show ?thesis by simp
qed

text \<open>Changing the request identifier of a round that is no longer open.\<close>

lemma request_books:
  assumes b: "books im s" and d: "s_status (l_draws s i) \<noteq> ACTIVE"
  shows "books im (change_draw i (\<lambda>d. d\<lparr>s_requestId := r\<rparr>) s)"
    and "owed (change_draw i (\<lambda>d. d\<lparr>s_requestId := r\<rparr>) s) = owed s"
proof -
  have R: "rounds_ok im s" and T: "totals_ok im s" using b by (auto simp: books_def)
  have i: "1 \<le> i" "i \<le> l_currentDrawId s"
    using rounds_ok_beyond [OF R, of i] d
    by (metis One_nat_def SolDraw.select_convs(2) Suc_leI neq0_conv not_less untouched_def zero_draw_def)+
  note r = rounds_ok_round [OF R i]
  show "books im (change_draw i (\<lambda>d. d\<lparr>s_requestId := r\<rparr>) s)"
    by (rule books_update [OF b i, where d' = "(l_draws s i)\<lparr>s_requestId := r\<rparr>" and os' = "l_owners s i"
          and tk' = "l_ticketOf s i" and rf' = "l_refunded s i"])
       (use r d R T i in \<open>auto simp: change_draw_def live_def carry_def prize_due_def refunds_due_def
          round_ok_def result_ok_def totals_ok_def rounds_ok_def Let_def split: Status.splits\<close>)
  show "owed (change_draw i (\<lambda>d. d\<lparr>s_requestId := r\<rparr>) s) = owed s"
    by (simp add: change_draw_def owed_def)
qed

text \<open>The contract as it stands when the random word is requested.\<close>

definition drawing_state :: "nat \<Rightarrow> lottery \<Rightarrow> lottery" where
  "drawing_state i s =
     change_draw i (\<lambda>d. d\<lparr>s_status := DRAWING\<rparr>) (s\<lparr>l_activePool := s_pool (l_draws s i)\<rparr>)"

lemma drawing_books:
  assumes b: "books im s" and i: "i = l_currentDrawId s" "1 \<le> i" and d: "s_status (l_draws s i) = ACTIVE"
  shows "books im (drawing_state i s)" and "owed (drawing_state i s) = owed s"
proof -
  let ?d = "l_draws s i"
  have R: "rounds_ok im s" and T: "totals_ok im s" using b by (auto simp: books_def)
  note r = rounds_ok_round [OF R i(2)]
  have t: "l_activePool s = s_pool ?d" "l_pendingRollover s = 0"
    using T i d by (auto simp: totals_ok_def Let_def live_def carry_def)
  show "books im (drawing_state i s)"
    by (rule books_update [OF b, where i = i and d' = "?d\<lparr>s_status := DRAWING\<rparr>" and os' = "l_owners s i"
          and tk' = "l_ticketOf s i" and rf' = "l_refunded s i"])
       (use i d r t in \<open>simp_all add: drawing_state_def change_draw_def live_def carry_def prize_due_def
          round_ok_def result_ok_def\<close>)
  show "owed (drawing_state i s) = owed s"
    using t by (simp add: drawing_state_def change_draw_def owed_def)
qed

lemma canPerformDraw_iff:
  "canPerformDraw tm s i \<longleftrightarrow>
     i \<noteq> 0 \<and> i = l_currentDrawId s \<and> s_status (l_draws s i) = ACTIVE \<and>
     (s_participantCount (l_draws s i) = MAX_PARTICIPANTS \<or> s_deadline (l_draws s i) \<le> tm)"
  by (auto simp: canPerformDraw_def Let_def)

lemma performDraw_effect:
  assumes "performDraw_body im P i w = Inr v" and b: "books im (w_lottery w)"
  obtains (cancelled)
      "canPerformDraw (w_time w) (w_lottery w) i"
      "s_participantCount (l_draws (w_lottery w) i) < im_minimumParticipants im"
      "v = change (\<lambda>s. emit (DrawCancelled i (s_participantCount (l_draws s i))
          (s_participantCount (l_draws s i) * im_ticketPrice im) (s_inheritedRollover (l_draws s i)))
        (s\<lparr>l_activePool := 0,
           l_outstandingRefunds := l_outstandingRefunds s + s_participantCount (l_draws s i) * im_ticketPrice im,
           l_pendingRollover := l_pendingRollover s + s_inheritedRollover (l_draws s i),
           l_draws := (l_draws s)(i := (l_draws s i)\<lparr>s_status := CANCELLED, s_finalizedAt := uint64 (w_time w)\<rparr>)\<rparr>)) w"
  | (requested) r cs p u where
      "canPerformDraw (w_time w) (w_lottery w) i"
      "im_minimumParticipants im \<le> s_participantCount (l_draws (w_lottery w) i)"
      "p_request P (im_this im) (w_provider w) = Some (r, cs, p)" "r \<noteq> 0" "l_requestDraw (w_lottery w) r = 0"
      "settled_from im (drawing_state i (w_lottery w)) (w_token w) u"
      "(\<And>q. l_requestDraw (w_lottery w) q \<noteq> i) \<Longrightarrow>
         l_draws (w_lottery u) i = (l_draws (w_lottery w) i)\<lparr>s_status := DRAWING\<rparr>"
      "v = change (\<lambda>s. emit (RandomnessRequested i r) (change_draw i (\<lambda>d. d\<lparr>s_requestId := r\<rparr>)
        (s\<lparr>l_requestDraw := (l_requestDraw s)(r := i)\<rparr>))) u"
proof -
  let ?s = "w_lottery w" let ?d = "l_draws ?s i"
  have can: "canPerformDraw (w_time w) ?s i"
    using assms(1) by (auto simp: performDraw_body_def Let_def split: if_splits)
  show thesis
  proof (cases "s_participantCount ?d < im_minimumParticipants im")
    case True
    then show ?thesis
      using assms(1) can by (intro cancelled) (auto simp: performDraw_body_def Let_def andThen_Inr change_def)
  next
    case False
    define w1 where "w1 = change (drawing_state i) w"
    have w1: "w1 = change (\<lambda>s. change_draw i (\<lambda>d. d\<lparr>s_status := DRAWING\<rparr>) (s\<lparr>l_activePool := s_pool ?d\<rparr>)) w"
      by (simp add: w1_def change_def drawing_state_def)
    obtain r cs p where q: "p_request P (im_this im) (w_provider w) = Some (r, cs, p)"
      and r: "r \<noteq> 0" "l_requestDraw (w_lottery (reenter im P cs (w1\<lparr>w_provider := p\<rparr>))) r = 0"
      and v: "v = change (\<lambda>s. emit (RandomnessRequested i r) (change_draw i (\<lambda>d. d\<lparr>s_requestId := r\<rparr>)
        (s\<lparr>l_requestDraw := (l_requestDraw s)(r := i)\<rparr>))) (reenter im P cs (w1\<lparr>w_provider := p\<rparr>))"
      using assms(1) can False
      by (auto simp: performDraw_body_def Let_def w1 [symmetric] split: option.splits if_splits)
         (auto simp: w1_def change_def)
    have "settled_from im (drawing_state i ?s) (w_token w) (w1\<lparr>w_provider := p\<rparr>)"
      using drawing_books(1) [OF b] can
      by (intro settled_from_refl) (auto simp: w1_def change_def canPerformDraw_iff)
    then have u: "settled_from im (drawing_state i ?s) (w_token w) (reenter im P cs (w1\<lparr>w_provider := p\<rparr>))"
      by (rule books_reentry.reenter_keeps)
    have "l_requestDraw ?s r = 0"
      using r(2) settled_from_frame [OF u] by (simp add: drawing_state_def change_draw_def)
    moreover have "l_draws (w_lottery (reenter im P cs (w1\<lparr>w_provider := p\<rparr>))) i = ?d\<lparr>s_status := DRAWING\<rparr>"
      if "\<And>q. l_requestDraw ?s q \<noteq> i"
    proof -
      have "undecided i (?d\<lparr>s_status := DRAWING\<rparr>) (w1\<lparr>w_provider := p\<rparr>)"
        using that by (simp add: undecided_def w1_def drawing_state_def change_draw_def)
      then have "undecided i (?d\<lparr>s_status := DRAWING\<rparr>) (reenter im P cs (w1\<lparr>w_provider := p\<rparr>))"
        by (rule undecided_reentry.reenter_keeps)
      then show ?thesis by (simp add: undecided_def)
    qed
    ultimately show ?thesis using requested [OF can _ q r(1) _ u _ v] False by simp
  qed
qed

lemma performDraw_keeps:
  assumes "performDraw_body im P i w = Inr v" and b: "books im (w_lottery w)"
  shows "books im (w_lottery v) \<and> owed (w_lottery v) = owed (w_lottery w) \<and> w_token v = w_token w"
  using assms
proof (cases rule: performDraw_effect)
  case cancelled
  have i: "i = l_currentDrawId (w_lottery w)" "1 \<le> i" "s_status (l_draws (w_lottery w) i) = ACTIVE"
    using cancelled(1) by (auto simp: canPerformDraw_iff)
  have "books im (w_lottery v) \<and> owed (w_lottery v) = owed (w_lottery w)"
    using cancel_books [OF b i cancelled(2) refl, of "uint64 (w_time w)"]
    unfolding cancelled(3) change_def by simp
  then show ?thesis by (simp add: cancelled(3) change_def)
next
  case (requested r cs p u)
  let ?s = "w_lottery w"
  have i: "i = l_currentDrawId ?s" "1 \<le> i" "s_status (l_draws ?s i) = ACTIVE"
    using requested(1) by (auto simp: canPerformDraw_iff)
  note D = drawing_books [OF b i]
  have "s_status (l_draws (w_lottery u) i) \<noteq> ACTIVE"
    using settled_from_advanced [OF requested(6), of i]
    by (auto simp: advanced_def drawing_state_def change_draw_def)
  then show ?thesis
    using request_books [of im "(w_lottery u)\<lparr>l_requestDraw := (l_requestDraw (w_lottery u))(r := i)\<rparr>" i r]
      settled_from_books [OF requested(6)] settled_from_owed [OF requested(6)]
      settled_from_token [OF requested(6)] D
    by (simp add: requested(8) change_def)
qed

section \<open>Claims\<close>

text \<open>The contract when a prize is paid out, before the transfers, and when a refund is.\<close>

definition completed :: "nat \<Rightarrow> lottery \<Rightarrow> lottery" where
  "completed i s =
     change_draw i (\<lambda>d. d\<lparr>s_status := COMPLETED\<rparr>)
       (s\<lparr>l_outstandingPrizes := l_outstandingPrizes s - s_pool (l_draws s i)\<rparr>)"

definition refund_taken :: "immutables \<Rightarrow> addr \<Rightarrow> nat \<Rightarrow> lottery \<Rightarrow> lottery" where
  "refund_taken im a i s =
     s\<lparr>l_refunded := (l_refunded s)(i := (l_refunded s i)(a := True)),
       l_outstandingRefunds := l_outstandingRefunds s - im_ticketPrice im\<rparr>"

lemma started_round:
  assumes "rounds_ok im s" and "s_status (l_draws s i) \<noteq> ACTIVE"
  shows "1 \<le> i" "i \<le> l_currentDrawId s"
  using rounds_ok_beyond [OF assms(1), of i] assms(2)
  by (metis One_nat_def SolDraw.select_convs(2) Suc_leI neq0_conv not_less untouched_def zero_draw_def)+

lemma prize_in_books:
  assumes "books im s" and "s_status (l_draws s i) = WINNER_DECLARED"
  shows "s_pool (l_draws s i) \<le> l_outstandingPrizes s"
proof -
  have R: "rounds_ok im s" and T: "totals_ok im s" using assms(1) by (auto simp: books_def)
  have i: "i \<in> {1..l_currentDrawId s}" using started_round [OF R, of i] assms(2) by simp
  have "prize_due (l_draws s i) \<le> (\<Sum>j \<in> {1..l_currentDrawId s}. prize_due (l_draws s j))"
    using i by (intro member_le_sum) auto
  then show ?thesis using T assms(2) by (simp add: totals_ok_def prize_due_def)
qed

lemma completed_books:
  assumes b: "books im s" and d: "s_status (l_draws s i) = WINNER_DECLARED"
  shows "books im (completed i s)" and "owed (completed i s) + s_pool (l_draws s i) = owed s"
proof -
  let ?d = "l_draws s i"
  have R: "rounds_ok im s" and T: "totals_ok im s" using b by (auto simp: books_def)
  have i: "1 \<le> i" "i \<le> l_currentDrawId s" using started_round [OF R, of i] d by simp_all
  note r = rounds_ok_round [OF R i] and le = prize_in_books [OF b d]
  show "books im (completed i s)"
    by (rule books_update [OF b i, where d' = "?d\<lparr>s_status := COMPLETED\<rparr>" and os' = "l_owners s i"
          and tk' = "l_ticketOf s i" and rf' = "l_refunded s i"])
       (use T d r le in \<open>auto simp: completed_def change_draw_def live_def carry_def prize_due_def
          refunds_due_def round_ok_def result_ok_def totals_ok_def Let_def\<close>)
  show "owed (completed i s) + s_pool (l_draws s i) = owed s"
    using le by (simp add: completed_def change_draw_def owed_def)
qed

lemma refund_in_books:
  assumes "books im s" and "s_status (l_draws s i) = CANCELLED" and "l_ticketOf s i a \<noteq> 0"
    and "\<not> l_refunded s i a"
  shows "im_ticketPrice im \<le> l_outstandingRefunds s"
    and "refunds_due im (l_draws s i) (l_owners s i) ((l_refunded s i)(a := True)) + im_ticketPrice im =
      refunds_due im (l_draws s i) (l_owners s i) (l_refunded s i)"
proof -
  let ?due = "\<lambda>j. refunds_due im (l_draws s j) (l_owners s j) (l_refunded s j)"
  have R: "rounds_ok im s" and T: "totals_ok im s" using assms(1) by (auto simp: books_def)
  have i: "1 \<le> i" "i \<le> l_currentDrawId s" using started_round [OF R, of i] assms(2) by simp_all
  have tk: "tickets_ok (s_participantCount (l_draws s i)) (l_owners s i) (l_ticketOf s i)"
    using rounds_ok_round [OF R i] by (simp add: round_ok_def)
  show step: "refunds_due im (l_draws s i) (l_owners s i) ((l_refunded s i)(a := True)) + im_ticketPrice im =
      ?due i"
    unfolding refunds_due_def refund_count [OF tk assms(3), of "l_refunded s i", symmetric, OF assms(4)]
    by (simp only: assms(2) if_True simp_thms mult_Suc_right add.commute)
  have "?due i \<le> sum ?due {1..l_currentDrawId s}"
    using i by (intro member_le_sum) auto
  then show "im_ticketPrice im \<le> l_outstandingRefunds s"
    using T step by (simp add: totals_ok_def)
qed

lemma refund_taken_books:
  assumes b: "books im s" and d: "s_status (l_draws s i) = CANCELLED" and a: "l_ticketOf s i a \<noteq> 0"
    "\<not> l_refunded s i a"
  shows "books im (refund_taken im a i s)"
    and "owed (refund_taken im a i s) + im_ticketPrice im = owed s"
proof -
  have R: "rounds_ok im s" and T: "totals_ok im s" using b by (auto simp: books_def)
  have i: "1 \<le> i" "i \<le> l_currentDrawId s" using started_round [OF R, of i] d by simp_all
  note r = rounds_ok_round [OF R i] and le = refund_in_books [OF b d a]
  show "books im (refund_taken im a i s)"
    by (rule books_update [OF b i, where d' = "l_draws s i" and os' = "l_owners s i"
          and tk' = "l_ticketOf s i" and rf' = "(l_refunded s i)(a := True)"])
       (use T d r le a in \<open>auto simp: refund_taken_def live_def round_ok_def totals_ok_def Let_def\<close>)
  show "owed (refund_taken im a i s) + im_ticketPrice im = owed s"
    using le(1) by (simp add: refund_taken_def owed_def)
qed

lemma claimPrize_eq:
  assumes "s_status (l_draws (w_lottery w) i) = WINNER_DECLARED" and "s_winner (l_draws (w_lottery w) i) = a"
    and "s_pool (l_draws (w_lottery w) i) \<le> l_outstandingPrizes (w_lottery w)"
  shows "claimPrize_body im T P a i w =
    andThen (if s_daoFee (l_draws (w_lottery w) i) \<noteq> 0
        then call_token im P (t_transfer T (im_this im) (im_dao im) (s_daoFee (l_draws (w_lottery w) i)))
               (change (completed i) w)
        else Inr (change (completed i) w))
      (\<lambda>w2. andThen (call_token im P (t_transfer T (im_this im) a (s_winnerPrize (l_draws (w_lottery w) i))) w2)
        (\<lambda>w3. Inr (change (emit (PrizeClaimed i a (s_winnerPrize (l_draws (w_lottery w) i)) (im_dao im)
            (s_daoFee (l_draws (w_lottery w) i)))) w3)))"
  using assms by (simp add: claimPrize_body_def Let_def checked_sub_def change_def completed_def)

lemma claimPrize_effect:
  fixes w v :: "('t, 'p) world"
  assumes "claimPrize_body im T P a i w = Inr v" and b: "books im (w_lottery w)"
  obtains u1 u2 :: "('t, 'p) world" and t1 cs1 cs2 where
    "s_status (l_draws (w_lottery w) i) = WINNER_DECLARED" "s_winner (l_draws (w_lottery w) i) = a"
    "if s_daoFee (l_draws (w_lottery w) i) = 0 then t1 = w_token w
     else t_transfer T (im_this im) (im_dao im) (s_daoFee (l_draws (w_lottery w) i)) (w_token w) = Some (cs1, t1)"
    "settled_from im (completed i (w_lottery w)) t1 u1"
    "t_transfer T (im_this im) a (s_winnerPrize (l_draws (w_lottery w) i)) t1 = Some (cs2, w_token v)"
    "settled_from im (w_lottery u1) (w_token v) u2"
    "v = change (emit (PrizeClaimed i a (s_winnerPrize (l_draws (w_lottery w) i)) (im_dao im)
       (s_daoFee (l_draws (w_lottery w) i)))) u2"
    "w_time u1 = w_time w" "w_time u2 = w_time w"
proof -
  let ?s = "w_lottery w" let ?d = "l_draws ?s i" let ?self = "im_this im"
  define w1 where "w1 = change (completed i) w"
  have g: "s_status ?d = WINNER_DECLARED" "s_winner ?d = a"
    using assms(1) by (auto simp: claimPrize_body_def Let_def split: if_splits)
  note eq = claimPrize_eq [OF g prize_in_books [OF b g(1)], of im T P, folded w1_def]
  obtain u1 u2 where
    c1: "(if s_daoFee ?d \<noteq> 0 then call_token im P (t_transfer T ?self (im_dao im) (s_daoFee ?d)) w1 else Inr w1) = Inr u1"
    and c2: "call_token im P (t_transfer T ?self a (s_winnerPrize ?d)) u1 = Inr u2"
    and v: "v = change (emit (PrizeClaimed i a (s_winnerPrize ?d) (im_dao im) (s_daoFee ?d))) u2"
    using assms(1) [unfolded eq andThen_Inr sum.inject] by blast
  have b1: "books im (w_lottery w1)" "w_lottery w1 = completed i ?s" "w_token w1 = w_token w"
    using completed_books(1) [OF b g(1)] by (simp_all add: w1_def change_def)
  obtain t1 cs1 where t1: "if s_daoFee ?d = 0 then t1 = w_token w
      else t_transfer T ?self (im_dao im) (s_daoFee ?d) (w_token w) = Some (cs1, t1)"
    and u1: "settled_from im (completed i ?s) t1 u1"
  proof (cases "s_daoFee ?d = 0")
    case True
    then show ?thesis using that c1 b1 by (auto intro: settled_from_refl)
  next
    case False
    then have "call_token im P (t_transfer T ?self (im_dao im) (s_daoFee ?d)) w1 = Inr u1" using c1 by simp
    from call_token_settled [OF this b1(1)] show ?thesis using False that b1 by auto
  qed
  obtain cs2 t2 where tr: "t_transfer T ?self a (s_winnerPrize ?d) (w_token u1) = Some (cs2, t2)"
    and u2: "settled_from im (w_lottery u1) t2 u2"
    using call_token_settled [OF c2 settled_from_books [OF u1]] .
  have t2: "w_token v = t2" using settled_from_token [OF u2] by (simp add: v change_def)
  show thesis
    by (rule that [OF g t1 u1 _ _ v])
       (use tr u2 t2 settled_from_token [OF u1] c1 call_token_time [OF c2] in
         \<open>auto simp: w1_def dest: call_token_time split: if_splits\<close>)
qed

lemma claimRefund_effect:
  assumes "claimRefund_body im T P a i w = Inr v" and b: "books im (w_lottery w)"
  obtains u cs where
    "s_status (l_draws (w_lottery w) i) = CANCELLED" "l_ticketOf (w_lottery w) i a \<noteq> 0"
    "\<not> l_refunded (w_lottery w) i a"
    "t_transfer T (im_this im) a (im_ticketPrice im) (w_token w) = Some (cs, w_token v)"
    "settled_from im (refund_taken im a i (w_lottery w)) (w_token v) u"
    "v = change (emit (RefundClaimed i a (im_ticketPrice im))) u"
proof -
  let ?s = "w_lottery w"
  define w1 where "w1 = change (refund_taken im a i) w"
  have g: "s_status (l_draws ?s i) = CANCELLED" "l_ticketOf ?s i a \<noteq> 0" "\<not> l_refunded ?s i a"
    using assms(1) by (auto simp: claimRefund_body_def Let_def split: if_splits)
  have w1: "w1 = change (\<lambda>s. s\<lparr>l_refunded := (l_refunded s)(i := (l_refunded s i)(a := True)),
      l_outstandingRefunds := l_outstandingRefunds ?s - im_ticketPrice im\<rparr>) w"
    by (simp add: w1_def change_def refund_taken_def)
  obtain u where c: "call_token im P (t_transfer T (im_this im) a (im_ticketPrice im)) w1 = Inr u"
    and v: "v = change (emit (RefundClaimed i a (im_ticketPrice im))) u"
    using assms(1) g by (auto simp: claimRefund_body_def Let_def andThen_Inr w1 [symmetric])
  have b1: "books im (w_lottery w1)" "w_lottery w1 = refund_taken im a i ?s" "w_token w1 = w_token w"
    using refund_taken_books(1) [OF b g] by (simp_all add: w1_def change_def)
  obtain cs t where "t_transfer T (im_this im) a (im_ticketPrice im) (w_token w1) = Some (cs, t)"
    and u: "settled_from im (refund_taken im a i ?s) t u"
    using call_token_settled [OF c b1(1)] b1(2) by metis
  moreover have "w_token v = t" using settled_from_token [OF u] by (simp add: v change_def)
  ultimately show thesis using g v b1(3) by (intro that) simp_all
qed

lemma claimPrize_keeps:
  assumes "claimPrize_body im T P a i w = Inr v" and b: "books im (w_lottery w)"
  shows "books im (w_lottery v) \<and> owed (w_lottery v) + s_pool (l_draws (w_lottery w) i) = owed (w_lottery w)"
proof (rule claimPrize_effect [OF assms], goal_cases)
  case (1 u1 u2 t1 cs1 cs2)
  then show ?case
    using completed_books(2) [OF b 1(1)] settled_from_owed [OF 1(4)] settled_from_owed [OF 1(6)]
      settled_from_books [OF 1(6)] by simp
qed

lemma claimRefund_keeps:
  assumes "claimRefund_body im T P a i w = Inr v" and b: "books im (w_lottery w)"
  shows "books im (w_lottery v) \<and> owed (w_lottery v) + im_ticketPrice im = owed (w_lottery w)"
proof (rule claimRefund_effect [OF assms], goal_cases)
  case (1 u cs)
  then show ?case
    using refund_taken_books(2) [OF b 1(1-3)] settled_from_owed [OF 1(5)] settled_from_books [OF 1(5)]
    by simp
qed

section \<open>Every transaction keeps the books\<close>

lemma nonReentrant_Inr:
  "nonReentrant f w = Inr v \<longleftrightarrow>
     \<not> l_entered (w_lottery w) \<and>
     (\<exists>u. f (change (\<lambda>s. s\<lparr>l_entered := True\<rparr>) w) = Inr u \<and> v = change (\<lambda>s. s\<lparr>l_entered := False\<rparr>) u)"
  by (auto simp: nonReentrant_def andThen_Inr)

lemma fulfill_keeps:
  assumes "fulfillRandomness im sender r word w = Inr v" and "books im (w_lottery w)"
  shows "settled_from im (w_lottery w) (w_token w) v"
proof -
  have "settled_from im (w_lottery w) (w_token w) w" using assms(2) by (simp add: settled_from_refl)
  then show ?thesis using assms(1) by (rule books_reentry.result_keeps)
qed

lemma finalize_settled:
  assumes "finalizeDraw im P i w = Inr v" and "books im (w_lottery w)"
  shows "settled_from im (w_lottery w) (w_token w) v"
proof -
  have "settled_from im (w_lottery w) (w_token w) w" using assms(2) by (simp add: settled_from_refl)
  then show ?thesis using assms(1) by (rule books_reentry.finalize_keeps)
qed

lemma transact_books:
  assumes "transact im T P a c w = Inr v" and "books im (w_lottery w)" and "a \<noteq> 0"
  shows "books im (w_lottery v)"
proof (cases c)
  case (call_startDraw n)
  then show ?thesis
    using assms startDraw_effect by (fastforce simp: transact_def nonReentrant_Inr)
next
  case (call_buyTicket i)
  then show ?thesis
    using assms buyTicket_keeps by (fastforce simp: transact_def nonReentrant_Inr)
next
  case (call_performDraw i)
  then show ?thesis
    using assms performDraw_keeps by (fastforce simp: transact_def nonReentrant_Inr)
next
  case (call_fulfillRandomness r word)
  then show ?thesis
    using assms fulfill_keeps settled_from_books by (fastforce simp: transact_def)
next
  case (call_finalizeDraw i)
  then show ?thesis
    using assms finalize_settled settled_from_books by (fastforce simp: transact_def)
next
  case (call_claimPrize i)
  then show ?thesis
    using assms claimPrize_keeps by (fastforce simp: transact_def nonReentrant_Inr)
next
  case (call_claimRefund i)
  then show ?thesis
    using assms claimRefund_keeps by (fastforce simp: transact_def nonReentrant_Inr)
qed

end
