(* ===== verification/Solvency.thy ===== *)
theory Solvency
  imports Ledger
begin

text \<open>
  The contract as a system: transactions of arbitrary senders, other activity on the token and the
  provider, and the passing of time. In every reachable world the books hold, the token balance
  covers what is owed, settled rounds do not change, and every result can be delivered and paid.
\<close>

section \<open>Assumptions on the token and the deployment\<close>

text \<open>
  The documented behaviour of an ERC-20 \<^verbatim>\<open>transfer\<close>: it takes exactly the amount from its caller.
  Balances are \<^verbatim>\<open>uint256\<close>.
\<close>

definition exact_token :: "'t token \<Rightarrow> addr \<Rightarrow> bool" where
  "exact_token T this \<longleftrightarrow>
     (\<forall>to n t cs t'. to \<noteq> this \<and> t_transfer T this to n t = Some (cs, t') \<longrightarrow>
        t_balanceOf T t' this + n = t_balanceOf T t this) \<and>
     (\<forall>t a. t_balanceOf T t a < 2 ^ 256)"

definition valid_deployment :: "immutables \<Rightarrow> bool" where
  "valid_deployment im \<longleftrightarrow>
     im_dao im \<noteq> im_this im \<and> im_dao im \<noteq> 0 \<and> 0 < im_ticketPrice im \<and> im_ticketPrice im < 2 ^ 256 \<and>
     1 \<le> im_minimumParticipants im \<and> im_minimumParticipants im \<le> MAX_PARTICIPANTS"

lemma construct_valid:
  "construct tc pc decimals dao minimum provider this = Inr im \<Longrightarrow> valid_deployment im"
  by (auto simp: construct_def valid_deployment_def andThen_Inr MAX_PARTICIPANTS_def
      split: if_splits option.splits)

section \<open>The system\<close>

inductive system_step ::
  "immutables \<Rightarrow> 't token \<Rightarrow> 'p provider \<Rightarrow> ('t, 'p) world \<Rightarrow> ('t, 'p) world \<Rightarrow> bool"
  for im :: immutables and T :: "'t token" and P :: "'p provider" where
  transaction: "\<lbrakk>a \<noteq> 0; a \<noteq> im_this im; transact im T P a c w = Inr v\<rbrakk> \<Longrightarrow> system_step im T P w v"
| elsewhere: "\<lbrakk>t_balanceOf T (w_token w) (im_this im) \<le> t_balanceOf T t (im_this im); w_time w \<le> tm\<rbrakk> \<Longrightarrow>
    system_step im T P w (w\<lparr>w_token := t, w_provider := p, w_time := tm\<rparr>)"

inductive deployed :: "immutables \<Rightarrow> 't token \<Rightarrow> 'p provider \<Rightarrow> ('t, 'p) world \<Rightarrow> bool"
  for im :: immutables and T :: "'t token" and P :: "'p provider" where
  created: "deployed im T P \<lparr>w_lottery = fresh_lottery, w_token = t, w_provider = p, w_time = tm\<rparr>"
| next_step: "deployed im T P w \<Longrightarrow> system_step im T P w v \<Longrightarrow> deployed im T P v"

inductive_cases system_stepE: "system_step im T P w v"

definition later :: "immutables \<Rightarrow> 't token \<Rightarrow> 'p provider \<Rightarrow> ('t, 'p) world \<Rightarrow> ('t, 'p) world \<Rightarrow> bool" where
  "later im T P = (system_step im T P)\<^sup>*\<^sup>*"

lemma deployed_later: "later im T P w v \<Longrightarrow> deployed im T P w \<Longrightarrow> deployed im T P v"
  unfolding later_def by (induction rule: rtranclp_induct) (auto intro: deployed.next_step)

section \<open>The books hold and the lock is free between transactions\<close>

lemma fulfill_lock: "fulfillRandomness im a r word w = Inr v \<Longrightarrow> l_entered (w_lottery v) = l_entered (w_lottery w)"
  by (auto elim!: fulfill_cases)

lemma transact_lock:
  assumes "transact im T P a c w = Inr v" and "\<not> l_entered (w_lottery w)"
  shows "\<not> l_entered (w_lottery v)"
proof (cases c)
  case (call_finalizeDraw i)
  then show ?thesis
    using assms by (auto simp: transact_def fulfill_lock elim!: finalize_cases)
qed (use assms in \<open>auto simp: transact_def nonReentrant_Inr fulfill_lock\<close>)

lemma deployed_books:
  "deployed im T P w \<Longrightarrow> books im (w_lottery w) \<and> \<not> l_entered (w_lottery w)"
proof (induction rule: deployed.induct)
  case (created t p tm)
  then show ?case by (simp add: books_fresh) (simp add: fresh_lottery_def)
next
  case (next_step w v)
  from next_step.hyps(2) next_step.IH show ?case
    by cases (auto dest: transact_books transact_lock)
qed

section \<open>Solvency\<close>

definition funded :: "immutables \<Rightarrow> 't token \<Rightarrow> ('t, 'p) world \<Rightarrow> bool" where
  "funded im T w \<longleftrightarrow> owed (w_lottery w) \<le> t_balanceOf T (w_token w) (im_this im)"

lemma pays: "exact_token T self \<Longrightarrow> to \<noteq> self \<Longrightarrow> t_transfer T self to n t = Some (cs, t') \<Longrightarrow>
    t_balanceOf T t' self + n = t_balanceOf T t self"
  unfolding exact_token_def by blast

lemma winner_split:
  assumes "books im s" and "s_status (l_draws s i) = WINNER_DECLARED"
  shows "s_winnerPrize (l_draws s i) + s_daoFee (l_draws s i) = s_pool (l_draws s i)"
    and "s_daoFee (l_draws s i) = fee_of im (s_pool (l_draws s i))"
proof -
  have R: "rounds_ok im s" using assms(1) by (simp add: books_def)
  have "round_ok im i (l_draws s i) (l_owners s i) (l_ticketOf s i) (l_refunded s i)"
    using rounds_ok_round [OF R] started_round [OF R, of i] assms(2) by simp
  then show "s_winnerPrize (l_draws s i) + s_daoFee (l_draws s i) = s_pool (l_draws s i)"
    "s_daoFee (l_draws s i) = fee_of im (s_pool (l_draws s i))"
    using assms(2) by (auto simp: round_ok_def result_ok_def)
qed

lemma transact_funded:
  assumes t: "transact im T P a c w = Inr v" and b: "books im (w_lottery w)" and f: "funded im T w"
    and a: "a \<noteq> 0" "a \<noteq> im_this im" and T: "exact_token T (im_this im)" and dao: "im_dao im \<noteq> im_this im"
  shows "funded im T v"
proof (cases c)
  case (call_startDraw n)
  then show ?thesis
    using t b f startDraw_effect by (fastforce simp: transact_def nonReentrant_Inr funded_def)
next
  case (call_buyTicket i)
  then obtain u where u: "buyTicket_body im T P a i (change (\<lambda>s. s\<lparr>l_entered := True\<rparr>) w) = Inr u"
    and v: "v = change (\<lambda>s. s\<lparr>l_entered := False\<rparr>) u"
    using t by (auto simp: transact_def nonReentrant_Inr)
  have "t_balanceOf T (w_token u) (im_this im) = t_balanceOf T (w_token w) (im_this im) + im_ticketPrice im"
    using u by (rule buyTicket_effect) (use b a in simp_all)
  then show ?thesis using buyTicket_keeps [OF u] b a f by (simp add: v funded_def)
next
  case (call_performDraw i)
  then show ?thesis
    using t b f performDraw_keeps by (fastforce simp: transact_def nonReentrant_Inr funded_def)
next
  case (call_fulfillRandomness r word)
  then show ?thesis
    using t b f fulfill_keeps settled_from_owed settled_from_token
    by (fastforce simp: transact_def funded_def)
next
  case (call_finalizeDraw i)
  then show ?thesis
    using t b f finalize_settled settled_from_owed settled_from_token
    by (fastforce simp: transact_def funded_def)
next
  case (call_claimPrize i)
  let ?w = "change (\<lambda>s. s\<lparr>l_entered := True\<rparr>) w" let ?d = "l_draws (w_lottery w) i"
  obtain u where u: "claimPrize_body im T P a i ?w = Inr u" and v: "v = change (\<lambda>s. s\<lparr>l_entered := False\<rparr>) u"
    using t call_claimPrize by (auto simp: transact_def nonReentrant_Inr)
  have b': "books im (w_lottery ?w)" using b by simp
  have "t_balanceOf T (w_token u) (im_this im) + s_pool ?d = t_balanceOf T (w_token w) (im_this im)"
  proof (rule claimPrize_effect [OF u b'], goal_cases)
    case (1 u1 u2 t1 cs1 cs2)
    have "t_balanceOf T t1 (im_this im) + s_daoFee ?d = t_balanceOf T (w_token w) (im_this im)"
      using 1(3) pays [OF T dao] by (cases "s_daoFee ?d = 0") auto
    moreover have "t_balanceOf T (w_token u) (im_this im) + s_winnerPrize ?d = t_balanceOf T t1 (im_this im)"
      using pays [OF T a(2) 1(5)] by simp
    ultimately show ?case using winner_split(1) [OF b, of i] 1(1) by simp
  qed
  then show ?thesis using claimPrize_keeps [OF u b'] f by (simp add: v funded_def)
next
  case (call_claimRefund i)
  let ?w = "change (\<lambda>s. s\<lparr>l_entered := True\<rparr>) w"
  obtain u where u: "claimRefund_body im T P a i ?w = Inr u" and v: "v = change (\<lambda>s. s\<lparr>l_entered := False\<rparr>) u"
    using t call_claimRefund by (auto simp: transact_def nonReentrant_Inr)
  have b': "books im (w_lottery ?w)" using b by simp
  have "t_balanceOf T (w_token u) (im_this im) + im_ticketPrice im = t_balanceOf T (w_token w) (im_this im)"
  proof (rule claimRefund_effect [OF u b'], goal_cases)
    case (1 u1 cs)
    then show ?case using pays [OF T a(2) 1(4)] by simp
  qed
  then show ?thesis using claimRefund_keeps [OF u b'] f by (simp add: v funded_def)
qed

lemma deployed_funded:
  assumes "deployed im T P w" and "exact_token T (im_this im)" and "im_dao im \<noteq> im_this im"
  shows "funded im T w"
  using assms(1)
proof (induction rule: deployed.induct)
  case (created t p tm)
  then show ?case by (simp add: funded_def owed_def fresh_lottery_def)
next
  case (next_step w v)
  from next_step.hyps(2) show ?case
  proof cases
    case (transaction a c)
    then show ?thesis
      using transact_funded deployed_books [OF next_step.hyps(1)] next_step.IH assms(2,3) by blast
  next
    case (elsewhere t tm p)
    then show ?thesis using next_step.IH by (simp add: funded_def)
  qed
qed

text \<open>The sum of the liabilities is a 256-bit number, covered by the balance.\<close>

lemma liabilities_covered:
  assumes "deployed im T P w" and "exact_token T (im_this im)" and "valid_deployment im"
  obtains x where "liabilities (w_lottery w) = Inr x" and "x \<le> t_balanceOf T (w_token w) (im_this im)"
proof -
  let ?s = "w_lottery w" and ?b = "t_balanceOf T (w_token w) (im_this im)"
  have o: "owed ?s \<le> ?b"
    using deployed_funded [OF assms(1,2)] assms(3) by (simp add: funded_def valid_deployment_def)
  moreover have "?b < 2 ^ 256" using assms(2) by (simp add: exact_token_def)
  ultimately have "owed ?s < 2 ^ 256" by (rule le_less_trans)
  then have "liabilities ?s = Inr (owed ?s)"
    by (simp add: liabilities_def owed_def checked_def)
  with o show ?thesis using that by blast
qed

end
