(* ===== verification/Settlement.thy ===== *)
theory Settlement
  imports Solvency
begin

text \<open>
  How rounds evolve: a settled round never changes, a declared prize is only ever marked as claimed,
  refunds stay taken, and a random request belongs to one round until its word arrives.
\<close>

section \<open>Records of settled rounds\<close>

definition kept_record :: "addr SolDraw \<Rightarrow> addr SolDraw \<Rightarrow> bool" where
  "kept_record d e \<longleftrightarrow>
     (s_status d = COMPLETED \<or> s_status d = NO_WINNER \<or> s_status d = CANCELLED \<longrightarrow> e = d) \<and>
     (s_status d = WINNER_DECLARED \<longrightarrow> e = d \<or> e = d\<lparr>s_status := COMPLETED\<rparr>)"

definition keeps_history :: "lottery \<Rightarrow> lottery \<Rightarrow> bool" where
  "keeps_history s v \<longleftrightarrow>
     (\<forall>i. kept_record (l_draws s i) (l_draws v i)) \<and>
     (\<forall>i a. l_refunded s i a \<longrightarrow> l_refunded v i a) \<and>
     (\<forall>i. \<not> live (l_draws s i) \<longrightarrow> l_owners v i = l_owners s i \<and> l_ticketOf v i = l_ticketOf s i)"

lemma kept_record_refl [simp]: "kept_record d d"
  by (simp add: kept_record_def)

lemma kept_record_live: "live d \<Longrightarrow> kept_record d e"
  by (auto simp: kept_record_def live_def)

lemma kept_record_trans: "kept_record c d \<Longrightarrow> kept_record d e \<Longrightarrow> kept_record c e"
  unfolding kept_record_def by (cases "s_status c") auto

lemma kept_record_settled: "kept_record d e \<Longrightarrow> \<not> live d \<Longrightarrow> \<not> live e"
  unfolding kept_record_def live_def by (cases "s_status d") auto

lemma advanced_kept: "advanced d e \<Longrightarrow> kept_record d e"
  by (auto simp: advanced_def kept_record_def)

lemma keeps_history_refl [simp]: "keeps_history s s"
  by (simp add: keeps_history_def)

lemma keeps_history_trans:
  "keeps_history s u \<Longrightarrow> keeps_history u v \<Longrightarrow> keeps_history s v"
  unfolding keeps_history_def by (metis kept_record_settled kept_record_trans)

lemma settled_from_history:
  "settled_from im s t w \<Longrightarrow> keeps_history s (w_lottery w)"
  using settled_from_frame [of im s t w] settled_from_advanced [of im s t w]
  by (simp add: keeps_history_def advanced_kept)

lemma keeps_history_irrelevant [simp]:
  "keeps_history (s\<lparr>l_entered := e\<rparr>) v = keeps_history s v"
  "keeps_history s (v\<lparr>l_entered := e\<rparr>) = keeps_history s v"
  "keeps_history s (emit ev v) = keeps_history s v"
  by (simp_all add: keeps_history_def emit_def)

text \<open>Changing a live round, or one not started, keeps the history.\<close>

lemma keeps_history_change:
  assumes "live (l_draws s i)" and "\<And>j. j \<noteq> i \<Longrightarrow> l_draws v j = l_draws s j \<and> l_owners v j = l_owners s j \<and> l_ticketOf v j = l_ticketOf s j"
    and "l_refunded v = l_refunded s"
  shows "keeps_history s v"
  unfolding keeps_history_def using assms kept_record_live by (metis kept_record_refl)

section \<open>Every transaction keeps the history\<close>

lemma start_history:
  assumes "startDraw_body im n w = Inr v" and b: "books im (w_lottery w)"
  shows "keeps_history (w_lottery w) (w_lottery v)"
proof (rule keeps_history_change)
  let ?i = "Suc (l_currentDrawId (w_lottery w))"
  have "rounds_ok im (w_lottery w)" using b by (simp add: books_def)
  from rounds_ok_beyond [OF this, of ?i] show "live (l_draws (w_lottery w) ?i)"
    by (simp add: untouched_def zero_draw_def live_def)
qed (use assms in \<open>auto simp: startDraw_body_def Let_def andThen_Inr change_def emit_def split: if_splits\<close>)

lemma buy_history:
  assumes "buyTicket_body im T P a i w = Inr v" and b: "books im (w_lottery w)" and "a \<noteq> 0"
  shows "keeps_history (w_lottery w) (w_lottery v)"
proof (rule buyTicket_effect [OF assms], goal_cases)
  case (1 u cs)
  have "live (l_draws (w_lottery u) i)"
    using settled_from_draw [OF 1(9), of i] 1(3) by (simp add: live_def)
  then have "keeps_history (w_lottery u) (w_lottery v)"
    unfolding 1(10) by (rule keeps_history_change) (auto simp: change_def bought_def Let_def emit_def)
  with settled_from_history [OF 1(9)] show ?case by (rule keeps_history_trans)
qed

lemma perform_history:
  assumes "performDraw_body im P i w = Inr v" and b: "books im (w_lottery w)"
  shows "keeps_history (w_lottery w) (w_lottery v)"
proof (rule performDraw_effect [OF assms], goal_cases)
  case 1
  then have "live (l_draws (w_lottery w) i)" unfolding canPerformDraw_iff live_def by blast
  then show ?case
    unfolding 1(3) by (rule keeps_history_change) (auto simp: change_def emit_def)
next
  case (2 r cs p u)
  have l: "live (l_draws (w_lottery w) i)" using 2(1) unfolding canPerformDraw_iff live_def by blast
  then have "keeps_history (w_lottery w) (drawing_state i (w_lottery w))"
    by (rule keeps_history_change) (auto simp: drawing_state_def change_draw_def)
  with settled_from_history [OF 2(6)] have u: "keeps_history (w_lottery w) (w_lottery u)"
    by (blast intro: keeps_history_trans)
  show ?case
    using u l kept_record_live
    by (auto simp: 2(8) change_def keeps_history_def emit_def change_draw_def)
qed

lemma claimPrize_history:
  assumes "claimPrize_body im T P a i w = Inr v" and b: "books im (w_lottery w)"
  shows "keeps_history (w_lottery w) (w_lottery v) \<and> s_status (l_draws (w_lottery v) i) = COMPLETED"
proof (rule claimPrize_effect [OF assms], goal_cases)
  case (1 u1 u2 t1 cs1 cs2)
  have "keeps_history (w_lottery w) (completed i (w_lottery w))"
    using 1(1) by (auto simp: keeps_history_def completed_def change_draw_def kept_record_def)
  moreover have "keeps_history (completed i (w_lottery w)) (w_lottery u2)"
    using settled_from_history [OF 1(4)] settled_from_history [OF 1(6)] by (rule keeps_history_trans)
  moreover have "s_status (l_draws (w_lottery u2) i) = COMPLETED"
    using calculation(2)
    by (auto simp: keeps_history_def kept_record_def completed_def change_draw_def)
  moreover have "w_lottery v = emit (PrizeClaimed i a (s_winnerPrize (l_draws (w_lottery w) i)) (im_dao im)
      (s_daoFee (l_draws (w_lottery w) i))) (w_lottery u2)"
    by (simp add: 1(7))
  ultimately show ?case by (simp add: keeps_history_trans) (simp add: emit_def)
qed

lemma claimRefund_history:
  assumes "claimRefund_body im T P a i w = Inr v" and b: "books im (w_lottery w)"
  shows "keeps_history (w_lottery w) (w_lottery v) \<and> l_refunded (w_lottery v) i a"
proof (rule claimRefund_effect [OF assms], goal_cases)
  case (1 u cs)
  have "keeps_history (w_lottery w) (refund_taken im a i (w_lottery w))"
    by (auto simp: keeps_history_def refund_taken_def)
  moreover have "l_refunded (refund_taken im a i (w_lottery w)) i a" by (simp add: refund_taken_def)
  moreover have "w_lottery v = emit (RefundClaimed i a (im_ticketPrice im)) (w_lottery u)"
    by (simp add: 1(6))
  moreover have "l_refunded (w_lottery u) i a"
    using calculation(2) settled_from_frame [OF 1(5)] by simp
  ultimately show ?case
    using settled_from_history [OF 1(5)] keeps_history_trans by (simp) (auto simp: emit_def)
qed

lemma transact_history:
  assumes "transact im T P a c w = Inr v" and "books im (w_lottery w)" and "a \<noteq> 0"
  shows "keeps_history (w_lottery w) (w_lottery v)"
proof (cases c)
  case (call_startDraw n)
  then show ?thesis using assms start_history by (fastforce simp: transact_def nonReentrant_Inr)
next
  case (call_buyTicket i)
  then show ?thesis using assms buy_history by (fastforce simp: transact_def nonReentrant_Inr)
next
  case (call_performDraw i)
  then show ?thesis using assms perform_history by (fastforce simp: transact_def nonReentrant_Inr)
next
  case (call_fulfillRandomness r word)
  then show ?thesis using assms fulfill_keeps settled_from_history by (fastforce simp: transact_def)
next
  case (call_finalizeDraw i)
  then show ?thesis using assms finalize_settled settled_from_history by (fastforce simp: transact_def)
next
  case (call_claimPrize i)
  then show ?thesis using assms claimPrize_history by (fastforce simp: transact_def nonReentrant_Inr)
next
  case (call_claimRefund i)
  then show ?thesis using assms claimRefund_history by (fastforce simp: transact_def nonReentrant_Inr)
qed

lemma later_history:
  assumes "later im T P w v" and "deployed im T P w"
  shows "keeps_history (w_lottery w) (w_lottery v)"
  using assms(1) unfolding later_def
proof (induction rule: rtranclp_induct)
  case base
  then show ?case by simp
next
  case (step u v)
  have "deployed im T P u"
    using deployed_later [OF _ assms(2)] step.hyps(1) by (simp add: later_def)
  then have b: "books im (w_lottery u)" using deployed_books by blast
  from step.hyps(2) have "keeps_history (w_lottery u) (w_lottery v)"
    by cases (use transact_history b in auto)
  with step.IH show ?case by (rule keeps_history_trans)
qed

section \<open>Requests\<close>

text \<open>A request points to the started round that made it, and a drawing round is found by its request.\<close>

definition linked :: "lottery \<Rightarrow> bool" where
  "linked s \<longleftrightarrow>
     (\<forall>r. l_requestDraw s r \<noteq> 0 \<longrightarrow>
        l_requestDraw s r \<le> l_currentDrawId s \<and>
        s_status (l_draws s (l_requestDraw s r)) \<noteq> ACTIVE \<and>
        s_requestId (l_draws s (l_requestDraw s r)) = r) \<and>
     (\<forall>i. s_status (l_draws s i) = DRAWING \<longrightarrow> l_requestDraw s (s_requestId (l_draws s i)) = i)"

lemma linked_irrelevant [simp]:
  "linked (s\<lparr>l_entered := e\<rparr>) = linked s"
  "linked (emit ev s) = linked s"
  by (simp_all add: linked_def emit_def)

lemma linked_advanced:
  assumes "linked s" and "settled_from im s t w"
  shows "linked (w_lottery w)"
  using assms settled_from_frame [OF assms(2)] settled_from_advanced [OF assms(2)]
  unfolding linked_def advanced_def by (metis Status.distinct)

lemma linked_change:
  assumes "linked s" and "s_status (l_draws s i) = ACTIVE" and "s_status d \<noteq> DRAWING"
    and "l_draws v = (l_draws s)(i := d)" and "l_requestDraw v = l_requestDraw s" and "l_currentDrawId s \<le> l_currentDrawId v"
  shows "linked v"
  using assms unfolding linked_def by (auto intro: order_trans)

lemma linked_unrequested:
  assumes "linked s" and "s_status (l_draws s i) = ACTIVE" and "i \<noteq> 0"
  shows "l_requestDraw s q \<noteq> i"
  using assms unfolding linked_def by metis

lemma start_linked:
  assumes "startDraw_body im n w = Inr v" and b: "books im (w_lottery w)" and l: "linked (w_lottery w)"
  shows "linked (w_lottery v)"
proof -
  let ?i = "Suc (l_currentDrawId (w_lottery w))"
  have "rounds_ok im (w_lottery w)" using b by (simp add: books_def)
  from rounds_ok_beyond [OF this, of ?i] have z: "l_draws (w_lottery w) ?i = zero_draw"
    by (simp add: untouched_def)
  show ?thesis
    by (rule linked_change [OF l, of ?i "l_draws (w_lottery v) ?i"])
       (use assms(1) z in \<open>auto simp: startDraw_body_def Let_def andThen_Inr change_def emit_def zero_draw_def
          split: if_splits\<close>)
qed

lemma buy_linked:
  assumes "buyTicket_body im T P a i w = Inr v" and b: "books im (w_lottery w)" and "a \<noteq> 0"
    and l: "linked (w_lottery w)"
  shows "linked (w_lottery v)"
proof (rule buyTicket_effect [OF assms(1-3)], goal_cases)
  case (1 u cs)
  have d: "s_status (l_draws (w_lottery u) i) = ACTIVE"
    using settled_from_draw [OF 1(9), of i] 1(3) by simp
  show ?case
    by (rule linked_change [OF linked_advanced [OF l 1(9)] d, of "l_draws (w_lottery v) i"])
       (use d in \<open>simp_all add: 1(10) bought_def Let_def emit_def\<close>)
qed

lemma perform_linked:
  assumes "performDraw_body im P i w = Inr v" and b: "books im (w_lottery w)" and l: "linked (w_lottery w)"
  shows "linked (w_lottery v) \<and>
    (im_minimumParticipants im \<le> s_participantCount (l_draws (w_lottery w) i) \<longrightarrow>
     s_status (l_draws (w_lottery v) i) = DRAWING)"
proof (rule performDraw_effect [OF assms(1,2)], goal_cases)
  case 1
  have a: "s_status (l_draws (w_lottery w) i) = ACTIVE" using 1(1) unfolding canPerformDraw_iff by blast
  have "linked (w_lottery v)"
    by (rule linked_change [OF l a, of "l_draws (w_lottery v) i"]) (simp_all add: 1(3) emit_def)
  then show ?case using 1(2) by simp
next
  case (2 r cs p u)
  have a: "s_status (l_draws (w_lottery w) i) = ACTIVE" "i \<noteq> 0" "i = l_currentDrawId (w_lottery w)"
    using 2(1) unfolding canPerformDraw_iff by blast+
  have d: "l_draws (w_lottery u) i = (l_draws (w_lottery w) i)\<lparr>s_status := DRAWING\<rparr>"
    by (rule 2(7)) (rule linked_unrequested [OF l a(1,2)])
  have f: "l_requestDraw (w_lottery u) = l_requestDraw (w_lottery w)"
      "l_currentDrawId (w_lottery u) = l_currentDrawId (w_lottery w)"
    using settled_from_frame [OF 2(6)] by (simp_all add: drawing_state_def change_draw_def)
  have o: "advanced (l_draws (w_lottery w) j) (l_draws (w_lottery u) j)" if "j \<noteq> i" for j
    using settled_from_advanced [OF 2(6), of j] that by (simp add: drawing_state_def change_draw_def)
  have un: "l_requestDraw (w_lottery w) q \<noteq> i" for q by (rule linked_unrequested [OF l a(1,2)])
  have "l_requestDraw (w_lottery w) q \<le> l_currentDrawId (w_lottery w) \<and>
      s_status (l_draws (w_lottery u) (l_requestDraw (w_lottery w) q)) \<noteq> ACTIVE \<and>
      s_requestId (l_draws (w_lottery u) (l_requestDraw (w_lottery w) q)) = q"
    if "l_requestDraw (w_lottery w) q \<noteq> 0" for q
    using l o [OF un, of q] that unfolding linked_def advanced_def by (metis Status.distinct)
  moreover have "l_requestDraw (w_lottery w) (s_requestId (l_draws (w_lottery u) j)) = j"
    if "j \<noteq> i" "s_status (l_draws (w_lottery u) j) = DRAWING" for j
    using l o [OF that(1)] that(2) unfolding linked_def advanced_def by (metis Status.distinct)
  moreover have "s_status (l_draws (w_lottery u) 0) \<noteq> DRAWING"
    using drawing_current [of im "w_lottery u" 0] settled_from_books [OF 2(6)] by (auto simp: books_def)
  ultimately show ?case
    using d f a(2,3) un 2(5) by (auto simp: 2(8) linked_def emit_def change_draw_def)
qed

lemma completed_linked:
  assumes "linked s" and "s_status (l_draws s i) = WINNER_DECLARED"
  shows "linked (completed i s)"
  using assms by (auto simp: linked_def completed_def change_draw_def)

lemma refund_taken_linked [simp]: "linked (refund_taken im a i s) = linked s"
  by (simp add: linked_def refund_taken_def)

lemma claimPrize_linked:
  assumes "claimPrize_body im T P a i w = Inr v" and b: "books im (w_lottery w)" and l: "linked (w_lottery w)"
  shows "linked (w_lottery v)"
proof (rule claimPrize_effect [OF assms(1,2)], goal_cases)
  case (1 u1 u2 t1 cs1 cs2)
  then show ?case
    using linked_advanced [OF linked_advanced [OF completed_linked [OF l 1(1)] 1(4)] 1(6)] by simp
qed

lemma claimRefund_linked:
  assumes "claimRefund_body im T P a i w = Inr v" and b: "books im (w_lottery w)" and l: "linked (w_lottery w)"
  shows "linked (w_lottery v)"
proof (rule claimRefund_effect [OF assms(1,2)], goal_cases)
  case (1 u cs)
  then show ?case using linked_advanced [of "refund_taken im a i (w_lottery w)", OF _ 1(5)] l by simp
qed

lemma transact_linked:
  assumes "transact im T P a c w = Inr v" and "books im (w_lottery w)" and "a \<noteq> 0" and "linked (w_lottery w)"
  shows "linked (w_lottery v)"
proof (cases c)
  case (call_startDraw n)
  then show ?thesis using assms start_linked by (fastforce simp: transact_def nonReentrant_Inr)
next
  case (call_buyTicket i)
  then show ?thesis using assms buy_linked by (fastforce simp: transact_def nonReentrant_Inr)
next
  case (call_performDraw i)
  then show ?thesis using assms perform_linked by (fastforce simp: transact_def nonReentrant_Inr)
next
  case (call_fulfillRandomness r word)
  then show ?thesis using assms fulfill_keeps linked_advanced by (fastforce simp: transact_def)
next
  case (call_finalizeDraw i)
  then show ?thesis using assms finalize_settled linked_advanced by (fastforce simp: transact_def)
next
  case (call_claimPrize i)
  then show ?thesis using assms claimPrize_linked by (fastforce simp: transact_def nonReentrant_Inr)
next
  case (call_claimRefund i)
  then show ?thesis using assms claimRefund_linked by (fastforce simp: transact_def nonReentrant_Inr)
qed

lemma deployed_linked: "deployed im T P w \<Longrightarrow> linked (w_lottery w)"
proof (induction rule: deployed.induct)
  case (created t p tm)
  then show ?case by (simp add: linked_def fresh_lottery_def zero_draw_def)
next
  case (next_step w v)
  have "books im (w_lottery w)" using deployed_books [OF next_step.hyps(1)] by simp
  with next_step.hyps(2) next_step.IH show ?case
    by cases (auto intro: transact_linked)
qed

section \<open>The result is always accepted\<close>

lemma fulfill_decides:
  assumes "deployed im T P w" and "exact_token T (im_this im)" and "valid_deployment im"
    and "s_status (l_draws (w_lottery w) i) = DRAWING"
  shows "\<exists>v. fulfillRandomness im (im_randomnessProvider im)
      (s_requestId (l_draws (w_lottery w) i)) word w = Inr v \<and>
    s_luckyNumber (l_draws (w_lottery v) i) = word mod 10 + 1 \<and>
    s_winner (l_draws (w_lottery v) i) = l_owners (w_lottery w) i ! (word mod 10) \<and>
    s_status (l_draws (w_lottery v) i) =
      (if l_owners (w_lottery w) i ! (word mod 10) = 0 then NO_WINNER else WINNER_DECLARED)"
proof -
  let ?s = "w_lottery w" let ?d = "l_draws ?s i" let ?who = "l_owners ?s i ! (word mod 10)"
  have b: "books im ?s" using deployed_books [OF assms(1)] by simp
  note D = drawing_round [OF b assms(4)]
  have r: "l_requestDraw ?s (s_requestId ?d) = i"
    using deployed_linked [OF assms(1)] assms(4) by (simp add: linked_def)
  obtain x where "liabilities ?s = Inr x" using liabilities_covered [OF assms(1-3)] by blast
  then have lt: "l_outstandingPrizes ?s + s_pool ?d < 2 ^ 256" "l_pendingRollover ?s + s_pool ?d < 2 ^ 256"
    using D by (auto simp: liabilities_def andThen_Inr)
  have "im_ticketPrice im \<le> s_pool ?d" if "?who \<noteq> 0"
  proof -
    have tk: "tickets_ok (s_participantCount ?d) (l_owners ?s i) (l_ticketOf ?s i)"
      using D(5) by (simp add: round_ok_def)
    have "\<not> s_participantCount ?d \<le> word mod 10" using tk that by (auto simp: tickets_ok_def)
    then have "1 * im_ticketPrice im \<le> s_participantCount ?d * im_ticketPrice im"
      by (intro mult_le_mono1) simp
    also have "\<dots> \<le> s_pool ?d" using D(5) by (simp add: round_ok_def)
    finally show ?thesis by simp
  qed
  then show ?thesis
    using lt r D(2) assms(4) fee_le [of im "s_pool ?d"]
    by (auto simp: fulfillRandomness_def Let_def checked_def checked_sub_def fee_of_def
        emit_def)
qed

end
