(* ===== verification/ContractSamples.thy ===== *)
theory ContractSamples
  imports Settlement
begin

text \<open>
  Concrete worlds for the witnesses of the contract's properties: a token that is a plain ledger, a
  provider that numbers its requests, and a round at each stage, reached by running the contract.
\<close>

section \<open>A concrete deployment\<close>

text \<open>Balances by address; no fees, no callbacks.\<close>

definition plain_token :: "(addr \<Rightarrow> nat) token" where
  "plain_token =
     \<lparr>t_balanceOf = (\<lambda>t a. t a mod 2 ^ 256),
      t_transferFrom = (\<lambda>spender frm to n t.
        if n \<le> t frm mod 2 ^ 256 \<and> frm \<noteq> to \<and> t to mod 2 ^ 256 + n < 2 ^ 256
        then Some ([], t(frm := t frm mod 2 ^ 256 - n, to := t to mod 2 ^ 256 + n)) else None),
      t_transfer = (\<lambda>frm to n t.
        if n \<le> t frm mod 2 ^ 256 \<and> frm \<noteq> to \<and> t to mod 2 ^ 256 + n < 2 ^ 256
        then Some ([], t(frm := t frm mod 2 ^ 256 - n, to := t to mod 2 ^ 256 + n)) else None)\<rparr>"

text \<open>Requests are numbered; a word is handed out on delivery.\<close>

definition counting_provider :: "(nat \<times> nat) provider" where
  "counting_provider =
     \<lparr>p_request = (\<lambda>_ (n, word). Some (Suc n, [], (Suc n, word))),
      p_deliver = (\<lambda>r (n, word). Some (Some (r, word), (n, word)))\<rparr>"

definition sample_im :: immutables where
  "sample_im =
     \<lparr>im_tokenDecimals = 0, im_ticketPrice = 10, im_minimumParticipants = 2, im_dao = 99,
      im_randomnessProvider = 77, im_this = 50\<rparr>"

definition sample_start :: "(addr \<Rightarrow> nat, nat \<times> nat) world" where
  "sample_start =
     \<lparr>w_lottery = fresh_lottery, w_token = (\<lambda>a. if a \<le> 5 then 100 else 0), w_provider = (0, 20),
      w_time = 1000\<rparr>"

lemma plain_exact: "exact_token plain_token this"
  by (auto simp: exact_token_def plain_token_def)

lemma sample_valid: "valid_deployment sample_im"
  by (simp add: valid_deployment_def sample_im_def MAX_PARTICIPANTS_def)

lemma sample_deployed: "deployed sample_im plain_token counting_provider sample_start"
  unfolding sample_start_def by (rule deployed.created)

text \<open>Running a list of calls, one after the other, and letting time pass.\<close>

fun calls ::
  "immutables \<Rightarrow> 't token \<Rightarrow> 'p provider \<Rightarrow> (addr \<times> call) list \<Rightarrow> ('t, 'p) world \<Rightarrow> ('t, 'p) world result" where
  "calls im T P [] w = Inr w"
| "calls im T P ((a, c) # cs) w = andThen (transact im T P a c w) (calls im T P cs)"

definition wait :: "nat \<Rightarrow> ('t, 'p) world \<Rightarrow> ('t, 'p) world" where
  "wait n w = w\<lparr>w_time := w_time w + n\<rparr>"

lemma calls_deployed:
  "deployed im T P w \<Longrightarrow> list_all (\<lambda>(a, c). a \<noteq> 0 \<and> a \<noteq> im_this im) cs \<Longrightarrow>
     calls im T P cs w = Inr v \<Longrightarrow> deployed im T P v"
proof (induction im T P cs w rule: calls.induct)
  case (2 im T P a c cs w)
  then show ?case
    by (auto simp: andThen_Inr) (blast intro: deployed.next_step system_step.transaction)
qed simp

lemma wait_deployed: "deployed im T P w \<Longrightarrow> deployed im T P (wait n w)"
  using system_step.elsewhere [of T w im "w_token w" "w_time w + n" P "w_provider w"]
  by (auto simp: wait_def intro: deployed.next_step)

definition after :: "'a result \<Rightarrow> 'a" where
  "after r = (case r of Inr a \<Rightarrow> a)"

text \<open>
  Round 1 a day after two players entered, with the minimum of two players: it can be drawn, and the
  word 20 makes 1 the lucky number. With a single player it is cancelled.
\<close>

definition entries :: "nat \<Rightarrow> (addr \<times> call) list" where
  "entries n = (1, call_startDraw 0) # map (\<lambda>a. (a + 1, call_buyTicket 1)) [0..<n]"

definition sample_due :: "nat \<Rightarrow> (addr \<Rightarrow> nat, nat \<times> nat) world" where
  "sample_due n = wait 90000 (after (calls sample_im plain_token counting_provider (entries n) sample_start))"

definition sample_drawing :: "(addr \<Rightarrow> nat, nat \<times> nat) world" where
  "sample_drawing = after (calls sample_im plain_token counting_provider [(1, call_performDraw 1)] (sample_due 2))"

definition sample_won :: "(addr \<Rightarrow> nat, nat \<times> nat) world" where
  "sample_won = after (calls sample_im plain_token counting_provider [(9, call_finalizeDraw 1)] sample_drawing)"

definition sample_cancelled :: "(addr \<Rightarrow> nat, nat \<times> nat) world" where
  "sample_cancelled =
     after (calls sample_im plain_token counting_provider [(9, call_performDraw 1)] (sample_due 1))"

lemmas contract_run =
  sample_im_def plain_token_def counting_provider_def sample_start_def fresh_lottery_def zero_draw_def
  transact_def nonReentrant_def startDraw_body_def canStartDraw_def buyTicket_body_def call_token_def
  reenter_def performDraw_body_def canPerformDraw_def fulfillRandomness_def finalizeDraw_def
  claimPrize_body_def claimRefund_body_def change_def change_draw_def emit_def checked_def
  checked_sub_def DURATION_def MAX_PARTICIPANTS_def uint64_def entries_def after_def wait_def

lemma slots:
  "replicate 10 x = [x, x, x, x, x, x, x, x, x, x]"
  "(x # xs)[numeral k := y] = x # xs[pred_numeral k := y]"
  by (simp_all add: numeral_eq_Suc)

lemma entries_run:
  "calls sample_im plain_token counting_provider (entries 1) sample_start =
     Inr (after (calls sample_im plain_token counting_provider (entries 1) sample_start))"
  "calls sample_im plain_token counting_provider (entries 2) sample_start =
     Inr (after (calls sample_im plain_token counting_provider (entries 2) sample_start))"
  by (simp_all add: contract_run upt_rec slots)

lemma due_deployed:
  "deployed sample_im plain_token counting_provider (sample_due 1)"
  "deployed sample_im plain_token counting_provider (sample_due 2)"
  unfolding sample_due_def
  by (intro wait_deployed calls_deployed [OF sample_deployed _ entries_run(1)]
        calls_deployed [OF sample_deployed _ entries_run(2)];
      simp add: entries_def sample_im_def upt_rec)+

lemma due_facts:
  "canPerformDraw (w_time (sample_due 2)) (w_lottery (sample_due 2)) 1"
  "l_requestDraw (w_lottery (sample_due 2)) 1 = 0"
  "w_provider (sample_due 2) = (0, 20)"
  by (simp_all add: sample_due_def contract_run upt_rec slots)

lemma drawing_runs:
  "calls sample_im plain_token counting_provider [(1, call_performDraw 1)] (sample_due 2) = Inr sample_drawing"
  by (simp add: sample_drawing_def sample_due_def contract_run upt_rec slots)

lemma drawing_deployed: "deployed sample_im plain_token counting_provider sample_drawing"
  by (rule calls_deployed [OF due_deployed(2) _ drawing_runs]) (simp add: sample_im_def)

lemma drawing_facts:
  "s_status (l_draws (w_lottery sample_drawing) 1) = DRAWING"
  "s_requestId (l_draws (w_lottery sample_drawing) 1) = 1"
  "l_owners (w_lottery sample_drawing) 1 = [1, 2, 0, 0, 0, 0, 0, 0, 0, 0]"
  "w_token sample_drawing 50 = 20"
  by (simp_all add: sample_drawing_def sample_due_def contract_run upt_rec slots)

lemma won_runs:
  "calls sample_im plain_token counting_provider [(9, call_finalizeDraw 1)] sample_drawing = Inr sample_won"
  by (simp add: sample_won_def sample_drawing_def sample_due_def contract_run upt_rec slots)

lemma won_facts:
  "s_status (l_draws (w_lottery sample_won) 1) = WINNER_DECLARED"
  "s_winner (l_draws (w_lottery sample_won) 1) = 1"
  "s_daoFee (l_draws (w_lottery sample_won) 1) = 0"
  "s_winnerPrize (l_draws (w_lottery sample_won) 1) = 20"
  "w_token sample_won = (\<lambda>a. if a \<le> 5 then 100 else 0)(1 := 90, Suc 1 := 90, 50 := 20)"
  by (simp_all add: sample_won_def sample_drawing_def sample_due_def contract_run upt_rec slots)

lemma won_deployed: "deployed sample_im plain_token counting_provider sample_won"
  by (intro calls_deployed [OF drawing_deployed _ won_runs]) (simp add: sample_im_def)

lemma cancelled_runs:
  "calls sample_im plain_token counting_provider [(9, call_performDraw 1)] (sample_due 1) = Inr sample_cancelled"
  by (simp add: sample_cancelled_def sample_due_def contract_run upt_rec slots)

lemma cancelled_facts:
  "s_status (l_draws (w_lottery sample_cancelled) 1) = CANCELLED"
  "l_ticketOf (w_lottery sample_cancelled) 1 1 = 1"
  "\<not> l_refunded (w_lottery sample_cancelled) 1 1"
  "w_token sample_cancelled = (\<lambda>a. if a \<le> 5 then 100 else 0)(1 := 90, 50 := 10)"
  by (simp_all add: sample_cancelled_def sample_due_def contract_run upt_rec slots)

lemma cancelled_deployed: "deployed sample_im plain_token counting_provider sample_cancelled"
  by (intro calls_deployed [OF due_deployed(1) _ cancelled_runs]) (simp add: sample_im_def)

end
