(* ===== verification/Provider.thy ===== *)
theory Provider
  imports ContractSamples
begin

text \<open>
  The randomness providers: \<^verbatim>\<open>contracts/src/VRFProvider.sol\<close> over a coordinator, with the in-repository
  \<^verbatim>\<open>mocks/MockCoordinator.sol\<close> as the coordinator, and \<^verbatim>\<open>mocks/MockRandomnessProvider.sol\<close>. The locale
  \<open>randomness_source\<close> states what the lottery relies on; both providers are interpreted in it.
\<close>

section \<open>VRFProvider.sol\<close>

text \<open>\<open>'c\<close> is the coordinator's state, \<open>request_words\<close> its \<^verbatim>\<open>requestRandomWords\<close>.\<close>

record 'c vrf =
  v_lottery :: addr
  v_requested :: "nat \<Rightarrow> bool"
  v_ready :: "nat \<Rightarrow> bool"
  v_delivered :: "nat \<Rightarrow> bool"
  v_words :: "nat \<Rightarrow> nat"
  v_coordinator :: 'c

record vrf_immutables =
  vi_coordinator :: addr
  vi_configurator :: addr
  vi_subscriptionId :: nat
  vi_keyHash :: nat
  vi_confirmations :: nat
  vi_callbackGasLimit :: nat
  vi_nativePayment :: bool

definition vrf_construct ::
  "bool \<Rightarrow> addr \<Rightarrow> addr \<Rightarrow> nat \<Rightarrow> nat \<Rightarrow> nat \<Rightarrow> nat \<Rightarrow> bool \<Rightarrow> vrf_immutables result" where
  "vrf_construct coordinator_code coordinator sender subId key confs gasLimit native =
     (if coordinator_code \<and> 0 < subId \<and> key \<noteq> 0 \<and> 3 \<le> confs \<and> confs \<le> 200 \<and> 300000 \<le> gasLimit
      then Inr \<lparr>vi_coordinator = coordinator, vi_configurator = sender, vi_subscriptionId = subId,
             vi_keyHash = key, vi_confirmations = confs, vi_callbackGasLimit = gasLimit,
             vi_nativePayment = native\<rparr>
      else Inl ExternalRevert)"

definition setLottery :: "vrf_immutables \<Rightarrow> addr \<Rightarrow> addr \<Rightarrow> bool \<Rightarrow> 'c vrf \<Rightarrow> 'c vrf option" where
  "setLottery vi sender val has_code p =
     (if sender \<noteq> vi_configurator vi then None
      else if v_lottery p = 0 \<and> has_code then Some (p\<lparr>v_lottery := val\<rparr>) else None)"

definition requestRandomness ::
  "('c \<Rightarrow> (nat \<times> 'c) option) \<Rightarrow> addr \<Rightarrow> 'c vrf \<Rightarrow> (nat \<times> 'c vrf) option" where
  "requestRandomness request_words sender p =
     (if sender \<noteq> v_lottery p then None
      else case request_words (v_coordinator p) of
        None \<Rightarrow> None
      | Some (r, c) \<Rightarrow> Some (r, p\<lparr>v_coordinator := c, v_requested := (v_requested p)(r := True)\<rparr>))"

text \<open>
  \<^verbatim>\<open>deliver\<close> up to its callback: \<^const>\<open>None\<close> is the revert, otherwise the callback to make, if any, and
  the state after it succeeded.
\<close>

definition deliver :: "nat \<Rightarrow> 'c vrf \<Rightarrow> ((nat \<times> nat) option \<times> 'c vrf) option" where
  "deliver r p =
     (if \<not> v_ready p r then None
      else if v_delivered p r then Some (None, p)
      else Some (Some (r, v_words p r), p\<lparr>v_delivered := (v_delivered p)(r := True)\<rparr>))"

definition vrf_provider :: "('c \<Rightarrow> (nat \<times> 'c) option) \<Rightarrow> 'c vrf provider" where
  "vrf_provider request_words =
     \<lparr>p_request = (\<lambda>sender p. map_option (\<lambda>(r, q). (r, [], q)) (requestRandomness request_words sender p)),
      p_deliver = deliver\<rparr>"

text \<open>
  \<^verbatim>\<open>rawFulfillRandomWords\<close>: the coordinator's callback stores the first word once and tries to deliver
  it; a failed delivery keeps the word. Gas is not modelled: \<open>out_of_gas\<close> says whether the inner call
  exceeds what the coordinator supplied, which fails it like a revert.
\<close>

definition store_word :: "nat \<Rightarrow> nat \<Rightarrow> 'c vrf \<Rightarrow> 'c vrf" where
  "store_word r x p = p\<lparr>v_words := (v_words p)(r := x), v_ready := (v_ready p)(r := True)\<rparr>"

definition mark_delivered :: "nat \<Rightarrow> 'c vrf \<Rightarrow> 'c vrf" where
  "mark_delivered r p = p\<lparr>v_delivered := (v_delivered p)(r := True)\<rparr>"

definition rawFulfillRandomWords ::
  "immutables \<Rightarrow> vrf_immutables \<Rightarrow> bool \<Rightarrow> addr \<Rightarrow> nat \<Rightarrow> nat list \<Rightarrow> ('t, 'c vrf) world \<Rightarrow>
     ('t, 'c vrf) world result" where
  "rawFulfillRandomWords im vi out_of_gas sender r vals w =
     (let p = w_provider w in
       if sender \<noteq> vi_coordinator vi then Inl Unauthorized
       else if \<not> v_requested p r \<or> v_ready p r \<or> vals = [] then Inr w
       else let w1 = w\<lparr>w_provider := store_word r (hd vals) p\<rparr> in
         case (if out_of_gas then Inl ExternalRevert
               else fulfillRandomness im (im_randomnessProvider im) r (hd vals) w1) of
           Inl e \<Rightarrow> Inr w1
         | Inr v \<Rightarrow> Inr (v\<lparr>w_provider := mark_delivered r (w_provider v)\<rparr>))"

section \<open>The mocks\<close>

text \<open>\<^verbatim>\<open>MockCoordinator\<close>: the next identifier; its \<^verbatim>\<open>fulfill\<close> calls \<^verbatim>\<open>rawFulfillRandomWords\<close> with one word.\<close>

definition mock_requestRandomWords :: "nat \<Rightarrow> (nat \<times> nat) option" where
  "mock_requestRandomWords n = (if n + 1 < 2 ^ 256 then Some (n + 1, n + 1) else None)"

text \<open>\<^verbatim>\<open>MockRandomnessProvider\<close>.\<close>

record mock =
  m_nextId :: nat
  m_consumers :: "nat \<Rightarrow> addr"
  m_ready :: "nat \<Rightarrow> bool"
  m_words :: "nat \<Rightarrow> nat"

definition mock_request :: "addr \<Rightarrow> mock \<Rightarrow> (nat \<times> mock) option" where
  "mock_request sender p =
     (if m_nextId p + 1 < 2 ^ 256
      then Some (m_nextId p + 1,
        p\<lparr>m_nextId := m_nextId p + 1, m_consumers := (m_consumers p)(m_nextId p + 1 := sender)\<rparr>)
      else None)"

definition mock_deliver :: "nat \<Rightarrow> mock \<Rightarrow> ((nat \<times> nat) option \<times> mock) option" where
  "mock_deliver r p = (if m_ready p r then Some (Some (r, m_words p r), p) else None)"

definition mock_provider :: "mock provider" where
  "mock_provider =
     \<lparr>p_request = (\<lambda>sender p. map_option (\<lambda>(r, q). (r, [], q)) (mock_request sender p)),
      p_deliver = mock_deliver\<rparr>"

definition mock_fulfill ::
  "immutables \<Rightarrow> nat \<Rightarrow> nat \<Rightarrow> ('t, mock) world \<Rightarrow> ('t, mock) world result" where
  "mock_fulfill im r x w =
     (let p = w_provider w in
       if m_consumers p r = 0 then Inl ExternalRevert
       else let q = (if m_ready p r then p
                     else p\<lparr>m_ready := (m_ready p)(r := True), m_words := (m_words p)(r := x)\<rparr>)
         in fulfillRandomness im (im_randomnessProvider im) r (m_words q r) (w\<lparr>w_provider := q\<rparr>))"

section \<open>What the lottery relies on\<close>

text \<open>
  Request identifiers are fresh and not zero, and delivery hands out the word held for the request and
  changes neither the words held nor the identifiers issued.
\<close>

locale randomness_source =
  fixes P :: "'p provider" and issued :: "'p \<Rightarrow> nat set" and held :: "'p \<Rightarrow> nat \<Rightarrow> nat option"
  assumes request_fresh: "\<And>a p r cs q. p_request P a p = Some (r, cs, q) \<Longrightarrow>
      r \<noteq> 0 \<and> r \<notin> issued p \<and> issued q = insert r (issued p) \<and> cs = []"
    and deliver_held: "\<And>r p s x q. p_deliver P r p = Some (Some (s, x), q) \<Longrightarrow>
      s = r \<and> held p r = Some x \<and> issued q = issued p \<and> held q = held p"
    and deliver_quiet: "\<And>r p q. p_deliver P r p = Some (None, q) \<Longrightarrow> issued q = issued p \<and> held q = held p"
begin

text \<open>Every identifier the lottery has recorded was issued by the provider.\<close>

definition recorded_issued :: "('t, 'p) world \<Rightarrow> bool" where
  "recorded_issued w \<longleftrightarrow> (\<forall>r. l_requestDraw (w_lottery w) r \<noteq> 0 \<longrightarrow> r \<in> issued (w_provider w))"

lemma request_accepted:
  assumes "recorded_issued w" and "p_request P a (w_provider w) = Some (r, cs, q)"
  shows "r \<noteq> 0" "l_requestDraw (w_lottery w) r = 0" "cs = []"
  using assms request_fresh [OF assms(2)] by (auto simp: recorded_issued_def)

text \<open>Delivery decides a round by the word held, or leaves it as it is.\<close>

lemma finalize_uses_held:
  assumes "finalizeDraw im P i w = Inr v" and "linked (w_lottery w)" and "books im (w_lottery w)"
  shows "l_draws (w_lottery v) i = l_draws (w_lottery w) i \<or>
    (\<exists>x. held (w_provider w) (s_requestId (l_draws (w_lottery w) i)) = Some x \<and>
      s_luckyNumber (l_draws (w_lottery v) i) = x mod 10 + 1 \<and>
      s_winner (l_draws (w_lottery v) i) = l_owners (w_lottery w) i ! (x mod 10))"
    and "held (w_provider v) = held (w_provider w)" and "issued (w_provider v) = issued (w_provider w)"
proof -
  let ?r = "s_requestId (l_draws (w_lottery w) i)"
  have d: "s_status (l_draws (w_lottery w) i) = DRAWING"
    using assms(1) by (auto simp: finalizeDraw_def Let_def split: if_splits)
  have i: "l_requestDraw (w_lottery w) ?r = i" using assms(2) d by (simp add: linked_def)
  have "(l_draws (w_lottery v) i = l_draws (w_lottery w) i \<or>
      (\<exists>x. held (w_provider w) ?r = Some x \<and> s_luckyNumber (l_draws (w_lottery v) i) = x mod 10 + 1 \<and>
        s_winner (l_draws (w_lottery v) i) = l_owners (w_lottery w) i ! (x mod 10))) \<and>
    held (w_provider v) = held (w_provider w) \<and> issued (w_provider v) = issued (w_provider w)"
    using assms(1)
  proof (cases rule: finalize_cases)
    case (quiet p)
    then show ?thesis using deliver_quiet [OF quiet(1)] by simp
  next
    case (delivered p r x)
    note h = deliver_held [OF delivered(1)]
    from delivered(2) show ?thesis
    proof (cases rule: fulfill_cases)
      case ignored
      then show ?thesis using h by simp
    next
      case (drawn j)
      then show ?thesis using h i by (auto simp: declared_def Let_def emit_def)
    qed
  qed
  then show "l_draws (w_lottery v) i = l_draws (w_lottery w) i \<or>
    (\<exists>x. held (w_provider w) (s_requestId (l_draws (w_lottery w) i)) = Some x \<and>
      s_luckyNumber (l_draws (w_lottery v) i) = x mod 10 + 1 \<and>
      s_winner (l_draws (w_lottery v) i) = l_owners (w_lottery w) i ! (x mod 10))"
    "held (w_provider v) = held (w_provider w)" "issued (w_provider v) = issued (w_provider w)"
    by blast+
qed

end

text \<open>
  Chainlink's coordinator, as far as the provider relies on it: its identifiers are never zero and never
  given out twice.
\<close>

locale coordinator =
  fixes request_words :: "'c \<Rightarrow> (nat \<times> 'c) option" and given :: "'c \<Rightarrow> nat set"
  assumes words_fresh: "\<And>c r d. request_words c = Some (r, d) \<Longrightarrow>
      r \<noteq> 0 \<and> r \<notin> given c \<and> given d = insert r (given c)"

definition vrf_held :: "'c vrf \<Rightarrow> nat \<Rightarrow> nat option" where
  "vrf_held p r = (if v_ready p r then Some (v_words p r) else None)"

text \<open>Over such a coordinator \<^verbatim>\<open>VRFProvider\<close> is a randomness source.\<close>

sublocale coordinator \<subseteq> vrf: randomness_source "vrf_provider request_words" "\<lambda>p. given (v_coordinator p)" vrf_held
proof unfold_locales
  fix a r cs and p q :: "'c vrf"
  assume "p_request (vrf_provider request_words) a p = Some (r, cs, q)"
  then show "r \<noteq> 0 \<and> r \<notin> given (v_coordinator p) \<and>
      given (v_coordinator q) = insert r (given (v_coordinator p)) \<and> cs = []"
    by (auto simp: vrf_provider_def requestRandomness_def dest: words_fresh split: if_splits option.splits)
qed (auto simp: vrf_provider_def deliver_def vrf_held_def fun_eq_iff split: if_splits)

definition mock_given :: "nat \<Rightarrow> nat set" where
  "mock_given n = {1..n}"

interpretation mock_coordinator: coordinator mock_requestRandomWords mock_given
  by unfold_locales (auto simp: mock_requestRandomWords_def mock_given_def split: if_splits)

text \<open>The mock provider needs no coordinator.\<close>

definition mock_issued :: "mock \<Rightarrow> nat set" where
  "mock_issued p = {1..m_nextId p}"

definition mock_held :: "mock \<Rightarrow> nat \<Rightarrow> nat option" where
  "mock_held p r = (if m_ready p r then Some (m_words p r) else None)"

interpretation mock_source: randomness_source mock_provider mock_issued mock_held
  by unfold_locales
     (auto simp: mock_provider_def mock_request_def mock_deliver_def mock_issued_def mock_held_def
       split: if_splits)

end
