(* ===== verification/Delivery.thy ===== *)
theory Delivery
  imports Provider
begin

text \<open>
  The lottery running on \<^verbatim>\<open>VRFProvider.sol\<close>: the joint system of the two contracts, the coordinator and
  the token. A word, once stored, is never replaced; a round waiting for it stays deliverable, however
  its first callback ended, so the retry button of the client can always settle it.
\<close>

section \<open>The joint system\<close>

text \<open>Nobody but the provider contract sends with its address.\<close>

definition honest_token :: "'t token \<Rightarrow> addr \<Rightarrow> bool" where
  "honest_token T p \<longleftrightarrow>
     (\<forall>a b c n t cs u. t_transferFrom T a b c n t = Some (cs, u) \<longrightarrow> p \<notin> fst ` set cs) \<and>
     (\<forall>a b n t cs u. t_transfer T a b n t = Some (cs, u) \<longrightarrow> p \<notin> fst ` set cs)"

definition own_account :: "immutables \<Rightarrow> bool" where
  "own_account im \<longleftrightarrow> im_randomnessProvider im \<noteq> 0 \<and> im_randomnessProvider im \<noteq> im_this im"

text \<open>
  The steps: a transaction on the lottery, the coordinator's callback, a direct call of \<^verbatim>\<open>deliver\<close> or
  \<^verbatim>\<open>setLottery\<close>, and anything else that happens to the token, the coordinator and the clock.
\<close>

inductive vrf_step ::
  "immutables \<Rightarrow> vrf_immutables \<Rightarrow> 't token \<Rightarrow> ('c \<Rightarrow> (nat \<times> 'c) option) \<Rightarrow> ('c \<Rightarrow> nat set)
     \<Rightarrow> ('t, 'c vrf) world \<Rightarrow> ('t, 'c vrf) world \<Rightarrow> bool"
  for im :: immutables and vi :: vrf_immutables and T :: "'t token"
    and rw :: "'c \<Rightarrow> (nat \<times> 'c) option" and given :: "'c \<Rightarrow> nat set" where
  on_lottery: "\<lbrakk>a \<noteq> 0; a \<noteq> im_this im; a \<noteq> im_randomnessProvider im;
      transact im T (vrf_provider rw) a c w = Inr v\<rbrakk> \<Longrightarrow> vrf_step im vi T rw given w v"
| callback: "rawFulfillRandomWords im vi gas a r xs w = Inr v \<Longrightarrow> vrf_step im vi T rw given w v"
| delivery: "\<lbrakk>deliver r (w_provider w) = Some (Some (r, x), p);
      fulfillRandomness im (im_randomnessProvider im) r x (w\<lparr>w_provider := p\<rparr>) = Inr v\<rbrakk> \<Longrightarrow>
      vrf_step im vi T rw given w v"
| configure: "setLottery vi a l code (w_provider w) = Some p \<Longrightarrow>
      vrf_step im vi T rw given w (w\<lparr>w_provider := p\<rparr>)"
| outside: "\<lbrakk>t_balanceOf T (w_token w) (im_this im) \<le> t_balanceOf T t (im_this im); w_time w \<le> tm;
      given (v_coordinator (w_provider w)) \<subseteq> given c\<rbrakk> \<Longrightarrow>
      vrf_step im vi T rw given w (w\<lparr>w_token := t, w_time := tm, w_provider := (w_provider w)\<lparr>v_coordinator := c\<rparr>\<rparr>)"

inductive_cases vrf_stepE: "vrf_step im vi T rw given w v"

definition fresh_vrf :: "'c \<Rightarrow> 'c vrf" where
  "fresh_vrf c =
     \<lparr>v_lottery = 0, v_requested = (\<lambda>_. False), v_ready = (\<lambda>_. False), v_delivered = (\<lambda>_. False),
      v_words = (\<lambda>_. 0), v_coordinator = c\<rparr>"

definition vrf_start :: "'t \<Rightarrow> 'c \<Rightarrow> nat \<Rightarrow> ('t, 'c vrf) world" where
  "vrf_start t c tm =
     \<lparr>w_lottery = fresh_lottery, w_token = t, w_provider = fresh_vrf c, w_time = tm\<rparr>"

definition vrf_later ::
  "immutables \<Rightarrow> vrf_immutables \<Rightarrow> 't token \<Rightarrow> ('c \<Rightarrow> (nat \<times> 'c) option) \<Rightarrow> ('c \<Rightarrow> nat set)
     \<Rightarrow> ('t, 'c vrf) world \<Rightarrow> ('t, 'c vrf) world \<Rightarrow> bool" where
  "vrf_later im vi T rw given = (vrf_step im vi T rw given)\<^sup>*\<^sup>*"

section \<open>Every step is one of the lottery's system\<close>

lemma provider_step:
  assumes "deployed im T P w" shows "deployed im T P (w\<lparr>w_provider := p\<rparr>)"
proof -
  have "system_step im T P w (w\<lparr>w_token := w_token w, w_time := w_time w, w_provider := p\<rparr>)"
    using system_step.elsewhere [of T w im "w_token w" "w_time w" P p] by simp
  then show ?thesis using assms by (auto intro: deployed.next_step)
qed

lemma fulfill_step:
  assumes "deployed im T P w" and "own_account im"
    and "fulfillRandomness im (im_randomnessProvider im) r x w = Inr v"
  shows "deployed im T P v"
  using assms system_step.transaction [of "im_randomnessProvider im" im T P "call_fulfillRandomness r x" w v]
  by (auto simp: own_account_def transact_def intro: deployed.next_step)

lemma rawFulfill_cases:
  assumes "rawFulfillRandomWords im vi gas a r xs w = Inr v"
  obtains (ignored) "v = w"
  | (failed) x where "v_requested (w_provider w) r" "\<not> v_ready (w_provider w) r"
      "v = w\<lparr>w_provider := store_word r x (w_provider w)\<rparr>"
  | (called) x u where "v_requested (w_provider w) r" "\<not> v_ready (w_provider w) r"
      "fulfillRandomness im (im_randomnessProvider im) r x
         (w\<lparr>w_provider := store_word r x (w_provider w)\<rparr>) = Inr u"
      "v = u\<lparr>w_provider := mark_delivered r (w_provider u)\<rparr>"
proof -
  define p where "p = store_word r (hd xs) (w_provider w)"
  have eq: "rawFulfillRandomWords im vi gas a r xs w =
    (if a \<noteq> vi_coordinator vi then Inl Unauthorized
     else if \<not> v_requested (w_provider w) r \<or> v_ready (w_provider w) r \<or> xs = [] then Inr w
     else (case (if gas then Inl ExternalRevert
           else fulfillRandomness im (im_randomnessProvider im) r (hd xs) (w\<lparr>w_provider := p\<rparr>)) of
         Inl e \<Rightarrow> Inr (w\<lparr>w_provider := p\<rparr>)
       | Inr u \<Rightarrow> Inr (u\<lparr>w_provider := mark_delivered r (w_provider u)\<rparr>)))"
    unfolding rawFulfillRandomWords_def p_def Let_def by (rule refl)
  show ?thesis
  proof (cases "\<not> v_requested (w_provider w) r \<or> v_ready (w_provider w) r \<or> xs = []")
    case True
    then show ?thesis using assms that(1) unfolding eq by (simp split: if_splits)
  next
    case False
    show ?thesis
    proof (cases "if gas then Inl ExternalRevert
        else fulfillRandomness im (im_randomnessProvider im) r (hd xs) (w\<lparr>w_provider := p\<rparr>)")
      case (Inl e)
      then show ?thesis using assms that(2) [of "hd xs"] False unfolding eq p_def by (simp split: if_splits)
    next
      case (Inr u)
      then show ?thesis using assms that(3) [of "hd xs" u] False unfolding eq p_def by (simp split: if_splits)
    qed
  qed
qed

lemma vrf_step_deployed:
  assumes "vrf_step im vi T rw given w v" and "deployed im T (vrf_provider rw) w" and "own_account im"
  shows "deployed im T (vrf_provider rw) v"
  using assms(1)
proof cases
  case (on_lottery a c)
  then show ?thesis using assms(2) by (blast intro: deployed.next_step system_step.transaction)
next
  case (callback gas a r xs)
  then show ?thesis
  proof (cases rule: rawFulfill_cases)
    case (called x u)
    show ?thesis
      unfolding called(4) by (intro provider_step fulfill_step [OF provider_step [OF assms(2)] assms(3) called(3)])
  qed (simp_all add: assms(2) provider_step)
next
  case (delivery r x p)
  from fulfill_step [OF provider_step [OF assms(2)] assms(3) delivery(2)] show ?thesis .
next
  case (configure a l code p)
  then show ?thesis using assms(2) by (simp add: provider_step)
next
  case (outside t tm c)
  let ?p = "(w_provider w)\<lparr>v_coordinator := c\<rparr>"
  have "v = w\<lparr>w_token := t, w_provider := ?p, w_time := tm\<rparr>"
    unfolding outside(1) by (rule world.equality) simp_all
  moreover have "system_step im T (vrf_provider rw) w (w\<lparr>w_token := t, w_provider := ?p, w_time := tm\<rparr>)"
    by (rule system_step.elsewhere [OF outside(2,3)])
  ultimately show ?thesis using assms(2) by (metis deployed.next_step)
qed

lemma vrf_deployed:
  assumes "vrf_later im vi T rw given (vrf_start t c tm) w" and "own_account im"
  shows "deployed im T (vrf_provider rw) w"
  using assms(1) unfolding vrf_later_def
proof (induction rule: rtranclp_induct)
  case base
  show ?case unfolding vrf_start_def by (rule deployed.created)
next
  case (step w v)
  then show ?case using vrf_step_deployed assms(2) by blast
qed

section \<open>A waiting round and its request\<close>

text \<open>
  Every round that waits for its word has an issued, undelivered request that points back to it, and
  the provider keeps records of issued requests only.
\<close>

definition paired :: "('c \<Rightarrow> nat set) \<Rightarrow> ('t, 'c vrf) world \<Rightarrow> bool" where
  "paired given w \<longleftrightarrow>
     (let p = w_provider w; s = w_lottery w in
       (\<forall>r. v_requested p r \<or> v_ready p r \<or> v_delivered p r \<longrightarrow> r \<in> given (v_coordinator p)) \<and>
       (\<forall>r. v_delivered p r \<longrightarrow> v_ready p r) \<and>
       (\<forall>r. l_requestDraw s r \<noteq> 0 \<longrightarrow> r \<in> given (v_coordinator p)) \<and>
       (\<forall>i. s_status (l_draws s i) = DRAWING \<longrightarrow> i \<noteq> 0 \<and>
          v_requested p (s_requestId (l_draws s i)) \<and> \<not> v_delivered p (s_requestId (l_draws s i)) \<and>
          l_requestDraw s (s_requestId (l_draws s i)) = i))"

text \<open>An update of the lottery that lets no other round wait, and keeps the requests.\<close>

lemma paired_change:
  assumes "paired given w" and "w_provider v = w_provider w"
    and "l_requestDraw (w_lottery v) = l_requestDraw (w_lottery w)"
    and "\<And>i. s_status (l_draws (w_lottery v) i) = DRAWING \<Longrightarrow>
      s_status (l_draws (w_lottery w) i) = DRAWING \<and>
      s_requestId (l_draws (w_lottery v) i) = s_requestId (l_draws (w_lottery w) i)"
  shows "paired given v"
  using assms unfolding paired_def Let_def by metis

lemma fulfill_paired:
  assumes "paired given (w\<lparr>w_provider := p\<rparr>)"
    and "fulfillRandomness im a r x (w\<lparr>w_provider := q\<rparr>) = Inr u"
    and "q = mark_delivered r p \<or> q = p" and "v_ready p r"
  shows "paired given (u\<lparr>w_provider := mark_delivered r p\<rparr>)"
  using assms(2)
proof (cases rule: fulfill_cases)
  case ignored
  have "s_requestId (l_draws (w_lottery w) i) \<noteq> r" if "s_status (l_draws (w_lottery w) i) = DRAWING" for i
    using assms(1) ignored(3) that by (auto simp: paired_def Let_def)
  then show ?thesis using assms(1,4) by (auto simp: ignored(1) paired_def Let_def mark_delivered_def)
next
  case (drawn i)
  have s: "w_lottery u = declared im i (x mod 10 + 1) (w_time w) (w_lottery w)"
    using drawn(5) by (simp add: change_def)
  have "s_status (l_draws (w_lottery u) i) \<noteq> DRAWING"
    by (simp add: s declared_def Let_def emit_def)
  moreover have o: "l_draws (w_lottery u) j = l_draws (w_lottery w) j" if "j \<noteq> i" for j
    using that by (simp add: s declared_def Let_def emit_def)
  moreover have "s_requestId (l_draws (w_lottery w) j) \<noteq> r"
    if "s_status (l_draws (w_lottery w) j) = DRAWING" "j \<noteq> i" for j
    using assms(1) drawn(1) that by (auto simp: paired_def Let_def)
  moreover have "l_requestDraw (w_lottery u) = l_requestDraw (w_lottery w)" by (simp add: s)
  ultimately show ?thesis
    using assms(1,4) unfolding paired_def Let_def mark_delivered_def
    by (auto simp: fun_upd_apply) (metis+)
qed

lemma deliver_Some:
  "deliver r p = Some (Some (s, x), q) \<longleftrightarrow>
     v_ready p r \<and> \<not> v_delivered p r \<and> s = r \<and> x = v_words p r \<and> q = mark_delivered r p"
  by (auto simp: deliver_def mark_delivered_def)

lemma deliver_quiet_Some: "deliver r p = Some (None, q) \<longleftrightarrow> v_ready p r \<and> v_delivered p r \<and> q = p"
  by (auto simp: deliver_def)

lemma fulfill_provider:
  "fulfillRandomness im a r x w = Inr v \<Longrightarrow> w_provider v = w_provider w"
  by (auto elim!: fulfill_cases simp: change_def)

lemma provider_id [simp]: "w_provider v = p \<Longrightarrow> v\<lparr>w_provider := p\<rparr> = v"
  by (rule world.equality) simp_all

lemma finalize_paired:
  assumes "finalizeDraw im (vrf_provider rw) i w = Inr v" and "paired given w"
  shows "paired given v"
  using assms(1)
proof (cases rule: finalize_cases)
  case (quiet p)
  then show ?thesis using assms(2) by (simp add: vrf_provider_def deliver_quiet_Some)
next
  case (delivered p r x)
  then have p: "v_ready (w_provider w) r" "p = mark_delivered r (w_provider w)"
    by (auto simp: vrf_provider_def deliver_Some)
  have "paired given (v\<lparr>w_provider := mark_delivered r (w_provider w)\<rparr>)"
    using assms(2) by (intro fulfill_paired [OF _ delivered(2)]) (simp_all add: p)
  then show ?thesis using fulfill_provider [OF delivered(2)] p(2) by simp
qed

section \<open>Calls back into the contracts\<close>

text \<open>\<open>words_kept p q\<close>: every word held in \<open>p\<close> is still the same in \<open>q\<close>.\<close>

definition words_kept :: "'c vrf \<Rightarrow> 'c vrf \<Rightarrow> bool" where
  "words_kept p q \<longleftrightarrow> (\<forall>r. v_ready p r \<longrightarrow> v_ready q r \<and> v_words q r = v_words p r)"

lemma words_kept_refl [simp]: "words_kept p p"
  by (simp add: words_kept_def)

lemma words_kept_trans: "words_kept p q \<Longrightarrow> words_kept q r \<Longrightarrow> words_kept p r"
  by (simp add: words_kept_def)

lemma words_kept_marks [simp]:
  "words_kept p (mark_delivered r q) = words_kept p q"
  "words_kept p (q\<lparr>v_coordinator := c\<rparr>) = words_kept p q"
  "words_kept p (q\<lparr>v_lottery := l\<rparr>) = words_kept p q"
  "words_kept p (q\<lparr>v_requested := f\<rparr>) = words_kept p q"
  by (simp_all add: words_kept_def mark_delivered_def)

lemma words_kept_store: "\<not> v_ready p r \<Longrightarrow> words_kept p (store_word r x p)"
  by (auto simp: words_kept_def store_word_def)

lemma finalize_words:
  assumes "finalizeDraw im (vrf_provider rw) i w = Inr v"
  shows "words_kept (w_provider w) (w_provider v)"
  using assms
proof (cases rule: finalize_cases)
  case (quiet p)
  then show ?thesis by (simp add: vrf_provider_def deliver_quiet_Some)
next
  case (delivered p r x)
  then show ?thesis
    using fulfill_provider [OF delivered(2)] by (simp add: vrf_provider_def deliver_Some)
qed

lemma reenter_safe:
  assumes "im_randomnessProvider im \<notin> fst ` set cs"
  shows "(paired given w \<longrightarrow> paired given (reenter im (vrf_provider rw) cs w)) \<and>
    words_kept (w_provider w) (w_provider (reenter im (vrf_provider rw) cs w))"
  using assms unfolding reenter_def
proof (induction cs arbitrary: w)
  case (Cons c cs)
  let ?w = "reenter1 im (vrf_provider rw) c w"
  have "(paired given w \<longrightarrow> paired given ?w) \<and> words_kept (w_provider w) (w_provider ?w)"
    using Cons.prems finalize_paired [of im rw _ w] finalize_words [of im rw _ w]
    by (auto simp: reenter1_def absorb_def fulfillRandomness_def split: call.split sum.split)
  moreover have "(paired given ?w \<longrightarrow> paired given (fold (reenter1 im (vrf_provider rw)) cs ?w)) \<and>
      words_kept (w_provider ?w) (w_provider (fold (reenter1 im (vrf_provider rw)) cs ?w))"
    using Cons.prems by (intro Cons.IH) simp
  ultimately show ?case using words_kept_trans by (metis fold_simps(2))
qed simp

lemma call_token_safe:
  assumes "call_token im (vrf_provider rw) operation w = Inr v"
    and "\<And>cs t. operation (w_token w) = Some (cs, t) \<Longrightarrow> im_randomnessProvider im \<notin> fst ` set cs"
  shows "(paired given w \<longrightarrow> paired given v) \<and> words_kept (w_provider w) (w_provider v)"
proof -
  obtain cs t where t: "operation (w_token w) = Some (cs, t)"
      and v: "v = reenter im (vrf_provider rw) cs (w\<lparr>w_token := t\<rparr>)"
    using assms(1) by (auto simp: call_token_def split: option.splits)
  have "paired given w \<longrightarrow> paired given (w\<lparr>w_token := t\<rparr>)" by (simp add: paired_def)
  then show ?thesis
    using reenter_safe [OF assms(2) [OF t], of given "w\<lparr>w_token := t\<rparr>" rw] by (simp add: v)
qed

lemma honest_transfer:
  assumes "honest_token T p"
  shows "t_transferFrom T a b c n t = Some (cs, u) \<Longrightarrow> p \<notin> fst ` set cs"
    and "t_transfer T a b n t = Some (cs, u) \<Longrightarrow> p \<notin> fst ` set cs"
  using assms unfolding honest_token_def by blast+

section \<open>The guarded operations\<close>

lemma start_safe:
  assumes "startDraw_body im n w = Inr v" and "books im (w_lottery w)" and "paired given w"
  shows "paired given v" "w_provider v = w_provider w"
proof -
  let ?i = "Suc (l_currentDrawId (w_lottery w))"
  have "rounds_ok im (w_lottery w)" using assms(2) by (simp add: books_def)
  from rounds_ok_beyond [OF this, of ?i] have z: "l_draws (w_lottery w) ?i = zero_draw"
    by (simp add: untouched_def)
  show "w_provider v = w_provider w"
    using assms(1) by (auto simp: startDraw_body_def Let_def andThen_Inr split: if_splits)
  then show "paired given v"
    by (rule paired_change [OF assms(3)])
       (use assms(1) z in \<open>auto simp: startDraw_body_def Let_def andThen_Inr emit_def zero_draw_def
          split: if_splits\<close>)
qed

lemma buy_safe:
  assumes "buyTicket_body im T (vrf_provider rw) a i w = Inr v" and "honest_token T (im_randomnessProvider im)"
    and "paired given w"
  shows "paired given v \<and> words_kept (w_provider w) (w_provider v)"
proof -
  obtain u f where u: "call_token im (vrf_provider rw)
        (t_transferFrom T (im_this im) a (im_this im) (im_ticketPrice im)) w = Inr u"
      and v: "v = change f u" and f: "l_requestDraw (f (w_lottery u)) = l_requestDraw (w_lottery u)"
        "\<And>j. s_status (l_draws (f (w_lottery u)) j) = s_status (l_draws (w_lottery u) j) \<and>
          s_requestId (l_draws (f (w_lottery u)) j) = s_requestId (l_draws (w_lottery u) j)"
    using assms(1)
    by (auto simp: buyTicket_body_def Let_def andThen_Inr emit_def split: if_splits)
  have s: "paired given u" "words_kept (w_provider w) (w_provider u)"
    using call_token_safe [OF u honest_transfer(1) [OF assms(2)], where given = given] assms(3) by auto
  have "paired given v" by (rule paired_change [OF s(1)]) (simp_all add: v f)
  then show ?thesis using s(2) by (simp add: v)
qed

lemma prize_safe:
  assumes "claimPrize_body im T (vrf_provider rw) a i w = Inr v" and "honest_token T (im_randomnessProvider im)"
    and "paired given w"
  shows "paired given v \<and> words_kept (w_provider w) (w_provider v)"
proof -
  let ?d = "l_draws (w_lottery w) i" and ?call = "\<lambda>to n. call_token im (vrf_provider rw) (t_transfer T (im_this im) to n)"
  obtain opz w1 w2 w3 where
      w1: "w1 = change (\<lambda>s. change_draw i (\<lambda>d. d\<lparr>s_status := COMPLETED\<rparr>) (s\<lparr>l_outstandingPrizes := opz\<rparr>)) w"
      and w2: "(if s_daoFee ?d \<noteq> 0 then ?call (im_dao im) (s_daoFee ?d) w1 else Inr w1) = Inr w2"
      and w3: "?call a (s_winnerPrize ?d) w2 = Inr w3"
      and v: "w_provider v = w_provider w3" "w_lottery v = emit (PrizeClaimed i a (s_winnerPrize ?d) (im_dao im) (s_daoFee ?d)) (w_lottery w3)"
    using assms(1)
    by (auto simp: claimPrize_body_def Let_def andThen_Inr split: if_splits)
  note h = honest_transfer(2) [OF assms(2)]
  have "paired given w1"
    by (rule paired_change [OF assms(3)]) (auto simp: w1 change_draw_def)
  moreover have "(paired given w1 \<longrightarrow> paired given w2) \<and> words_kept (w_provider w1) (w_provider w2)"
  proof (cases "s_daoFee ?d = 0")
    case False
    then have c: "?call (im_dao im) (s_daoFee ?d) w1 = Inr w2" using w2 by simp
    show ?thesis by (rule call_token_safe [OF c]) (rule h)
  qed (use w2 in simp)
  ultimately have "paired given w2 \<and> words_kept (w_provider w) (w_provider w2)" by (simp add: w1)
  moreover have "(paired given w2 \<longrightarrow> paired given w3) \<and> words_kept (w_provider w2) (w_provider w3)"
    by (rule call_token_safe [OF w3]) (rule h)
  ultimately have s: "paired given w3 \<and> words_kept (w_provider w) (w_provider w3)"
    using words_kept_trans by blast
  have "paired given v" by (rule paired_change [OF conjunct1 [OF s]]) (simp_all add: v emit_def)
  then show ?thesis using s by (simp add: v)
qed

lemma refund_safe:
  assumes "claimRefund_body im T (vrf_provider rw) a i w = Inr v" and "honest_token T (im_randomnessProvider im)"
    and "paired given w"
  shows "paired given v \<and> words_kept (w_provider w) (w_provider v)"
proof -
  obtain orf w1 w2 where
      w1: "w1 = change (\<lambda>s. s\<lparr>l_refunded := (l_refunded s)(i := (l_refunded s i)(a := True)),
        l_outstandingRefunds := orf\<rparr>) w"
      and w2: "call_token im (vrf_provider rw) (t_transfer T (im_this im) a (im_ticketPrice im)) w1 = Inr w2"
      and v: "v = change (emit (RefundClaimed i a (im_ticketPrice im))) w2"
    using assms(1) by (auto simp: claimRefund_body_def Let_def andThen_Inr split: if_splits)
  have "paired given w1" by (rule paired_change [OF assms(3)]) (simp_all add: w1)
  moreover have "(paired given w1 \<longrightarrow> paired given w2) \<and> words_kept (w_provider w1) (w_provider w2)"
    by (rule call_token_safe [OF w2]) (rule honest_transfer(2) [OF assms(2)])
  ultimately have s: "paired given w2" "words_kept (w_provider w) (w_provider w2)" by (simp_all add: w1)
  have "paired given v" by (rule paired_change [OF s(1)]) (simp_all add: v emit_def)
  then show ?thesis using s(2) by (simp add: v)
qed

text \<open>A request gets an identifier the coordinator has not given out, and no call comes back.\<close>

lemma request_Some:
  "p_request (vrf_provider rw) a p = Some (r, cs, q) \<longleftrightarrow>
     a = v_lottery p \<and> cs = [] \<and> (\<exists>c. rw (v_coordinator p) = Some (r, c) \<and>
       q = p\<lparr>v_coordinator := c, v_requested := (v_requested p)(r := True)\<rparr>)"
  by (auto simp: vrf_provider_def requestRandomness_def split: option.splits)

lemma perform_safe:
  assumes "performDraw_body im (vrf_provider rw) i w = Inr v" and "coordinator rw given" and "paired given w"
  shows "paired given v \<and> words_kept (w_provider w) (w_provider v)"
proof (cases "s_participantCount (l_draws (w_lottery w) i) < im_minimumParticipants im")
  case True
  then have p: "w_provider v = w_provider w" and l: "l_requestDraw (w_lottery v) = l_requestDraw (w_lottery w)"
    and d: "\<And>j. s_status (l_draws (w_lottery v) j) = DRAWING \<Longrightarrow> l_draws (w_lottery v) j = l_draws (w_lottery w) j"
    using assms(1)
    by (auto simp: performDraw_body_def Let_def andThen_Inr emit_def split: if_splits)
  have "paired given v" by (rule paired_change [OF assms(3) p l]) (use d in auto)
  then show ?thesis by (simp add: p)
next
  case False
  let ?p = "w_provider w"
  obtain r c where i: "i \<noteq> 0"
      and rw: "rw (v_coordinator ?p) = Some (r, c)" and r: "r \<noteq> 0" "l_requestDraw (w_lottery w) r = 0"
      and p: "w_provider v = ?p\<lparr>v_coordinator := c, v_requested := (v_requested ?p)(r := True)\<rparr>"
      and l: "l_requestDraw (w_lottery v) = (l_requestDraw (w_lottery w))(r := i)"
      and d: "l_draws (w_lottery v) = (l_draws (w_lottery w))
        (i := (l_draws (w_lottery w) i)\<lparr>s_status := DRAWING, s_requestId := r\<rparr>)"
    using assms(1) False
    by (auto simp: performDraw_body_def canPerformDraw_iff Let_def request_Some reenter_def change_draw_def emit_def
        split: if_splits option.splits)
  have f: "r \<notin> given (v_coordinator ?p)" "given c = insert r (given (v_coordinator ?p))"
    using coordinator.words_fresh [OF assms(2) rw] by auto
  then have q: "\<not> v_delivered ?p r" "\<not> v_requested ?p r"
    using assms(3) by (auto simp: paired_def Let_def)
  have "paired given v"
    using assms(3) i q f(2) unfolding paired_def Let_def p l d by (auto simp: fun_upd_apply)
  then show ?thesis by (simp add: p)
qed

section \<open>Every step\<close>

lemma paired_lock [simp]:
  "paired given (change (\<lambda>s. s\<lparr>l_entered := e\<rparr>) w) = paired given w"
  by (simp add: paired_def Let_def)

lemma transact_safe:
  assumes "transact im T (vrf_provider rw) a c w = Inr v" and "a \<noteq> im_randomnessProvider im"
    and "books im (w_lottery w)" and "coordinator rw given"
    and "honest_token T (im_randomnessProvider im)" and "paired given w"
  shows "paired given v \<and> words_kept (w_provider w) (w_provider v)"
proof (cases c)
  case (call_startDraw n)
  then show ?thesis
    using assms start_safe [of im n "change (\<lambda>s. s\<lparr>l_entered := True\<rparr>) w" _ given]
    by (auto simp: transact_def nonReentrant_Inr)
next
  case (call_buyTicket i)
  then show ?thesis
    using assms buy_safe [of im T rw a i "change (\<lambda>s. s\<lparr>l_entered := True\<rparr>) w" _ given]
    by (auto simp: transact_def nonReentrant_Inr)
next
  case (call_performDraw i)
  then show ?thesis
    using assms perform_safe [of im rw i "change (\<lambda>s. s\<lparr>l_entered := True\<rparr>) w" _ given]
    by (auto simp: transact_def nonReentrant_Inr)
next
  case (call_fulfillRandomness r x)
  then show ?thesis using assms(1,2) by (simp add: transact_def fulfillRandomness_def)
next
  case (call_finalizeDraw i)
  then show ?thesis using assms(1,6) finalize_paired finalize_words by (auto simp: transact_def)
next
  case (call_claimPrize i)
  then show ?thesis
    using assms prize_safe [of im T rw a i "change (\<lambda>s. s\<lparr>l_entered := True\<rparr>) w" _ given]
    by (auto simp: transact_def nonReentrant_Inr)
next
  case (call_claimRefund i)
  then show ?thesis
    using assms refund_safe [of im T rw a i "change (\<lambda>s. s\<lparr>l_entered := True\<rparr>) w" _ given]
    by (auto simp: transact_def nonReentrant_Inr)
qed

text \<open>A first callback stores the word, whether or not the lottery accepts it.\<close>

lemma store_paired:
  assumes "paired given w" and "v_requested (w_provider w) r"
  shows "paired given (w\<lparr>w_provider := store_word r x (w_provider w)\<rparr>)"
  using assms by (auto simp: paired_def Let_def store_word_def)

lemma callback_safe:
  assumes "rawFulfillRandomWords im vi gas a r xs w = Inr v" and "paired given w"
  shows "paired given v \<and> words_kept (w_provider w) (w_provider v)"
  using assms(1)
proof (cases rule: rawFulfill_cases)
  case ignored
  then show ?thesis using assms(2) by simp
next
  case (failed x)
  then show ?thesis using store_paired [OF assms(2)] by (simp add: words_kept_store)
next
  case (called x u)
  let ?p = "store_word r x (w_provider w)"
  have u: "w_provider u = ?p" using fulfill_provider [OF called(3)] by simp
  have "paired given (u\<lparr>w_provider := mark_delivered r ?p\<rparr>)"
    by (rule fulfill_paired [OF store_paired [OF assms(2) called(1)] called(3)]) (simp_all add: store_word_def)
  then show ?thesis using called(2) by (simp add: called(4) u words_kept_store)
qed

lemma vrf_step_safe:
  assumes "vrf_step im vi T rw given w v" and "books im (w_lottery w)" and "coordinator rw given"
    and "honest_token T (im_randomnessProvider im)" and "paired given w"
  shows "paired given v \<and> words_kept (w_provider w) (w_provider v)"
  using assms(1)
proof cases
  case (on_lottery a c)
  then show ?thesis using transact_safe assms(2-5) by blast
next
  case (callback gas a r xs)
  then show ?thesis using callback_safe assms(5) by blast
next
  case (delivery r x p)
  then have p: "v_ready (w_provider w) r" "p = mark_delivered r (w_provider w)" by (simp_all add: deliver_Some)
  have "paired given (v\<lparr>w_provider := mark_delivered r (w_provider w)\<rparr>)"
    using assms(5) by (intro fulfill_paired [OF _ delivery(2)]) (simp_all add: p)
  then show ?thesis using fulfill_provider [OF delivery(2)] p(2) by simp
next
  case (configure a l code p)
  then have p: "p = (w_provider w)\<lparr>v_lottery := l\<rparr>" by (simp add: setLottery_def split: if_splits)
  show ?thesis using assms(5) by (simp add: configure(1) p paired_def Let_def)
next
  case (outside t tm c)
  have "paired given v" using assms(5) outside(4) unfolding outside(1) paired_def Let_def by auto
  then show ?thesis by (simp add: outside(1))
qed

section \<open>The joint system from its deployment\<close>

lemma vrf_paired:
  assumes "vrf_later im vi T rw given (vrf_start t c tm) w" and "coordinator rw given"
    and "honest_token T (im_randomnessProvider im)" and "own_account im"
  shows "paired given w"
  using assms(1) unfolding vrf_later_def
proof (induction rule: rtranclp_induct)
  case base
  show ?case by (simp add: paired_def vrf_start_def fresh_lottery_def fresh_vrf_def zero_draw_def)
next
  case (step w v)
  have "books im (w_lottery w)"
    using vrf_deployed [of im vi T rw given t c tm w] step.hyps(1) assms(4) deployed_books
    unfolding vrf_later_def by blast
  then show ?case using vrf_step_safe [OF step.hyps(2)] step.IH assms(2,3) by blast
qed

lemma vrf_words:
  assumes "vrf_later im vi T rw given w v" and "vrf_later im vi T rw given (vrf_start t c tm) w"
    and "coordinator rw given" and "honest_token T (im_randomnessProvider im)" and "own_account im"
  shows "words_kept (w_provider w) (w_provider v)"
  using assms(1) unfolding vrf_later_def
proof (induction rule: rtranclp_induct)
  case base
  show ?case by simp
next
  case (step u v)
  have u: "vrf_later im vi T rw given (vrf_start t c tm) u"
    using assms(2) step.hyps(1) unfolding vrf_later_def by (rule rtranclp_trans)
  have "books im (w_lottery u)" using vrf_deployed [OF u assms(5)] deployed_books by blast
  moreover have "paired given u" by (rule vrf_paired [OF u assms(3-5)])
  ultimately have "words_kept (w_provider u) (w_provider v)"
    using vrf_step_safe [OF step.hyps(2)] assms(3,4) by blast
  with step.IH show ?case by (rule words_kept_trans)
qed

section \<open>A word that was not accepted at once\<close>

text \<open>
  Round 1 with two players; its word 20 reaches the provider, but the callback runs out of gas.
\<close>

definition sample_vi :: vrf_immutables where
  "sample_vi =
     \<lparr>vi_coordinator = 60, vi_configurator = 99, vi_subscriptionId = 1, vi_keyHash = 1,
      vi_confirmations = 3, vi_callbackGasLimit = 300000, vi_nativePayment = False\<rparr>"

abbreviation sample_vrf :: "nat vrf provider" where
  "sample_vrf \<equiv> vrf_provider mock_requestRandomWords"

abbreviation sample_later ::
  "(addr \<Rightarrow> nat, nat vrf) world \<Rightarrow> (addr \<Rightarrow> nat, nat vrf) world \<Rightarrow> bool" where
  "sample_later \<equiv> vrf_later sample_im sample_vi plain_token mock_requestRandomWords mock_given"

abbreviation sample_balances :: "addr \<Rightarrow> nat" where
  "sample_balances \<equiv> (\<lambda>a. if a \<le> 5 then 100 else 0)"

definition vrf_open :: "(addr \<Rightarrow> nat, nat vrf) world" where
  "vrf_open = (vrf_start sample_balances 0 1000)\<lparr>w_provider := (fresh_vrf 0)\<lparr>v_lottery := 50\<rparr>\<rparr>"

definition vrf_due :: "(addr \<Rightarrow> nat, nat vrf) world" where
  "vrf_due = after (calls sample_im plain_token sample_vrf (entries 2) vrf_open)"

definition vrf_waiting :: "(addr \<Rightarrow> nat, nat vrf) world" where
  "vrf_waiting = after (calls sample_im plain_token sample_vrf [(1, call_performDraw 1)] (wait 90000 vrf_due))"

definition vrf_ready :: "(addr \<Rightarrow> nat, nat vrf) world" where
  "vrf_ready = after (rawFulfillRandomWords sample_im sample_vi True 60 1 [20] vrf_waiting)"

lemmas vrf_run =
  contract_run slots upt_rec vrf_open_def vrf_start_def fresh_vrf_def vrf_due_def vrf_waiting_def
  vrf_ready_def vrf_provider_def requestRandomness_def mock_requestRandomWords_def deliver_def
  rawFulfillRandomWords_def store_word_def sample_vi_def Let_def

lemma vrf_later_trans:
  "vrf_later im vi T rw given u v \<Longrightarrow> vrf_later im vi T rw given v w \<Longrightarrow> vrf_later im vi T rw given u w"
  unfolding vrf_later_def by (rule rtranclp_trans)

lemma calls_vrf_later:
  "list_all (\<lambda>(a, c). a \<noteq> 0 \<and> a \<noteq> im_this im \<and> a \<noteq> im_randomnessProvider im) cs \<Longrightarrow>
     calls im T (vrf_provider rw) cs w = Inr v \<Longrightarrow> vrf_later im vi T rw given w v"
proof (induction im T "vrf_provider rw" cs w rule: calls.induct)
  case (1 im T w)
  then show ?case by (simp add: vrf_later_def)
next
  case (2 im T a c cs w)
  obtain u where u: "transact im T (vrf_provider rw) a c w = Inr u" "calls im T (vrf_provider rw) cs u = Inr v"
    using "2.prems"(2) by (auto simp: andThen_Inr)
  have "vrf_step im vi T rw given w u" using "2.prems"(1) u(1) by (auto intro: vrf_step.on_lottery)
  moreover have "vrf_later im vi T rw given u v" using 2 u by simp
  ultimately show ?case unfolding vrf_later_def by (rule converse_rtranclp_into_rtranclp)
qed

lemma vrf_runs:
  "calls sample_im plain_token sample_vrf (entries 2) vrf_open = Inr vrf_due"
  "calls sample_im plain_token sample_vrf [(1, call_performDraw 1)] (wait 90000 vrf_due) = Inr vrf_waiting"
  "rawFulfillRandomWords sample_im sample_vi True 60 1 [20] vrf_waiting = Inr vrf_ready"
  by (simp_all add: vrf_run)

lemma vrf_ready_facts:
  "s_status (l_draws (w_lottery vrf_ready) 1) = DRAWING"
  "s_requestId (l_draws (w_lottery vrf_ready) 1) = 1"
  "vrf_held (w_provider vrf_ready) 1 = Some 20"
  "l_owners (w_lottery vrf_ready) 1 = [1, 2, 0, 0, 0, 0, 0, 0, 0, 0]"
  by (simp_all add: vrf_run vrf_held_def)

lemma vrf_ready_reached: "sample_later (vrf_start sample_balances 0 1000) vrf_ready"
proof -
  have "setLottery sample_vi 99 50 True (fresh_vrf 0) = Some ((fresh_vrf (0::nat))\<lparr>v_lottery := 50\<rparr>)"
    by (simp add: setLottery_def sample_vi_def fresh_vrf_def)
  then have "vrf_step sample_im sample_vi plain_token mock_requestRandomWords mock_given
      (vrf_start sample_balances 0 1000) vrf_open"
    using vrf_step.configure [where w = "vrf_start sample_balances (0::nat) 1000" and vi = sample_vi]
    by (simp add: vrf_start_def vrf_open_def)
  then have 1: "sample_later (vrf_start sample_balances 0 1000) vrf_open" by (simp add: vrf_later_def)
  have 2: "sample_later vrf_open vrf_due"
    by (rule calls_vrf_later [OF _ vrf_runs(1)]) (simp add: entries_def sample_im_def upt_rec)
  have "vrf_step sample_im sample_vi plain_token mock_requestRandomWords mock_given vrf_due (wait 90000 vrf_due)"
    using vrf_step.outside [where T = plain_token and w = vrf_due and t = "w_token vrf_due" and
        tm = "w_time vrf_due + 90000" and given = mock_given and c = "v_coordinator (w_provider vrf_due)"]
    by (simp add: wait_def)
  then have 3: "sample_later vrf_due (wait 90000 vrf_due)" by (simp add: vrf_later_def)
  have 4: "sample_later (wait 90000 vrf_due) vrf_waiting"
    by (rule calls_vrf_later [OF _ vrf_runs(2)]) (simp add: sample_im_def)
  have 5: "sample_later vrf_waiting vrf_ready"
    using vrf_step.callback [OF vrf_runs(3)] by (auto simp: vrf_later_def)
  show ?thesis using 1 2 3 4 5 by (blast intro: vrf_later_trans)
qed

lemma plain_honest: "honest_token plain_token p"
  by (auto simp: honest_token_def plain_token_def split: if_splits)

lemma sample_own_account: "own_account sample_im"
  by (simp add: own_account_def sample_im_def)

section \<open>What the retry button can rely on\<close>

text \<open>C21: With the VRF provider a random word that has reached the provider is never lost: however its first
  callback ended, as long as the round waits anyone can deliver the stored word, the call goes through,
  and it settles the round with exactly that word.\<close>

theorem stored_word_settles:
  assumes "vrf_later im vi T rw given (vrf_start t c tm) w" and "coordinator rw given"
    and "honest_token T (im_randomnessProvider im)" and "own_account im"
    and "exact_token T (im_this im)" and "valid_deployment im"
    and "d = l_draws (w_lottery w) i" and "s_status d = DRAWING"
    and "vrf_held (w_provider w) (s_requestId d) = Some x"
  shows "\<exists>v. transact im T (vrf_provider rw) a (call_finalizeDraw i) w = Inr v \<and>
    s_luckyNumber (l_draws (w_lottery v) i) = x mod 10 + 1 \<and>
    s_winner (l_draws (w_lottery v) i) = l_owners (w_lottery w) i ! (x mod 10) \<and>
    s_status (l_draws (w_lottery v) i) =
      (if l_owners (w_lottery w) i ! (x mod 10) = 0 then NO_WINNER else WINNER_DECLARED)"
proof -
  let ?p = "w_provider w" and ?r = "s_requestId d"
  let ?w = "w\<lparr>w_provider := mark_delivered ?r ?p\<rparr>"
  have D: "s_status (l_draws (w_lottery w) i) = DRAWING" using assms(7,8) by simp
  have "deployed im T (vrf_provider rw) ?w"
    by (rule provider_step) (rule vrf_deployed [OF assms(1,4)])
  from fulfill_decides [OF this assms(5,6), of i x] D obtain v where
    v: "fulfillRandomness im (im_randomnessProvider im) ?r x ?w = Inr v"
      "s_luckyNumber (l_draws (w_lottery v) i) = x mod 10 + 1"
      "s_winner (l_draws (w_lottery v) i) = l_owners (w_lottery w) i ! (x mod 10)"
      "s_status (l_draws (w_lottery v) i) =
        (if l_owners (w_lottery w) i ! (x mod 10) = 0 then NO_WINNER else WINNER_DECLARED)"
    using assms(7) by auto
  have "paired given w" by (rule vrf_paired [OF assms(1-4)])
  then have "i \<noteq> 0" "\<not> v_delivered ?p ?r" using D assms(7) by (auto simp: paired_def Let_def)
  moreover have "v_ready ?p ?r" "v_words ?p ?r = x" using assms(9) by (simp_all add: vrf_held_def split: if_splits)
  ultimately have "transact im T (vrf_provider rw) a (call_finalizeDraw i) w = Inr v"
    using D assms(7) v(1)
    by (simp add: transact_def finalizeDraw_def vrf_provider_def deliver_def mark_delivered_def Let_def)
  then show ?thesis using v(2-4) by blast
qed

theorem stored_word_settles_witness:
  "\<exists>v. transact sample_im plain_token sample_vrf 9 (call_finalizeDraw 1) vrf_ready = Inr v \<and>
     s_winner (l_draws (w_lottery v) 1) = 1"
  using stored_word_settles [OF vrf_ready_reached mock_coordinator.coordinator_axioms plain_honest
      sample_own_account plain_exact sample_valid refl vrf_ready_facts(1), of 20 9]
  unfolding vrf_ready_facts by auto

text \<open>C22: The random word of a request is stored once and never rerolled: whatever the coordinator, the lottery
  and other callers do later, the provider holds the same word.\<close>

theorem word_never_rerolled:
  assumes "vrf_later im vi T rw given (vrf_start t c tm) w" and "vrf_later im vi T rw given w v"
    and "coordinator rw given" and "honest_token T (im_randomnessProvider im)" and "own_account im"
    and "vrf_held (w_provider w) r = Some x"
  shows "vrf_held (w_provider v) r = Some x"
  using vrf_words [OF assms(2,1,3-5)] assms(6) by (auto simp: words_kept_def vrf_held_def split: if_splits)

theorem word_never_rerolled_witness:
  "\<exists>v. rawFulfillRandomWords sample_im sample_vi False 60 1 [7] vrf_ready = Inr v \<and>
     vrf_held (w_provider v) 1 = Some 20"
proof -
  obtain v where v: "rawFulfillRandomWords sample_im sample_vi False 60 1 [7] vrf_ready = Inr v"
    by (simp add: vrf_run)
  then have "sample_later vrf_ready v"
    using vrf_step.callback [OF v] by (auto simp: vrf_later_def)
  from word_never_rerolled [OF vrf_ready_reached this mock_coordinator.coordinator_axioms plain_honest
      sample_own_account vrf_ready_facts(3)] v
  show ?thesis by blast
qed

end
