(* ===== verification/Buttons.thy ===== *)
theory Buttons
  imports View Samples
begin

text \<open>
  Which transactions the page offers: for each kind of action, the exact condition under which the
  rendered page has an enabled button for it.
\<close>

definition offered :: "build \<Rightarrow> app \<Rightarrow> action_kind \<Rightarrow> bool" where
  "offered b cl k \<longleftrightarrow>
     \<not> is_busy cl \<and> account cl \<noteq> [] \<and>
     (case k of
        Mint \<Rightarrow> testTokenAvailable b cl \<and> \<not> walletBusy cl
      | Buy \<Rightarrow> canBuy cl
      | DrawRound \<Rightarrow> eligible cl
      | Finalize \<Rightarrow> has_status cl ''DRAWING''
      | Start \<Rightarrow> canStart cl
      | Prize \<Rightarrow>
          (case draw cl of
             None \<Rightarrow> False
           | Some d \<Rightarrow> truthy (winner d) \<and> isWinner cl \<and> \<not> prizeClaimed d)
      | Refund \<Rightarrow>
          (case draw cl of
             None \<Rightarrow> False
           | Some d \<Rightarrow> \<not> truthy (winner d) \<and> status d = ''CANCELLED'' \<and>
               (case mine cl of None \<Rightarrow> False | Some t \<Rightarrow> \<not> refunded t)))"

lemma buttons_map_El:
  "(\<And>x. \<exists>tg c kids. f x = El tg c kids \<and> page_buttons kids = []) \<Longrightarrow> page_buttons (map f xs) = []"
proof (induction xs)
  case (Cons x xs)
  then obtain tg c kids where "f x = El tg c kids" "page_buttons kids = []" by blast
  then show ?case using Cons by simp
qed simp

lemma not_enabled_map:
  "(\<And>x. page_buttons [f x] = []) \<Longrightarrow> \<not> enabled (map f xs) k"
  by (induction xs) (auto simp: enabled_def)

lemma page_buttons_case [simp]:
  "enabled (case x of None \<Rightarrow> ms | Some a \<Rightarrow> ns a) k \<longleftrightarrow>
     (case x of None \<Rightarrow> enabled ms k | Some a \<Rightarrow> enabled (ns a) k)"
  by (cases x) simp_all

lemma enabled_accounts: "\<not> enabled (concat (map (account_row cl) as)) (Act k)"
  by (auto simp: enabled_concat_map account_row_def)

lemma enabled_header: "\<not> enabled (header cl) (Act k)"
  by (simp add: header_def wallet_menu_def enabled_accounts)

lemma enabled_messages:
  "enabled (messages b cl) (Act k) \<longleftrightarrow>
     k = Mint \<and> testTokenAvailable b cl \<and> \<not> (account cl = [] \<or> is_busy cl \<or> walletBusy cl)"
  by (auto simp: messages_def tx_line_def split: option.splits)

lemma enabled_main: "\<not> enabled (main_panel L cl) (Act k)"
proof -
  have "\<not> enabled (map (number_cell cl) ts) (Act k)" for ts
    by (rule not_enabled_map) (simp add: number_cell_def)
  moreover have "\<not> enabled (map allocation_row ts) (Act k)" for ts
    by (rule not_enabled_map) (simp add: allocation_row_def)
  moreover have "\<not> enabled (map (\<lambda>i. El ''i'' (if int i < players cl then ''filled'' else []) []) is) (Act k)" for "is"
    by (rule not_enabled_map) simp
  ultimately show ?thesis
    by (auto simp: main_panel_def pool_panel_def round_stats_def split: option.splits)
qed

lemma enabled_entry:
  "enabled (entry_panel L cl) (Act k) \<longleftrightarrow>
     (k = Buy \<and> account cl \<noteq> [] \<and> canBuy cl \<and> \<not> is_busy cl) \<or>
     (k = DrawRound \<and> eligible cl \<and> \<not> cannot_act cl) \<or>
     (k = Finalize \<and> has_status cl ''DRAWING'' \<and> \<not> cannot_act cl) \<or>
     (k = Start \<and> canStart cl \<and> \<not> cannot_act cl)"
  by (auto simp: entry_panel_def entry_button_def drawing_note_def)

lemma enabled_result:
  "enabled (result_panel L cl) (Act k) \<longleftrightarrow>
     (case draw cl of
        None \<Rightarrow> False
      | Some d \<Rightarrow>
          (if truthy (winner d) then k = Prize \<and> isWinner cl \<and> \<not> prizeClaimed d \<and> \<not> is_busy cl
           else k = Refund \<and> status d = ''CANCELLED'' \<and>
             (case mine cl of None \<Rightarrow> False | Some t \<Rightarrow> \<not> refunded t \<and> \<not> is_busy cl)))"
  by (auto simp: result_panel_def result_body_def winner_result_def no_winner_result_def
      cancelled_result_def rules_result_def split: option.splits)

lemma enabled_static: "\<not> enabled intro c" "\<not> enabled how_cards c"
  by (simp_all add: intro_def how_cards_def)

lemma enabled_rest:
  "\<not> enabled (history_panel L cl) (Act k)"
  "\<not> enabled (Help qs lang) (Act k)"
  "\<not> enabled (transactions_panel c acct) (Act k)"
  "\<not> enabled (footer cl) (Act k)"
  "\<not> enabled (contract_note cl) (Act k)"
proof -
  have "\<not> enabled (map (history_row L cl) ds) (Act k)" for ds
    by (induction ds) (simp_all add: history_row_def)
  moreover have "\<not> enabled (map (\<lambda>h. El ''th'' [] [Txt h]) hs) (Act k)" for hs
    by (rule not_enabled_map) simp
  ultimately show "\<not> enabled (history_panel L cl) (Act k)"
    by (auto simp: history_panel_def)
  have "\<not> enabled (map (help_question c) qs) (Act k)" for c
    by (rule not_enabled_map) (simp add: help_question_def Let_def)
  then show "\<not> enabled (Help qs lang) (Act k)" by (simp add: Help_def Let_def)
  show "\<not> enabled (transactions_panel c acct) (Act k)"
    by (simp add: transactions_panel_def split: option.splits)
  show "\<not> enabled (footer cl) (Act k)" by (simp add: footer_def)
  show "\<not> enabled (contract_note cl) (Act k)"
    by (simp add: contract_note_def split: option.splits)
qed

lemma mine_account: "mine cl = Some t \<Longrightarrow> winner d = w \<Longrightarrow> draw cl = Some d \<Longrightarrow> owned_by (account cl) t"
  by (auto simp: mine_def dest: find_SomeD)

lemma enabled_page:
  assumes "\<And>t d. mine cl = Some t \<Longrightarrow> draw cl = Some d \<Longrightarrow> account cl \<noteq> []"
  shows "enabled (page b L qs lang cl) (Act k) \<longleftrightarrow> offered b cl k"
  using assms enabled_messages [of b cl k] enabled_entry [of L cl k] enabled_result [of L cl k]
  by (cases k)
     (auto simp: page_def enabled_header enabled_static enabled_main enabled_rest offered_def cannot_act_def
      isWinner_def canBuy_def split: option.splits if_splits)

text \<open>C33: The page offers a transaction exactly when it is meant to: never while another action is in progress,
  and each kind under its own condition on the round, the account and the deployment. (A refund
  also needs a connected account when every listed ticket has a real holder.)\<close>

theorem page_offers:
  assumes "\<And>d t. draw cl = Some d \<Longrightarrow> t \<in> set (tickets d) \<Longrightarrow> wallet t \<noteq> Some []"
  shows "enabled (page b L qs lang cl) (Act k) \<longleftrightarrow> offered b cl k"
proof (rule enabled_page)
  show "account cl \<noteq> []" if "mine cl = Some t" "draw cl = Some d" for t d
    using that assms [OF that(2)] find_SomeD [of "owned_by (account cl)" "tickets d" t]
    by (auto simp: mine_def owned_by_def split: option.splits)
qed

theorem page_offers_witness:
  "\<forall>L qs lang. enabled (page sample_build L qs lang sample_page) (Act Buy)"
proof -
  have "offered sample_build sample_page Buy"
    by (simp add: offered_def is_busy_def canBuy_def mine_def eligible_def remaining_def has_status_def owned_by_def js_sub_def run_simps)
  moreover have "wallet t \<noteq> Some []" if "draw sample_page = Some d" "t \<in> set (tickets d)" for d t
    using that by (auto simp: run_simps)
  ultimately show ?thesis using page_offers [of sample_page] by blast
qed

end
