(* ===== verification/ContractProps.thy ===== *)
theory ContractProps
  imports ContractSamples
begin

text \<open>
  The guarantees of the lottery contract, for every world reachable from its deployment, each with a
  concrete world in which it applies.
\<close>

section \<open>Solvency and accounting\<close>

text \<open>C1: In every reachable world the contract's token balance covers its liabilities, whose sum never
  overflows, whatever the senders, the token's callbacks and the provider do.\<close>

theorem contract_is_solvent:
  assumes "deployed im T P w" and "exact_token T (im_this im)" and "valid_deployment im"
  shows "\<exists>x. liabilities (w_lottery w) = Inr x \<and> x \<le> t_balanceOf T (w_token w) (im_this im)"
  using liabilities_covered [OF assms] by blast

theorem contract_is_solvent_witness:
  "\<exists>x. liabilities (w_lottery sample_drawing) = Inr x \<and> x \<le> 20"
  using contract_is_solvent [OF drawing_deployed plain_exact sample_valid] drawing_facts(4)
  by (simp add: sample_im_def plain_token_def)

text \<open>C10: The four running totals are exactly what the rounds owe: the pool of the round in play, the pools of
  the rounds with an unclaimed prize, one ticket price per unreturned ticket of the cancelled rounds,
  and the rollover of a round without a winner until the next round takes it over.\<close>

theorem totals_are_exact:
  assumes "deployed im T P w" and "s = w_lottery w" and "n = l_currentDrawId s"
  shows "l_activePool s = (if live (l_draws s n) then s_pool (l_draws s n) else 0) \<and>
    l_pendingRollover s = carry (l_draws s n) \<and>
    l_outstandingPrizes s = (\<Sum>i \<in> {1..n}. prize_due (l_draws s i)) \<and>
    l_outstandingRefunds s = (\<Sum>i \<in> {1..n}. refunds_due im (l_draws s i) (l_owners s i) (l_refunded s i))"
  using deployed_books [OF assms(1)] assms(2,3) by (simp add: books_def totals_ok_def Let_def)

theorem totals_are_exact_witness:
  "l_activePool (w_lottery sample_drawing) =
     (if live (l_draws (w_lottery sample_drawing) (l_currentDrawId (w_lottery sample_drawing)))
      then s_pool (l_draws (w_lottery sample_drawing) (l_currentDrawId (w_lottery sample_drawing))) else 0)"
  using totals_are_exact [OF drawing_deployed refl refl] by simp

section \<open>Tickets\<close>

text \<open>C28: In every round at most five tickets are sold, to different wallets; a wallet's ticket number is its
  position among the ten slots, and the remaining slots are empty.\<close>

theorem tickets_are_unique:
  assumes "deployed im T P w" and "1 \<le> i" and "i \<le> l_currentDrawId (w_lottery w)"
  shows "tickets_ok (s_participantCount (l_draws (w_lottery w) i)) (l_owners (w_lottery w) i)
      (l_ticketOf (w_lottery w) i) \<and>
    distinct (filter (\<lambda>a. a \<noteq> 0) (l_owners (w_lottery w) i)) \<and>
    length (filter (\<lambda>a. a \<noteq> 0) (l_owners (w_lottery w) i)) = s_participantCount (l_draws (w_lottery w) i)"
proof -
  let ?s = "w_lottery w" let ?n = "s_participantCount (l_draws ?s i)" let ?os = "l_owners ?s i"
  have "rounds_ok im ?s" using deployed_books [OF assms(1)] by (simp add: books_def)
  then have tk: "tickets_ok ?n ?os (l_ticketOf ?s i)"
    using rounds_ok_round assms(2,3) by (auto simp: round_ok_def)
  have "filter (\<lambda>a. a \<noteq> 0) (take ?n ?os) = take ?n ?os"
    using tk by (intro filter_True) (auto simp: tickets_ok_def in_set_conv_nth)
  moreover have "filter (\<lambda>a. a \<noteq> 0) (drop ?n ?os) = []"
    using tk by (intro filter_False) (auto simp: tickets_ok_def in_set_conv_nth)
  moreover have "filter (\<lambda>a. a \<noteq> 0) ?os =
      filter (\<lambda>a. a \<noteq> 0) (take ?n ?os) @ filter (\<lambda>a. a \<noteq> 0) (drop ?n ?os)"
    by (metis append_take_drop_id filter_append)
  ultimately have "filter (\<lambda>a. a \<noteq> 0) ?os = take ?n ?os" by simp
  moreover have "length (take ?n ?os) = ?n" using tk by (simp add: tickets_ok_def MAX_PARTICIPANTS_def)
  ultimately show ?thesis using tk tickets_ok_distinct [OF tk] by simp
qed

theorem tickets_are_unique_witness:
  "tickets_ok (s_participantCount (l_draws (w_lottery sample_drawing) 1)) [1, 2, 0, 0, 0, 0, 0, 0, 0, 0]
     (l_ticketOf (w_lottery sample_drawing) 1)"
proof -
  have "s_status (l_draws (w_lottery sample_drawing) 1) \<noteq> ACTIVE" using drawing_facts by simp
  then have "1 \<le> l_currentDrawId (w_lottery sample_drawing)"
    using started_round(2) deployed_books [OF drawing_deployed] by (auto simp: books_def)
  then show ?thesis using tickets_are_unique [OF drawing_deployed, of 1] drawing_facts by simp
qed

section \<open>The result of a round\<close>

text \<open>C11: A round waiting for its random word is decided by that word: its delivery by the provider cannot
  revert, the lucky number is the word modulo ten plus one, the winner is the holder of that ticket,
  and the round has no winner exactly when the ticket was not sold.\<close>

theorem word_decides_round:
  assumes "deployed im T P w" and "exact_token T (im_this im)" and "valid_deployment im"
    and "s_status (l_draws (w_lottery w) i) = DRAWING"
  shows "\<exists>v. transact im T P (im_randomnessProvider im)
      (call_fulfillRandomness (s_requestId (l_draws (w_lottery w) i)) word) w = Inr v \<and>
    s_luckyNumber (l_draws (w_lottery v) i) = word mod 10 + 1 \<and>
    s_winner (l_draws (w_lottery v) i) = l_owners (w_lottery w) i ! (word mod 10) \<and>
    s_status (l_draws (w_lottery v) i) =
      (if l_owners (w_lottery w) i ! (word mod 10) = 0 then NO_WINNER else WINNER_DECLARED)"
  using fulfill_decides [OF assms] by (simp add: transact_def)

theorem word_decides_round_witness:
  "\<exists>v. transact sample_im plain_token counting_provider 77 (call_fulfillRandomness 1 20) sample_drawing = Inr v \<and>
     s_luckyNumber (l_draws (w_lottery v) 1) = 1 \<and> s_winner (l_draws (w_lottery v) 1) = 1"
  using word_decides_round [OF drawing_deployed plain_exact sample_valid drawing_facts(1), of 20]
  by (simp add: drawing_facts del: One_nat_def) (auto simp: sample_im_def)

section \<open>Closing and starting rounds\<close>

text \<open>The numbers of a cancelled round fit into a word: they are part of what the contract owes.\<close>

lemma cancellation_fits:
  assumes "deployed im T P w" and "exact_token T (im_this im)" and "valid_deployment im"
    and "s_status (l_draws (w_lottery w) (l_currentDrawId (w_lottery w))) = ACTIVE" and "1 \<le> l_currentDrawId (w_lottery w)"
    and d: "d = l_draws (w_lottery w) (l_currentDrawId (w_lottery w))"
  shows "s_participantCount d * im_ticketPrice im < 2 ^ 256"
    and "l_outstandingRefunds (w_lottery w) + s_participantCount d * im_ticketPrice im < 2 ^ 256"
    and "l_pendingRollover (w_lottery w) + s_inheritedRollover d < 2 ^ 256"
proof -
  have b: "books im (w_lottery w)" using deployed_books [OF assms(1)] by simp
  obtain x where "liabilities (w_lottery w) = Inr x" using liabilities_covered [OF assms(1-3)] by blast
  moreover have "l_activePool (w_lottery w) = s_pool d" "l_pendingRollover (w_lottery w) = 0"
    using b assms(4,5) d by (auto simp: books_def totals_ok_def Let_def live_def carry_def)
  moreover have "s_pool d = s_inheritedRollover d + s_participantCount d * im_ticketPrice im"
    using b assms(4,5) d rounds_ok_round [of im "w_lottery w" "l_currentDrawId (w_lottery w)"]
    by (simp add: books_def round_ok_def)
  ultimately show "s_participantCount d * im_ticketPrice im < 2 ^ 256"
    "l_outstandingRefunds (w_lottery w) + s_participantCount d * im_ticketPrice im < 2 ^ 256"
    "l_pendingRollover (w_lottery w) + s_inheritedRollover d < 2 ^ 256"
    by (auto simp: liabilities_def andThen_Inr)
qed

text \<open>Whatever the provider calls back, its identifier is still unused when it returns.\<close>

lemma request_succeeds:
  assumes b: "books im (w_lottery w)" and can: "canPerformDraw (w_time w) (w_lottery w) i"
    and enough: "\<not> s_participantCount (l_draws (w_lottery w) i) < im_minimumParticipants im"
    and r: "p_request P (im_this im) (w_provider w) = Some (r, cs, p)" "r \<noteq> 0" "l_requestDraw (w_lottery w) r = 0"
  obtains v where "performDraw_body im P i w = Inr v"
proof -
  let ?d = "l_draws (w_lottery w) i"
  have i: "i = l_currentDrawId (w_lottery w)" "1 \<le> i" "s_status ?d = ACTIVE"
    using can by (auto simp: canPerformDraw_iff)
  define w1 where "w1 = change (\<lambda>s. change_draw i (\<lambda>d. d\<lparr>s_status := DRAWING\<rparr>)
    (s\<lparr>l_activePool := s_pool ?d\<rparr>)) w"
  have w1: "w_lottery w1 = drawing_state i (w_lottery w)"
    by (simp add: w1_def drawing_state_def change_draw_def)
  have "settled_from im (drawing_state i (w_lottery w)) (w_token w1) (w1\<lparr>w_provider := p\<rparr>)"
    using drawing_books(1) [of im "w_lottery w" i] b i w1 by (intro settled_from_refl) auto
  then have "settled_from im (drawing_state i (w_lottery w)) (w_token w1) (reenter im P cs (w1\<lparr>w_provider := p\<rparr>))"
    by (rule books_reentry.reenter_keeps)
  from settled_from_frame [OF this]
  have "l_requestDraw (w_lottery (reenter im P cs (w1\<lparr>w_provider := p\<rparr>))) r = 0"
    using r(3) by (simp add: drawing_state_def change_draw_def)
  moreover have "p_request P (im_this im) (w_provider w1) = Some (r, cs, p)" using r(1) by (simp add: w1_def)
  ultimately show thesis
    using that can enough r(2) by (simp add: performDraw_body_def Let_def w1_def)
qed

text \<open>C29: A round that is full or past its deadline can be closed by anyone: with a provider that hands out an
  unused request identifier the call goes through, and the round is cancelled below the minimum and
  waits for the random word otherwise.\<close>

theorem round_can_be_closed:
  assumes "deployed im T P w" and "exact_token T (im_this im)" and "valid_deployment im"
    and "canPerformDraw (w_time w) (w_lottery w) i"
    and "p_request P (im_this im) (w_provider w) = Some (r, cs, p)" and "r \<noteq> 0"
    and "l_requestDraw (w_lottery w) r = 0"
  shows "\<exists>v. transact im T P a (call_performDraw i) w = Inr v \<and>
    s_status (l_draws (w_lottery v) i) =
      (if s_participantCount (l_draws (w_lottery w) i) < im_minimumParticipants im then CANCELLED else DRAWING)"
proof -
  let ?w = "change (\<lambda>s. s\<lparr>l_entered := True\<rparr>) w"
  have b: "books im (w_lottery ?w)" and u: "\<not> l_entered (w_lottery w)" using deployed_books [OF assms(1)] by auto
  have l: "linked (w_lottery ?w)" using deployed_linked [OF assms(1)] by simp
  have i: "s_status (l_draws (w_lottery w) (l_currentDrawId (w_lottery w))) = ACTIVE"
    "1 \<le> l_currentDrawId (w_lottery w)" "i = l_currentDrawId (w_lottery w)"
    using assms(4) by (auto simp: canPerformDraw_iff)
  have can: "canPerformDraw (w_time ?w) (w_lottery ?w) i" using assms(4) unfolding canPerformDraw_iff by auto
  show ?thesis
  proof (cases "s_participantCount (l_draws (w_lottery w) i) < im_minimumParticipants im")
    case True
    then show ?thesis
      using can u cancellation_fits [OF assms(1-3) i(1,2) refl, folded i(3)]
      by (auto simp: transact_def nonReentrant_def performDraw_body_def Let_def checked_def emit_def)
  next
    case False
    then obtain v where v: "performDraw_body im P i ?w = Inr v"
      using request_succeeds [OF b can, where P = P and r = r and cs = cs and p = p] assms(5-7) by auto
    then have "s_status (l_draws (w_lottery v) i) = DRAWING"
      using perform_linked [OF v b l] False by simp
    then show ?thesis using v u False by (auto simp: transact_def nonReentrant_def)
  qed
qed

theorem round_can_be_closed_witness:
  "\<exists>v. transact sample_im plain_token counting_provider 3 (call_performDraw 1) (sample_due 2) = Inr v"
  using round_can_be_closed [OF due_deployed(2) plain_exact sample_valid due_facts(1), of 1 "[]" "(1, 20)" 3]
    due_facts(2,3)
  by (auto simp: counting_provider_def)

text \<open>Starting a round succeeds only on the round the caller named as the last one; the new round inherits
  exactly the last round's rollover (its whole pool without a winner, what it had inherited if it was
  cancelled, nothing if a winner was declared), and no money is created or lost.\<close>

theorem next_round_inherits:
  assumes "deployed im T P w" and "transact im T P a (call_startDraw n) w = Inr v"
  shows "n = l_currentDrawId (w_lottery w) \<and> l_currentDrawId (w_lottery v) = Suc n \<and>
    s_inheritedRollover (l_draws (w_lottery v) (Suc n)) = carry (l_draws (w_lottery w) n) \<and>
    s_pool (l_draws (w_lottery v) (Suc n)) = carry (l_draws (w_lottery w) n) \<and>
    l_pendingRollover (w_lottery v) = 0 \<and> owed (w_lottery v) = owed (w_lottery w)"
proof -
  let ?w = "change (\<lambda>s. s\<lparr>l_entered := True\<rparr>) w"
  have b: "books im (w_lottery w)" using deployed_books [OF assms(1)] by simp
  obtain u where u: "startDraw_body im n ?w = Inr u" and v: "v = change (\<lambda>s. s\<lparr>l_entered := False\<rparr>) u"
    using assms(2) by (auto simp: transact_def nonReentrant_Inr)
  have "owed (w_lottery v) = owed (w_lottery w)"
    using startDraw_effect [OF u] b by (simp add: v)
  moreover have "l_pendingRollover (w_lottery w) = carry (l_draws (w_lottery w) (l_currentDrawId (w_lottery w)))"
    using b by (simp add: books_def totals_ok_def Let_def)
  ultimately show ?thesis
    using u by (auto simp: v startDraw_body_def Let_def andThen_Inr emit_def split: if_splits)
qed

theorem next_round_inherits_witness:
  "\<exists>v. transact sample_im plain_token counting_provider 1 (call_startDraw 0) sample_start = Inr v \<and>
     s_pool (l_draws (w_lottery v) 1) = 0"
proof -
  obtain v where v: "transact sample_im plain_token counting_provider 1 (call_startDraw 0) sample_start = Inr v"
    by (simp add: contract_run)
  from next_round_inherits [OF sample_deployed v]
  have "s_pool (l_draws (w_lottery v) 1) = 0"
    by (simp add: sample_start_def fresh_lottery_def carry_def zero_draw_def)
  with v show ?thesis by blast
qed

section \<open>Final records\<close>

text \<open>C30: The record of a settled round is final: a completed, cancelled or winnerless round keeps every field
  and its tickets for ever, and of a declared one only the status changes, when the prize is claimed.\<close>

theorem settled_rounds_are_final:
  assumes "deployed im T P w" and "later im T P w v" and "\<not> live (l_draws (w_lottery w) i)"
  shows "(l_draws (w_lottery v) i = l_draws (w_lottery w) i \<or>
      s_status (l_draws (w_lottery w) i) = WINNER_DECLARED \<and>
      l_draws (w_lottery v) i = (l_draws (w_lottery w) i)\<lparr>s_status := COMPLETED\<rparr>) \<and>
    l_owners (w_lottery v) i = l_owners (w_lottery w) i \<and>
    l_ticketOf (w_lottery v) i = l_ticketOf (w_lottery w) i"
  using later_history [OF assms(2,1)] assms(3)
  by (cases "s_status (l_draws (w_lottery w) i)") (auto simp: keeps_history_def kept_record_def live_def)

theorem settled_rounds_are_final_witness:
  "l_owners (w_lottery (wait 5 sample_won)) 1 = l_owners (w_lottery sample_won) 1"
proof -
  have "system_step sample_im plain_token counting_provider sample_won (wait 5 sample_won)"
    using system_step.elsewhere [of plain_token sample_won sample_im "w_token sample_won" "w_time sample_won + 5"
        counting_provider "w_provider sample_won"]
    by (simp add: wait_def)
  then have "later sample_im plain_token counting_provider sample_won (wait 5 sample_won)"
    by (simp add: later_def)
  then show ?thesis
    using settled_rounds_are_final [OF won_deployed] won_facts(1) by (auto simp: live_def)
qed

section \<open>Claims\<close>

text \<open>C31: The winner's payout: the prize and the fee add up to the pool, the fee is five percent of the pool
  without the winner's ticket, rounded down, so the winner gets at least the price of the ticket
  back; this holds before and after the claim.\<close>

theorem winner_gets_principal:
  assumes "deployed im T P w"
    and "s_status (l_draws (w_lottery w) i) = WINNER_DECLARED \<or> s_status (l_draws (w_lottery w) i) = COMPLETED"
  shows "s_winnerPrize (l_draws (w_lottery w) i) + s_daoFee (l_draws (w_lottery w) i) = s_pool (l_draws (w_lottery w) i) \<and>
    20 * s_daoFee (l_draws (w_lottery w) i) \<le> s_pool (l_draws (w_lottery w) i) - im_ticketPrice im \<and>
    s_pool (l_draws (w_lottery w) i) - im_ticketPrice im < 20 * (s_daoFee (l_draws (w_lottery w) i) + 1) \<and>
    im_ticketPrice im \<le> s_winnerPrize (l_draws (w_lottery w) i)"
proof -
  let ?d = "l_draws (w_lottery w) i" let ?os = "l_owners (w_lottery w) i"
  have b: "books im (w_lottery w)" using deployed_books [OF assms(1)] by simp
  then have R: "rounds_ok im (w_lottery w)" by (simp add: books_def)
  have r: "round_ok im i ?d ?os (l_ticketOf (w_lottery w) i) (l_refunded (w_lottery w) i)"
    using rounds_ok_round [OF R] started_round [OF R, of i] assms(2) by auto
  then have res: "1 \<le> s_luckyNumber ?d" "s_luckyNumber ?d \<le> 10" "?os ! (s_luckyNumber ?d - 1) \<noteq> 0"
      "s_daoFee ?d = fee_of im (s_pool ?d)" "s_winnerPrize ?d + s_daoFee ?d = s_pool ?d"
    using assms(2) by (auto simp: round_ok_def result_ok_def)
  have "\<not> s_participantCount ?d \<le> s_luckyNumber ?d - 1"
    using r res(1-3) by (auto simp: round_ok_def tickets_ok_def)
  then have "1 * im_ticketPrice im \<le> s_participantCount ?d * im_ticketPrice im"
    by (intro mult_le_mono1) simp
  also have "\<dots> \<le> s_pool ?d" using r by (simp add: round_ok_def)
  finally have pl: "im_ticketPrice im \<le> s_pool ?d" by simp
  have fee: "s_daoFee ?d = (s_pool ?d - im_ticketPrice im) div 20"
    using res(4) div_mult_mult1 [of 500 "s_pool ?d - im_ticketPrice im" 20]
    by (simp add: fee_of_def mult.commute)
  have "20 * s_daoFee ?d \<le> s_pool ?d - im_ticketPrice im"
    "s_pool ?d - im_ticketPrice im < 20 * (s_daoFee ?d + 1)"
    using dividend_less_times_div [of 20 "s_pool ?d - im_ticketPrice im"] by (simp_all add: fee)
  moreover from this(1) have "im_ticketPrice im \<le> s_winnerPrize ?d" using res(5) pl by linarith
  ultimately show ?thesis using res(5) by blast
qed

theorem winner_gets_principal_witness:
  "10 \<le> s_winnerPrize (l_draws (w_lottery sample_won) 1)"
  using winner_gets_principal [OF won_deployed, of 1] won_facts(1) by (simp add: sample_im_def)

text \<open>The transfer of the fee, where there is one, goes through and leaves the token as the token says.\<close>

lemma fee_is_sent:
  assumes b: "books im (w_lottery w)"
    and t: "if n = 0 then t1 = w_token w else t_transfer T (im_this im) a n (w_token w) = Some (cs1, t1)"
  obtains v where "(if n \<noteq> 0 then call_token im P (t_transfer T (im_this im) a n) w else Inr w) = Inr v" "w_token v = t1"
proof (cases "n = 0")
  case False
  then have c: "call_token im P (t_transfer T (im_this im) a n) w = Inr (reenter im P cs1 (w\<lparr>w_token := t1\<rparr>))"
    using t by (simp add: call_token_def)
  obtain cs t' where "t_transfer T (im_this im) a n (w_token w) = Some (cs, t')"
      "settled_from im (w_lottery w) t' (reenter im P cs1 (w\<lparr>w_token := t1\<rparr>))"
    using call_token_settled [OF c b] by blast
  then have "w_token (reenter im P cs1 (w\<lparr>w_token := t1\<rparr>)) = t1"
    using settled_from_token False t by fastforce
  then show thesis using that False c by simp
qed (use t that in simp)

text \<open>The claim of a declared prize.\<close>

lemma prize_goes_through:
  assumes "deployed im T P w" and "exact_token T (im_this im)" and "valid_deployment im"
    and "d = l_draws (w_lottery w) i" and "s_status d = WINNER_DECLARED"
    and "if s_daoFee d = 0 then t1 = w_token w
         else t_transfer T (im_this im) (im_dao im) (s_daoFee d) (w_token w) = Some (cs1, t1)"
    and "t_transfer T (im_this im) (s_winner d) (s_winnerPrize d) t1 = Some (cs2, t2)"
  shows "s_daoFee d + s_winnerPrize d \<le> t_balanceOf T (w_token w) (im_this im)"
    and "\<exists>v. transact im T P (s_winner d) (call_claimPrize i) w = Inr v \<and> w_token v = t2 \<and>
      s_status (l_draws (w_lottery v) i) = COMPLETED"
proof -
  let ?s = "w_lottery w" let ?w = "change (\<lambda>s. s\<lparr>l_entered := True\<rparr>) w"
  have b: "books im ?s" and u: "\<not> l_entered ?s" using deployed_books [OF assms(1)] by auto
  have D: "s_status (l_draws ?s i) = WINNER_DECLARED" using assms(4,5) by simp
  have f: "owed ?s \<le> t_balanceOf T (w_token w) (im_this im)"
    using deployed_funded [OF assms(1,2)] assms(3) by (simp add: funded_def valid_deployment_def)
  have pl: "s_pool d \<le> l_outstandingPrizes ?s" using prize_in_books [OF b D] assms(4) by simp
  have split: "s_winnerPrize d + s_daoFee d = s_pool d" using winner_split(1) [OF b D] assms(4) by simp
  show "s_daoFee d + s_winnerPrize d \<le> t_balanceOf T (w_token w) (im_this im)"
    using f pl split by (simp add: owed_def)
  define w1 where "w1 = change (completed i) ?w"
  have "books im (w_lottery w1)"
    using completed_books(1) [of im "w_lottery ?w" i] b D by (simp add: w1_def)
  moreover have "if s_daoFee d = 0 then t1 = w_token w1
      else t_transfer T (im_this im) (im_dao im) (s_daoFee d) (w_token w1) = Some (cs1, t1)"
    using assms(6) by (simp add: w1_def)
  ultimately obtain w2 where w2: "(if s_daoFee d \<noteq> 0
      then call_token im P (t_transfer T (im_this im) (im_dao im) (s_daoFee d)) w1 else Inr w1) = Inr w2"
    "w_token w2 = t1" by (rule fee_is_sent)
  define v where "v = change (emit (PrizeClaimed i (s_winner d) (s_winnerPrize d) (im_dao im) (s_daoFee d)))
    (reenter im P cs2 (w2\<lparr>w_token := t2\<rparr>))"
  have dw: "l_draws (w_lottery ?w) i = d" "l_outstandingPrizes (w_lottery ?w) = l_outstandingPrizes ?s"
    using assms(4) by simp_all
  note eq = claimPrize_eq [of ?w i "s_winner d" im T P, unfolded dw, folded w1_def, OF assms(5) refl pl]
  have "call_token im P (t_transfer T (im_this im) (s_winner d) (s_winnerPrize d)) w2 =
      Inr (reenter im P cs2 (w2\<lparr>w_token := t2\<rparr>))"
    using assms(7) w2(2) by (simp add: call_token_def)
  then have body: "claimPrize_body im T P (s_winner d) i ?w = Inr v"
    unfolding eq w2(1) andThen_simps by (simp add: v_def)
  have b': "books im (w_lottery ?w)" using b by simp
  have "w_token v = t2"
    by (rule claimPrize_effect [OF body b']) (use assms(4-7) in \<open>auto split: if_splits\<close>)
  then show "\<exists>v. transact im T P (s_winner d) (call_claimPrize i) w = Inr v \<and> w_token v = t2 \<and>
      s_status (l_draws (w_lottery v) i) = COMPLETED"
    using body u claimPrize_history [OF body b'] by (auto simp: transact_def nonReentrant_def)
qed

text \<open>C32: A declared prize can always be claimed by the winner: the contract holds the prize and the fee, and if
  the token carries out the transfers the claim goes through, pays exactly these two amounts and
  completes the round.\<close>

theorem winner_is_paid:
  assumes "deployed im T P w" and "exact_token T (im_this im)" and "valid_deployment im"
    and "d = l_draws (w_lottery w) i" and "s_status d = WINNER_DECLARED"
    and "if s_daoFee d = 0 then t1 = w_token w
         else t_transfer T (im_this im) (im_dao im) (s_daoFee d) (w_token w) = Some (cs1, t1)"
    and "t_transfer T (im_this im) (s_winner d) (s_winnerPrize d) t1 = Some (cs2, t2)"
  shows "s_daoFee d + s_winnerPrize d \<le> t_balanceOf T (w_token w) (im_this im) \<and>
    (\<exists>v. transact im T P (s_winner d) (call_claimPrize i) w = Inr v \<and> w_token v = t2 \<and>
      s_status (l_draws (w_lottery v) i) = COMPLETED)"
  using prize_goes_through [OF assms] by blast

theorem winner_is_paid_witness:
  "\<exists>v. transact sample_im plain_token counting_provider 1 (call_claimPrize 1) sample_won = Inr v \<and>
     w_token v 1 = 110"
proof -
  let ?d = "l_draws (w_lottery sample_won) 1"
  let ?t = "(w_token sample_won)(50 := 0, 1 := 110)"
  have fee: "if s_daoFee ?d = 0 then w_token sample_won = w_token sample_won
      else t_transfer plain_token (im_this sample_im) (im_dao sample_im) (s_daoFee ?d) (w_token sample_won) =
        Some ([], w_token sample_won)"
    by (simp only: won_facts if_True refl)
  have prize: "t_transfer plain_token (im_this sample_im) (s_winner ?d) (s_winnerPrize ?d) (w_token sample_won) = Some ([], ?t)"
    unfolding won_facts by (simp add: plain_token_def sample_im_def)
  obtain v where "transact sample_im plain_token counting_provider (s_winner ?d) (call_claimPrize 1) sample_won = Inr v"
      "w_token v = ?t"
    using winner_is_paid [OF won_deployed plain_exact sample_valid refl won_facts(1) fee prize] by blast
  then show ?thesis unfolding won_facts(2) by (intro exI [of _ v]) simp
qed

text \<open>A prize is paid at most once: after a successful claim every further claim of that round, by anyone, at
  any later time, reverts as not claimable.\<close>

theorem prize_claimed_once:
  assumes "deployed im T P w" and "a \<noteq> 0" and "a \<noteq> im_this im"
    and "transact im T P a (call_claimPrize i) w = Inr v" and "later im T P v u"
  shows "transact im T P b (call_claimPrize i) u = Inl NotClaimable"
proof -
  have v: "deployed im T P v" using assms(1-4) by (blast intro: deployed.next_step system_step.transaction)
  have u: "deployed im T P u" using deployed_later [OF assms(5) v] .
  obtain v' where "claimPrize_body im T P a i (change (\<lambda>s. s\<lparr>l_entered := True\<rparr>) w) = Inr v'"
      and "v = change (\<lambda>s. s\<lparr>l_entered := False\<rparr>) v'"
    using assms(4) by (auto simp: transact_def nonReentrant_Inr)
  then have "s_status (l_draws (w_lottery v) i) = COMPLETED"
    using claimPrize_history deployed_books [OF assms(1)] by fastforce
  then have "l_draws (w_lottery u) i = l_draws (w_lottery v) i"
    using later_history [OF assms(5) v] by (simp add: keeps_history_def kept_record_def)
  then show ?thesis
    using \<open>s_status (l_draws (w_lottery v) i) = COMPLETED\<close> deployed_books [OF u]
    by (simp add: transact_def nonReentrant_def claimPrize_body_def)
qed

theorem prize_claimed_once_witness:
  "\<exists>v. transact sample_im plain_token counting_provider 1 (call_claimPrize 1) sample_won = Inr v \<and>
     transact sample_im plain_token counting_provider 1 (call_claimPrize 1) v = Inl NotClaimable"
proof -
  obtain v where v: "transact sample_im plain_token counting_provider 1 (call_claimPrize 1) sample_won = Inr v"
    by (simp add: sample_won_def sample_drawing_def sample_due_def contract_run upt_rec slots)
  then show ?thesis
    using prize_claimed_once [OF won_deployed _ _ v, of v 1]
    by (auto simp: later_def) (auto simp: sample_im_def)
qed

text \<open>Every ticket of a cancelled round is refundable: the contract holds the money, and if the token carries
  out the transfer the holder gets exactly the ticket price back.\<close>

theorem ticket_is_refunded:
  assumes "deployed im T P w" and "exact_token T (im_this im)" and "valid_deployment im"
    and "s_status (l_draws (w_lottery w) i) = CANCELLED" and "l_ticketOf (w_lottery w) i a \<noteq> 0"
    and "\<not> l_refunded (w_lottery w) i a"
    and "t_transfer T (im_this im) a (im_ticketPrice im) (w_token w) = Some (cs, t)"
  shows "im_ticketPrice im \<le> t_balanceOf T (w_token w) (im_this im) \<and>
    (\<exists>v. transact im T P a (call_claimRefund i) w = Inr v \<and> w_token v = t \<and> l_refunded (w_lottery v) i a)"
proof
  let ?s = "w_lottery w" let ?w = "change (\<lambda>s. s\<lparr>l_entered := True\<rparr>) w"
  have b: "books im ?s" and u: "\<not> l_entered ?s" using deployed_books [OF assms(1)] by auto
  have f: "owed ?s \<le> t_balanceOf T (w_token w) (im_this im)"
    using deployed_funded [OF assms(1,2)] assms(3) by (simp add: funded_def valid_deployment_def)
  have le: "im_ticketPrice im \<le> l_outstandingRefunds ?s" using refund_in_books(1) [OF b assms(4-6)] .
  then show "im_ticketPrice im \<le> t_balanceOf T (w_token w) (im_this im)" using f by (simp add: owed_def)
  obtain v where body: "claimRefund_body im T P a i ?w = Inr v"
    using assms(4-7) le by (simp add: claimRefund_body_def Let_def checked_sub_def call_token_def)
  have b': "books im (w_lottery ?w)" using b by simp
  have "w_token v = t" by (rule claimRefund_effect [OF body b']) (use assms(7) in auto)
  then show "\<exists>v. transact im T P a (call_claimRefund i) w = Inr v \<and> w_token v = t \<and> l_refunded (w_lottery v) i a"
    using body u claimRefund_history [OF body b'] by (auto simp: transact_def nonReentrant_def)
qed

theorem ticket_is_refunded_witness:
  "\<exists>v. transact sample_im plain_token counting_provider 1 (call_claimRefund 1) sample_cancelled = Inr v \<and>
     w_token v 1 = 100"
proof -
  let ?t = "(w_token sample_cancelled)(50 := 0, 1 := 100)"
  have t: "t_transfer plain_token (im_this sample_im) 1 (im_ticketPrice sample_im) (w_token sample_cancelled) = Some ([], ?t)"
    unfolding cancelled_facts by (simp add: plain_token_def sample_im_def)
  have h: "l_ticketOf (w_lottery sample_cancelled) 1 1 \<noteq> 0" unfolding cancelled_facts by simp
  obtain v where "transact sample_im plain_token counting_provider 1 (call_claimRefund 1) sample_cancelled = Inr v"
      "w_token v = ?t"
    using ticket_is_refunded [OF cancelled_deployed plain_exact sample_valid cancelled_facts(1) h cancelled_facts(3) t]
    by blast
  then show ?thesis by (intro exI [of _ v]) simp
qed

text \<open>A refund is paid at most once per wallet and round, at any later time.\<close>

theorem refund_claimed_once:
  assumes "deployed im T P w" and "a \<noteq> 0" and "a \<noteq> im_this im"
    and "transact im T P a (call_claimRefund i) w = Inr v" and "later im T P v u"
  shows "transact im T P a (call_claimRefund i) u = Inl NotClaimable"
proof -
  have v: "deployed im T P v" using assms(1-4) by (blast intro: deployed.next_step system_step.transaction)
  have u: "deployed im T P u" using deployed_later [OF assms(5) v] .
  obtain v' where "claimRefund_body im T P a i (change (\<lambda>s. s\<lparr>l_entered := True\<rparr>) w) = Inr v'"
      and "v = change (\<lambda>s. s\<lparr>l_entered := False\<rparr>) v'"
    using assms(4) by (auto simp: transact_def nonReentrant_Inr)
  then have "l_refunded (w_lottery v) i a"
    using claimRefund_history deployed_books [OF assms(1)] by fastforce
  then have "l_refunded (w_lottery u) i a"
    using later_history [OF assms(5) v] by (simp add: keeps_history_def)
  then show ?thesis
    using deployed_books [OF u] by (simp add: transact_def nonReentrant_def claimRefund_body_def)
qed

theorem refund_claimed_once_witness:
  "\<exists>v. transact sample_im plain_token counting_provider 1 (call_claimRefund 1) sample_cancelled = Inr v \<and>
     transact sample_im plain_token counting_provider 1 (call_claimRefund 1) v = Inl NotClaimable"
proof -
  obtain v where v: "transact sample_im plain_token counting_provider 1 (call_claimRefund 1) sample_cancelled = Inr v"
    by (simp add: sample_cancelled_def sample_due_def contract_run upt_rec slots)
  then show ?thesis
    using refund_claimed_once [OF cancelled_deployed _ _ v, of v]
    by (auto simp: later_def) (auto simp: sample_im_def)
qed

end
