(* ===== verification/Acceptance.thy ===== *)
theory Acceptance
  imports ContractProps
begin

text \<open>
  When the contract takes a call: for each external function, the condition on the contract's state and on
  the token and the provider under which the call goes through. The token and the provider are asked
  exactly what the code asks of them.
\<close>

section \<open>What the others have to do\<close>

text \<open>The token carries out the payment of a ticket and adds exactly the price to the contract's balance.\<close>

definition takes_payment :: "immutables \<Rightarrow> 't token \<Rightarrow> addr \<Rightarrow> ('t, 'p) world \<Rightarrow> bool" where
  "takes_payment im T a w \<longleftrightarrow>
     (case t_transferFrom T (im_this im) a (im_this im) (im_ticketPrice im) (w_token w) of
        None \<Rightarrow> False
      | Some (cs, t) \<Rightarrow>
          t_balanceOf T t (im_this im) = t_balanceOf T (w_token w) (im_this im) + im_ticketPrice im)"

text \<open>The provider takes the request and hands out an identifier it has not handed out before.\<close>

definition grants_request :: "immutables \<Rightarrow> 'p provider \<Rightarrow> ('t, 'p) world \<Rightarrow> bool" where
  "grants_request im P w \<longleftrightarrow>
     (case p_request P (im_this im) (w_provider w) of
        None \<Rightarrow> False
      | Some (r, cs, p) \<Rightarrow> r \<noteq> 0 \<and> l_requestDraw (w_lottery w) r = 0)"

text \<open>The token carries out the transfers of the fee, if there is one, and of the prize.\<close>

definition pays_prize :: "immutables \<Rightarrow> 't token \<Rightarrow> addr SolDraw \<Rightarrow> 't \<Rightarrow> bool" where
  "pays_prize im T d t \<longleftrightarrow>
     (case (if s_daoFee d = 0 then Some ([], t) else t_transfer T (im_this im) (im_dao im) (s_daoFee d) t) of
        None \<Rightarrow> False
      | Some (cs, t1) \<Rightarrow> t_transfer T (im_this im) (s_winner d) (s_winnerPrize d) t1 \<noteq> None)"

section \<open>Entry and closing\<close>

definition enters :: "('t, 'p) world \<Rightarrow> addr \<Rightarrow> nat \<Rightarrow> bool" where
  "enters w a i \<longleftrightarrow>
     (let s = w_lottery w; d = l_draws s i in
       i \<noteq> 0 \<and> i = l_currentDrawId s \<and> s_status d = ACTIVE \<and> w_time w < s_deadline d \<and>
       s_participantCount d < MAX_PARTICIPANTS \<and> l_ticketOf s i a = 0)"

lemma nonReentrant_taken:
  "\<not> l_entered (w_lottery w) \<Longrightarrow>
     (\<exists>v. nonReentrant f w = Inr v) \<longleftrightarrow> (\<exists>v. f (change (\<lambda>s. s\<lparr>l_entered := True\<rparr>) w) = Inr v)"
  by (auto simp: nonReentrant_Inr)

text \<open>The sums of a purchase fit, because they are covered by the contract's balance.\<close>

lemma purchase_goes_through:
  assumes b: "books im (w_lottery w)" and f: "owed (w_lottery w) \<le> t_balanceOf T (w_token w) (im_this im)"
    and T: "exact_token T (im_this im)" and e: "enters w a i" and p: "takes_payment im T a w"
  obtains v where "buyTicket_body im T P a i w = Inr v"
proof -
  let ?s = "w_lottery w" and ?self = "im_this im" and ?price = "im_ticketPrice im"
  have g: "i \<noteq> 0" "i = l_currentDrawId ?s" "s_status (l_draws ?s i) = ACTIVE" "w_time w < s_deadline (l_draws ?s i)"
    "s_participantCount (l_draws ?s i) < MAX_PARTICIPANTS" "l_ticketOf ?s i a = 0"
    using e unfolding enters_def Let_def by blast+
  obtain cs t where t: "t_transferFrom T ?self a ?self ?price (w_token w) = Some (cs, t)"
    and bal: "t_balanceOf T t ?self = t_balanceOf T (w_token w) ?self + ?price"
    using p by (auto simp: takes_payment_def split: option.splits)
  define u where "u = reenter im P cs (w\<lparr>w_token := t\<rparr>)"
  have c: "call_token im P (t_transferFrom T ?self a ?self ?price) w = Inr u" by (simp add: call_token_def t u_def)
  obtain cs' t' where "t_transferFrom T ?self a ?self ?price (w_token w) = Some (cs', t')" and "settled_from im ?s t' u"
    using call_token_settled [OF c b] .
  then have u: "settled_from im ?s t u" using t by simp
  have small: "t_balanceOf T (w_token w) ?self + ?price < 2 ^ 256"
    using T bal unfolding exact_token_def by metis
  have d: "l_draws (w_lottery u) i = l_draws ?s i" using settled_from_draw [OF u, of i] g(3) by simp
  have "l_activePool ?s = s_pool (l_draws ?s i)"
    using b g(1-3) by (auto simp: books_def totals_ok_def Let_def live_def)
  then have "s_pool (l_draws (w_lottery u) i) + ?price < 2 ^ 256" using f small by (simp add: d owed_def)
  moreover have "l_activePool (w_lottery u) + ?price < 2 ^ 256"
    using settled_from_owed [OF u] f small by (simp add: owed_def)
  moreover have "Suc (s_participantCount (l_draws (w_lottery u) i)) < 2 ^ 8"
    using g(5) by (simp add: d MAX_PARTICIPANTS_def)
  ultimately show thesis
    using g that small bal settled_from_token [OF u]
    by (auto simp: buyTicket_body_def Let_def c checked_def)
qed

lemma buy_taken:
  assumes "deployed im T P w" and "exact_token T (im_this im)" and "valid_deployment im" and "a \<noteq> 0"
  shows "(\<exists>v. transact im T P a (call_buyTicket i) w = Inr v) \<longleftrightarrow> enters w a i \<and> takes_payment im T a w"
proof -
  let ?w = "change (\<lambda>s. s\<lparr>l_entered := True\<rparr>) w"
  have b: "books im (w_lottery ?w)" and u: "\<not> l_entered (w_lottery w)" using deployed_books [OF assms(1)] by auto
  have f: "owed (w_lottery ?w) \<le> t_balanceOf T (w_token ?w) (im_this im)"
    using deployed_funded [OF assms(1,2)] assms(3) by (simp add: funded_def valid_deployment_def)
  have same: "enters ?w a i = enters w a i" "takes_payment im T a ?w = takes_payment im T a w"
    by (auto simp: enters_def takes_payment_def Let_def split: option.split)
  have "(\<exists>v. buyTicket_body im T P a i ?w = Inr v) \<longleftrightarrow> enters ?w a i \<and> takes_payment im T a ?w"
  proof
    assume "\<exists>v. buyTicket_body im T P a i ?w = Inr v"
    then obtain v where v: "buyTicket_body im T P a i ?w = Inr v" by blast
    show "enters ?w a i \<and> takes_payment im T a ?w"
      by (rule buyTicket_effect [OF v b assms(4)]) (auto simp: enters_def takes_payment_def Let_def)
  next
    assume "enters ?w a i \<and> takes_payment im T a ?w"
    then show "\<exists>v. buyTicket_body im T P a i ?w = Inr v"
      using purchase_goes_through [OF b f assms(2)] by metis
  qed
  then show ?thesis using u by (simp add: transact_def nonReentrant_taken same)
qed

lemma perform_taken:
  assumes "deployed im T P w" and "exact_token T (im_this im)" and "valid_deployment im"
  shows "(\<exists>v. transact im T P a (call_performDraw i) w = Inr v) \<longleftrightarrow>
    canPerformDraw (w_time w) (w_lottery w) i \<and>
    (s_participantCount (l_draws (w_lottery w) i) < im_minimumParticipants im \<or> grants_request im P w)"
proof -
  let ?w = "change (\<lambda>s. s\<lparr>l_entered := True\<rparr>) w"
  have b: "books im (w_lottery ?w)" and u: "\<not> l_entered (w_lottery w)" using deployed_books [OF assms(1)] by auto
  have same: "canPerformDraw (w_time ?w) (w_lottery ?w) i = canPerformDraw (w_time w) (w_lottery w) i"
    "grants_request im P ?w = grants_request im P w"
    by (auto simp: canPerformDraw_iff grants_request_def split: option.split)
  have "(\<exists>v. performDraw_body im P i ?w = Inr v) \<longleftrightarrow> canPerformDraw (w_time ?w) (w_lottery ?w) i \<and>
    (s_participantCount (l_draws (w_lottery ?w) i) < im_minimumParticipants im \<or> grants_request im P ?w)"
  proof
    assume "\<exists>v. performDraw_body im P i ?w = Inr v"
    then obtain v where v: "performDraw_body im P i ?w = Inr v" by blast
    from v b show "canPerformDraw (w_time ?w) (w_lottery ?w) i \<and>
      (s_participantCount (l_draws (w_lottery ?w) i) < im_minimumParticipants im \<or> grants_request im P ?w)"
    proof (cases rule: performDraw_effect)
      case (requested r cs p u)
      then show ?thesis
        using settled_from_frame [OF requested(6)] by (auto simp: grants_request_def drawing_state_def change_draw_def)
    qed simp
  next
    assume e: "canPerformDraw (w_time ?w) (w_lottery ?w) i \<and>
      (s_participantCount (l_draws (w_lottery ?w) i) < im_minimumParticipants im \<or> grants_request im P ?w)"
    then have i: "s_status (l_draws (w_lottery w) (l_currentDrawId (w_lottery w))) = ACTIVE"
      "1 \<le> l_currentDrawId (w_lottery w)" "i = l_currentDrawId (w_lottery w)"
      by (auto simp: canPerformDraw_iff)
    show "\<exists>v. performDraw_body im P i ?w = Inr v"
    proof (cases "s_participantCount (l_draws (w_lottery ?w) i) < im_minimumParticipants im")
      case True
      then show ?thesis
        using e cancellation_fits [OF assms i(1,2) refl, folded i(3)]
        by (auto simp: performDraw_body_def Let_def checked_def emit_def)
    next
      case False
      then obtain r cs p where "p_request P (im_this im) (w_provider ?w) = Some (r, cs, p)" "r \<noteq> 0"
        "l_requestDraw (w_lottery ?w) r = 0" using e by (auto simp: grants_request_def split: option.splits)
      then show ?thesis using request_succeeds [OF b _ False] e by metis
    qed
  qed
  then show ?thesis using u by (simp add: transact_def nonReentrant_taken same canPerformDraw_iff)
qed

section \<open>After a round\<close>

lemma prize_taken:
  assumes "deployed im T P w" and "exact_token T (im_this im)" and "valid_deployment im"
  shows "(\<exists>v. transact im T P a (call_claimPrize i) w = Inr v) \<longleftrightarrow>
    s_status (l_draws (w_lottery w) i) = WINNER_DECLARED \<and> s_winner (l_draws (w_lottery w) i) = a \<and>
    pays_prize im T (l_draws (w_lottery w) i) (w_token w)"
proof -
  let ?w = "change (\<lambda>s. s\<lparr>l_entered := True\<rparr>) w" and ?d = "l_draws (w_lottery w) i"
  have b: "books im (w_lottery ?w)" and u: "\<not> l_entered (w_lottery w)" using deployed_books [OF assms(1)] by auto
  have d: "l_draws (w_lottery ?w) i = ?d" "w_token ?w = w_token w" by simp_all
  show ?thesis
  proof
    assume "\<exists>v. transact im T P a (call_claimPrize i) w = Inr v"
    then obtain v where v: "claimPrize_body im T P a i ?w = Inr v" using u by (auto simp: transact_def nonReentrant_taken)
    show "s_status ?d = WINNER_DECLARED \<and> s_winner ?d = a \<and> pays_prize im T ?d (w_token w)"
      by (rule claimPrize_effect [OF v b, unfolded d]) (auto simp: pays_prize_def split: if_splits)
  next
    assume c: "s_status ?d = WINNER_DECLARED \<and> s_winner ?d = a \<and> pays_prize im T ?d (w_token w)"
    then obtain cs1 t1 cs2 t2 where "if s_daoFee ?d = 0 then t1 = w_token w
        else t_transfer T (im_this im) (im_dao im) (s_daoFee ?d) (w_token w) = Some (cs1, t1)"
      "t_transfer T (im_this im) (s_winner ?d) (s_winnerPrize ?d) t1 = Some (cs2, t2)"
      by (auto simp: pays_prize_def split: if_splits option.splits)
    from prize_goes_through [OF assms refl _ this] c
    show "\<exists>v. transact im T P a (call_claimPrize i) w = Inr v" by blast
  qed
qed

lemma refund_taken_iff:
  assumes "deployed im T P w"
  shows "(\<exists>v. transact im T P a (call_claimRefund i) w = Inr v) \<longleftrightarrow>
    s_status (l_draws (w_lottery w) i) = CANCELLED \<and> l_ticketOf (w_lottery w) i a \<noteq> 0 \<and> \<not> l_refunded (w_lottery w) i a \<and>
    t_transfer T (im_this im) a (im_ticketPrice im) (w_token w) \<noteq> None"
proof -
  let ?s = "w_lottery w" and ?w = "change (\<lambda>s. s\<lparr>l_entered := True\<rparr>) w"
  have b: "books im ?s" and u: "\<not> l_entered ?s" using deployed_books [OF assms(1)] by auto
  have le: "im_ticketPrice im \<le> l_outstandingRefunds ?s"
    if "s_status (l_draws ?s i) = CANCELLED" "l_ticketOf ?s i a \<noteq> 0" "\<not> l_refunded ?s i a"
    using refund_in_books(1) [OF b that] .
  show ?thesis
    using u le
    by (auto simp: transact_def nonReentrant_taken claimRefund_body_def Let_def checked_sub_def call_token_def andThen_Inr
        split: option.splits if_splits)
qed

text \<open>The word a provider delivers is always accepted; only the provider itself can refuse.\<close>

lemma fulfill_succeeds:
  assumes "deployed im T P w" and "exact_token T (im_this im)" and "valid_deployment im"
  obtains v where "fulfillRandomness im (im_randomnessProvider im) r word w = Inr v"
proof -
  let ?s = "w_lottery w"
  consider "l_requestDraw ?s r = 0 \<or> s_status (l_draws ?s (l_requestDraw ?s r)) \<noteq> DRAWING"
    | "l_requestDraw ?s r \<noteq> 0" "s_status (l_draws ?s (l_requestDraw ?s r)) = DRAWING" by blast
  then show thesis
  proof cases
    case 2
    then have "s_requestId (l_draws ?s (l_requestDraw ?s r)) = r"
      using deployed_linked [OF assms(1)] by (auto simp: linked_def)
    then show thesis using fulfill_decides [OF assms 2(2), of word] that by auto
  qed (use that in \<open>auto simp: fulfillRandomness_def Let_def\<close>)
qed

lemma delivery_taken:
  assumes "deployed im T P w" and "exact_token T (im_this im)" and "valid_deployment im"
  shows "(\<exists>v. transact im T P a (call_finalizeDraw i) w = Inr v) \<longleftrightarrow>
    i \<noteq> 0 \<and> s_status (l_draws (w_lottery w) i) = DRAWING \<and>
    p_deliver P (s_requestId (l_draws (w_lottery w) i)) (w_provider w) \<noteq> None"
proof -
  have "\<exists>v. fulfillRandomness im (im_randomnessProvider im) r word (w\<lparr>w_provider := p\<rparr>) = Inr v" for r word p
  proof -
    have "deployed im T P (w\<lparr>w_provider := p\<rparr>)"
      using deployed.next_step [OF assms(1) system_step.elsewhere [of T w im "w_token w" "w_time w" P p]] by simp
    then show ?thesis using fulfill_succeeds [OF _ assms(2,3)] by metis
  qed
  then show ?thesis by (auto simp: transact_def finalizeDraw_def Let_def split: option.splits)
qed

lemma start_taken:
  assumes "deployed im T P w" and "l_currentDrawId (w_lottery w) + 1 < 2 ^ 256" and "w_time w + DURATION < 2 ^ 256"
  shows "(\<exists>v. transact im T P a (call_startDraw i) w = Inr v) \<longleftrightarrow>
    i = l_currentDrawId (w_lottery w) \<and> (i = 0 \<or> \<not> live (l_draws (w_lottery w) i))"
  using assms(2,3) deployed_books [OF assms(1)]
  by (cases "s_status (l_draws (w_lottery w) i)")
     (auto simp: transact_def nonReentrant_taken startDraw_body_def canStartDraw_def checked_def Let_def live_def)

end
