(* ===== verification/Agreement.thy ===== *)
theory Agreement
  imports Buttons Acceptance
begin

text \<open>
  The client and the contract agree: what \<^verbatim>\<open>chainDraw\<close> reads from a node is the round the contract
  holds, and the page offers a transaction exactly when the contract would accept it from the
  account shown.
\<close>

section \<open>Addresses as text\<close>

text \<open>
  The library shows an address as hexadecimal text of mixed case. \<open>sa\<close> is that text and \<open>un\<close> reads it;
  two addresses never differ in case only, and the zero address is ethers' constant.
\<close>

definition address_text :: "(addr \<Rightarrow> string) \<Rightarrow> (string \<Rightarrow> addr) \<Rightarrow> bool" where
  "address_text sa un \<longleftrightarrow>
     sa 0 = ZeroAddress \<and> (\<forall>a. sa a \<noteq> [] \<and> un (sa a) = a) \<and>
     (\<forall>a b. same_address (sa a) (sa b) \<longrightarrow> a = b)"

lemma address_text_simps [simp]:
  assumes "address_text sa un"
  shows "sa a \<noteq> []" "un (sa a) = a" "same_address (sa a) (sa b) \<longleftrightarrow> a = b"
    "sa a = ZeroAddress \<longleftrightarrow> a = 0" "sa a = sa b \<longleftrightarrow> a = b"
  using assms unfolding address_text_def by metis+

text \<open>One such text: forty lower-case digits.\<close>

definition plain_text :: "addr \<Rightarrow> string" where
  "plain_text a = ''0x'' @ padStart 40 (CHR ''0'') (show_nat 16 a)"

definition plain_address :: "string \<Rightarrow> addr" where
  "plain_address t = the (read_nat 16 (drop 2 t))"

lemma lower_digit: "d < 16 \<Longrightarrow> lower_char (digit_char d) = digit_char d"
  by (auto simp: lower_char_def digit_char_def of_char_of Let_def)

lemma lower_plain: "toLowerCase (plain_text a) = plain_text a"
proof -
  have "lower_char c = c" if "c \<in> set (show_nat 16 a)" for c
    by (rule show_nat_chars [OF _ _ that]) (simp_all add: lower_digit)
  then have "map lower_char (show_nat 16 a) = show_nat 16 a" by (intro map_idI) auto
  then show ?thesis
    by (simp add: toLowerCase_def plain_text_def padStart_def) (simp add: lower_char_def)
qed

lemma plain_address_text: "address_text plain_text plain_address"
proof -
  have r: "plain_address (plain_text a) = a" for a
    by (simp add: plain_address_def plain_text_def read_nat_def padStart_def read_acc_zeros read_acc_show_nat)
  have "a = b" if "same_address (plain_text a) (plain_text b)" for a b
    using that by (metis lower_plain r)
  moreover have "plain_text 0 = ZeroAddress"
  proof -
    have "show_nat 16 0 = ''0''" by (simp add: show_nat_def digits.simps [of 16 0] sample_digits)
    then show ?thesis
      by (simp add: plain_text_def ZeroAddress_def padStart_def) (simp add: numeral_eq_Suc)
  qed
  ultimately show ?thesis using r by (simp add: address_text_def plain_text_def)
qed

section \<open>A node holding the contract\<close>

definition text_draw :: "(addr \<Rightarrow> string) \<Rightarrow> addr SolDraw \<Rightarrow> string SolDraw" where
  "text_draw sa d =
     \<lparr>s_id = s_id d, s_status = s_status d, s_startTime = s_startTime d, s_deadline = s_deadline d,
      s_finalizedAt = s_finalizedAt d, s_participantCount = s_participantCount d,
      s_luckyNumber = s_luckyNumber d, s_winner = sa (s_winner d),
      s_inheritedRollover = s_inheritedRollover d, s_pool = s_pool d, s_daoFee = s_daoFee d,
      s_winnerPrize = s_winnerPrize d, s_requestId = s_requestId d\<rparr>"

definition id_of :: "string \<Rightarrow> nat" where
  "id_of i = (case parse_bigint i of None \<Rightarrow> 0 | Some n \<Rightarrow> nat n)"

definition revert :: "error \<Rightarrow> jserr" where
  "revert e = (new_Error ''execution reverted'')\<lparr>e_code := StrCode ''CALL_EXCEPTION''\<rparr>"

text \<open>The answer to a read in the state \<open>w\<close> of the chain.\<close>

fun answer_view ::
  "(addr \<Rightarrow> string) \<Rightarrow> (string \<Rightarrow> addr) \<Rightarrow> immutables \<Rightarrow> 't token \<Rightarrow> ('t, 'p) world \<Rightarrow> view_call \<Rightarrow> resp" where
  "answer_view sa un im T w currentDrawId = RNat (l_currentDrawId (w_lottery w))"
| "answer_view sa un im T w (getDraw i) =
     (case getDraw_sol (w_lottery w) (id_of i) of Inl e \<Rightarrow> Rej (revert e) | Inr d \<Rightarrow> RDraw (text_draw sa d))"
| "answer_view sa un im T w (ticketOwners i) =
     (case ticketOwners_sol (w_lottery w) (id_of i) of Inl e \<Rightarrow> Rej (revert e) | Inr os \<Rightarrow> RStrs (map sa os))"
| "answer_view sa un im T w call_ticketPrice = RNat (im_ticketPrice im)"
| "answer_view sa un im T w call_minimumParticipants = RNat (im_minimumParticipants im)"
| "answer_view sa un im T w (call_refunded i a) = RBool (l_refunded (w_lottery w) (id_of i) (un a))"
| "answer_view sa un im T w (ticketOf i a) = RNat (l_ticketOf (w_lottery w) (id_of i) (un a))"
| "answer_view sa un im T w (call_canPerformDraw i) = RBool (canPerformDraw (w_time w) (w_lottery w) (id_of i))"
| "answer_view sa un im T w (balanceOf a) = RNat (t_balanceOf T (w_token w) (un a))"
| "answer_view sa un im T w (allowance a b) = RUnit"

text \<open>
  A node that knows the state \<open>chain n\<close> of every block \<open>n\<close>: a read with a block tag is answered in that
  block; the head may be another block at every request.
\<close>

definition answers_read ::
  "(addr \<Rightarrow> string) \<Rightarrow> (string \<Rightarrow> addr) \<Rightarrow> immutables \<Rightarrow> 't token \<Rightarrow> (int \<Rightarrow> ('t, 'p) world) \<Rightarrow> req option
     \<Rightarrow> resp \<Rightarrow> bool" where
  "answers_read sa un im T chain q r =
     (case q of
        Some (Read contract v (Some n)) \<Rightarrow> r = answer_view sa un im T (chain n) v
      | Some (Read contract v None) \<Rightarrow> (\<exists>n. r = answer_view sa un im T (chain n) v)
      | _ \<Rightarrow> True)"

fun node ::
  "(addr \<Rightarrow> string) \<Rightarrow> (string \<Rightarrow> addr) \<Rightarrow> immutables \<Rightarrow> 't token \<Rightarrow> nat \<Rightarrow> (int \<Rightarrow> ('t, 'p) world) \<Rightarrow> req \<Rightarrow> resp
     \<Rightarrow> bool" where
  "node sa un im T net chain GetNetwork r \<longleftrightarrow> r = RNat net"
| "node sa un im T net chain GetBlockLatest r \<longleftrightarrow> (\<exists>n. r = RBlock (Some (n, int (w_time (chain n)))))"
| "node sa un im T net chain (Batch qs) r \<longleftrightarrow>
     (\<exists>rs. r = RAll rs \<and> list_all2 (answers_read sa un im T chain) qs rs)"
| "node sa un im T net chain q r \<longleftrightarrow> answers_read sa un im T chain (Some q) r"

text \<open>The round as the page shows it.\<close>

definition shown_round :: "(addr \<Rightarrow> string) \<Rightarrow> immutables \<Rightarrow> ('t, 'p) world \<Rightarrow> nat \<Rightarrow> Draw" where
  "shown_round sa im w i =
     (let s = w_lottery w; d = l_draws s i; os = l_owners s i in
       draw_view (int (w_time w)) (text_draw sa d) (map sa os) (im_ticketPrice im)
         (im_minimumParticipants im)
         (map (\<lambda>a. a \<noteq> 0 \<and> s_status d = CANCELLED \<and> l_refunded s i a) os))"

lemma id_of_show [simp]: "id_of (show_nat 10 n) = n"
  by (simp add: id_of_def)

lemma answers_tagged [simp]:
  "answers_read sa un im T chain (Some (Read ct v (Some n))) r \<longleftrightarrow> r = answer_view sa un im T (chain n) v"
  by (simp add: answers_read_def)

text \<open>The refund flags, one query per owner of a cancelled round.\<close>

lemma refunds_read:
  assumes "address_text sa un"
    and "list_all2 (answers_read sa un im T chain)
      (refund_queries c (show_nat 10 i) n (text_draw sa d) (map sa os)) rs"
  shows "as_refunds (refund_queries c (show_nat 10 i) n (text_draw sa d) (map sa os)) (RAll rs) =
    Some (map (\<lambda>a. a \<noteq> 0 \<and> s_status d = CANCELLED \<and> l_refunded (w_lottery (chain n)) i a) os)"
proof -
  have five: "js_number (status_code st) = 5 \<longleftrightarrow> st = CANCELLED" for st by (cases st) simp_all
  from assms(2) show ?thesis
  proof (induction os arbitrary: rs)
    case (Cons a os)
    then obtain r rs' where rs: "rs = r # rs'"
      by (auto simp: refund_queries_def list_all2_Cons1)
    have l: "length rs' = length os" using Cons.prems rs by (auto simp: refund_queries_def dest: list_all2_lengthD)
    show ?case
      using Cons.IH [of rs'] Cons.prems assms(1) l
      by (auto simp: rs refund_queries_def text_draw_def five split: if_splits)
  qed (simp add: refund_queries_def)
qed

lemma round_read:
  assumes "list_all2 (answers_read sa un im T chain) (round_queries c (show_nat 10 i) n) rs"
    and "1 \<le> i" and "i \<le> l_currentDrawId (w_lottery (chain n))"
  shows "as_round (RAll rs) =
    Some (text_draw sa (l_draws (w_lottery (chain n)) i), map sa (l_owners (w_lottery (chain n)) i),
      im_ticketPrice im, im_minimumParticipants im)"
proof -
  have "rs = [RDraw (text_draw sa (l_draws (w_lottery (chain n)) i)),
      RStrs (map sa (l_owners (w_lottery (chain n)) i)), RNat (im_ticketPrice im), RNat (im_minimumParticipants im)]"
    using assms by (auto simp: round_queries_def list_all2_Cons1 getDraw_sol_def ticketOwners_sol_def)
  then show ?thesis by (simp add: as_round_def)
qed

text \<open>C9: Reading a round gives a consistent picture: however the chain moves on between the requests, the
  round, its tickets, the price and the refunds are those the contract held at one and the same
  block, and the block's time comes with them.\<close>

theorem round_is_snapshot:
  assumes "conforms (\<lambda>q _ r _. node sa un im T net chain q r) (chainDraw c (show_nat 10 i)) env s"
    and "4 \<le> length env" and "address_text sa un" and "chainId c = show_nat 10 net"
    and "1 \<le> i" and "\<And>n. i \<le> l_currentDrawId (w_lottery (chain n))"
  shows "\<exists>n. outcome (chainDraw c (show_nat 10 i)) env s =
    Returned \<lparr>fd_draw = shown_round sa im (chain n) i, fd_time = int (w_time (chain n)), fd_block = n\<rparr>"
proof -
  obtain a1 a2 a3 a4 rest where env: "env = a1 # a2 # a3 # a4 # rest"
    using assms(2) by (auto simp: numeral_eq_Suc Suc_le_length_iff)
  obtain n where a1: "fst a1 = RNat net" and a2: "fst a2 = RBlock (Some (n, int (w_time (chain n))))"
    using assms(1,4) by (auto simp: env chainDraw_def await_def reply_def)
  let ?s = "w_lottery (chain n)"
  let ?r = "(text_draw sa (l_draws ?s i), map sa (l_owners ?s i), im_ticketPrice im, im_minimumParticipants im)"
  obtain rs where a3: "fst a3 = RAll rs" and rs: "list_all2 (answers_read sa un im T chain) (round_queries c (show_nat 10 i) n) rs"
    using assms(1,4) a1 a2 by (auto simp: env chainDraw_def await_def reply_def)
  note round = round_read [OF rs assms(5,6)]
  obtain qs where a4: "fst a4 = RAll qs" and qs: "list_all2 (answers_read sa un im T chain)
      (refund_queries c (show_nat 10 i) n (text_draw sa (l_draws ?s i)) (map sa (l_owners ?s i))) qs"
    using assms(1,4) a1 a2 a3 round by (auto simp: env chainDraw_def await_def reply_def)
  show ?thesis
    using assms(4) a1 a2 a3 a4 round refunds_read [OF assms(3) qs]
    by (auto simp: env chainDraw_def await_def reply_def shown_round_def Let_def)
qed

text \<open>A chain on which the round is closed at block 8.\<close>

definition sample_blocks :: "int \<Rightarrow> (addr \<Rightarrow> nat, nat \<times> nat) world" where
  "sample_blocks n = (if n \<le> 7 then sample_due 2 else sample_drawing)"

lemma sample_blocks_facts:
  "l_currentDrawId (w_lottery (sample_due 2)) = 1" "l_currentDrawId (w_lottery sample_drawing) = 1"
  "s_status (l_draws (w_lottery (sample_due 2)) 1) = ACTIVE"
  "s_participantCount (l_draws (w_lottery (sample_due 2)) 1) = 2"
  "s_deadline (l_draws (w_lottery (sample_due 2)) 1) = 87400"
  "w_time (sample_due 2) = 91000"
  "l_owners (w_lottery (sample_due 2)) 1 = [1, 2, 0, 0, 0, 0, 0, 0, 0, 0]"
  "l_ticketOf (w_lottery (sample_due 2)) 1 3 = 0"
  by (simp_all add: sample_drawing_def sample_due_def contract_run upt_rec slots)

lemma sample_id: "id_of ''1'' = 1"
  using id_of_show [of 1] by (simp add: sample_numbers)

theorem round_is_snapshot_witness:
  "\<exists>n. outcome (chainDraw sample_config (show_nat 10 1))
      (calm [RNat 31337, RBlock (Some (7, int (w_time (sample_due 2)))),
        RAll [RDraw (text_draw plain_text (l_draws (w_lottery (sample_due 2)) 1)),
          RStrs (map plain_text (l_owners (w_lottery (sample_due 2)) 1)), RNat 10, RNat 2],
        RAll (replicate 10 RUnit)]) sample_app =
    Returned \<lparr>fd_draw = shown_round plain_text sample_im (sample_blocks n) 1,
      fd_time = int (w_time (sample_blocks n)), fd_block = n\<rparr>"
proof (rule round_is_snapshot [OF _ _ plain_address_text])
  have i: "1 \<le> l_currentDrawId (w_lottery (sample_blocks n))" for n
    by (simp add: sample_blocks_def sample_blocks_facts del: One_nat_def)
  show "conforms (\<lambda>q _ r _. node plain_text plain_address sample_im plain_token 31337 sample_blocks q r)
      (chainDraw sample_config (show_nat 10 1))
      (calm [RNat 31337, RBlock (Some (7, int (w_time (sample_due 2)))),
        RAll [RDraw (text_draw plain_text (l_draws (w_lottery (sample_due 2)) 1)),
          RStrs (map plain_text (l_owners (w_lottery (sample_due 2)) 1)), RNat 10, RNat 2],
        RAll (replicate 10 RUnit)]) sample_app"
    unfolding chainDraw_def
    by (simp add: calm_def await_def reply_def sample_config_def sample_numbers sample_id sample_blocks_def exI [of _ 7]
        round_queries_def getDraw_sol_def ticketOwners_sol_def sample_blocks_facts as_round_def refund_queries_def
        text_draw_def answers_read_def sample_im_def sample_replicate del: One_nat_def)
qed (simp_all add: calm_def sample_config_def sample_numbers sample_blocks_def sample_blocks_facts del: One_nat_def)

section \<open>What the page offers\<close>

lemma ticket_rows_nth:
  "j < length os \<Longrightarrow> length rf = length os \<Longrightarrow> ticket_rows os rf ! j =
     \<lparr>number = int j + 1, wallet = (if os ! j = ZeroAddress then None else Some (os ! j)), refunded = rf ! j\<rparr>"
  by (simp add: ticket_rows_def)

lemma length_ticket_rows: "length rf = length os \<Longrightarrow> length (ticket_rows os rf) = length os"
  by (simp add: ticket_rows_def)

text \<open>The row of the account is the ticket the contract recorded for it.\<close>

lemma find_owner:
  assumes "tickets_ok n os tk" and "a \<noteq> 0" and "address_text sa un" and "length rf = length os"
  shows "List.find (owned_by (sa a)) (ticket_rows (map sa os) rf) =
    (if tk a = 0 then None
     else Some \<lparr>number = int (tk a), wallet = Some (sa a), refunded = rf ! (tk a - 1)\<rparr>)"
proof -
  let ?rows = "ticket_rows (map sa os) rf"
  have len: "length ?rows = 10" "length os = 10" using assms(1,4) by (simp_all add: length_ticket_rows tickets_ok_def)
  have nth: "?rows ! j = \<lparr>number = int j + 1, wallet = (if os ! j = 0 then None else Some (sa (os ! j))), refunded = rf ! j\<rparr>"
    if "j < 10" for j
    using that len assms(3,4) by (simp add: ticket_rows_nth)
  have own: "owned_by (sa a) (?rows ! j) \<longleftrightarrow> os ! j = a" if "j < 10" for j
    using that assms(2,3) by (auto simp: nth owned_by_def)
  have holder: "tk a = Suc j" if "j < 10" "os ! j = a" for j
  proof -
    have "j < n" using assms(1,2) that by (auto simp: tickets_ok_def not_less [symmetric])
    then show ?thesis using assms(1) that by (auto simp: tickets_ok_def)
  qed
  show ?thesis
  proof (cases "tk a = 0")
    case True
    then show ?thesis using own holder len by (fastforce simp: find_None_iff in_set_conv_nth)
  next
    case False
    then have "tk a \<le> n" "n \<le> 5" and o: "os ! (tk a - 1) = a"
      using assms(1) by (simp_all add: tickets_ok_def MAX_PARTICIPANTS_def)
    then have k: "tk a - 1 < 10" "os ! (tk a - 1) = a" by simp_all
    have "\<not> owned_by (sa a) (?rows ! j)" if "j < tk a - 1" for j
      using that k own [of j] holder [of j] by auto
    then have "List.find (owned_by (sa a)) ?rows = Some (?rows ! (tk a - 1))"
      using k own len by (auto simp: find_Some_iff)
    then show ?thesis using False k assms(2) by (simp add: nth)
  qed
qed

text \<open>The page shows round \<open>i\<close> of the chain \<open>w\<close> to the account \<open>a\<close>, with the clock of the block.\<close>

definition shows_round ::
  "(addr \<Rightarrow> string) \<Rightarrow> immutables \<Rightarrow> ('t, 'p) world \<Rightarrow> nat \<Rightarrow> addr \<Rightarrow> app \<Rightarrow> bool" where
  "shows_round sa im w i a cl \<longleftrightarrow>
     draw cl = Some (shown_round sa im w i) \<and> now cl = int (w_time w) \<and> account cl = sa a \<and>
     currentID cl = show_nat 10 (l_currentDrawId (w_lottery w)) \<and> busy cl = []"

lemma statusName_simps [simp]:
  "statusName st = ''ACTIVE'' \<longleftrightarrow> st = ACTIVE" "statusName st = ''DRAWING'' \<longleftrightarrow> st = DRAWING"
  "statusName st = ''WINNER_DECLARED'' \<longleftrightarrow> st = WINNER_DECLARED"
  "statusName st = ''COMPLETED'' \<longleftrightarrow> st = COMPLETED"
  "statusName st = ''NO_WINNER'' \<longleftrightarrow> st = NO_WINNER" "statusName st = ''CANCELLED'' \<longleftrightarrow> st = CANCELLED"
  by (cases st; simp add: statusName_def statusNames_def)+

lemma text_draw_simps [simp]:
  "s_id (text_draw sa d) = s_id d" "s_status (text_draw sa d) = s_status d"
  "s_deadline (text_draw sa d) = s_deadline d" "s_participantCount (text_draw sa d) = s_participantCount d"
  "s_winner (text_draw sa d) = sa (s_winner d)" "s_pool (text_draw sa d) = s_pool d"
  by (simp_all add: text_draw_def)

lemma shown_simps:
  "status (shown_round sa im w i) = statusName (s_status (l_draws (w_lottery w) i))"
  "deadline (shown_round sa im w i) = js_number (s_deadline (l_draws (w_lottery w) i))"
  "participantCount (shown_round sa im w i) = js_number (s_participantCount (l_draws (w_lottery w) i))"
  "draw_id (shown_round sa im w i) = show_nat 10 (s_id (l_draws (w_lottery w) i))"
  "address_text sa un \<Longrightarrow> winner (shown_round sa im w i) =
    (if s_winner (l_draws (w_lottery w) i) = 0 then None else Some (sa (s_winner (l_draws (w_lottery w) i))))"
  "prizeClaimed (shown_round sa im w i) \<longleftrightarrow> s_status (l_draws (w_lottery w) i) = COMPLETED"
  "tickets (shown_round sa im w i) =
    ticket_rows (map sa (l_owners (w_lottery w) i))
      (map (\<lambda>a. a \<noteq> 0 \<and> s_status (l_draws (w_lottery w) i) = CANCELLED \<and> l_refunded (w_lottery w) i a)
        (l_owners (w_lottery w) i))"
  by (simp_all add: shown_round_def draw_view_def Let_def)

text \<open>The countdown of the page reaches zero exactly at the contract's deadline.\<close>

lemma countdown_zero:
  assumes "t < 2 ^ 53"
  shows "max 0 (js_sub (js_number n) (int t)) = 0 \<longleftrightarrow> n \<le> t"
  using js_number_le_iff [OF assms, of n] by (auto simp: js_sub_def)

lemma deployed_round:
  assumes "deployed im T P w" and "1 \<le> i" and "i \<le> l_currentDrawId (w_lottery w)"
  shows "round_ok im i (l_draws (w_lottery w) i) (l_owners (w_lottery w) i) (l_ticketOf (w_lottery w) i)
    (l_refunded (w_lottery w) i)"
  using deployed_books [OF assms(1)] rounds_ok_round assms(2,3) by (simp add: books_def)

lemma mine_shown:
  assumes "shows_round sa im w i a cl" and "address_text sa un" and "a \<noteq> 0"
    and "round_ok im i (l_draws (w_lottery w) i) (l_owners (w_lottery w) i) (l_ticketOf (w_lottery w) i)
      (l_refunded (w_lottery w) i)"
  shows "mine cl =
    (if l_ticketOf (w_lottery w) i a = 0 then None
     else Some \<lparr>number = int (l_ticketOf (w_lottery w) i a), wallet = Some (sa a),
       refunded = l_refunded (w_lottery w) i a\<rparr>)"
proof -
  let ?os = "l_owners (w_lottery w) i" let ?tk = "l_ticketOf (w_lottery w) i"
  let ?rf = "map (\<lambda>a. a \<noteq> 0 \<and> s_status (l_draws (w_lottery w) i) = CANCELLED \<and> l_refunded (w_lottery w) i a) ?os"
  have tk: "tickets_ok (s_participantCount (l_draws (w_lottery w) i)) ?os ?tk"
    and rf: "l_refunded (w_lottery w) i a \<Longrightarrow> s_status (l_draws (w_lottery w) i) = CANCELLED"
    using assms(4) by (auto simp: round_ok_def)
  have "?rf ! (?tk a - 1) = l_refunded (w_lottery w) i a" if "?tk a \<noteq> 0"
  proof -
    have "?tk a \<le> 5" "?os ! (?tk a - 1) = a" "length ?os = 10"
      using tk that by (auto simp: tickets_ok_def MAX_PARTICIPANTS_def intro: order_trans)
    then show ?thesis using assms(3) rf that by auto
  qed
  then show ?thesis
    using find_owner [OF tk assms(3,2), of ?rf] assms(1)
    by (simp add: mine_def shows_round_def shown_simps)
qed

text \<open>Only the current round can be open.\<close>

lemma active_current:
  assumes "deployed im T P w" and "1 \<le> i" and "i \<le> l_currentDrawId (w_lottery w)"
    and "s_status (l_draws (w_lottery w) i) = ACTIVE"
  shows "i = l_currentDrawId (w_lottery w)"
proof -
  have "rounds_ok im (w_lottery w)" using deployed_books [OF assms(1)] by (simp add: books_def)
  then show ?thesis using assms(2-4) unfolding rounds_ok_def live_def by (metis le_neq_implies_less)
qed

lemma shown_account:
  "shows_round sa im w i a cl \<Longrightarrow> address_text sa un \<Longrightarrow> account cl \<noteq> [] \<and> \<not> is_busy cl"
  by (simp add: shows_round_def is_busy_def)

lemma shown_enabled:
  "shows_round sa im w i a cl \<Longrightarrow> address_text sa un \<Longrightarrow> enabled (page b L qs lang cl) (Act k) \<longleftrightarrow> offered b cl k"
  by (rule enabled_page) (simp add: shown_account)

text \<open>The conditions of the two entry buttons are those of the contract.\<close>

lemma entry_shown:
  assumes "deployed im T P w" and "shows_round sa im w i a cl" and "address_text sa un" and "a \<noteq> 0"
    and "1 \<le> i" and "i \<le> l_currentDrawId (w_lottery w)" and "w_time w < 2 ^ 53"
  shows "offered b cl Buy \<longleftrightarrow> enters w a i"
    and "offered b cl DrawRound \<longleftrightarrow> canPerformDraw (w_time w) (w_lottery w) i"
proof -
  let ?s = "w_lottery w" and ?d = "l_draws (w_lottery w) i"
  have r: "round_ok im i ?d (l_owners ?s i) (l_ticketOf ?s i) (l_refunded ?s i)"
    by (rule deployed_round [OF assms(1,5,6)])
  then have five: "s_participantCount ?d \<le> 5" by (simp add: round_ok_def tickets_ok_def MAX_PARTICIPANTS_def)
  then have count: "js_number (s_participantCount ?d) = int (s_participantCount ?d)" by simp
  have left: "remaining cl = 0 \<longleftrightarrow> s_deadline ?d \<le> w_time w" "0 < remaining cl \<longleftrightarrow> \<not> s_deadline ?d \<le> w_time w"
    using countdown_zero [OF assms(7), of "s_deadline ?d"] assms(2)
    by (auto simp: remaining_def shows_round_def shown_simps less_le)
  have cur: "s_status ?d = ACTIVE \<Longrightarrow> i = l_currentDrawId ?s"
    by (rule active_current [OF assms(1,5,6)])
  have show1: "draw cl = Some (shown_round sa im w i)" using assms(2) by (simp add: shows_round_def)
  note acct = shown_account [OF assms(2,3)]
  have buy: "canBuy cl \<longleftrightarrow> s_status ?d = ACTIVE \<and> l_ticketOf ?s i a = 0 \<and> s_participantCount ?d < 5 \<and>
      \<not> s_deadline ?d \<le> w_time w"
    using mine_shown [OF assms(2-4) r] left(2) acct by (auto simp: canBuy_def has_status_def show1 shown_simps count)
  show "offered b cl Buy \<longleftrightarrow> enters w a i"
    using buy cur acct assms(5) by (auto simp: offered_def enters_def Let_def MAX_PARTICIPANTS_def)
  show "offered b cl DrawRound \<longleftrightarrow> canPerformDraw (w_time w) ?s i"
    unfolding canPerformDraw_iff using cur acct left(1) five assms(5)
    by (auto simp: offered_def eligible_def has_status_def show1 shown_simps count MAX_PARTICIPANTS_def)
qed

text \<open>C2: The button to buy is enabled, and the token carries out the payment of the ticket, exactly when buyTicket
  by this account goes through; and the button to draw is enabled, and the provider grants a request
  where one is needed, exactly when performDraw goes through. So the page hides no entry the contract
  would grant, and an enabled button can fail for no other reason than the token or the provider.\<close>

theorem entry_offers_agree:
  assumes "deployed im T P w" and "exact_token T (im_this im)" and "valid_deployment im"
    and "shows_round sa im w i a cl" and "address_text sa un" and "a \<noteq> 0"
    and "1 \<le> i" and "i \<le> l_currentDrawId (w_lottery w)" and "w_time w < 2 ^ 53"
  shows "((\<exists>v. transact im T P a (call_buyTicket i) w = Inr v) \<longleftrightarrow>
      enabled (page b L qs lang cl) (Act Buy) \<and> takes_payment im T a w) \<and>
    ((\<exists>v. transact im T P a (call_performDraw i) w = Inr v) \<longleftrightarrow>
      enabled (page b L qs lang cl) (Act DrawRound) \<and>
      (s_participantCount (l_draws (w_lottery w) i) < im_minimumParticipants im \<or> grants_request im P w))"
  unfolding buy_taken [OF assms(1-3,6)] perform_taken [OF assms(1-3)] shown_enabled [OF assms(4,5)]
    entry_shown [OF assms(1,4-9)]
  by blast

lemma show_nat_zero: "show_nat 10 n = ''0'' \<longleftrightarrow> n = 0"
  using show_nat_inject [of n 0] by (simp add: sample_numbers)

text \<open>And so are the conditions of the buttons for what follows a round.\<close>

lemma settlement_shown:
  assumes "deployed im T P w" and "shows_round sa im w i a cl" and "address_text sa un" and "a \<noteq> 0"
    and "1 \<le> i" and "i \<le> l_currentDrawId (w_lottery w)" and d: "d = l_draws (w_lottery w) i"
  shows "offered b cl Prize \<longleftrightarrow> s_status d = WINNER_DECLARED \<and> s_winner d = a"
    and "offered b cl Refund \<longleftrightarrow>
      s_status d = CANCELLED \<and> l_ticketOf (w_lottery w) i a \<noteq> 0 \<and> \<not> l_refunded (w_lottery w) i a"
    and "offered b cl Finalize \<longleftrightarrow> s_status d = DRAWING"
    and "i = l_currentDrawId (w_lottery w) \<Longrightarrow> offered b cl Start \<longleftrightarrow> \<not> live d"
proof -
  let ?s = "w_lottery w"
  have r: "round_ok im i d (l_owners ?s i) (l_ticketOf ?s i) (l_refunded ?s i)"
    unfolding d by (rule deployed_round [OF assms(1,5,6)])
  have sh: "draw cl = Some (shown_round sa im w i)" "account cl = sa a" "currentID cl = show_nat 10 (l_currentDrawId ?s)"
    using assms(2) by (simp_all add: shows_round_def)
  note acct = shown_account [OF assms(2,3)]
  have w: "s_winner d \<noteq> 0 \<longleftrightarrow> s_status d = WINNER_DECLARED \<or> s_status d = COMPLETED" "s_id d = i"
    using r by (auto simp: round_ok_def result_ok_def split: Status.splits)
  show "offered b cl Prize \<longleftrightarrow> s_status d = WINNER_DECLARED \<and> s_winner d = a"
    using w assms(3,4) acct by (auto simp: offered_def sh(1,2) isWinner_def shown_simps truthy_def d)
  show "offered b cl Refund \<longleftrightarrow> s_status d = CANCELLED \<and> l_ticketOf ?s i a \<noteq> 0 \<and> \<not> l_refunded ?s i a"
    using mine_shown [OF assms(2-4) r [unfolded d]] w assms(3) acct
    by (auto simp: offered_def sh(1) shown_simps truthy_def d)
  show "offered b cl Finalize \<longleftrightarrow> s_status d = DRAWING"
    using acct sh by (auto simp: offered_def has_status_def shown_simps d)
  show "offered b cl Start \<longleftrightarrow> \<not> live d" if "i = l_currentDrawId ?s"
    using that w assms(5) acct sh
    by (cases "s_status d")
       (auto simp: offered_def canStart_def has_status_def shown_simps settled_statuses_def live_def show_nat_zero d)
qed

text \<open>C3: After a round the page offers exactly what the contract grants: claimPrize by this account goes through
  if and only if the prize button is enabled and the token carries out the transfers of fee and prize,
  claimRefund if and only if the refund button is enabled and the token carries out the transfer,
  finalizeDraw if and only if the delivery button is enabled and the provider does not refuse to
  deliver, and on the current round startDraw if and only if the start button is enabled.\<close>

theorem settlement_offers_agree:
  assumes "deployed im T P w" and "exact_token T (im_this im)" and "valid_deployment im"
    and "shows_round sa im w i a cl" and "address_text sa un" and "a \<noteq> 0"
    and "1 \<le> i" and "i \<le> l_currentDrawId (w_lottery w)"
    and "l_currentDrawId (w_lottery w) + 1 < 2 ^ 256" and "w_time w + DURATION < 2 ^ 256"
  shows "((\<exists>v. transact im T P a (call_claimPrize i) w = Inr v) \<longleftrightarrow>
      enabled (page b L qs lang cl) (Act Prize) \<and> pays_prize im T (l_draws (w_lottery w) i) (w_token w)) \<and>
    ((\<exists>v. transact im T P a (call_claimRefund i) w = Inr v) \<longleftrightarrow>
      enabled (page b L qs lang cl) (Act Refund) \<and>
      t_transfer T (im_this im) a (im_ticketPrice im) (w_token w) \<noteq> None) \<and>
    ((\<exists>v. transact im T P a (call_finalizeDraw i) w = Inr v) \<longleftrightarrow>
      enabled (page b L qs lang cl) (Act Finalize) \<and>
      p_deliver P (s_requestId (l_draws (w_lottery w) i)) (w_provider w) \<noteq> None) \<and>
    (i = l_currentDrawId (w_lottery w) \<longrightarrow>
      ((\<exists>v. transact im T P a (call_startDraw i) w = Inr v) \<longleftrightarrow> enabled (page b L qs lang cl) (Act Start)))"
  unfolding prize_taken [OF assms(1-3)] refund_taken_iff [OF assms(1)] delivery_taken [OF assms(1-3)]
    start_taken [OF assms(1,9,10)] shown_enabled [OF assms(4,5)]
  using settlement_shown [OF assms(1,4-8) refl, of b] assms(7)
  by auto

text \<open>The page of player 3, who has no ticket, on the overdue round, and that of the winner.\<close>

definition agreed_page :: "('t, 'p) world \<Rightarrow> addr \<Rightarrow> app" where
  "agreed_page w a =
     sample_app\<lparr>draw := Some (shown_round plain_text sample_im w 1), now := int (w_time w),
       account := plain_text a, currentID := show_nat 10 (l_currentDrawId (w_lottery w))\<rparr>"

lemma agreed_page_shows: "shows_round plain_text sample_im w 1 a (agreed_page w a)"
  by (simp add: shows_round_def agreed_page_def sample_app_def initial_app_def selectAccount_def setConfig_def)

theorem entry_offers_agree_witness:
  "\<forall>L qs lang. \<not> enabled (page sample_build L qs lang (agreed_page (sample_due 2) 3)) (Act Buy) \<and>
     enabled (page sample_build L qs lang (agreed_page (sample_due 2) 3)) (Act DrawRound)"
proof (intro allI)
  fix L qs lang
  have l: "\<not> l_entered (w_lottery (sample_due 2))" using deployed_books [OF due_deployed(2)] by simp
  have closed: "transact sample_im plain_token counting_provider 3 (call_buyTicket 1) (sample_due 2) = Inl TicketsClosed"
    using l sample_blocks_facts by (simp add: transact_def nonReentrant_def buyTicket_body_def Let_def)
  have pays: "takes_payment sample_im plain_token 3 (sample_due 2)"
    by (simp add: takes_payment_def plain_token_def sample_im_def sample_due_def contract_run upt_rec slots)
  obtain v where drawn: "transact sample_im plain_token counting_provider 3 (call_performDraw 1) (sample_due 2) = Inr v"
    by (simp add: sample_due_def contract_run upt_rec slots)
  show "\<not> enabled (page sample_build L qs lang (agreed_page (sample_due 2) 3)) (Act Buy) \<and>
      enabled (page sample_build L qs lang (agreed_page (sample_due 2) 3)) (Act DrawRound)"
    using entry_offers_agree [OF due_deployed(2) plain_exact sample_valid agreed_page_shows [of "sample_due 2" 3]
        plain_address_text, of sample_build L qs lang] closed pays drawn sample_blocks_facts
    by auto
qed

theorem settlement_offers_agree_witness:
  "\<forall>L qs lang. enabled (page sample_build L qs lang (agreed_page sample_won 1)) (Act Prize) \<and>
     \<not> enabled (page sample_build L qs lang (agreed_page sample_won 2)) (Act Prize)"
proof (intro allI)
  fix L qs lang
  have i: "l_currentDrawId (w_lottery sample_won) = 1" "w_time sample_won = 91000"
    by (simp_all add: sample_won_def sample_drawing_def sample_due_def contract_run upt_rec slots)
  have l: "\<not> l_entered (w_lottery sample_won)" using deployed_books [OF won_deployed] by simp
  have other: "transact sample_im plain_token counting_provider 2 (call_claimPrize 1) sample_won = Inl NotClaimable"
    using l won_facts(1,2) by (simp add: transact_def nonReentrant_def claimPrize_body_def Let_def)
  have pays: "pays_prize sample_im plain_token (l_draws (w_lottery sample_won) 1) (w_token sample_won)"
    unfolding pays_prize_def won_facts by (simp add: plain_token_def sample_im_def)
  obtain v where paid: "transact sample_im plain_token counting_provider 1 (call_claimPrize 1) sample_won = Inr v"
    by (simp add: sample_won_def sample_drawing_def sample_due_def contract_run upt_rec slots)
  note agree = settlement_offers_agree [OF won_deployed plain_exact sample_valid agreed_page_shows [of sample_won]
      plain_address_text, of _ sample_build L qs lang]
  show "enabled (page sample_build L qs lang (agreed_page sample_won 1)) (Act Prize) \<and>
      \<not> enabled (page sample_build L qs lang (agreed_page sample_won 2)) (Act Prize)"
    using agree [of 1] agree [of 2] other pays paid i by (auto simp: DURATION_def)
qed

end
