(* ===== verification/Loading.thy ===== *)
theory Loading
  imports Guards Samples View
begin

text \<open>
  Loading rounds: a refresh that was overtaken leaves no mark, the list of past rounds never shows a
  round twice, and two places where the page falls back behind the visitor.
\<close>

section \<open>A refresh that was overtaken\<close>

text \<open>What the other handlers did to the state while the first answers of a script came in.\<close>

definition meanwhile :: "(resp \<times> ('s \<Rightarrow> 's)) list \<Rightarrow> 's \<Rightarrow> 's" where
  "meanwhile env s = fold snd env s"

lemma meanwhile_simps [simp]:
  "meanwhile [] s = s" "meanwhile (x # env) s = meanwhile env (snd x s)"
  by (simp_all add: meanwhile_def)

text \<open>
  A program of the shape of \<open>refresh_body\<close>: it reads, and then tests the state before it goes on,
  whether the reads returned or threw. If the test fails at that moment nothing else happens.
\<close>

lemma guarded_reads:
  assumes "silent p" and "finished (outcome p env s)"
    and "\<not> S (meanwhile (take (length (trace p env s)) env) s)"
  shows "run (catch (bind p (\<lambda>a. Get (\<lambda>t. if S t then f a else Ret ())))
        (\<lambda>e. Get (\<lambda>t. if S t then h e else Ret ()))) env s =
    (trace p env s, meanwhile (take (length (trace p env s)) env) s, Returned ())"
  using assms
proof (induction p arbitrary: env s)
  case (Get k)
  then show ?case using Get.IH [of s env s] by simp
next
  case (Await q k)
  then obtain x env' where "env = x # env'" by (cases env) auto
  then show ?case using Await.prems Await.IH [of "fst x" env' "snd x s"] by simp
qed simp_all

lemma trace_finally: "trace (finally_do p u) env s = trace p env s"
proof (induction p arbitrary: env s)
  case (Await q k)
  then show ?case by (cases env) auto
qed simp_all

text \<open>The reads of \<^verbatim>\<open>refresh\<close>, up to the comparison of the generations: the current round's number, the round
  shown and the balance.\<close>

definition refresh_reads :: "app \<Rightarrow> Config \<Rightarrow> (app, string \<times> fresh_draw option \<times> string) prog" where
  "refresh_reads cl c =
     bind (await as_nat (Read (lotteryAddress c) currentDrawId None)) (\<lambda>n.
     bind (read_selected c (or_opt (selectedID cl) (show_nat 10 n))) (\<lambda>result.
     bind (read_balance c (account cl)) (\<lambda>bal. Ret (show_nat 10 n, result, bal))))"

lemma refresh_reads_silent: "silent (refresh_reads cl c)"
  unfolding refresh_reads_def
  by (intro silent_bind silent_await read_selected_silent read_balance_silent) simp

lemma awaits_refresh_reads: "cost each_await (refresh_reads cl c) 6"
  unfolding refresh_reads_def
  by (auto intro!: cost_bind_await cost_bindI [OF awaits_read_selected] cost_bindI [OF awaits_read_balance])

lemma refresh_body_reads:
  "refresh_body b cl c gen =
     catch
       (bind (refresh_reads cl c) (\<lambda>a. Get (\<lambda>s. if gen = generation s
          then (case a of (i, result, bal) \<Rightarrow> Upd (store_round i result bal) (load_sync b)) else Ret ())))
       (\<lambda>e. Get (\<lambda>s. if gen = generation s then update (\<lambda>s. s\<lparr>error := message e\<rparr>) else Ret ()))"
proof -
  have g: "(if gen \<noteq> n then x else y) = (if gen = n then y else x)" for n and x y :: "(app, unit) prog" by simp
  show ?thesis by (simp add: refresh_body_def refresh_reads_def bind_assoc g cong: if_cong)
qed

text \<open>C20: A refresh whose account, round shown or network has changed by the time its reads of the chain are
  complete, or have failed, leaves no mark: it asks for nothing more, and all that remains of it are the
  changes the other handlers made meanwhile and its own busy and loading flags; it writes no round,
  number, balance, clock, error or synchronisation state. (The synchronisation state is fetched after
  this comparison and is written without another one.)\<close>

theorem stale_refresh_leaves_no_mark:
  assumes "config cl = Some c" and "\<not> refreshBusy s" and "6 \<le> length env"
    and "n = length (trace (refresh_reads cl c) env (begin_refresh s))"
    and "generation (meanwhile (take n env) (begin_refresh s)) \<noteq> generation s"
  shows "final (refresh b cl) env s = end_refresh (meanwhile (take n env) (begin_refresh s)) \<and>
    trace (refresh b cl) env s = trace (refresh_reads cl c) env (begin_refresh s) \<and>
    outcome (refresh b cl) env s = Returned ()"
proof -
  let ?p = "refresh_body b cl c (generation s)" and ?s = "begin_refresh s"
  have "run ?p env ?s = (trace (refresh_reads cl c) env ?s, meanwhile (take n env) ?s, Returned ())"
    unfolding refresh_body_reads assms(4)
    by (rule guarded_reads [OF refresh_reads_silent cost_finished [OF awaits_refresh_reads assms(3)]])
       (use assms(4,5) in simp)
  then have r: "trace ?p env ?s = trace (refresh_reads cl c) env ?s" "final ?p env ?s = meanwhile (take n env) ?s"
      "outcome ?p env ?s = Returned ()"
    by (simp_all add: trace_def final_def outcome_def)
  then show ?thesis using assms(1,2) by (simp add: refresh_def final_finally trace_finally)
qed

text \<open>While the last of the reads, the balance, is on its way the visitor opens round 3 of the history.\<close>

definition overtaken_late :: "(resp \<times> (app \<Rightarrow> app)) list" where
  "overtaken_late =
     (RNat 0, \<lambda>s. s) # (RNat 5000000000, \<lambda>s. (selectDraw (Some ''3'') s)\<lparr>generation := Suc (generation s)\<rparr>) #
     calm [RUnit, RUnit, RUnit, RUnit]"

theorem stale_refresh_leaves_no_mark_witness:
  "balance (final (refresh sample_build sample_app) overtaken_late sample_app) = ''0'' \<and>
   length (trace (refresh sample_build sample_app) overtaken_late sample_app) = 2"
proof -
  have t: "trace (refresh_reads sample_app sample_config) overtaken_late (begin_refresh sample_app) =
      [(Read ''0xL'' currentDrawId None, begin_refresh sample_app),
       (Read ''0xT'' (balanceOf ''0xA'') None, begin_refresh sample_app)]"
    by (simp add: refresh_reads_def overtaken_late_def run_simps)
  then show ?thesis
    using stale_refresh_leaves_no_mark [of sample_app sample_config sample_app overtaken_late 2 sample_build]
    by (simp add: overtaken_late_def calm_def sample_app_def state_defs initial_app_def numeral_2_eq_2)
qed

section \<open>The loading flag of the newer selection\<close>

text \<open>While the head is read the visitor opens round 3 of the history.\<close>

definition overtaken :: "(resp \<times> (app \<Rightarrow> app)) list" where
  "overtaken =
     (RNat 0, \<lambda>s. (selectDraw (Some ''3'') s)\<lparr>generation := Suc (generation s)\<rparr>) #
     calm [RNat 5000000000, RUnit, RUnit, RUnit, RUnit, RUnit, RUnit]"

text \<open>A refresh that is overtaken by the visitor opening another round still clears the loading flag of that
  round: until the next poll the page calls the round that is being loaded ready for a new round.\<close>

theorem overtaken_refresh_shows_empty_round:
  "loading (meanwhile (take 1 overtaken) (begin_refresh sample_app)) \<and>
   selectedID (final (refresh sample_build sample_app) overtaken sample_app) = Some ''3'' \<and>
   draw_title (final (refresh sample_build sample_app) overtaken sample_app) = ''Ready for a new round''"
  by (simp add: overtaken_def draw_title_def run_simps)

section \<open>The list of past rounds\<close>

lemma image_merge:
  "f ` set (xs @ filter (\<lambda>y. \<not> list_ex (\<lambda>x. f x = f y) xs) ys) = f ` set xs \<union> f ` set ys"
proof -
  have "f y \<in> f ` set xs \<union> f ` {y \<in> set ys. \<forall>x \<in> set xs. f x \<noteq> f y}" if "y \<in> set ys" for y
  proof (cases "\<exists>x \<in> set xs. f x = f y")
    case True
    then obtain x where "x \<in> set xs" "f y = f x" by force
    then show ?thesis by simp
  next
    case False
    then show ?thesis using that by simp
  qed
  moreover have "set (xs @ filter (\<lambda>y. \<not> list_ex (\<lambda>x. f x = f y) xs) ys) =
      set xs \<union> {y \<in> set ys. \<forall>x \<in> set xs. f x \<noteq> f y}"
    by (simp add: list_ex_iff)
  ultimately show ?thesis by blast
qed

text \<open>Loading older rounds keeps the list in order and without repetition: what was listed stays in front,
  every round of the page is listed afterwards, and no round is listed twice, also when the page
  overlaps what was loaded before.\<close>

theorem older_rounds_are_merged:
  assumes "distinct (map draw_id (history s))" and "distinct (map draw_id (hist_draws data))"
    and "truthy nxt"
  shows "distinct (map draw_id (history (store_page nxt data s))) \<and>
    take (length (history s)) (history (store_page nxt data s)) = history s \<and>
    draw_id ` set (history (store_page nxt data s)) =
      draw_id ` set (history s) \<union> draw_id ` set (hist_draws data) \<and>
    historyPages (store_page nxt data s) = Suc (historyPages s)"
proof -
  have h: "history (store_page nxt data s) =
      history s @ filter (\<lambda>d. \<not> list_ex (\<lambda>e. draw_id e = draw_id d) (history s)) (hist_draws data)"
    using assms(3) by (simp add: store_page_def merge_history_def)
  have "draw_id ` set (history (store_page nxt data s)) =
      draw_id ` set (history s) \<union> draw_id ` set (hist_draws data)"
    unfolding h by (rule image_merge)
  then show ?thesis
    using distinct_map_filter_append [OF assms(1,2)] assms(3) h by (simp add: store_page_def)
qed

text \<open>Rounds 3 and 2 are listed; the next page overlaps with round 2.\<close>

definition past_round :: "nat \<Rightarrow> Draw" where
  "past_round n = draw_view 2000 (sample_draw\<lparr>s_id := n, s_status := NO_WINNER\<rparr>) sample_owners 1000000000 2 (replicate 10 False)"

definition past_page :: "nat list \<Rightarrow> string option \<Rightarrow> HistoryResponse" where
  "past_page ns nxt =
     \<lparr>hist_draws = map past_round ns, nextCursor = nxt, hist_synced = True, hist_indexedBlock = 9\<rparr>"

lemma past_round_id [simp]: "draw_id (past_round n) = show_nat 10 n"
  by (simp add: past_round_def draw_view_def sample_draw_def Let_def)

definition sample_history :: app where
  "sample_history = sample_app\<lparr>history := map past_round [3, 2], historyPages := 1\<rparr>"

theorem older_rounds_are_merged_witness:
  "map draw_id (history (store_page (Some ''2'') (past_page [2, 1] None) sample_history)) = [''3'', ''2'', ''1''] \<and>
   distinct (map draw_id (history (store_page (Some ''2'') (past_page [2, 1] None) sample_history)))"
proof
  have three: "show_nat 10 3 = ''3''"
    by (simp add: show_nat_def digits.simps [of 10 3] sample_digits)
  show "map draw_id (history (store_page (Some ''2'') (past_page [2, 1] None) sample_history)) = [''3'', ''2'', ''1'']"
    by (simp add: store_page_def merge_history_def past_page_def sample_history_def truthy_def three sample_numbers
        del: show_nat_inject One_nat_def)
  show "distinct (map draw_id (history (store_page (Some ''2'') (past_page [2, 1] None) sample_history)))"
    using older_rounds_are_merged [of sample_history "past_page [2, 1] None" "Some ''2''"]
    by (simp add: sample_history_def past_page_def truthy_def)
qed

text \<open>Every reload of the configuration throws the older rounds away: when the deployment's configuration
  arrives again, unchanged, the effect of the history runs although further pages are loaded, and
  with the first page it replaces the list and forgets that older pages were shown.\<close>

theorem config_reload_drops_older_rounds:
  assumes "config s = Some c" and "u = setConfig c s"
  shows "history_effect b u \<in> set (effects_after b s u) \<and>
    history (final (history_effect b u) (calm [RHttp True 200, RBody (HistoryBody data)]) u) = hist_draws data \<and>
    historyPages (final (history_effect b u) (calm [RHttp True 200, RBody (HistoryBody data)]) u) = 1 \<and>
    trace (history_tick b s) env (s\<lparr>historyPages := 2\<rparr>) = []"
  using assms
  by (simp add: effects_after_def history_effect_def history_tick_def loadHistory_def setConfig_def api_def calm_def
      await_def reply_def cast_body_def store_page_def merge_history_def truthy_def update_def)

theorem config_reload_drops_older_rounds_witness:
  "history (final (history_effect sample_build (setConfig sample_config sample_history))
     (calm [RHttp True 200, RBody (HistoryBody (past_page [3] (Some ''3'')))])
     (setConfig sample_config sample_history)) = map past_round [3] \<and>
   length (history sample_history) = 2"
  using config_reload_drops_older_rounds [of sample_history sample_config, OF _ refl, of sample_build "past_page [3] (Some ''3'')" "[]"]
  by (simp add: sample_history_def sample_app_def state_defs initial_app_def past_page_def)

end
