(* ===== verification/Access.thy ===== *)
theory Access
  imports Complete
begin

text \<open>
  The guards around every transaction: the wallet must report the lottery's network and the selected
  account, a replaced transaction counts only if it is confirmed, and no action ends without telling
  the visitor. Also the texts the wallet and the visitor read: the network in hexadecimal, the countdown.
\<close>

section \<open>The wallet check\<close>

text \<open>The wallet never reports the lottery's network, or never the account.\<close>

definition other_network :: "Config \<Rightarrow> req \<Rightarrow> resp \<Rightarrow> bool" where
  "other_network c q r \<longleftrightarrow>
     (q = Wallet eth_chainId \<longrightarrow>
        (\<forall>x n. r = RStr x \<longrightarrow> parse_bigint x = Some n \<longrightarrow> show_int 10 n \<noteq> chainId c))"

definition account_missing :: "string \<Rightarrow> req \<Rightarrow> resp \<Rightarrow> bool" where
  "account_missing a q r \<longleftrightarrow>
     (q = Wallet eth_accounts \<longrightarrow> (\<forall>xs. r = RStrs xs \<longrightarrow> \<not> list_ex (\<lambda>x. same_address x a) xs))"

lemma as_str_Some: "as_str r = Some x \<longleftrightarrow> r = RStr x"
  by (cases r) simp_all

lemma as_strs_Some: "as_strs r = Some x \<longleftrightarrow> r = RStrs x"
  by (cases r) simp_all

lemma wp_chain_text:
  assumes "\<And>n. parse_bigint x = Some n \<Longrightarrow> Q (show_int 10 n) s" and "\<And>e s. E e s"
  shows "wp R G (chain_text x) Q E s"
  using assms by (simp add: chain_text_def split: option.split)

text \<open>The requests of the check itself: the wallet's network, the switch to the lottery's, its accounts.\<close>

definition checks_only :: "Config \<Rightarrow> req \<Rightarrow> bool" where
  "checks_only c q \<longleftrightarrow>
     q = Wallet eth_chainId \<or> q = Wallet eth_accounts \<or>
     (\<exists>n. parse_bigint (chainId c) = Some n \<and> q = Wallet (wallet_switchEthereumChain (''0x'' @ show_int 16 n)))"

lemma checks_only_simps [simp]:
  "checks_only c (Wallet eth_chainId)" "checks_only c (Wallet eth_accounts)"
  by (simp_all add: checks_only_def)

lemma wp_ensure_chain:
  assumes "\<And>s. Q () s" and "\<And>e s. E e s"
  shows "wp R (\<lambda>q _. checks_only c q) (ensure_chain c) Q E s"
  unfolding ensure_chain_def chain_text_def chain_hex_def
  by (auto simp: wp_bind assms checks_only_def intro!: wp_awaitI split: option.split)

lemma wp_ensure_chain_other:
  assumes "\<And>q s r t. R q s r t \<Longrightarrow> other_network c q r" and "\<And>e s. E e s"
  shows "wp R (\<lambda>q _. checks_only c q) (ensure_chain c) Q E s"
  unfolding ensure_chain_def chain_hex_def
  by (auto simp: wp_bind assms(2) as_str_Some checks_only_def intro!: wp_awaitI wp_chain_text
      dest!: assms(1) simp: other_network_def split: option.split)

text \<open>C15: Whatever the kind of transaction, a wallet that does not report the lottery's network, even after
  the request to switch, or that does not list the selected account, is asked for nothing but its
  network, the switch to exactly the lottery's network and its accounts: no signer is taken, nothing is
  read through it and no transaction is requested.\<close>

theorem unchecked_wallet_signs_nothing:
  assumes "conforms (\<lambda>q _ r _. other_network c q r) (action b cl kind) env s \<or>
      conforms (\<lambda>q _ r _. account_missing (account cl) q r) (action b cl kind) env s"
    and "config cl = Some c"
  shows "list_all (checks_only c) (map fst (trace (action b cl kind) env s)) \<and>
    sent (trace (action b cl kind) env s) = []"
proof -
  let ?G = "\<lambda>q (_::app). checks_only c q"
  have check: "wp R ?G (action b cl kind) (\<lambda>_ _. True) (\<lambda>_ _. True) s"
    if w: "\<And>Q E s. (\<And>e s. E e s) \<Longrightarrow> wp R ?G (walletContracts ethereum c (account cl)) Q E s" for R
    unfolding action_def action_body_def
    by (auto simp: assms(2) wp_finally wp_catch wp_bind wp_update intro!: w)
  have net: "wp (\<lambda>q _ r _. other_network c q r) ?G (walletContracts ethereum c (account cl)) Q E s"
    if "\<And>e s. E e s" for Q E s
    unfolding walletContracts_def by (auto simp: wp_bind that intro!: wp_ensure_chain_other)
  have acc: "wp (\<lambda>q _ r _. account_missing (account cl) q r) ?G (walletContracts ethereum c (account cl)) Q E s"
    if "\<And>e s. E e s" for Q E s
    unfolding walletContracts_def
    by (auto simp: wp_bind that as_strs_Some account_missing_def intro!: wp_ensure_chain wp_awaitI)
  have c: "checks_only c q" if "(q, t) \<in> set (trace (action b cl kind) env s)" for q t
    using assms(1) wp_trace [OF check [OF net] _ that] wp_trace [OF check [OF acc] _ that] by blast
  have "each_send q = 0" if "checks_only c q" for q
    using that by (auto simp: checks_only_def)
  then show ?thesis using c by (fastforce simp: sent_def filter_empty_conv list_all_iff)
qed

text \<open>A wallet on network 1 that agrees to the switch and stays where it is.\<close>

theorem unchecked_wallet_signs_nothing_witness:
  "list_all (checks_only sample_config) (map fst (trace (action sample_build sample_page Start)
     (calm [RStr ''0x1'', RUnit, RStr ''0x1'']) sample_page)) \<and>
   map fst (trace (action sample_build sample_page Start) (calm [RStr ''0x1'', RUnit, RStr ''0x1'']) sample_page) =
     [Wallet eth_chainId, Wallet (wallet_switchEthereumChain (''0x'' @ show_nat 16 31337)), Wallet eth_chainId]"
proof
  have "conforms (\<lambda>q _ r _. other_network sample_config q r) (action sample_build sample_page Start)
      (calm [RStr ''0x1'', RUnit, RStr ''0x1'']) sample_page"
    by (simp add: run_simps other_network_def show_int_def)
  then show "list_all (checks_only sample_config) (map fst (trace (action sample_build sample_page Start)
     (calm [RStr ''0x1'', RUnit, RStr ''0x1'']) sample_page))"
    using unchecked_wallet_signs_nothing [of sample_config sample_build sample_page Start]
    by (simp add: sample_page_def sample_app_def state_defs initial_app_def)
  show "map fst (trace (action sample_build sample_page Start) (calm [RStr ''0x1'', RUnit, RStr ''0x1'']) sample_page) =
     [Wallet eth_chainId, Wallet (wallet_switchEthereumChain (''0x'' @ show_nat 16 31337)), Wallet eth_chainId]"
    by (simp add: run_simps show_int_def)
qed

section \<open>Switching the network\<close>

text \<open>The network the wallet is asked to switch to is the lottery's: the hexadecimal parameter reads back as
  the configured identifier, and a wallet that then reports exactly this parameter passes the check.\<close>

theorem switch_asks_for_lottery_network:
  assumes "chainId c = show_nat 10 n" and "parse_bigint x = Some m" and "show_int 10 m \<noteq> chainId c"
    and "h = ''0x'' @ show_nat 16 n"
  shows "map fst (trace (ensure_chain c) (calm [RStr x, RUnit, RStr h]) s) =
      [Wallet eth_chainId, Wallet (wallet_switchEthereumChain h), Wallet eth_chainId] \<and>
    parse_bigint h = Some (int n) \<and>
    outcome (ensure_chain c) (calm [RStr x, RUnit, RStr h]) s = Returned ()"
  using assms
  by (simp add: ensure_chain_def chain_text_def chain_hex_def await_def reply_def calm_def)

theorem switch_asks_for_lottery_network_witness:
  "map fst (trace (ensure_chain sample_config) (calm [RStr ''0x1'', RUnit, RStr (''0x'' @ show_nat 16 31337)]) sample_app) =
     [Wallet eth_chainId, Wallet (wallet_switchEthereumChain (''0x'' @ show_nat 16 31337)), Wallet eth_chainId]"
  using switch_asks_for_lottery_network [of sample_config 31337 "''0x1''" 1 "''0x'' @ show_nat 16 31337" sample_app]
  by (simp add: sample_config_def sample_chain sample_numbers show_int_def)

section \<open>Confirmation\<close>

text \<open>A transaction counts as confirmed exactly when its receipt says success, or when the wallet replaced it
  without cancelling it and the receipt of the replacement says success; the receipt handed on is that
  one, and everything else is an error.\<close>

theorem confirmed_exactly:
  "outcome (confirmed tx n) (calm [r]) s = Returned x \<longleftrightarrow>
     rc_status x = Some 1 \<and>
     (r = RReceipt (Some x) \<or>
      (\<exists>e. r = Rej e \<and> e_code e = StrCode ''TRANSACTION_REPLACED'' \<and> \<not> e_cancelled e \<and> e_receipt e = Some x))"
  by (cases r)
     (auto simp: confirmed_def await_def reply_def calm_def new_Error_def TypeError_def split: option.splits)

theorem confirmed_exactly_witness:
  "outcome (confirmed ''0x1'' 6) (calm [sample_receipt]) sample_app =
     Returned \<lparr>rc_hash = ''0x1'', rc_blockNumber = 7, rc_status = Some 1\<rparr>"
  unfolding confirmed_exactly by (simp add: sample_receipt_def)

section \<open>Every action tells how it ended\<close>

definition notice_stays :: "req \<Rightarrow> app \<Rightarrow> resp \<Rightarrow> app \<Rightarrow> bool" where
  "notice_stays q s r t \<longleftrightarrow> notice s \<noteq> [] \<longrightarrow> notice t \<noteq> []"

lemma notice_stays_calm: "conforms notice_stays p (calm rs) s"
  by (induction p arbitrary: rs s) (auto simp: calm_def notice_stays_def split: list.split)

abbreviation no_demand :: "req \<Rightarrow> app \<Rightarrow> bool" where
  "no_demand \<equiv> \<lambda>_ _. True"

lemma wp_True [simp]: "wp R no_demand p (\<lambda>_ _. True) (\<lambda>_ _. True) s"
  by (induction p arbitrary: s) simp_all

lemma wp_set_notice: "t \<noteq> [] \<Longrightarrow> wp R G (set_notice t) (\<lambda>_ s. notice s \<noteq> []) E s"
  by (simp add: set_notice_def wp_update)

lemma wp_keeps_notice:
  assumes "keeps notice p" and "notice s \<noteq> []"
  shows "wp notice_stays no_demand p (\<lambda>_ s. notice s \<noteq> []) (\<lambda>_ s. notice s \<noteq> []) s"
  using assms by (induction p arbitrary: s) (auto simp: notice_stays_def)

lemma wp_dispatch_notice:
  "wp notice_stays no_demand (dispatch b cl c w i kind) (\<lambda>_ s. notice s \<noteq> []) (\<lambda>_ _. True) s"
proof -
  have ends: "wp notice_stays no_demand (seq p q) (\<lambda>_ s. notice s \<noteq> []) (\<lambda>_ _. True) s"
    if "\<And>s. wp notice_stays no_demand q (\<lambda>_ s. notice s \<noteq> []) (\<lambda>_ _. True) s" for p q s
    unfolding wp_seq by (rule wp_mono [OF wp_True]) (simp_all add: that)
  have after: "wp notice_stays no_demand (bind p f) (\<lambda>_ s. notice s \<noteq> []) (\<lambda>_ _. True) s"
    if "\<And>a s. wp notice_stays no_demand (f a) (\<lambda>_ s. notice s \<noteq> []) (\<lambda>_ _. True) s" for p f s
    unfolding wp_bind by (rule wp_mono [OF wp_True]) (simp_all add: that)
  show ?thesis
    by (cases kind)
       (auto simp: dispatch_def act_mint_def act_buy_def buy_rest_def act_draw_def
        intro!: ends after wp_set_notice split: option.split)
qed

lemma message_not_Nil: "message e \<noteq> []"
  by (auto simp: message_def or_opt_def or_str_def split: option.split)

lemma notice_kept_by_reload: "keeps notice (refresh b cl)" "keeps notice (loadHistory b cl None)"
  unfolding refresh_def refresh_body_def loadHistory_def load_sync_def
  by (auto intro!: keeps_intros simp: state_defs split: option.split)

definition told :: "app \<Rightarrow> bool" where
  "told s = (notice s \<noteq> [] \<or> error s \<noteq> [])"

lemma told_reload:
  assumes "notice s \<noteq> []"
  shows "wp notice_stays no_demand (seq (refresh b cl) (loadHistory b cl None)) (\<lambda>_. told) (\<lambda>_ _. True) s"
  unfolding wp_seq
  by (rule wp_mono [OF wp_keeps_notice [OF notice_kept_by_reload(1) assms]])
     (auto simp: told_def intro: wp_mono [OF wp_keeps_notice [OF notice_kept_by_reload(2)]])

lemma told_dispatch:
  "wp notice_stays no_demand (seq (dispatch b cl c w i kind) (seq (refresh b cl) (loadHistory b cl None)))
     (\<lambda>_. told) (\<lambda>_ _. True) s"
  unfolding wp_seq [of _ _ "dispatch b cl c w i kind"]
  by (rule wp_mono [OF wp_dispatch_notice]) (simp_all add: told_reload)

lemma told_end_action [simp]: "told (end_action s) = told s"
  by (simp add: told_def end_action_def)

text \<open>No action ends silently: whatever the wallet, the chain and the service answer, a finished action leaves
  an error or a notice on the page, as long as no other handler removes the notice meanwhile.\<close>

theorem action_never_silent:
  assumes "conforms notice_stays (action b cl kind) env s" and "config cl = Some c" and "\<not> pending s"
    and "31 \<le> length env"
  shows "notice (final (action b cl kind) env s) \<noteq> [] \<or> error (final (action b cl kind) env s) \<noteq> []"
proof -
  have finish: "wp notice_stays no_demand (seq (dispatch b cl c w i kind) (seq (refresh b cl) (loadHistory b cl None)))
      (\<lambda>_ s. told (end_action s))
      (\<lambda>e. wp notice_stays no_demand (update (\<lambda>s. s\<lparr>error := message e\<rparr>)) (\<lambda>_ s. told (end_action s)) (\<lambda>_ _. False)) t"
    for w i t
    by (rule wp_mono [OF told_dispatch]) (simp_all add: wp_update, simp add: told_def message_not_Nil)
  have "wp notice_stays no_demand (action_body b cl c kind) (\<lambda>_ s. told (end_action s)) (\<lambda>_ s. False) (begin_action s)"
    unfolding action_body_def wp_catch wp_bind
    by (rule wp_mono [OF wp_True]) (rule finish, simp_all add: wp_update, simp add: told_def message_not_Nil)
  then have "wp notice_stays no_demand (action b cl kind) (\<lambda>_. told) (\<lambda>_ s. False) s"
    using assms(2,3) by (simp add: action_def wp_finally)
  from wp_outcome [OF this assms(1)]
  have "ends_in (outcome (action b cl kind) env s) (\<lambda>_. told) (\<lambda>_ s. False) (final (action b cl kind) env s)" .
  moreover have "finished (outcome (action b cl kind) env s)"
    using cost_finished [OF awaits_action_body assms(4), of b cl c kind "begin_action s"] assms(2,3)
    by (simp add: action_def)
  ultimately show ?thesis by (cases "outcome (action b cl kind) env s") (auto simp: told_def)
qed

theorem action_never_silent_witness:
  "let s = final (action sample_build sample_app Buy) (calm (replicate 31 (Rej (new_Error ''offline'')))) sample_app
   in notice s \<noteq> [] \<or> error s \<noteq> []"
  using action_never_silent [OF notice_stays_calm, of sample_app sample_config sample_app
      "replicate 31 (Rej (new_Error ''offline''))" sample_build Buy]
  by (simp add: Let_def calm_def sample_app_def state_defs initial_app_def)

end
