(* ===== verification/Report.thy ===== *)
theory Report
  imports Chain "HOL-Library.Sublist"
begin

text \<open>
  How the network scripts report a failure, the \<^verbatim>\<open>catch\<close> at the end of \<^verbatim>\<open>scripts/deploy-sepolia.mjs\<close> and
  \<^verbatim>\<open>scripts/check-sepolia.mjs\<close>: the innermost message of the error, with private keys, signed
  transactions and addresses of RPC services taken out.
\<close>

section \<open>The replacements\<close>

text \<open>A match of \<^verbatim>\<open>/0x[0-9a-fA-F]{64,}/\<close> at the start of a text.\<close>

definition hex_run :: "string \<Rightarrow> bool" where
  "hex_run s \<longleftrightarrow> take 2 s = ''0x'' \<and> 64 \<le> length (takeWhile hex_digit (drop 2 s))"

definition hex_mark :: string where
  "hex_mark = ''[redacted hex]''"

definition url_mark :: string where
  "url_mark = ''[RPC URL]''"

function redact_hex :: "string \<Rightarrow> string" where
  "redact_hex [] = []"
| "redact_hex (c # cs) =
     (if hex_run (c # cs) then hex_mark @ redact_hex (dropWhile hex_digit (drop 1 cs))
      else c # redact_hex cs)"
  by pat_completeness auto

termination
  by (relation "measure length")
     (auto intro!: order.strict_trans1 [OF length_dropWhile_le])

text \<open>A match of \<^verbatim>\<open>/https?:\/\/\S+/\<close>: the length of the scheme, when one and another character are there.\<close>

definition url_scheme :: "string \<Rightarrow> nat option" where
  "url_scheme s =
     (if take 7 s = ''http://'' \<and> (case drop 7 s of [] \<Rightarrow> False | c # _ \<Rightarrow> \<not> is_space c) then Some 7
      else if take 8 s = ''https://'' \<and> (case drop 8 s of [] \<Rightarrow> False | c # _ \<Rightarrow> \<not> is_space c) then Some 8
      else None)"

function redact_url :: "string \<Rightarrow> string" where
  "redact_url [] = []"
| "redact_url (c # cs) =
     (case url_scheme (c # cs) of
        Some n \<Rightarrow> url_mark @ redact_url (dropWhile (\<lambda>c. \<not> is_space c) (drop (n - 1) cs))
      | None \<Rightarrow> c # redact_url cs)"
  by pat_completeness auto

termination
  by (relation "measure length") (auto simp: less_Suc_eq_le intro!: order_trans [OF length_dropWhile_le])

section \<open>The report\<close>

text \<open>\<^verbatim>\<open>error.error?.message || error.shortMessage || error.message\<close>, then \<^verbatim>\<open>String(...)\<close>.\<close>

definition error_detail :: "jserr \<Rightarrow> string" where
  "error_detail e =
     or_opt (e_inner e) (or_opt (e_shortMessage e)
       (case e_message e of None \<Rightarrow> ''undefined'' | Some m \<Rightarrow> m))"

definition error_code :: "jserr \<Rightarrow> string" where
  "error_code e =
     (case e_code e of
        NoCode \<Rightarrow> ''CHECK_FAILED''
      | StrCode c \<Rightarrow> or_str c ''CHECK_FAILED''
      | NumCode n \<Rightarrow> if n = 0 then ''CHECK_FAILED'' else show_int 10 n)"

text \<open>What \<^verbatim>\<open>console.error\<close> prints after its heading.\<close>

definition report :: "jserr \<Rightarrow> string \<times> string" where
  "report e = (error_code e, redact_url (redact_hex (error_detail e)))"

section \<open>Copied characters\<close>

text \<open>
  A replacement starts with a bracket, so what a text without brackets shows of a result was copied.
\<close>

lemma mark_bracket:
  "n \<noteq> 0 \<Longrightarrow> CHR ''['' \<in> set (take n (hex_mark @ xs))" "n \<noteq> 0 \<Longrightarrow> CHR ''['' \<in> set (take n (url_mark @ xs))"
  by (cases n; simp add: hex_mark_def url_mark_def)+

lemma mark_start: "take 2 (hex_mark @ xs) \<noteq> ''0x''" "take 2 (url_mark @ xs) \<noteq> ''0x''"
  by (simp_all add: hex_mark_def url_mark_def)

lemma marks [simp]:
  "CHR ''0'' \<notin> set hex_mark" "CHR ''0'' \<notin> set url_mark" "CHR ''h'' \<notin> set url_mark"
  by (simp_all add: hex_mark_def url_mark_def)

lemma redact_hex_copies:
  assumes "CHR ''['' \<notin> set (take n (redact_hex s))"
  shows "take n (redact_hex s) = take n s"
  using assms
proof (induction s arbitrary: n rule: redact_hex.induct)
  case (2 c cs)
  then show ?case using mark_bracket(1) [of n] by (cases n) (auto split: if_splits)
qed simp

lemma redact_url_copies:
  assumes "CHR ''['' \<notin> set (take n (redact_url s))"
  shows "take n (redact_url s) = take n s"
  using assms
proof (induction s arbitrary: n rule: redact_url.induct)
  case (2 c cs)
  then show ?case using mark_bracket(2) [of n] by (cases n) (auto split: option.splits)
qed simp

lemma hex_run_take: "hex_run s \<longleftrightarrow> take 2 s = ''0x'' \<and> list_all hex_digit (take 64 (drop 2 s)) \<and> 66 \<le> length s"
proof -
  have "64 \<le> length (takeWhile hex_digit t) \<longleftrightarrow> list_all hex_digit (take 64 t) \<and> 64 \<le> length t" for t
  proof
    assume a: "64 \<le> length (takeWhile hex_digit t)"
    have "take 64 t = take 64 (takeWhile hex_digit t)"
      using a by (metis takeWhile_eq_take take_take min.absorb1)
    moreover have "list_all hex_digit (take 64 (takeWhile hex_digit t))"
      by (auto simp: list_all_iff dest!: in_set_takeD set_takeWhileD)
    ultimately show "list_all hex_digit (take 64 t) \<and> 64 \<le> length t"
      using a length_takeWhile_le [of hex_digit t] by simp
  next
    assume a: "list_all hex_digit (take 64 t) \<and> 64 \<le> length t"
    then have "takeWhile hex_digit (take 64 t @ drop 64 t) = take 64 t @ takeWhile hex_digit (drop 64 t)"
      by (intro takeWhile_append2) (auto simp: list_all_iff)
    then show "64 \<le> length (takeWhile hex_digit t)" using a by simp
  qed
  then show ?thesis by (auto simp: hex_run_def)
qed

lemma bracket_no_digit [simp]: "\<not> hex_digit (CHR ''['')"
  by (simp add: hex_digit_def)

lemma hex_run_no_bracket: "hex_run s \<Longrightarrow> CHR ''['' \<notin> set (take 66 s)"
proof -
  assume h: "hex_run s"
  have "take 66 s = take 2 s @ take 64 (drop 2 s)"
    using take_add [of 2 64 s] by simp
  then show ?thesis using h by (auto simp: hex_run_take list_all_iff)
qed

lemma hex_run_same_take:
  assumes "take 66 s = take 66 t"
  shows "hex_run s \<longleftrightarrow> hex_run t"
proof -
  have a: "take 2 s = take 2 t" using arg_cong [OF assms, of "take 2"] by simp
  have b: "take 64 (drop 2 s) = take 64 (drop 2 t)" using arg_cong [OF assms, of "drop 2"] by (simp add: take_drop)
  have c: "66 \<le> length s \<longleftrightarrow> 66 \<le> length t" using arg_cong [OF assms, of length] by auto
  show ?thesis unfolding hex_run_take using a b c by simp
qed

section \<open>Nothing secret is left\<close>

text \<open>A suffix of a result is the result for a suffix, or begins inside a replacement.\<close>

lemma suffix_redact_hex:
  assumes "suffix t (redact_hex s)"
  shows "(\<exists>s'. suffix s' s \<and> t = redact_hex s') \<or> (\<exists>u v. u \<noteq> [] \<and> suffix u hex_mark \<and> t = u @ v)"
  using assms
proof (induction s rule: redact_hex.induct)
  case (2 c cs)
  show ?case
  proof (cases "hex_run (c # cs)")
    case True
    have d: "suffix (dropWhile hex_digit (drop 1 cs)) (c # cs)"
      by (meson suffix_ConsI suffix_drop suffix_dropWhile suffix_order.trans)
    from 2(3) True have "suffix t (hex_mark @ redact_hex (dropWhile hex_digit (drop 1 cs)))" by simp
    then consider "suffix t (redact_hex (dropWhile hex_digit (drop 1 cs)))"
      | u where "suffix u hex_mark" "t = u @ redact_hex (dropWhile hex_digit (drop 1 cs))"
      unfolding suffix_append by blast
    then show ?thesis
    proof cases
      case 1
      then show ?thesis using 2(1) [OF True] d suffix_order.trans by blast
    next
      case 2
      then show ?thesis using d by (cases u) auto
    qed
  next
    case False
    from 2(3) False have "t = redact_hex (c # cs) \<or> suffix t (redact_hex cs)"
      by (auto simp: suffix_Cons)
    then show ?thesis using 2(2) [OF False] by (metis suffix_ConsI suffix_order.refl)
  qed
qed simp

lemma suffix_redact_url:
  assumes "suffix t (redact_url s)"
  shows "(\<exists>s'. suffix s' s \<and> t = redact_url s') \<or> (\<exists>u v. u \<noteq> [] \<and> suffix u url_mark \<and> t = u @ v)"
  using assms
proof (induction s rule: redact_url.induct)
  case (2 c cs)
  show ?case
  proof (cases "url_scheme (c # cs)")
    case (Some n)
    let ?r = "dropWhile (\<lambda>c. \<not> is_space c) (drop (n - 1) cs)"
    have d: "suffix ?r (c # cs)"
      by (meson suffix_ConsI suffix_drop suffix_dropWhile suffix_order.trans)
    from 2(3) Some have "suffix t (url_mark @ redact_url ?r)" by simp
    then consider "suffix t (redact_url ?r)" | u where "suffix u url_mark" "t = u @ redact_url ?r"
      unfolding suffix_append by blast
    then show ?thesis
    proof cases
      case 1
      then show ?thesis using 2(2) [OF Some] d suffix_order.trans by blast
    next
      case 2
      then show ?thesis using d by (cases u) auto
    qed
  next
    case None
    from 2(3) None have "t = redact_url (c # cs) \<or> suffix t (redact_url cs)"
      by (auto simp: suffix_Cons)
    then show ?thesis using 2(1) [OF None] by (metis suffix_ConsI suffix_order.refl)
  qed
qed simp

lemma redact_hex_no_run: "\<not> hex_run (redact_hex s)"
proof (cases s)
  case (Cons c cs)
  show ?thesis
  proof
    assume h: "hex_run (redact_hex s)"
    then have "take 66 (redact_hex s) = take 66 s"
      by (intro redact_hex_copies hex_run_no_bracket)
    then have "hex_run s" using h hex_run_same_take by blast
    then have "redact_hex s = hex_mark @ redact_hex (dropWhile hex_digit (drop 1 cs))"
      by (simp add: Cons)
    then show False using h mark_start(1) by (metis hex_run_def)
  qed
qed (simp add: hex_run_def)

lemma begins_inside:
  assumes "u \<noteq> []" and "suffix u r" and "CHR ''0'' \<notin> set r"
  shows "\<not> hex_run (u @ v)"
  using assms by (cases u) (auto simp: hex_run_def take_Cons' dest: set_mono_suffix)

lemma suffix_redact_hex_no_run: "suffix t (redact_hex s) \<Longrightarrow> \<not> hex_run t"
  using redact_hex_no_run begins_inside [OF _ _ marks(1)] suffix_redact_hex [of t s] by blast

lemma suffix_redact_url_no_run:
  assumes "\<And>t. suffix t s \<Longrightarrow> \<not> hex_run t" and "suffix t (redact_url s)"
  shows "\<not> hex_run t"
proof
  assume h: "hex_run t"
  have "\<exists>s'. suffix s' s \<and> t = redact_url s'"
    using suffix_redact_url [OF assms(2)] h begins_inside [OF _ _ marks(2)] by blast
  then obtain s' where s': "suffix s' s" "t = redact_url s'" by blast
  then have "take 66 t = take 66 s'"
    using redact_url_copies [of 66 s'] hex_run_no_bracket [OF h] by simp
  then have "hex_run s'" using h hex_run_same_take by blast
  then show False using assms(1) s'(1) by blast
qed

lemma redact_url_drop:
  assumes "CHR ''['' \<notin> set (take n (redact_url s))"
  shows "drop n (redact_url s) = redact_url (drop n s)"
  using assms
proof (induction s arbitrary: n rule: redact_url.induct)
  case (2 c cs)
  then show ?case using mark_bracket(2) [of n] by (cases n) (auto split: option.splits)
qed simp

lemma redact_url_first:
  "redact_url s = d # ds \<Longrightarrow> \<not> is_space d \<Longrightarrow> \<exists>c cs. s = c # cs \<and> \<not> is_space c"
  by (cases s) (auto simp: url_scheme_def is_space_def split: option.splits if_splits)

lemma url_scheme_iff:
  "url_scheme t \<noteq> None \<longleftrightarrow> (\<exists>p c cs. (p = ''http://'' \<or> p = ''https://'') \<and> t = p @ c # cs \<and> \<not> is_space c)"
proof -
  have "take n t = p \<and> (case drop n t of [] \<Rightarrow> False | c # _ \<Rightarrow> \<not> is_space c) \<longleftrightarrow>
      (\<exists>c cs. t = p @ c # cs \<and> \<not> is_space c)" (is "?l \<longleftrightarrow> ?r") if "length p = n" for n p
  proof
    assume ?l
    then show ?r using append_take_drop_id [of n t] by (cases "drop n t") auto
  next
    assume ?r
    then show ?l using that by auto
  qed
  from this [of "''http://''" 7] this [of "''https://''" 8] show ?thesis
    by (auto simp: url_scheme_def)
qed

lemma suffix_redact_url_no_url:
  assumes "suffix t (redact_url s)"
  shows "url_scheme t = None"
proof (rule ccontr)
  assume "url_scheme t \<noteq> None"
  then obtain p c cs where p: "p = ''http://'' \<or> p = ''https://''" and t: "t = p @ c # cs" and c: "\<not> is_space c"
    unfolding url_scheme_iff by blast
  have "\<exists>s'. suffix s' s \<and> t = redact_url s'"
  proof (rule ccontr)
    assume "\<nexists>s'. suffix s' s \<and> t = redact_url s'"
    then obtain u v where "u \<noteq> []" "suffix u url_mark" "t = u @ v"
      using suffix_redact_url [OF assms] by blast
    then show False using p t marks(3) by (cases u) (auto dest: set_mono_suffix)
  qed
  then obtain s' where s': "t = redact_url s'" by blast
  have "take (length p) (redact_url s') = p" and no: "CHR ''['' \<notin> set (take (length p) (redact_url s'))"
    using p t s' by auto
  with redact_url_copies [OF no] have same: "take (length p) s' = p" by simp
  have "redact_url (drop (length p) s') = c # cs"
    using redact_url_drop [OF no] t s' by (metis append_eq_conv_conj)
  from redact_url_first [OF this c] obtain d ds where "drop (length p) s' = d # ds" "\<not> is_space d" by blast
  then have "url_scheme s' \<noteq> None"
    unfolding url_scheme_iff using same p by (metis append_take_drop_id)
  then obtain n where n: "url_scheme s' = Some n" by blast
  then obtain b bs where "s' = b # bs" by (cases s') (simp_all add: url_scheme_def)
  then have "redact_url s' = url_mark @ redact_url (dropWhile (\<lambda>c. \<not> is_space c) (drop (n - 1) bs))"
    using n by simp
  then have "CHR ''['' \<in> set (take (length p) (redact_url s'))"
    using mark_bracket(2) [of "length p"] p by auto
  then show False using no by simp
qed

text \<open>C34: The detail of a reported failure carries no secret: of whatever text the failing library produced, no run of 64 or
  more hexadecimal digits after 0x (a private key, a signed transaction) and no http or https address
  (which may hold an access token) is left in it. The code in front of it is printed as it is.\<close>

theorem report_redacts:
  "\<not> (\<exists>pre k post. snd (report e) = pre @ ''0x'' @ k @ post \<and> length k = 64 \<and> list_all hex_digit k) \<and>
   \<not> (\<exists>pre p c post. p \<in> {''http://'', ''https://''} \<and> snd (report e) = pre @ p @ c # post \<and> \<not> is_space c)"
proof
  have run: "\<not> hex_run t" if "suffix t (snd (report e))" for t
    using that suffix_redact_url_no_run suffix_redact_hex_no_run unfolding report_def snd_conv by blast
  show "\<not> (\<exists>pre k post. snd (report e) = pre @ ''0x'' @ k @ post \<and> length k = 64 \<and> list_all hex_digit k)"
  proof clarify
    fix pre k post
    assume k: "snd (report e) = pre @ ''0x'' @ k @ post" "length k = 64" "list_all hex_digit k"
    have "hex_run (''0x'' @ k @ post)" using k(2,3) by (simp add: hex_run_take)
    then show False using run k(1) suffixI by metis
  qed
  show "\<not> (\<exists>pre p c post. p \<in> {''http://'', ''https://''} \<and> snd (report e) = pre @ p @ c # post \<and> \<not> is_space c)"
  proof clarify
    fix pre p c post
    assume c: "p \<in> {''http://'', ''https://''}" "snd (report e) = pre @ p @ c # post" "\<not> is_space c"
    have "url_scheme (p @ c # post) \<noteq> None" unfolding url_scheme_iff using c(1,3) by blast
    moreover have "suffix (p @ c # post) (redact_url (redact_hex (error_detail e)))"
      using c(2) by (simp add: report_def suffix_def)
    ultimately show False using suffix_redact_url_no_url by metis
  qed
qed

end
