(* ===== verification/Deploy.thy ===== *)
theory Deploy
  imports Report
begin

text \<open>
  \<^verbatim>\<open>scripts/deploy-sepolia.mjs\<close>: the deployment to the test network. Every transaction has a label; its
  hash is saved to a checkpoint file as soon as the node has taken it, so that a later run waits for
  it instead of sending it again. The file is \<open>disk\<close>, the object in memory \<open>memory\<close>; a run may stop
  at any await, and the next one starts from the file. \<open>accepted\<close> belongs to the network: the
  submissions it took, latest first, each with the hash it answered, or without one when the answer
  did not reach the script; no statement of the script touches it.
\<close>

section \<open>The checkpoint\<close>

record tx_entry =
  te_hash :: string
  te_block :: "int option"

record checkpoint =
  ck_deployer :: string
  ck_subscription :: "string option"
  ck_txs :: "string \<Rightarrow> tx_entry option"

record manifest =
  mf_chainId :: string
  mf_lotteryAddress :: string
  mf_tokenAddress :: string
  mf_tokenDecimals :: nat
  mf_daoAddress :: string
  mf_randomnessProvider :: string
  mf_deploymentBlock :: "int option"
  mf_minimumParticipants :: nat
  mf_localMock :: bool
  mf_testToken :: bool
  mf_vrfSubscriptionId :: "string option"
  mf_vrfNativePayment :: bool

record deployment =
  memory :: checkpoint
  disk :: "checkpoint option"
  local_manifest :: "manifest option"
  shared_manifest :: "manifest option"
  stderr :: "(string \<times> string) option"
  exitCode :: nat
  accepted :: "(string \<times> string option) list"

text \<open>
  The variables the run reads and the address of the deploying wallet. \<open>created_topic\<close> is the library's
  hash of \<^verbatim>\<open>SubscriptionCreated(uint256,address)\<close>.
\<close>

record settings =
  VRF_SUBSCRIPTION_ID :: "string option"
  USD8_ADDRESS :: "string option"
  DAO_ADDRESS :: "string option"
  deployer :: string
  created_topic :: string

definition set_env :: "string option \<Rightarrow> bool" where
  "set_env x = (case x of None \<Rightarrow> False | Some t \<Rightarrow> t \<noteq> [])"

definition boot :: "settings \<Rightarrow> deployment \<Rightarrow> deployment" where
  "boot v s =
     s\<lparr>memory := (case disk s of
          Some c \<Rightarrow> c
        | None \<Rightarrow> \<lparr>ck_deployer = deployer v, ck_subscription = None, ck_txs = (\<lambda>_. None)\<rparr>),
       stderr := None, exitCode := 0\<rparr>"

definition save :: "deployment \<Rightarrow> deployment" where
  "save s = s\<lparr>disk := Some (memory s)\<rparr>"

definition put_entry :: "string \<Rightarrow> tx_entry \<Rightarrow> deployment \<Rightarrow> deployment" where
  "put_entry l e s = s\<lparr>memory := (memory s)\<lparr>ck_txs := (ck_txs (memory s))(l := Some e)\<rparr>\<rparr>"

section \<open>One labelled transaction\<close>

text \<open>\<^verbatim>\<open>transact(label, send)\<close>\<close>

definition submit_once :: "string \<Rightarrow> (deployment, string) prog \<Rightarrow> (deployment, unit) prog" where
  "submit_once label send =
     Get (\<lambda>s. if ck_txs (memory s) label \<noteq> None then Ret ()
              else bind send (\<lambda>h. update (\<lambda>s. save (put_entry label \<lparr>te_hash = h, te_block = None\<rparr> s))))"

definition await_entry :: "string \<Rightarrow> tx_entry \<Rightarrow> (deployment, mined) prog" where
  "await_entry label e =
     bind (await as_mined (WaitTx (te_hash e))) (\<lambda>receipt.
       case receipt of
         None \<Rightarrow> Throw (new_Error (''Transaction failed or pending: '' @ label))
       | Some r \<Rightarrow>
           if m_status r \<noteq> Some 1 then Throw (new_Error (''Transaction failed or pending: '' @ label))
           else Upd (\<lambda>s. save (put_entry label (e\<lparr>te_block := Some (m_blockNumber r)\<rparr>) s)) (Ret r))"

definition transact_label :: "string \<Rightarrow> (deployment, string) prog \<Rightarrow> (deployment, mined) prog" where
  "transact_label label send =
     seq (submit_once label send)
       (Get (\<lambda>s. case ck_txs (memory s) label of None \<Rightarrow> Throw TypeError | Some e \<Rightarrow> await_entry label e))"

text \<open>\<^verbatim>\<open>deploy(name, args)\<close> returns the address of the new contract.\<close>

definition deploy_label :: "settings \<Rightarrow> string \<Rightarrow> arg list \<Rightarrow> (deployment, string) prog" where
  "deploy_label v name args =
     bind (transact_label (''deploy'' @ name) (await as_str (DeployTx (deployer v) name args))) (\<lambda>r.
       case m_contractAddress r of None \<Rightarrow> Throw TypeError | Some a \<Rightarrow> Ret a)"

definition send_label :: "settings \<Rightarrow> string \<Rightarrow> string \<Rightarrow> tx_call \<Rightarrow> (deployment, mined) prog" where
  "send_label v label target call = transact_label label (await as_str (Send (deployer v) target call))"

section \<open>The steps of \<^verbatim>\<open>main\<close>\<close>

definition coordinatorAddress :: string where
  "coordinatorAddress = ''0x9DdfaCa8183c41ad55329BdeeD9F6A8d53168B1B''"

definition keyHash :: string where
  "keyHash = ''0x787d74caea10b2b357790d5b5247c2f63d1d91572a9846f780606e4d953677ae''"

definition half_ether :: nat where
  "half_ether = 500000000000000000"

definition BigInt :: "string \<Rightarrow> ('s, int) prog" where
  "BigInt t = (case parse_bigint t of None \<Rightarrow> Throw (SyntaxError t) | Some n \<Rightarrow> Ret n)"

definition created_event :: "settings \<Rightarrow> mined \<Rightarrow> log option" where
  "created_event v r =
     List.find (\<lambda>e. same_address (log_address e) coordinatorAddress \<and>
                    (case log_topics e of [] \<Rightarrow> False | t # _ \<Rightarrow> t = created_topic v)) (m_logs r)"

definition new_subscription :: "settings \<Rightarrow> (deployment, string) prog" where
  "new_subscription v =
     bind (send_label v ''createSubscription'' coordinatorAddress createSubscription) (\<lambda>r.
       case created_event v r of
         None \<Rightarrow> Throw (new_Error ''SubscriptionCreated event missing'')
       | Some e \<Rightarrow>
           (case log_topics e of
              _ # t # _ \<Rightarrow> bind (BigInt t) (\<lambda>n. Ret (show_int 10 n))
            | _ \<Rightarrow> Throw TypeError))"

definition ensure_subscription :: "settings \<Rightarrow> (deployment, unit) prog" where
  "ensure_subscription v =
     Get (\<lambda>s. if set_env (ck_subscription (memory s)) then Ret ()
       else bind (if set_env (VRF_SUBSCRIPTION_ID v) then Ret (the (VRF_SUBSCRIPTION_ID v))
                  else new_subscription v) (\<lambda>i.
         update (\<lambda>s. save (s\<lparr>memory := (memory s)\<lparr>ck_subscription := Some i\<rparr>\<rparr>))))"

text \<open>\<^verbatim>\<open>state.subscriptionId\<close>, set by the previous step.\<close>

definition with_subscription :: "(string \<Rightarrow> (deployment, 'a) prog) \<Rightarrow> (deployment, 'a) prog" where
  "with_subscription f =
     Get (\<lambda>s. case ck_subscription (memory s) of None \<Rightarrow> Throw TypeError | Some i \<Rightarrow> f i)"

definition fund_subscription :: "settings \<Rightarrow> (deployment, unit) prog" where
  "fund_subscription v =
     with_subscription (\<lambda>i.
       bind (await as_sub (SignerRead (deployer v) coordinatorAddress (getSubscription i))) (\<lambda>sub.
         if \<not> same_address (sub_owner sub) (deployer v)
         then Throw (new_Error ''Deployer must own subscription'')
         else Get (\<lambda>s.
           if ck_txs (memory s) ''fundSubscription'' = None \<and> sub_native sub < half_ether
           then bind (send_label v ''fundSubscription'' coordinatorAddress
                  (fundSubscriptionWithNative i (int (half_ether - sub_native sub)))) (\<lambda>_. Ret ())
           else Ret ())))"

definition token_address :: "settings \<Rightarrow> (deployment, string) prog" where
  "token_address v =
     (if set_env (USD8_ADDRESS v) then Ret (the (USD8_ADDRESS v))
      else deploy_label v ''MockUSD8'' [ArgInt 8])"

definition provider_address :: "settings \<Rightarrow> (deployment, string) prog" where
  "provider_address v =
     with_subscription (\<lambda>i. bind (BigInt i) (\<lambda>n.
       deploy_label v ''VRFProvider''
         [ArgStr coordinatorAddress, ArgInt n, ArgStr keyHash, ArgInt 3, ArgInt 500000, ArgBool True]))"

definition dao_of :: "settings \<Rightarrow> string" where
  "dao_of v = (if set_env (DAO_ADDRESS v) then the (DAO_ADDRESS v) else deployer v)"

definition token_decimals :: "settings \<Rightarrow> string \<Rightarrow> (deployment, nat) prog" where
  "token_decimals v token = await as_nat (SignerRead (deployer v) token decimals)"

definition mint_deployer :: "settings \<Rightarrow> string \<Rightarrow> (deployment, unit) prog" where
  "mint_deployer v token =
     (if set_env (USD8_ADDRESS v) then Ret ()
      else bind (transact_label ''mintDeployer''
             (bind (token_decimals v token) (\<lambda>d.
                await as_str (Send (deployer v) token (mint (deployer v) (1000 * 10 ^ d))))))
           (\<lambda>_. Ret ()))"

definition manifest_of ::
  "settings \<Rightarrow> string \<Rightarrow> string \<Rightarrow> string \<Rightarrow> nat \<Rightarrow> checkpoint \<Rightarrow> manifest" where
  "manifest_of v token provider lottery d c =
     \<lparr>mf_chainId = ''11155111'', mf_lotteryAddress = lottery, mf_tokenAddress = token,
      mf_tokenDecimals = d, mf_daoAddress = dao_of v, mf_randomnessProvider = provider,
      mf_deploymentBlock = Option.bind (ck_txs c ''deployDLottery'') te_block,
      mf_minimumParticipants = 2, mf_localMock = False, mf_testToken = (\<not> set_env (USD8_ADDRESS v)),
      mf_vrfSubscriptionId = ck_subscription c, mf_vrfNativePayment = True\<rparr>"

definition write_manifest :: "settings \<Rightarrow> string \<Rightarrow> string \<Rightarrow> string \<Rightarrow> (deployment, unit) prog" where
  "write_manifest v token provider lottery =
     bind (token_decimals v token) (\<lambda>d.
       update (\<lambda>s. let m = manifest_of v token provider lottery d (memory s)
                   in s\<lparr>local_manifest := Some m, shared_manifest := Some m\<rparr>))"

text \<open>The contracts and the calls that connect them.\<close>

definition deploy_contracts :: "settings \<Rightarrow> (deployment, unit) prog" where
  "deploy_contracts v =
     bind (token_address v) (\<lambda>token.
     bind (provider_address v) (\<lambda>provider.
     bind (deploy_label v ''DLottery'' [ArgStr token, ArgStr (dao_of v), ArgInt 2, ArgStr provider]) (\<lambda>lottery.
     seq (send_label v ''bindLottery'' provider (setLottery lottery))
    (seq (with_subscription (\<lambda>i. send_label v ''addConsumer'' coordinatorAddress (addConsumer i provider)))
    (seq (send_label v ''startDraw'' lottery (startDraw ''0''))
    (seq (mint_deployer v token)
         (write_manifest v token provider lottery)))))))"

definition main_deploy :: "settings \<Rightarrow> (deployment, unit) prog" where
  "main_deploy v =
     bind (await as_str (RpcCall ''eth_chainId'' [])) (\<lambda>x.
     bind (BigInt x) (\<lambda>n.
       if n \<noteq> 11155111 then Throw (new_Error ''Sepolia required'')
       else Get (\<lambda>s.
         if ck_deployer (memory s) \<noteq> deployer v
         then Throw (new_Error ''Checkpoint belongs to another deployer'')
         else seq (ensure_subscription v) (seq (fund_subscription v) (deploy_contracts v)))))"

definition deploy_script :: "settings \<Rightarrow> (deployment, unit) prog" where
  "deploy_script v =
     catch (main_deploy v) (\<lambda>e. update (\<lambda>s. s\<lparr>stderr := Some (report e), exitCode := 1\<rparr>))"

end
