(* ===== verification/Resume.thy ===== *)
theory Resume
  imports Deploy
begin

text \<open>
  What the checkpoint of \<^verbatim>\<open>scripts/deploy-sepolia.mjs\<close> achieves: over any number of runs, each stopped
  wherever it may be, nothing is submitted under a label again once a submission under it was answered
  with a hash, and a finished deployment is confirmed and can be run again without effect, with the
  exception of the funding of the subscription.
\<close>

section \<open>Labels and the network\<close>

fun call_label :: "tx_call \<Rightarrow> string option" where
  "call_label createSubscription = Some ''createSubscription''"
| "call_label (fundSubscriptionWithNative i n) = Some ''fundSubscription''"
| "call_label (setLottery a) = Some ''bindLottery''"
| "call_label (addConsumer i a) = Some ''addConsumer''"
| "call_label (startDraw i) = Some ''startDraw''"
| "call_label (mint a n) = Some ''mintDeployer''"
| "call_label _ = None"

fun label_of :: "req \<Rightarrow> string option" where
  "label_of (DeployTx a n args) = Some (''deploy'' @ n)"
| "label_of (Send a t call) = call_label call"
| "label_of _ = None"

text \<open>
  The network takes a submission that it answers with a hash. One that fails, by a refusal or because
  the request timed out, may have been taken all the same, without its hash reaching the script.
\<close>

definition lost :: "string \<Rightarrow> deployment \<Rightarrow> deployment" where
  "lost l s = s\<lparr>accepted := (l, None) # accepted s\<rparr>"

definition network :: "req \<Rightarrow> deployment \<Rightarrow> resp \<Rightarrow> deployment \<Rightarrow> bool" where
  "network q s r t \<longleftrightarrow>
     (case label_of q of
        None \<Rightarrow> t = s
      | Some l \<Rightarrow>
          (case r of
             RStr h \<Rightarrow> t = s\<lparr>accepted := (l, Some h) # accepted s\<rparr>
           | _ \<Rightarrow> t = s \<or> t = lost l s))"

text \<open>Any number of runs, with any settings, each ended wherever its answers end; a submission that was on its
  way when the run was stopped may have been taken.\<close>

definition fresh_disk :: "deployment \<Rightarrow> bool" where
  "fresh_disk s \<longleftrightarrow> disk s = None \<and> accepted s = [] \<and> local_manifest s = None \<and> shared_manifest s = None"

inductive deploy_runs :: "deployment \<Rightarrow> bool" where
  no_run: "fresh_disk s \<Longrightarrow> deploy_runs s"
| one_more: "deploy_runs s \<Longrightarrow> conforms network (deploy_script v) env (boot v s) \<Longrightarrow>
     deploy_runs (final (deploy_script v) env (boot v s))"
| stopped: "deploy_runs s \<Longrightarrow> conforms network (deploy_script v) env (boot v s) \<Longrightarrow>
     outcome (deploy_script v) env (boot v s) = Waiting q \<Longrightarrow> label_of q = Some l \<Longrightarrow>
     deploy_runs (lost l (final (deploy_script v) env (boot v s)))"

section \<open>The invariant\<close>

definition saved :: "deployment \<Rightarrow> bool" where
  "saved s \<longleftrightarrow>
     disk s = Some (memory s) \<or> (disk s = None \<and> ck_txs (memory s) = (\<lambda>_. None) \<and> ck_subscription (memory s) = None)"

text \<open>The submissions answered with a hash. In an orderly history nothing was taken under a label after one of
  them.\<close>

definition answered :: "(string \<times> string option) list \<Rightarrow> (string \<times> string) list" where
  "answered xs = List.map_filter (\<lambda>(l, h). map_option (Pair l) h) xs"

lemma answered_simps [simp]:
  "answered [] = []" "answered ((l, None) # xs) = answered xs"
  "answered ((l, Some h) # xs) = (l, h) # answered xs"
  by (simp_all add: answered_def map_filter_simps)

lemma answered_append [simp]: "answered (xs @ ys) = answered xs @ answered ys"
  by (simp add: answered_def map_filter_def)

fun orderly :: "(string \<times> string option) list \<Rightarrow> bool" where
  "orderly [] = True"
| "orderly ((l, h) # xs) = (map_of (answered xs) l = None \<and> orderly xs)"

lemma orderly_last: "orderly (newer @ (l, h) # older) \<Longrightarrow> l \<in> fst ` set newer \<Longrightarrow> h = None"
proof (induction newer)
  case (Cons x newer)
  then show ?case by (cases x; cases h) (auto simp: map_of_eq_None_iff)
qed simp

lemma orderly_distinct: "orderly xs \<Longrightarrow> distinct (map fst (answered xs))"
proof (induction xs rule: orderly.induct)
  case (2 l h xs)
  then show ?case by (cases h) (auto simp: map_of_eq_None_iff)
qed simp

definition recorded :: "deployment \<Rightarrow> bool" where
  "recorded s \<longleftrightarrow>
     orderly (accepted s) \<and>
     (\<forall>l. map_of (answered (accepted s)) l = map_option te_hash (ck_txs (memory s) l))"

definition confirmed_in :: "checkpoint \<Rightarrow> string \<Rightarrow> bool" where
  "confirmed_in c l \<longleftrightarrow> (\<exists>e. ck_txs c l = Some e \<and> te_block e \<noteq> None)"

definition progress :: "string set \<Rightarrow> deployment \<Rightarrow> bool" where
  "progress L s \<longleftrightarrow> saved s \<and> recorded s \<and> (\<forall>l \<in> L. confirmed_in (memory s) l)"

text \<open>What holds whenever a request is issued: a submission is made under a label that is not recorded.\<close>

definition submitting :: "string set \<Rightarrow> req \<Rightarrow> deployment \<Rightarrow> bool" where
  "submitting L q s \<longleftrightarrow> progress L s \<and> (\<forall>l. label_of q = Some l \<longrightarrow> ck_txs (memory s) l = None)"

lemma submitting_read [simp]: "label_of q = None \<Longrightarrow> submitting L q s = progress L s"
  by (simp add: submitting_def)

lemma progress_lost: "progress L s \<Longrightarrow> ck_txs (memory s) l = None \<Longrightarrow> progress L (lost l s)"
  by (simp add: progress_def saved_def recorded_def lost_def)

lemma lost_simps [simp]: "memory (lost l s) = memory s" "disk (lost l s) = disk s"
  by (simp_all add: lost_def)

lemma network_read [simp]: "label_of q = None \<Longrightarrow> network q s r t \<longleftrightarrow> t = s"
  by (simp add: network_def)

lemma network_cases:
  assumes "network q s r t"
  obtains (same) "t = s"
    | (taken) l h where "label_of q = Some l" "r = RStr h" "t = s\<lparr>accepted := (l, Some h) # accepted s\<rparr>"
    | (lost) l where "label_of q = Some l" "t = lost l s"
  using assms by (cases r) (auto simp: network_def split: option.splits)

text \<open>What may be sent under a label: requests that read, then one submission.\<close>

definition sends_label :: "string \<Rightarrow> (deployment, string) prog \<Rightarrow> bool" where
  "sends_label l p \<longleftrightarrow>
     (\<forall>I s. (\<forall>u. I u \<longrightarrow> I (lost l u)) \<longrightarrow> I s \<longrightarrow>
        wp network (\<lambda>q u. I u \<and> label_of q \<in> {None, Some l}) p
          (\<lambda>h t. \<exists>u. I u \<and> t = u\<lparr>accepted := (l, Some h) # accepted u\<rparr>) (\<lambda>_. I) s)"

lemma sends_labelD:
  "sends_label l p \<Longrightarrow> (\<And>u. I u \<Longrightarrow> I (lost l u)) \<Longrightarrow> I s \<Longrightarrow>
     wp network (\<lambda>q u. I u \<and> label_of q \<in> {None, Some l}) p
       (\<lambda>h t. \<exists>u. I u \<and> t = u\<lparr>accepted := (l, Some h) # accepted u\<rparr>) (\<lambda>_. I) s"
  by (simp add: sends_label_def)

lemma sends_await:
  assumes "label_of q = Some l"
  shows "sends_label l (await as_str q)"
proof -
  have "case reply as_str r of Inl e \<Rightarrow> I t | Inr h \<Rightarrow> \<exists>u. I u \<and> t = u\<lparr>accepted := (l, Some h) # accepted u\<rparr>"
    if "I s" "network q s r t" "\<forall>u. I u \<longrightarrow> I (lost l u)" for I s r t
    using that assms by (cases r) (auto simp: network_def reply_def)
  then show ?thesis unfolding sends_label_def wp_await using assms by blast
qed

lemma sends_read: "label_of q = None \<Longrightarrow> (\<And>a. sends_label l (f a)) \<Longrightarrow> sends_label l (bind (await c q) f)"
  unfolding sends_label_def wp_bind by (auto intro!: wp_awaitI)

lemma progress_put:
  assumes "progress L s" and "ck_txs (memory s) l = None"
  shows "progress L (save (put_entry l \<lparr>te_hash = h, te_block = None\<rparr> (s\<lparr>accepted := (l, Some h) # accepted s\<rparr>)))"
  using assms by (auto simp: progress_def recorded_def saved_def save_def put_entry_def confirmed_in_def)

lemma progress_confirm:
  assumes "progress L s" and "ck_txs (memory s) l = Some e"
  shows "progress (insert l L) (save (put_entry l (e\<lparr>te_block := Some n\<rparr>) s))"
  using assms by (auto simp: progress_def recorded_def saved_def save_def put_entry_def confirmed_in_def)

lemma wp_transact_label:
  assumes "sends_label l send" and "progress L s"
  shows "wp network (submitting L) (transact_label l send) (\<lambda>_. progress (insert l L)) (\<lambda>_. progress L) s"
proof -
  let ?known = "\<lambda>s. progress L s \<and> ck_txs (memory s) l \<noteq> None"
    and ?I = "\<lambda>s. progress L s \<and> ck_txs (memory s) l = None"
  have wait: "wp network (submitting L)
      (Get (\<lambda>s. case ck_txs (memory s) l of None \<Rightarrow> Throw TypeError | Some e \<Rightarrow> await_entry l e))
      (\<lambda>_. progress (insert l L)) (\<lambda>_. progress L) t" if k: "?known t" for t
  proof -
    obtain e where e: "ck_txs (memory t) l = Some e" and t: "progress L t" using k by blast
    have "wp network (submitting L) (await_entry l e) (\<lambda>_. progress (insert l L)) (\<lambda>_. progress L) t"
      unfolding await_entry_def wp_bind
      by (rule wp_awaitI) (use t progress_confirm [OF t e] in \<open>auto split: option.split\<close>)
    then show ?thesis using e by simp
  qed
  have "wp network (submitting L) (submit_once l send) (\<lambda>_. ?known) (\<lambda>_. progress L) s"
  proof (cases "ck_txs (memory s) l")
    case None
    have "wp network (\<lambda>q u. ?I u \<and> label_of q \<in> {None, Some l}) send
        (\<lambda>h t. \<exists>u. ?I u \<and> t = u\<lparr>accepted := (l, Some h) # accepted u\<rparr>) (\<lambda>_. ?I) s"
      by (rule sends_labelD [OF assms(1), where I = ?I]) (simp_all add: assms(2) None progress_lost)
    then have "wp network (submitting L) send
        (\<lambda>h t. ?known (save (put_entry l \<lparr>te_hash = h, te_block = None\<rparr> t))) (\<lambda>_. progress L) s"
      by (rule wp_mono) (auto simp: progress_put submitting_def, simp add: save_def put_entry_def)
    then show ?thesis using None by (simp add: submit_once_def wp_bind wp_update_ext)
  qed (use assms in \<open>simp add: submit_once_def\<close>)
  then show ?thesis
    unfolding transact_label_def wp_seq by (rule wp_mono) (rule wait)
qed

section \<open>The whole script\<close>

lemma wp_waiting:
  assumes "wp R G p Q E s" and "conforms R p env s" and "outcome p env s = Waiting q"
  shows "G q (final p env s)"
  using assms
proof (induction p arbitrary: s env)
  case (Get k)
  show ?case using Get.IH [of s s env] Get.prems by simp
next
  case (Await q' k)
  show ?case
  proof (cases env)
    case Nil
    then show ?thesis using Await.prems by simp
  next
    case (Cons x env')
    then show ?thesis using Await.prems Await.IH [of "fst x" "snd x s" env'] by simp
  qed
qed simp_all

text \<open>
  \<open>after M p\<close>: \<open>p\<close> keeps the checkpoint and what is confirmed at every await, and when it returns the
  labels \<open>M\<close> are confirmed too.
\<close>

definition after :: "string set \<Rightarrow> (deployment, 'a) prog \<Rightarrow> bool" where
  "after M p \<longleftrightarrow>
     (\<forall>L s. progress L s \<longrightarrow> wp network (submitting L) p (\<lambda>_. progress (M \<union> L)) (\<lambda>_. progress L) s)"

named_theorems after_intros \<open>steps of the deployment and the labels they confirm\<close>

lemma progress_mono: "progress L s \<Longrightarrow> M \<subseteq> L \<Longrightarrow> progress M s"
  by (auto simp: progress_def)

lemma submitting_mono: "submitting L q s \<Longrightarrow> M \<subseteq> L \<Longrightarrow> submitting M q s"
  by (auto simp: submitting_def intro: progress_mono)

lemma afterD:
  "after M p \<Longrightarrow> progress L s \<Longrightarrow> wp network (submitting L) p (\<lambda>_. progress (M \<union> L)) (\<lambda>_. progress L) s"
  by (simp add: after_def)

lemma after_Ret [after_intros]: "after {} (Ret a)"
  and after_Throw [after_intros]: "after M (Throw e)"
  by (simp_all add: after_def)

lemma after_Get [after_intros]: "(\<And>s. after M (k s)) \<Longrightarrow> after M (Get k)"
  by (simp add: after_def)

lemma after_bind:
  assumes "after M p" and "\<And>a. after N (f a)"
  shows "after (N \<union> M) (bind p f)"
  unfolding after_def
proof (intro allI impI)
  fix L s
  assume "progress L s"
  from afterD [OF assms(1) this]
  show "wp network (submitting L) (bind p f) (\<lambda>_. progress (N \<union> M \<union> L)) (\<lambda>_. progress L) s"
    unfolding wp_bind
  proof (rule wp_mono)
    fix a t
    assume "progress (M \<union> L) t"
    from afterD [OF assms(2) this]
    show "wp network (submitting L) (f a) (\<lambda>_. progress (N \<union> M \<union> L)) (\<lambda>_. progress L) t"
      by (rule wp_mono) (auto simp: Un_assoc intro: progress_mono submitting_mono)
  qed
qed

lemma after_then [after_intros]: "after {} p \<Longrightarrow> (\<And>a. after M (f a)) \<Longrightarrow> after M (bind p f)"
  using after_bind [of "{}" p M f] by simp

lemma after_last: "after M p \<Longrightarrow> (\<And>a. after {} (f a)) \<Longrightarrow> after M (bind p f)"
  using after_bind [of M p "{}" f] by simp

lemma after_seq: "after M p \<Longrightarrow> after N q \<Longrightarrow> after (N \<union> M) (seq p q)"
  unfolding seq_def by (rule after_bind)

lemma after_weaken:
  assumes "after M p" and "N \<subseteq> M"
  shows "after N p"
  unfolding after_def
proof (intro allI impI)
  fix L s
  assume "progress L s"
  from afterD [OF assms(1) this]
  show "wp network (submitting L) p (\<lambda>_. progress (N \<union> L)) (\<lambda>_. progress L) s"
    by (rule wp_mono) (use assms(2) in \<open>auto intro: progress_mono\<close>)
qed

lemma after_await [after_intros]: "label_of q = None \<Longrightarrow> after {} (await c q)"
  by (auto simp: after_def intro!: wp_awaitI)

lemma after_update: "(\<And>L s. progress L s \<Longrightarrow> progress L (u s)) \<Longrightarrow> after {} (update u)"
  by (simp add: after_def wp_update)

lemma after_transact: "sends_label l send \<Longrightarrow> after {l} (transact_label l send)"
  by (simp add: after_def wp_transact_label)

lemma after_deploy: "after {''deploy'' @ name} (deploy_label v name args)"
  unfolding deploy_label_def
  by (rule after_last, rule after_transact, rule sends_await, rule label_of.simps)
     (auto intro: after_intros split: option.split)

lemma after_send: "call_label call = Some l \<Longrightarrow> after {l} (send_label v l target call)"
  unfolding send_label_def by (rule after_transact, rule sends_await, simp)

lemma after_BigInt [after_intros]: "after {} (BigInt t)"
  by (auto simp: BigInt_def intro: after_intros split: option.split)

lemma after_with_subscription [after_intros]: "(\<And>i. after M (f i)) \<Longrightarrow> after M (with_subscription f)"
  unfolding with_subscription_def by (rule after_Get) (auto intro: after_intros split: option.split)

lemma after_new_subscription: "after {} (new_subscription v)"
  unfolding new_subscription_def
  by (rule after_then, rule after_weaken [OF after_send])
     (auto intro!: after_intros split: option.split list.split)

lemma after_ensure: "after {} (ensure_subscription v)"
proof -
  have "after {} (update (\<lambda>s. save (s\<lparr>memory := (memory s)\<lparr>ck_subscription := Some i\<rparr>\<rparr>)))" for i
    by (rule after_update) (simp add: progress_def saved_def recorded_def save_def confirmed_in_def)
  then show ?thesis
    unfolding ensure_subscription_def by (auto intro!: after_intros after_new_subscription)
qed

lemma after_fund: "after {} (fund_subscription v)"
proof -
  have "after {} (bind (send_label v ''fundSubscription'' target (fundSubscriptionWithNative i n)) (\<lambda>_. Ret ()))"
    for target i n
    by (rule after_then, rule after_weaken [OF after_send]) (auto intro: after_intros)
  then show ?thesis
    unfolding fund_subscription_def by (auto intro!: after_intros)
qed

definition token_labels :: "settings \<Rightarrow> string set" where
  "token_labels v = (if set_env (USD8_ADDRESS v) then {} else {''deployMockUSD8''})"

definition mint_labels :: "settings \<Rightarrow> string set" where
  "mint_labels v = (if set_env (USD8_ADDRESS v) then {} else {''mintDeployer''})"

lemma after_token: "after (token_labels v) (token_address v)"
  using after_deploy [of "''MockUSD8''" v]
  by (simp add: token_address_def token_labels_def after_intros)

lemma after_provider: "after {''deployVRFProvider''} (provider_address v)"
  using after_deploy [of "''VRFProvider''" v]
  by (simp add: provider_address_def after_intros)

lemma after_mint: "after (mint_labels v) (mint_deployer v token)"
proof -
  have "sends_label ''mintDeployer'' (bind (token_decimals v token) (\<lambda>d.
      await as_str (Send (deployer v) token (mint (deployer v) (1000 * 10 ^ d)))))"
    unfolding token_decimals_def by (rule sends_read, simp) (rule sends_await, simp)
  from after_last [OF after_transact [OF this], of "\<lambda>_. Ret ()"] show ?thesis
    by (simp add: mint_deployer_def mint_labels_def after_intros)
qed

section \<open>A finished deployment\<close>

text \<open>The labels every finished deployment has confirmed. A subscription is created only when none is given,
  and funded only when it holds too little; those two labels are not among them.\<close>

definition deployed_labels :: "settings \<Rightarrow> string set" where
  "deployed_labels v =
     mint_labels v \<union> {''startDraw'', ''addConsumer'', ''bindLottery'', ''deployDLottery'', ''deployVRFProvider''} \<union>
     token_labels v"

definition complete :: "settings \<Rightarrow> deployment \<Rightarrow> bool" where
  "complete v s \<longleftrightarrow>
     progress (deployed_labels v) s \<and>
     (\<exists>m. local_manifest s = Some m \<and> shared_manifest s = Some m \<and>
        mf_deploymentBlock m = Option.bind (ck_txs (memory s) ''deployDLottery'') te_block \<and>
        mf_deploymentBlock m \<noteq> None)"

definition completes :: "string set \<Rightarrow> settings \<Rightarrow> (deployment, 'a) prog \<Rightarrow> bool" where
  "completes L v p \<longleftrightarrow>
     (\<forall>s. progress L s \<longrightarrow> wp network (submitting {}) p (\<lambda>_. complete v) (\<lambda>_. progress {}) s)"

lemma completes_bind:
  assumes "after M p" and "\<And>a. completes (M \<union> L) v (f a)"
  shows "completes L v (bind p f)"
  unfolding completes_def
proof (intro allI impI)
  fix s
  assume "progress L s"
  from afterD [OF assms(1) this]
  show "wp network (submitting {}) (bind p f) (\<lambda>_. complete v) (\<lambda>_. progress {}) s"
    unfolding wp_bind
    by (rule wp_mono) (use assms(2) in \<open>auto simp: completes_def intro: progress_mono submitting_mono\<close>)
qed

lemma completes_seq: "after M p \<Longrightarrow> completes (M \<union> L) v q \<Longrightarrow> completes L v (seq p q)"
  unfolding seq_def by (rule completes_bind)

lemma completes_manifest:
  assumes "deployed_labels v \<subseteq> L"
  shows "completes L v (write_manifest v token provider lottery)"
proof -
  have written: "complete v (let m = manifest_of v token provider lottery d (memory s)
      in s\<lparr>local_manifest := Some m, shared_manifest := Some m\<rparr>)" if "progress L s" for d s
    using assms that
    by (auto simp: complete_def progress_def saved_def recorded_def confirmed_in_def manifest_of_def
        deployed_labels_def Let_def)
  show ?thesis
    unfolding write_manifest_def token_decimals_def completes_def wp_bind
    by (intro allI impI wp_awaitI)
       (auto simp: wp_update written intro: progress_mono)
qed

lemma completes_contracts: "completes {} v (deploy_contracts v)"
proof -
  have c: "after {''addConsumer''}
      (with_subscription (\<lambda>i. send_label v ''addConsumer'' coordinatorAddress (addConsumer i p)))" for p
    by (rule after_with_subscription, rule after_send) simp
  note steps = after_token after_provider after_deploy [of "''DLottery''", simplified] c after_mint
    after_send [of "setLottery l" "''bindLottery''" for l] after_send [of "startDraw i" "''startDraw''" for i]
  show ?thesis
    unfolding deploy_contracts_def
    by (rule completes_bind completes_seq steps completes_manifest | simp)+ (auto simp: deployed_labels_def)
qed

lemma completes_deploy: "completes {} v (main_deploy v)"
proof -
  have t: "completes {} v (Throw e)" for e
    by (simp add: completes_def)
  have g: "(\<And>s. completes {} v (k s)) \<Longrightarrow> completes {} v (Get k)" for k
    by (simp add: completes_def)
  have "completes {} v (seq (ensure_subscription v) (seq (fund_subscription v) (deploy_contracts v)))"
    by (rule completes_seq [OF after_ensure], rule completes_seq [OF after_fund])
       (simp add: completes_contracts)
  then have "completes {} v (if n \<noteq> 11155111 then Throw (new_Error ''Sepolia required'')
       else Get (\<lambda>s.
         if ck_deployer (memory s) \<noteq> deployer v
         then Throw (new_Error ''Checkpoint belongs to another deployer'')
         else seq (ensure_subscription v) (seq (fund_subscription v) (deploy_contracts v))))" for n :: int
    by (auto intro!: t g)
  then show ?thesis
    unfolding main_deploy_def
    by (intro completes_bind [OF after_await] completes_bind [OF after_BigInt]) simp_all
qed

lemma wp_main_deploy:
  "progress {} s \<Longrightarrow> wp network (submitting {}) (main_deploy v) (\<lambda>_. complete v) (\<lambda>_. progress {}) s"
  using completes_deploy by (simp add: completes_def)

lemma wp_deploy_script:
  assumes "progress {} s"
  shows "wp network (submitting {}) (deploy_script v)
    (\<lambda>_ t. progress {} t \<and> (exitCode t = 0 \<longrightarrow> complete v t)) (\<lambda>_. progress {}) s"
proof -
  have told: "progress {} (t\<lparr>stderr := e, exitCode := n\<rparr>) = progress {} t" for t e n
    by (simp add: progress_def saved_def recorded_def)
  have complete: "progress {} t" if "complete v t" for t
    using that by (auto simp: complete_def intro: progress_mono)
  show ?thesis
    unfolding deploy_script_def wp_catch wp_update_ext
    by (rule wp_mono [OF wp_main_deploy [OF assms]]) (simp_all add: complete told)
qed

lemma wp_script_progress:
  "progress {} s \<Longrightarrow>
     wp network (submitting {}) (deploy_script v) (\<lambda>_. progress {}) (\<lambda>_. progress {}) s"
  by (rule wp_mono [OF wp_deploy_script]) auto

lemma progress_boot:
  assumes "progress {} s \<or> fresh_disk s"
  shows "progress {} (boot v s)"
  using assms by (auto simp: progress_def saved_def recorded_def boot_def fresh_disk_def)

lemma script_submitting:
  assumes "progress {} s" and "conforms network (deploy_script v) env s"
  shows "progress {} (final (deploy_script v) env s)"
    and "outcome (deploy_script v) env s = Waiting q \<Longrightarrow> submitting {} q (final (deploy_script v) env s)"
proof -
  show "progress {} (final (deploy_script v) env s)"
    using wp_final [OF wp_mono [OF wp_script_progress [OF assms(1)]] assms(2)] by (simp add: submitting_def)
  show "submitting {} q (final (deploy_script v) env s)" if "outcome (deploy_script v) env s = Waiting q"
    using wp_waiting [OF wp_script_progress [OF assms(1)] assms(2) that] .
qed

lemma runs_progress: "deploy_runs s \<Longrightarrow> progress {} s \<or> fresh_disk s"
proof (induction rule: deploy_runs.induct)
  case (one_more s v env)
  then show ?case using script_submitting(1) [OF progress_boot] by blast
next
  case (stopped s v env q l)
  then show ?case using script_submitting(2) [OF progress_boot] by (simp add: submitting_def progress_lost)
qed simp

section \<open>Termination\<close>

lemma awaits_transact:
  "cost each_await send n \<Longrightarrow> cost each_await (transact_label l send) (Suc n)"
proof -
  assume send: "cost each_await send n"
  have "cost each_await (submit_once l send) n"
    by (auto simp: submit_once_def intro: cost_bindI [OF send order.refl])
  moreover have "cost each_await (await_entry l e) 1" for e
    unfolding await_entry_def by (rule cost_bindI [of _ _ 1]) (auto split: option.split)
  ultimately show ?thesis
    unfolding transact_label_def by (auto intro!: cost_seqI [of _ _ n] split: option.split)
qed

lemma awaits_send_label: "cost each_await (send_label v l a call) 2"
  using awaits_transact [of "await as_str (Send (deployer v) a call)" 1 l]
  by (simp add: send_label_def numeral_2_eq_2)

lemma awaits_deploy: "cost each_await (deploy_label v name args) 2"
  using awaits_transact [of "await as_str (DeployTx (deployer v) name args)" 1 "''deploy'' @ name"]
  by (auto simp: deploy_label_def numeral_2_eq_2 intro!: cost_bindI split: option.split)

lemma awaits_BigInt: "cost each_await (BigInt t) 0"
  by (simp add: BigInt_def split: option.split)

lemma awaits_with_subscription: "(\<And>i. cost each_await (f i) n) \<Longrightarrow> cost each_await (with_subscription f) n"
  by (simp add: with_subscription_def split: option.split)

lemma awaits_ensure: "cost each_await (ensure_subscription v) 2"
proof -
  have "cost each_await (new_subscription v) 2"
    unfolding new_subscription_def
    by (rule cost_bindI [OF awaits_send_label])
       (auto intro!: cost_bindI [OF awaits_BigInt] split: option.split list.split)
  then show ?thesis
    unfolding ensure_subscription_def by (auto intro!: cost_bindI [of _ _ 2])
qed

lemma awaits_fund: "cost each_await (fund_subscription v) 3"
  unfolding fund_subscription_def
  by (auto intro!: awaits_with_subscription cost_bindI [of _ _ 1] cost_bindI [OF awaits_send_label])

lemma awaits_mint: "cost each_await (mint_deployer v token) 3"
proof -
  have "cost each_await (bind (token_decimals v token) (\<lambda>d.
      await as_str (Send (deployer v) token (mint (deployer v) (1000 * 10 ^ d))))) 2"
    unfolding token_decimals_def by (rule cost_bindI [of _ _ 1]) simp_all
  from awaits_transact [OF this] show ?thesis
    by (auto simp: mint_deployer_def intro!: cost_bindI)
qed

lemma awaits_contracts: "cost each_await (deploy_contracts v) 16"
proof -
  have t: "cost each_await (token_address v) 2"
    by (simp add: token_address_def awaits_deploy)
  have p: "cost each_await (provider_address v) 2"
    unfolding provider_address_def
    by (auto intro!: awaits_with_subscription cost_bindI [OF awaits_BigInt] awaits_deploy)
  show ?thesis
    unfolding deploy_contracts_def write_manifest_def token_decimals_def
    by (auto intro!: cost_bindI [OF t] cost_bindI [OF p] cost_bindI [OF awaits_deploy]
        cost_seqI [OF awaits_send_label] cost_seqI [OF awaits_with_subscription, of _ 2] awaits_send_label
        cost_seqI [OF awaits_mint] cost_bindI [of _ _ 1])
qed

lemma awaits_deploy_script: "cost each_await (deploy_script v) 22"
  unfolding deploy_script_def main_deploy_def
  by (auto intro!: cost_0_catch cost_bindI [of _ "await c q" 1 for c q] cost_bindI [OF awaits_BigInt]
      cost_seqI [OF awaits_ensure] cost_seqI [OF awaits_fund] cost_mono [OF awaits_contracts])

end
