(* ===== verification/Rerun.thy ===== *)
theory Rerun
  imports Resume
begin

text \<open>
  A second run of \<^verbatim>\<open>scripts/deploy-sepolia.mjs\<close> on the checkpoint of a first one: what is recorded is not
  submitted again, what this run submits is confirmed before it ends well, and a funding that is
  recorded is neither sent again nor waited for.
\<close>

section \<open>Upholding an invariant\<close>

text \<open>\<open>upholds R G I p\<close>: answered as \<open>R\<close> allows, \<open>p\<close> keeps \<open>I\<close> and makes only requests that satisfy \<open>G\<close>.\<close>

definition upholds ::
  "(req \<Rightarrow> 's \<Rightarrow> resp \<Rightarrow> 's \<Rightarrow> bool) \<Rightarrow> (req \<Rightarrow> bool) \<Rightarrow> ('s \<Rightarrow> bool) \<Rightarrow> ('s, 'a) prog \<Rightarrow> bool" where
  "upholds R G I p \<longleftrightarrow> (\<forall>s. I s \<longrightarrow> wp R (\<lambda>q s. I s \<and> G q) p (\<lambda>_. I) (\<lambda>_. I) s)"

named_theorems upholds_intros \<open>steps of a script that keep an invariant\<close>

lemma upholdsD: "upholds R G I p \<Longrightarrow> I s \<Longrightarrow> wp R (\<lambda>q s. I s \<and> G q) p (\<lambda>_. I) (\<lambda>_. I) s"
  by (simp add: upholds_def)

lemma upholds_Ret [upholds_intros]: "upholds R G I (Ret a)"
  and upholds_Throw [upholds_intros]: "upholds R G I (Throw e)"
  by (simp_all add: upholds_def)

lemma upholds_Get: "(\<And>s. I s \<Longrightarrow> upholds R G I (k s)) \<Longrightarrow> upholds R G I (Get k)"
  by (simp add: upholds_def)

lemma upholds_update: "(\<And>s. I s \<Longrightarrow> I (u s)) \<Longrightarrow> upholds R G I (update u)"
  by (simp add: upholds_def wp_update)

lemma upholds_await: "G q \<Longrightarrow> (\<And>s r t. I s \<Longrightarrow> R q s r t \<Longrightarrow> I t) \<Longrightarrow> upholds R G I (await c q)"
  by (auto simp: upholds_def intro!: wp_awaitI)

lemma upholds_bind [upholds_intros]: "upholds R G I p \<Longrightarrow> (\<And>a. upholds R G I (f a)) \<Longrightarrow> upholds R G I (bind p f)"
  unfolding upholds_def wp_bind by (blast intro: wp_mono)

lemma upholds_seq [upholds_intros]: "upholds R G I p \<Longrightarrow> upholds R G I q \<Longrightarrow> upholds R G I (seq p q)"
  unfolding seq_def by (rule upholds_bind)

lemma upholds_catch [upholds_intros]:
  "upholds R G I p \<Longrightarrow> (\<And>e. upholds R G I (h e)) \<Longrightarrow> upholds R G I (catch p h)"
  unfolding upholds_def wp_catch by (blast intro: wp_mono)

lemma upholds_BigInt [upholds_intros]: "upholds R G I (BigInt t)"
  by (auto simp: BigInt_def intro: upholds_intros split: option.split)

lemma upholds_with_subscription [upholds_intros]:
  "(\<And>i. upholds R G I (f i)) \<Longrightarrow> upholds R G I (with_subscription f)"
  unfolding with_subscription_def by (auto intro!: upholds_Get upholds_intros split: option.split)

lemma upholds_read:
  assumes "\<And>q s r t. R q s r t \<Longrightarrow> network q s r t" and "label_of q = None" and "G q"
  shows "upholds R G I (await c q)"
proof (rule upholds_await)
  fix s r t
  assume "I s" and "R q s r t"
  with assms(1) [of q s r t] assms(2) show "I t" by simp
qed (rule assms(3))

text \<open>The whole script upholds an invariant that its labelled transactions, its two steps on the subscription
  and its bookkeeping uphold.\<close>

lemma upholds_contracts:
  assumes net: "\<And>q s r t. R q s r t \<Longrightarrow> network q s r t"
    and "\<And>l q. label_of q = Some l \<Longrightarrow> l \<in> deployed_labels v \<Longrightarrow> upholds R G I (transact_label l (await as_str q))"
    and "\<And>token. \<not> set_env (USD8_ADDRESS v) \<Longrightarrow> upholds R G I (transact_label ''mintDeployer''
      (bind (token_decimals v token) (\<lambda>d. await as_str (Send (deployer v) token (mint (deployer v) (1000 * 10 ^ d))))))"
    and "\<And>q. label_of q = None \<Longrightarrow> (\<And>h. q \<noteq> WaitTx h) \<Longrightarrow> G q"
    and "\<And>s m. I s \<Longrightarrow> I (s\<lparr>local_manifest := m, shared_manifest := m\<rparr>)"
  shows "upholds R G I (deploy_contracts v)"
proof -
  have l: "''startDraw'' \<in> deployed_labels v" "''addConsumer'' \<in> deployed_labels v"
    "''bindLottery'' \<in> deployed_labels v" "''deploy'' @ ''DLottery'' \<in> deployed_labels v"
    "''deploy'' @ ''VRFProvider'' \<in> deployed_labels v"
    by (simp_all add: deployed_labels_def)
  have d: "upholds R G I (deploy_label v name args)" if "''deploy'' @ name \<in> deployed_labels v" for name args
    unfolding deploy_label_def using that
    by (auto intro!: upholds_bind assms(2) upholds_intros split: option.split)
  have sl: "upholds R G I (send_label v l t call)" if "call_label call = Some l" "l \<in> deployed_labels v" for l t call
    unfolding send_label_def using that by (auto intro!: assms(2))
  have "upholds R G I (token_address v)"
    using d [of "''MockUSD8''"]
    by (auto simp: token_address_def deployed_labels_def token_labels_def intro!: upholds_Ret)
  moreover have "upholds R G I (provider_address v)"
    unfolding provider_address_def by (intro upholds_intros d l)
  moreover have "upholds R G I (mint_deployer v t)" for t
    unfolding mint_deployer_def by (auto intro!: upholds_intros assms(3))
  moreover have "upholds R G I (write_manifest v t p y)" for t p y
    unfolding write_manifest_def token_decimals_def
    by (rule upholds_bind, rule upholds_read [OF net]) (auto intro!: upholds_update assms(4,5) simp: Let_def)
  ultimately show ?thesis
    unfolding deploy_contracts_def by (intro upholds_intros d sl l) simp_all
qed

lemma upholds_script:
  assumes net: "\<And>q s r t. R q s r t \<Longrightarrow> network q s r t"
    and "upholds R G I (ensure_subscription v)" and "upholds R G I (fund_subscription v)"
    and "upholds R G I (deploy_contracts v)"
    and "\<And>q. label_of q = None \<Longrightarrow> (\<And>h. q \<noteq> WaitTx h) \<Longrightarrow> G q"
    and "\<And>s e n. I s \<Longrightarrow> I (s\<lparr>stderr := e, exitCode := n\<rparr>)"
  shows "upholds R G I (deploy_script v)"
  unfolding deploy_script_def main_deploy_def
  by (auto intro!: upholds_intros upholds_read [OF net] upholds_Get upholds_update assms(2-))

section \<open>Running again\<close>

definition settled_before :: "settings \<Rightarrow> checkpoint \<Rightarrow> bool" where
  "settled_before v c \<longleftrightarrow>
     set_env (ck_subscription c) \<and> (\<forall>l \<in> deployed_labels v. ck_txs c l \<noteq> None)"

definition only_funds :: "req \<Rightarrow> bool" where
  "only_funds q \<longleftrightarrow> label_of q = None \<or> label_of q = Some ''fundSubscription''"

text \<open>\<open>idle v p\<close>: once everything is recorded, \<open>p\<close> submits nothing but the funding.\<close>

abbreviation idle :: "settings \<Rightarrow> (deployment, 'a) prog \<Rightarrow> bool" where
  "idle v \<equiv> upholds network only_funds (\<lambda>s. settled_before v (memory s))"

lemma network_memory: "network q s r t \<Longrightarrow> memory t = memory s"
  by (erule network_cases) simp_all

lemma settled_put: "settled_before v (memory s) \<Longrightarrow> settled_before v (memory (save (put_entry l e s)))"
  by (simp add: settled_before_def save_def put_entry_def)

lemma idle_await: "only_funds q \<Longrightarrow> idle v (await c q)"
  by (rule upholds_await) (auto dest: network_memory)

lemma idle_entry: "idle v (await_entry l e)"
  unfolding await_entry_def
  by (auto intro!: upholds_intros idle_await upholds_update [unfolded update_def] settled_put
      simp: only_funds_def upholds_def [of _ _ _ "Upd _ _"] split: option.split)

lemma idle_transact:
  assumes "l \<in> deployed_labels v \<or> idle v send"
  shows "idle v (transact_label l send)"
proof -
  have "idle v (bind send (\<lambda>h. update (\<lambda>s. save (put_entry l \<lparr>te_hash = h, te_block = None\<rparr> s))))" if "idle v send"
    using that by (intro upholds_bind upholds_update settled_put)
  then have "idle v (submit_once l send)"
    unfolding submit_once_def using assms
    by (auto intro!: upholds_Get upholds_Ret simp: settled_before_def)
  then show ?thesis
    unfolding transact_label_def
    by (auto intro!: upholds_intros upholds_Get idle_entry split: option.split)
qed

lemma idle_script: "idle v (deploy_script v)"
proof (rule upholds_script)
  show "idle v (ensure_subscription v)"
    unfolding ensure_subscription_def by (auto intro!: upholds_Get upholds_Ret simp: settled_before_def)
  have "idle v (send_label v ''fundSubscription'' a (fundSubscriptionWithNative i n))" for a i n
    unfolding send_label_def by (rule idle_transact) (auto intro: idle_await simp: only_funds_def)
  then show "idle v (fund_subscription v)"
    unfolding fund_subscription_def
    by (auto intro!: upholds_intros idle_await upholds_Get simp: only_funds_def)
  show "idle v (deploy_contracts v)"
    by (rule upholds_contracts)
       (auto intro!: idle_transact simp: only_funds_def deployed_labels_def mint_labels_def)
qed (simp_all add: only_funds_def)

section \<open>What a run submits it confirms\<close>

text \<open>Everything recorded is confirmed, except what was recorded before the run.\<close>

definition confirms :: "string set \<Rightarrow> deployment \<Rightarrow> bool" where
  "confirms T s \<longleftrightarrow> (\<forall>l. ck_txs (memory s) l \<noteq> None \<longrightarrow> l \<in> T \<or> confirmed_in (memory s) l)"

definition settles :: "(deployment, 'a) prog \<Rightarrow> bool" where
  "settles p \<longleftrightarrow>
     (\<forall>T s. confirms T s \<longrightarrow> wp network (\<lambda>_ _. True) p (\<lambda>_. confirms T) (\<lambda>_ _. True) s)"

named_theorems settles_intros \<open>steps of the deployment that leave nothing unconfirmed\<close>

lemma confirms_memory: "memory t = memory s \<Longrightarrow> confirms T t = confirms T s"
  by (simp add: confirms_def)

lemma settles_Ret [settles_intros]: "settles (Ret a)"
  and settles_Throw [settles_intros]: "settles (Throw e)"
  by (simp_all add: settles_def)

lemma settles_Get [settles_intros]: "(\<And>s. settles (k s)) \<Longrightarrow> settles (Get k)"
  by (simp add: settles_def)

lemma settles_update: "(\<And>T s. confirms T s \<Longrightarrow> confirms T (u s)) \<Longrightarrow> settles (update u)"
  by (simp add: settles_def wp_update)

lemma settles_await [settles_intros]: "settles (await c q)"
proof -
  have "confirms T t" if "confirms T s" "network q s r t" for T s r t
    using that(1) confirms_memory [OF network_memory [OF that(2)]] by simp
  then show ?thesis unfolding settles_def by (intro allI impI wp_awaitI) simp_all
qed

lemma settles_bind [settles_intros]:
  assumes "settles p" and "\<And>a. settles (f a)"
  shows "settles (bind p f)"
  unfolding settles_def wp_bind
proof (intro allI impI)
  fix T s
  assume "confirms T s"
  with assms(1) have "wp network (\<lambda>_ _. True) p (\<lambda>_. confirms T) (\<lambda>_ _. True) s"
    by (simp add: settles_def)
  then show "wp network (\<lambda>_ _. True) p (\<lambda>a. wp network (\<lambda>_ _. True) (f a) (\<lambda>_. confirms T) (\<lambda>_ _. True)) (\<lambda>_ _. True) s"
    by (rule wp_mono) (use assms(2) in \<open>simp_all add: settles_def\<close>)
qed

lemma settles_seq [settles_intros]: "settles p \<Longrightarrow> settles q \<Longrightarrow> settles (seq p q)"
  unfolding seq_def by (rule settles_bind)

lemma settles_BigInt [settles_intros]: "settles (BigInt t)"
  by (auto simp: BigInt_def intro: settles_intros split: option.split)

lemma settles_with_subscription [settles_intros]: "(\<And>i. settles (f i)) \<Longrightarrow> settles (with_subscription f)"
  unfolding with_subscription_def by (auto intro!: settles_intros split: option.split)

lemma confirms_put: "confirms T s \<Longrightarrow> confirms (insert l T) (save (put_entry l e s))"
  by (auto simp: confirms_def save_def put_entry_def confirmed_in_def)

lemma confirms_confirmed:
  "confirms (insert l T) s \<Longrightarrow> confirms T (save (put_entry l (e\<lparr>te_block := Some n\<rparr>) s))"
  by (auto simp: confirms_def save_def put_entry_def confirmed_in_def)

lemma settles_transact [settles_intros]:
  assumes "settles send"
  shows "settles (transact_label l send)"
  unfolding settles_def
proof (intro allI impI)
  fix T s
  assume s: "confirms T s"
  have "wp network (\<lambda>_ _. True) (submit_once l send) (\<lambda>_. confirms (insert l T)) (\<lambda>_ _. True) s"
  proof (cases "ck_txs (memory s) l")
    case None
    have "wp network (\<lambda>_ _. True) send (\<lambda>_. confirms T) (\<lambda>_ _. True) s"
      using assms s by (simp add: settles_def)
    then have "wp network (\<lambda>_ _. True) send
        (\<lambda>h t. confirms (insert l T) (save (put_entry l \<lparr>te_hash = h, te_block = None\<rparr> t))) (\<lambda>_ _. True) s"
      by (rule wp_mono) (simp_all add: confirms_put)
    then show ?thesis using None by (simp add: submit_once_def wp_bind wp_update_ext)
  next
    case (Some e)
    then show ?thesis using s by (auto simp: submit_once_def confirms_def)
  qed
  then show "wp network (\<lambda>_ _. True) (transact_label l send) (\<lambda>_. confirms T) (\<lambda>_ _. True) s"
    unfolding transact_label_def wp_seq
  proof (rule wp_mono)
    fix t
    assume t: "confirms (insert l T) t"
    have "wp network (\<lambda>_ _. True) (await_entry l e) (\<lambda>_. confirms T) (\<lambda>_ _. True) t" for e
      unfolding await_entry_def wp_bind
      by (rule wp_awaitI) (auto simp: confirms_confirmed t split: option.split)
    then show "wp network (\<lambda>_ _. True)
        (Get (\<lambda>s. case ck_txs (memory s) l of None \<Rightarrow> Throw TypeError | Some e \<Rightarrow> await_entry l e))
        (\<lambda>_. confirms T) (\<lambda>_ _. True) t"
      by (simp split: option.split)
  qed simp_all
qed

lemma settles_deploy [settles_intros]: "settles (deploy_label v name args)"
  and settles_send [settles_intros]: "settles (send_label v l target call)"
  unfolding deploy_label_def send_label_def by (auto intro!: settles_intros split: option.split)

lemma settles_main: "settles (main_deploy v)"
proof -
  have subscribed: "settles (update (\<lambda>s. save (s\<lparr>memory := (memory s)\<lparr>ck_subscription := i\<rparr>\<rparr>)))" for i
    by (rule settles_update) (simp add: confirms_def save_def confirmed_in_def)
  have written: "settles (write_manifest v t p y)" for t p y
    unfolding write_manifest_def token_decimals_def
    by (intro settles_bind settles_await settles_update) (simp add: confirms_def Let_def)
  have "settles (ensure_subscription v)"
    unfolding ensure_subscription_def new_subscription_def
    by (auto intro!: settles_intros subscribed split: option.split list.split)
  moreover have "settles (fund_subscription v)"
    unfolding fund_subscription_def by (auto intro!: settles_intros)
  moreover have "settles (deploy_contracts v)"
    unfolding deploy_contracts_def token_address_def provider_address_def mint_deployer_def token_decimals_def
    by (auto intro!: settles_intros written)
  ultimately show ?thesis
    unfolding main_deploy_def by (auto intro!: settles_intros)
qed

section \<open>A recorded funding\<close>

text \<open>The funding is recorded with the hash \<open>h\<close>, which is no other transaction's.\<close>

definition funded_by :: "string \<Rightarrow> deployment \<Rightarrow> bool" where
  "funded_by h s \<longleftrightarrow>
     ck_txs (memory s) ''fundSubscription'' = Some \<lparr>te_hash = h, te_block = None\<rparr> \<and>
     (\<forall>l e. ck_txs (memory s) l = Some e \<longrightarrow> te_hash e = h \<longrightarrow> l = ''fundSubscription'')"

text \<open>The network as above, where no new transaction has the hash \<open>h\<close>.\<close>

definition other_hashes :: "string \<Rightarrow> req \<Rightarrow> deployment \<Rightarrow> resp \<Rightarrow> deployment \<Rightarrow> bool" where
  "other_hashes h q s r t \<longleftrightarrow> network q s r t \<and> (label_of q \<noteq> None \<longrightarrow> r \<noteq> RStr h)"

definition leaves_funding :: "string \<Rightarrow> req \<Rightarrow> bool" where
  "leaves_funding h q \<longleftrightarrow> q \<noteq> WaitTx h \<and> label_of q \<noteq> Some ''fundSubscription''"

abbreviation spares :: "string \<Rightarrow> (deployment, 'a) prog \<Rightarrow> bool" where
  "spares h \<equiv> upholds (other_hashes h) (leaves_funding h) (funded_by h)"

lemma other_hashes_network: "other_hashes h q s r t \<Longrightarrow> network q s r t"
  by (simp add: other_hashes_def)

lemma funded_stays: "other_hashes h q s r t \<Longrightarrow> funded_by k s \<Longrightarrow> funded_by k t"
  using network_memory [OF other_hashes_network, of h q s r t] by (simp add: funded_by_def)

lemma leaves_read: "label_of q = None \<Longrightarrow> (\<And>h'. q \<noteq> WaitTx h') \<Longrightarrow> leaves_funding h q"
  by (simp add: leaves_funding_def)

lemma spares_await: "leaves_funding h q \<Longrightarrow> spares h (await c q)"
  by (rule upholds_await) (auto intro: funded_stays)

lemma funded_put:
  "funded_by h s \<Longrightarrow> l \<noteq> ''fundSubscription'' \<Longrightarrow> te_hash e \<noteq> h \<Longrightarrow> funded_by h (save (put_entry l e s))"
  by (auto simp: funded_by_def save_def put_entry_def)

lemma spares_entry:
  assumes "l \<noteq> ''fundSubscription''" and "te_hash e \<noteq> h"
  shows "spares h (await_entry l e)"
proof -
  have "spares h (Upd (\<lambda>s. save (put_entry l (e\<lparr>te_block := b\<rparr>) s)) (Ret r))" for b and r :: mined
    using assms by (simp add: upholds_def funded_put)
  then show ?thesis
    unfolding await_entry_def using assms(2)
    by (auto intro!: upholds_intros spares_await simp: leaves_funding_def split: option.split)
qed

text \<open>What is sent under another label returns another hash.\<close>

lemma wp_other_hash:
  assumes "label_of q = Some l" and "l \<noteq> ''fundSubscription''" and "funded_by h s"
  shows "wp (other_hashes h) (\<lambda>q s. funded_by h s \<and> leaves_funding h q) (await as_str q)
    (\<lambda>x t. funded_by h t \<and> x \<noteq> h) (\<lambda>_. funded_by h) s"
proof (rule wp_awaitI)
  show "funded_by h s \<and> leaves_funding h q" using assms by (auto simp: leaves_funding_def)
  fix r t
  assume r: "other_hashes h q s r t"
  then show t: "funded_by h t" using assms(3) by (rule funded_stays)
  show "funded_by h t \<and> x \<noteq> h" if "as_str r = Some x" for x
    using r t that assms(1) by (cases r) (auto simp: other_hashes_def)
qed

lemma spares_transact:
  assumes "l \<noteq> ''fundSubscription''"
    and "\<And>s. funded_by h s \<Longrightarrow> wp (other_hashes h) (\<lambda>q s. funded_by h s \<and> leaves_funding h q) send
      (\<lambda>x t. funded_by h t \<and> x \<noteq> h) (\<lambda>_. funded_by h) s"
  shows "spares h (transact_label l send)"
proof -
  have "spares h (bind send (\<lambda>x. update (\<lambda>s. save (put_entry l \<lparr>te_hash = x, te_block = None\<rparr> s))))"
    unfolding upholds_def wp_bind
    by (intro allI impI wp_mono [OF assms(2)]) (auto simp: wp_update funded_put assms(1))
  then have "spares h (submit_once l send)"
    unfolding submit_once_def by (auto intro!: upholds_Get upholds_Ret)
  moreover have "te_hash e \<noteq> h" if "funded_by h s" "ck_txs (memory s) l = Some e" for s e
    using that assms(1) by (auto simp: funded_by_def)
  ultimately show ?thesis
    unfolding transact_label_def
    using assms(1) by (intro upholds_seq upholds_Get) (auto intro: upholds_Throw spares_entry split: option.split)
qed

lemma spares_script: "spares h (deploy_script v)"
proof (rule upholds_script)
  have mint: "wp (other_hashes h) (\<lambda>q s. funded_by h s \<and> leaves_funding h q)
      (bind (token_decimals v token) (\<lambda>d. await as_str (Send (deployer v) token (mint (deployer v) (1000 * 10 ^ d)))))
      (\<lambda>x t. funded_by h t \<and> x \<noteq> h) (\<lambda>_. funded_by h) s" if "funded_by h s" for token s
    unfolding token_decimals_def wp_bind
    by (rule wp_mono [OF upholdsD [OF spares_await that]]) (auto intro!: wp_other_hash simp: leaves_read)
  show "spares h (deploy_contracts v)"
    by (rule upholds_contracts)
       (auto intro!: spares_transact wp_other_hash mint other_hashes_network leaves_read
          simp: deployed_labels_def mint_labels_def token_labels_def funded_by_def split: if_splits)
  have "spares h (update (\<lambda>s. save (s\<lparr>memory := (memory s)\<lparr>ck_subscription := i\<rparr>\<rparr>)))" for i
    by (rule upholds_update) (simp add: funded_by_def save_def)
  moreover have "spares h (new_subscription v)"
    unfolding new_subscription_def send_label_def
    by (auto intro!: upholds_intros spares_transact wp_other_hash split: option.split list.split)
  ultimately show "spares h (ensure_subscription v)"
    unfolding ensure_subscription_def by (auto intro!: upholds_intros upholds_Get)
  show "spares h (fund_subscription v)"
    unfolding fund_subscription_def
    by (auto intro!: upholds_intros upholds_Get spares_await simp: leaves_read funded_by_def)
qed (auto simp: leaves_read funded_by_def other_hashes_network)

end
