(* ===== verification/Deployments.thy ===== *)
theory Deployments
  imports Rerun Samples
begin

text \<open>
  The promises of the resumable deployment, \<^verbatim>\<open>scripts/deploy-sepolia.mjs\<close>, with a sample deployment that is
  interrupted and finished by a second run.
\<close>

section \<open>A sample deployment\<close>

definition sample_settings :: settings where
  "sample_settings =
     \<lparr>VRF_SUBSCRIPTION_ID = None, USD8_ADDRESS = None, DAO_ADDRESS = None, deployer = ''0xA'',
      created_topic = ''0xC''\<rparr>"

definition before_deployment :: deployment where
  "before_deployment =
     \<lparr>memory = \<lparr>ck_deployer = [], ck_subscription = None, ck_txs = (\<lambda>_. None)\<rparr>, disk = None,
      local_manifest = None, shared_manifest = None, stderr = None, exitCode = 0, accepted = []\<rparr>"

definition reads :: "resp \<Rightarrow> resp \<times> (deployment \<Rightarrow> deployment)" where
  "reads r = (r, \<lambda>s. s)"

definition accepts :: "string \<Rightarrow> string \<Rightarrow> resp \<times> (deployment \<Rightarrow> deployment)" where
  "accepts l h = (RStr h, \<lambda>s. s\<lparr>accepted := (l, Some h) # accepted s\<rparr>)"

definition mines :: "string option \<Rightarrow> log list \<Rightarrow> resp \<times> (deployment \<Rightarrow> deployment)" where
  "mines a ls =
     reads (RMined (Some \<lparr>m_status = Some 1, m_blockNumber = 9, m_contractAddress = a, m_logs = ls\<rparr>))"

definition sample_event :: log where
  "sample_event = \<lparr>log_address = coordinatorAddress, log_topics = [''0xC'', ''0x7'']\<rparr>"

definition sample_sub :: "nat \<Rightarrow> subscription" where
  "sample_sub n =
     \<lparr>sub_balance = 0, sub_native = n, sub_requests = 0, sub_owner = ''0xA'', sub_consumers = []\<rparr>"

text \<open>A run that is stopped while it waits for its first transaction, and the run that finishes.\<close>

definition first_answers :: "(resp \<times> (deployment \<Rightarrow> deployment)) list" where
  "first_answers = [reads (RStr ''0xaa36a7''), accepts ''createSubscription'' ''0x1'']"



lemma sample_bigints:
  "parse_bigint ''0xaa36a7'' = Some 11155111" "parse_bigint ''7'' = Some 7" "parse_bigint ''0x7'' = Some 7"
  "show_int 10 7 = ''7''"
  using show_int_of_nat [of 10 7]
  by (simp_all add: parse_bigint_def trim_def is_space_def read_nat_def digit_val_def show_nat_def sample_digits
      digits.simps [of 10 7])

lemmas deploy_defs =
  deploy_script_def main_deploy_def ensure_subscription_def new_subscription_def fund_subscription_def
  deploy_contracts_def token_address_def provider_address_def mint_deployer_def write_manifest_def
  token_decimals_def send_label_def deploy_label_def transact_label_def submit_once_def await_entry_def
  with_subscription_def BigInt_def created_event_def manifest_of_def dao_of_def set_env_def save_def
  put_entry_def boot_def await_def reply_def seq_def update_def reads_def accepts_def mines_def
  sample_event_def sample_sub_def sample_settings_def before_deployment_def sample_bigints half_ether_def Let_def




section \<open>The checkpoint's promises\<close>

text \<open>C16: Over any number of runs of the deployment, with any settings, each stopped at any point, whether or
  not a submission whose reply was lost has been taken: once the network has answered a submission
  under a label with its hash it takes no further one under that label, so what it took before and
  what precedes it are at most submissions whose reply never reached the script, and the checkpoint
  file holds the hash of exactly those it has answered.\<close>

theorem answered_submission_is_last:
  assumes "deploy_runs s"
  shows "(\<forall>newer l h older. accepted s = newer @ (l, h) # older \<longrightarrow> l \<in> fst ` set newer \<longrightarrow> h = None) \<and>
    distinct (map fst (answered (accepted s))) \<and>
    (\<forall>l. map_of (answered (accepted s)) l = map_option te_hash (Option.bind (disk s) (\<lambda>c. ck_txs c l)))"
proof -
  have "orderly (accepted s)"
    using runs_progress [OF assms] by (auto simp: progress_def recorded_def fresh_disk_def)
  moreover have "map_of (answered (accepted s)) l = map_option te_hash (Option.bind (disk s) (\<lambda>c. ck_txs c l))" for l
    using runs_progress [OF assms] by (auto simp: progress_def saved_def recorded_def fresh_disk_def)
  ultimately show ?thesis by (metis orderly_last orderly_distinct)
qed

text \<open>A run that is stopped while the request that submits its first transaction is on its way; the network has
  taken it.\<close>

definition lost_reply :: deployment where
  "lost_reply = lost ''createSubscription''
     (final (deploy_script sample_settings) [reads (RStr ''0xaa36a7'')] (boot sample_settings before_deployment))"

lemma lost_reply_state:
  "lost_reply = before_deployment
     \<lparr>memory := \<lparr>ck_deployer = ''0xA'', ck_subscription = None, ck_txs = (\<lambda>_. None)\<rparr>,
      accepted := [(''createSubscription'', None)]\<rparr>"
  by (simp add: lost_reply_def lost_def deploy_defs)

lemma lost_reply_run: "deploy_runs lost_reply"
  unfolding lost_reply_def
proof (rule stopped [OF no_run])
  show "fresh_disk before_deployment" by (simp add: fresh_disk_def before_deployment_def)
  show "conforms network (deploy_script sample_settings) [reads (RStr ''0xaa36a7'')]
      (boot sample_settings before_deployment)"
    by (simp add: deploy_defs network_def)
  show "outcome (deploy_script sample_settings) [reads (RStr ''0xaa36a7'')] (boot sample_settings before_deployment) =
      Waiting (Send ''0xA'' coordinatorAddress createSubscription)"
    by (simp add: deploy_defs)
qed simp

definition sent_again :: deployment where
  "sent_again = final (deploy_script sample_settings) first_answers (boot sample_settings lost_reply)"

lemma sent_again_run: "deploy_runs sent_again"
  unfolding sent_again_def
  by (rule one_more [OF lost_reply_run]) (simp add: lost_reply_state first_answers_def deploy_defs network_def)

text \<open>A submission whose reply is lost is made again by the next run: the checkpoint is written only after the
  reply, so the same step of the deployment is taken twice by the network.\<close>

theorem lost_reply_is_sent_again:
  "deploy_runs sent_again \<and>
   accepted sent_again = [(''createSubscription'', Some ''0x1''), (''createSubscription'', None)]"
  using sent_again_run by (simp add: sent_again_def lost_reply_state first_answers_def deploy_defs)

theorem answered_submission_is_last_witness:
  "map_of (answered (accepted sent_again)) ''createSubscription'' = Some ''0x1'' \<and>
   distinct (map fst (answered (accepted sent_again)))"
proof -
  have "disk sent_again = Some \<lparr>ck_deployer = ''0xA'', ck_subscription = None,
      ck_txs = [''createSubscription'' \<mapsto> \<lparr>te_hash = ''0x1'', te_block = None\<rparr>]\<rparr>"
    by (simp add: sent_again_def lost_reply_state first_answers_def deploy_defs)
  then show ?thesis using answered_submission_is_last [OF sent_again_run] by simp
qed



text \<open>A finished deployment can be run again: once the checkpoint records every transaction of the deployment,
  no further run submits any of them, whatever the node answers; only the subscription can be funded.\<close>

theorem rerun_submits_nothing:
  assumes "conforms network (deploy_script v) env (boot v s)" and "disk s = Some c" and "settled_before v c"
  shows "label_of ` fst ` set (trace (deploy_script v) env (boot v s)) \<subseteq> {None, Some ''fundSubscription''}"
proof -
  have "settled_before v (memory (boot v s))" using assms(2,3) by (simp add: boot_def)
  from wp_trace [OF upholdsD [OF idle_script this] assms(1)] show ?thesis by (fastforce simp: only_funds_def)
qed

text \<open>The checkpoint of a deployment whose funding was sent but never seen to succeed.\<close>

definition entry_at :: "int \<Rightarrow> tx_entry" where
  "entry_at n = \<lparr>te_hash = ''0x2'', te_block = Some n\<rparr>"

definition unfunded :: checkpoint where
  "unfunded =
     \<lparr>ck_deployer = ''0xA'', ck_subscription = Some ''7'',
      ck_txs =
        [''fundSubscription'' \<mapsto> \<lparr>te_hash = ''0x1'', te_block = None\<rparr>, ''deployMockUSD8'' \<mapsto> entry_at 1,
         ''deployVRFProvider'' \<mapsto> entry_at 2, ''deployDLottery'' \<mapsto> entry_at 3, ''bindLottery'' \<mapsto> entry_at 4,
         ''addConsumer'' \<mapsto> entry_at 5, ''startDraw'' \<mapsto> entry_at 6, ''mintDeployer'' \<mapsto> entry_at 7]\<rparr>"

definition unfunded_answers :: "(resp \<times> (deployment \<Rightarrow> deployment)) list" where
  "unfunded_answers =
     [reads (RStr ''0xaa36a7''), reads (RSub (sample_sub 0)), mines (Some ''0x33'') [], mines (Some ''0x44'') [],
      mines (Some ''0x55'') [], mines None [], mines None [], mines None [], mines None [], reads (RNat 8)]"

definition unfunded_start :: deployment where
  "unfunded_start = boot sample_settings (before_deployment\<lparr>disk := Some unfunded\<rparr>)"

lemma unfunded_conform:
  "conforms (other_hashes ''0x1'') (deploy_script sample_settings) unfunded_answers unfunded_start"
  "conforms network (deploy_script sample_settings) unfunded_answers unfunded_start"
  by (simp_all add: unfunded_start_def unfunded_answers_def unfunded_def entry_at_def deploy_defs other_hashes_def)

theorem rerun_submits_nothing_witness:
  "label_of ` fst ` set (trace (deploy_script sample_settings) unfunded_answers unfunded_start)
     \<subseteq> {None, Some ''fundSubscription''}"
proof -
  have "settled_before sample_settings unfunded"
    by (simp add: settled_before_def deployed_labels_def mint_labels_def token_labels_def unfunded_def
        sample_settings_def set_env_def)
  then show ?thesis
    using rerun_submits_nothing [OF unfunded_conform(2) [unfolded unfunded_start_def]]
    by (simp add: unfunded_start_def)
qed

text \<open>C35: A funding of the subscription that an earlier run recorded is never confirmed: when that run was
  stopped after it sent the funding, no later run waits for the transaction, asks for its receipt or
  sends a funding again, whatever the node answers, and the checkpoint keeps its hash without a
  block. (Its hash is that of no other transaction, neither recorded nor sent by this run.)\<close>

theorem funding_is_never_confirmed:
  assumes "conforms (other_hashes h) (deploy_script v) env (boot v s)" and "disk s = Some c"
    and "ck_txs c ''fundSubscription'' = Some \<lparr>te_hash = h, te_block = None\<rparr>"
    and "\<And>l e. ck_txs c l = Some e \<Longrightarrow> te_hash e = h \<Longrightarrow> l = ''fundSubscription''"
  shows "ck_txs (memory (final (deploy_script v) env (boot v s))) ''fundSubscription'' =
      Some \<lparr>te_hash = h, te_block = None\<rparr> \<and>
    (\<forall>q \<in> fst ` set (trace (deploy_script v) env (boot v s)).
       q \<noteq> WaitTx h \<and> label_of q \<noteq> Some ''fundSubscription'')"
proof -
  have "memory (boot v s) = c" using assms(2) by (simp add: boot_def)
  then have "funded_by h (boot v s)" unfolding funded_by_def using assms(3,4) by blast
  note w = upholdsD [OF spares_script this, of v]
  have "funded_by h (final (deploy_script v) env (boot v s))"
    by (rule wp_final [OF wp_mono [OF w] assms(1)]) simp_all
  moreover have "leaves_funding h q" if q: "q \<in> fst ` set (trace (deploy_script v) env (boot v s))" for q
  proof -
    obtain t where "(q, t) \<in> set (trace (deploy_script v) env (boot v s))" using q by auto
    from wp_trace [OF w assms(1) this] show ?thesis by simp
  qed
  ultimately show ?thesis unfolding funded_by_def leaves_funding_def by blast
qed

text \<open>Such a run can end with exit code zero and a manifest while the subscription has no funds.\<close>

theorem funding_is_never_confirmed_witness:
  "let t = final (deploy_script sample_settings) unfunded_answers unfunded_start
   in exitCode t = 0 \<and> shared_manifest t \<noteq> None \<and>
      ck_txs (memory t) ''fundSubscription'' = Some \<lparr>te_hash = ''0x1'', te_block = None\<rparr> \<and>
      WaitTx ''0x1'' \<notin> fst ` set (trace (deploy_script sample_settings) unfunded_answers unfunded_start)"
proof -
  define t where "t = final (deploy_script sample_settings) unfunded_answers unfunded_start"
  have e: "exitCode t = 0" "shared_manifest t \<noteq> None"
    by (simp_all add: t_def unfunded_start_def unfunded_answers_def unfunded_def entry_at_def deploy_defs)
  have c: "disk (before_deployment\<lparr>disk := Some unfunded\<rparr>) = Some unfunded"
    "ck_txs unfunded ''fundSubscription'' = Some \<lparr>te_hash = ''0x1'', te_block = None\<rparr>"
    by (simp_all add: unfunded_def)
  have o: "l = ''fundSubscription''" if "ck_txs unfunded l = Some e" "te_hash e = ''0x1''" for l e
    using that by (auto simp: unfunded_def entry_at_def split: if_splits)
  have kept: "ck_txs (memory t) ''fundSubscription'' = Some \<lparr>te_hash = ''0x1'', te_block = None\<rparr> \<and>
      (\<forall>q \<in> fst ` set (trace (deploy_script sample_settings) unfunded_answers unfunded_start).
         q \<noteq> WaitTx ''0x1'' \<and> label_of q \<noteq> Some ''fundSubscription'')"
    unfolding t_def unfunded_start_def
    by (rule funding_is_never_confirmed [OF unfunded_conform(1) [unfolded unfunded_start_def] c o])
  show ?thesis unfolding t_def [symmetric] Let_def using e kept by blast
qed

end
