(* ===== verification/Processes.thy ===== *)
theory Processes
  imports Report
begin

text \<open>
  \<^verbatim>\<open>scripts/processes.mjs\<close>: running commands, waiting for services, and starting and stopping child
  processes on a POSIX system. A child is its index in \<open>procs\<close>. What Node knows of it (\<open>pr_exited\<close>: an exit
  code or a signal was reported) lags behind what is the case (\<open>pr_alive\<close>), which only the operating
  system changes. Node starts a child synchronously, so \<open>child\<close> is a state update.
\<close>

section \<open>The host\<close>

record process =
  pr_command :: string
  pr_args :: "string list"
  pr_env :: "(string \<times> string) list"
  pr_alive :: bool
  pr_exited :: bool

record host =
  procs :: "process list"
  children :: "nat list"
  clock :: int
  present :: "string \<Rightarrow> bool"
  ld_path :: "string option"
  stopping :: bool
  exit_with :: "int option"

text \<open>
  The loops are bounded by a number of rounds that they never use up (shown below), so that this error
  is never seen.
\<close>

definition out_of_rounds :: jserr where
  "out_of_rounds = (new_Error ''out of rounds'')\<lparr>e_code := StrCode ''OUT_OF_ROUNDS''\<rparr>"

lemma TypeError_rounds [simp]: "TypeError \<noteq> out_of_rounds"
  and new_Error_rounds [simp]: "new_Error m \<noteq> out_of_rounds"
  by (simp_all add: TypeError_def new_Error_def out_of_rounds_def)

section \<open>Commands and waiting\<close>

text \<open>\<^verbatim>\<open>run(command, args)\<close>: an exit code other than zero, or a signal, is an error.\<close>

definition run_command :: "string \<Rightarrow> string list \<Rightarrow> (host, unit) prog" where
  "run_command command args =
     bind (await as_exit (Run command args)) (\<lambda>status.
       if status \<noteq> Some 0
       then Throw (new_Error (command @ '' exited with '' @
              (case status of None \<Rightarrow> ''null'' | Some n \<Rightarrow> show_int 10 n)))
       else Ret ())"

text \<open>\<^verbatim>\<open>waitFor(url, predicate, timeout)\<close>, from the time \<open>til\<close> is fixed.\<close>

fun wait_loop :: "nat \<Rightarrow> string \<Rightarrow> (bool \<times> nat \<Rightarrow> (host, bool) prog) \<Rightarrow> int \<Rightarrow> (host, unit) prog" where
  "wait_loop n url predicate til =
     Get (\<lambda>s. if clock s < til
       then (case n of
          0 \<Rightarrow> Throw out_of_rounds
        | Suc m \<Rightarrow>
            bind (catch (bind (await as_http (Fetch url)) predicate) (\<lambda>_. Ret False)) (\<lambda>ok.
              if ok then Ret ()
              else seq (await as_any (Sleep 250)) (wait_loop m url predicate til)))
       else Throw (new_Error (''Timed out waiting for '' @ url)))"

definition waitFor :: "string \<Rightarrow> (bool \<times> nat \<Rightarrow> (host, bool) prog) \<Rightarrow> (host, unit) prog" where
  "waitFor url predicate = Get (\<lambda>s. wait_loop 181 url predicate (clock s + 45000))"

definition is_ok :: "bool \<times> nat \<Rightarrow> (host, bool) prog" where
  "is_ok r = Ret (fst r)"

definition freePort :: "int \<Rightarrow> (host, unit) prog" where
  "freePort port =
     catch (await as_any (Listen port))
       (\<lambda>_. Throw (new_Error (''Port '' @ show_int 10 port @
          '' is already in use. Stop the existing service or choose another port.'')))"

section \<open>Children\<close>

text \<open>\<^verbatim>\<open>child(command, args, log, options)\<close>; of the options the variables set for the child are kept.\<close>

definition spawn :: "string \<Rightarrow> string list \<Rightarrow> (string \<times> string) list \<Rightarrow> host \<Rightarrow> host" where
  "spawn command args env s =
     s\<lparr>procs := procs s @
       [\<lparr>pr_command = command, pr_args = args, pr_env = env, pr_alive = True, pr_exited = False\<rparr>]\<rparr>"

definition child :: "string \<Rightarrow> string list \<Rightarrow> (string \<times> string) list \<Rightarrow> (host, nat) prog" where
  "child command args env = Get (\<lambda>s. Upd (spawn command args env) (Ret (length (procs s))))"

definition exited :: "host \<Rightarrow> nat \<Rightarrow> bool" where
  "exited s p \<longleftrightarrow> pr_exited (procs s ! p)"

text \<open>\<^verbatim>\<open>process.kill(-pid, signal)\<close> in a \<^verbatim>\<open>try\<close>: whether the signal was delivered.\<close>

definition try_kill :: "nat \<Rightarrow> string \<Rightarrow> (host, bool) prog" where
  "try_kill p signal = catch (seq (await as_any (Kill p signal)) (Ret True)) (\<lambda>_. Ret False)"

definition stop :: "nat \<Rightarrow> (host, unit) prog" where
  "stop p =
     Get (\<lambda>s. if exited s p then Ret ()
       else bind (try_kill p ''SIGTERM'') (\<lambda>sent.
         if \<not> sent then Ret ()
         else seq (await as_any (WaitExit p 7000))
           (Get (\<lambda>s. if \<not> exited s p then seq (try_kill p ''SIGKILL'') (Ret ()) else Ret ()))))"

section \<open>The local database\<close>

text \<open>The connection attempts of \<^verbatim>\<open>check\<close>, every tenth of a second for ten seconds.\<close>

fun dial_loop :: "nat \<Rightarrow> int \<Rightarrow> int \<Rightarrow> (host, unit) prog" where
  "dial_loop n port til =
     bind (catch (seq (await as_any (Dial port)) (Ret True)) (\<lambda>_. Ret False)) (\<lambda>ok.
       if ok then Ret ()
       else Get (\<lambda>s. if til < clock s
              then Throw (new_Error ''PostgreSQL did not start; see its log'')
              else (case n of
                 0 \<Rightarrow> Throw out_of_rounds
               | Suc m \<Rightarrow> seq (await as_any (Sleep 100)) (dial_loop m port til))))"

definition await_database :: "int \<Rightarrow> (host, unit) prog" where
  "await_database port = Get (\<lambda>s. dial_loop 101 port (clock s + 10000))"

definition set_var :: "string option \<Rightarrow> bool" where
  "set_var x = (case x of None \<Rightarrow> False | Some t \<Rightarrow> t \<noteq> [])"

definition native :: "string \<Rightarrow> string" where
  "native root = root @ ''/node_modules/@embedded-postgres/linux-x64/native''"

definition initdb_args :: "string \<Rightarrow> string list" where
  "initdb_args data = [''-D'', data, ''-U'', ''dlottery'', ''--auth=trust'', ''--no-locale'', ''-E'', ''UTF8'']"

definition postgres_args :: "string \<Rightarrow> int \<Rightarrow> string list" where
  "postgres_args directory port =
     [''-D'', directory @ ''/data'', ''-p'', show_int 10 port, ''-h'', ''127.0.0.1'', ''-k'', directory @ ''/socket'']"

definition database_url :: "int \<Rightarrow> string" where
  "database_url port = ''postgres://dlottery@127.0.0.1:'' @ show_int 10 port @ ''/postgres?sslmode=disable''"

text \<open>\<^verbatim>\<open>LD_LIBRARY_PATH\<close>: the libraries beside the binaries, before what was set.\<close>

definition library_env :: "string \<Rightarrow> string option \<Rightarrow> (string \<times> string) list" where
  "library_env root old =
     [(''LD_LIBRARY_PATH'', native root @ ''/lib'' @ (if set_var old then '':'' @ the old else []))]"

definition start_postgres :: "string \<Rightarrow> string \<Rightarrow> int \<Rightarrow> (host, nat) prog" where
  "start_postgres root directory port =
     Get (\<lambda>s. bind (child (native root @ ''/bin/postgres'') (postgres_args directory port)
           (library_env root (ld_path s))) (\<lambda>p.
       seq (catch (await_database port) (\<lambda>e. seq (stop p) (Throw e))) (Ret p)))"

definition postgres :: "string \<Rightarrow> string \<Rightarrow> int \<Rightarrow> (host, nat \<times> string) prog" where
  "postgres root directory port =
     Get (\<lambda>s. if \<not> present s (native root)
       then Throw (new_Error ''The local PostgreSQL helper needs Linux x64. Use Docker Compose or provide TEST_DATABASE_URL for backend tests on other platforms.'')
       else seq (freePort port)
         (seq (run_command ''node'' [''scripts/hydrate-symlinks.js''])
         (seq (Get (\<lambda>s. if \<not> present s (directory @ ''/data/PG_VERSION'')
                    then run_command (native root @ ''/bin/initdb'') (initdb_args (directory @ ''/data'')) else Ret ()))
           (bind (start_postgres root directory port) (\<lambda>p. Ret (p, database_url port))))))"

end
