(* ===== verification/Stack.thy ===== *)
theory Stack
  imports Processes
begin

text \<open>
  \<^verbatim>\<open>scripts/stack.mjs\<close>: the local stack of chain, database, history service and page. \<open>startStack\<close> starts
  the four processes one after another and registers each; when anything fails it stops them all in
  reverse order. \<open>restartBackend\<close> replaces the history service.
\<close>

record ports =
  rpc_port :: int
  api_port :: int
  web_port :: int
  db_port :: int

text \<open>
  \<open>demo_web_port\<close> is \<^verbatim>\<open>Number(process.env.DEMO_WEB_PORT || 5173)\<close>, \<^const>\<open>None\<close> when that is no integer.
\<close>

definition ports_of :: "bool \<Rightarrow> int option \<Rightarrow> ports option" where
  "ports_of isolated demo_web_port =
     (if isolated then Some \<lparr>rpc_port = 18545, api_port = 18081, web_port = 15173, db_port = 55435\<rparr>
      else case demo_web_port of
        None \<Rightarrow> None
      | Some w \<Rightarrow>
          if w < 1 \<or> 65535 < w then None
          else Some \<lparr>rpc_port = 8545, api_port = 8081, web_port = w, db_port = 55432\<rparr>)"

definition base_dir :: "string \<Rightarrow> bool \<Rightarrow> string" where
  "base_dir root isolated = root @ ''/.local/'' @ (if isolated then ''verify'' else ''demo'')"

definition local_url :: "int \<Rightarrow> string" where
  "local_url port = ''http://127.0.0.1:'' @ show_int 10 port"

definition hardhat :: "string \<Rightarrow> string" where
  "hardhat root = root @ ''/node_modules/hardhat/internal/cli/cli.js''"

text \<open>The variables set for the services.\<close>

definition service_env :: "string \<Rightarrow> bool \<Rightarrow> ports \<Rightarrow> string \<Rightarrow> (string \<times> string) list" where
  "service_env root isolated ps db_url =
     [(''RPC_HTTP_URL'', local_url (rpc_port ps)), (''DATABASE_URL'', db_url), (''CONFIRMATIONS'', ''0''),
      (''POLL_INTERVAL_MS'', ''200''), (''PORT'', show_int 10 (api_port ps)),
      (''DEPLOYMENT_FILE'', base_dir root isolated @ ''/deployment.json''),
      (''CORS_ORIGINS'', local_url (web_port ps) @ '',http://localhost:'' @ show_int 10 (web_port ps)),
      (''VITE_RPC_URL'', local_url (rpc_port ps)), (''API_PROXY_TARGET'', local_url (api_port ps))]"

definition push_child :: "nat \<Rightarrow> (host, unit) prog" where
  "push_child p = update (\<lambda>s. s\<lparr>children := children s @ [p]\<rparr>)"

text \<open>\<^verbatim>\<open>shutdown\<close>: every child, the last started first.\<close>

fun stop_all :: "nat list \<Rightarrow> (host, unit) prog" where
  "stop_all [] = Ret ()"
| "stop_all (p # ps) = seq (stop p) (stop_all ps)"

definition shutdown :: "(host, unit) prog" where
  "shutdown = Get (\<lambda>s. stop_all (rev (children s)))"

section \<open>Starting\<close>

definition copy_file :: "string \<Rightarrow> string \<Rightarrow> (host, unit) prog" where
  "copy_file src dst =
     Get (\<lambda>s. if present s src then update (\<lambda>s. s\<lparr>present := (present s)(dst := True)\<rparr>)
              else Throw (new_Error (''ENOENT: '' @ src)))"

text \<open>The predicate of the chain: the answer to \<^verbatim>\<open>eth_chainId\<close> is that of the local network.\<close>

definition chain_ready :: "bool \<times> nat \<Rightarrow> (host, bool) prog" where
  "chain_ready r = bind (await as_str (RpcCall ''eth_chainId'' [])) (\<lambda>x. Ret (x = ''0x7a69''))"

definition start_chain :: "string \<Rightarrow> ports \<Rightarrow> (string \<times> string) list \<Rightarrow> (host, unit) prog" where
  "start_chain root ps env =
     bind (child ''node'' [hardhat root, ''node'', ''--hostname'', ''127.0.0.1'', ''--port'', show_int 10 (rpc_port ps)]
         env) (\<lambda>p.
     seq (push_child p)
    (seq (waitFor (local_url (rpc_port ps)) chain_ready)
         (run_command ''node''
            [hardhat root, ''run'', ''--no-compile'', ''scripts/deploy.cjs'', ''--network'', ''localhost''])))"

definition start_backend :: "string \<Rightarrow> bool \<Rightarrow> ports \<Rightarrow> (string \<times> string) list \<Rightarrow> (host, nat) prog" where
  "start_backend root isolated ps env =
     bind (child (base_dir root isolated @ ''/server'') [] env) (\<lambda>p.
     seq (push_child p)
    (seq (waitFor (local_url (api_port ps) @ ''/readyz'') is_ok) (Ret p)))"

definition start_web :: "string \<Rightarrow> ports \<Rightarrow> (string \<times> string) list \<Rightarrow> (host, unit) prog" where
  "start_web root ps env =
     bind (child ''node'' [root @ ''/node_modules/vite/bin/vite.js'', ''--host'', ''127.0.0.1'', ''--port'',
        show_int 10 (web_port ps), ''--strictPort''] env) (\<lambda>p.
     seq (push_child p) (waitFor (local_url (web_port ps)) is_ok))"

definition services_on :: "string \<Rightarrow> bool \<Rightarrow> ports \<Rightarrow> (string \<times> string) list \<Rightarrow> (host, nat) prog" where
  "services_on root isolated ps env =
     seq (start_chain root ps env)
    (seq (if isolated then Ret ()
          else copy_file (base_dir root isolated @ ''/deployment.json'') (root @ ''/shared/deployment.json''))
    (seq (run_command ''go'' [''build'', ''-o'', base_dir root isolated @ ''/server'', ''./cmd/server''])
    (bind (start_backend root isolated ps env) (\<lambda>backend.
     seq (start_web root ps env) (Ret backend)))))"

definition start_services :: "string \<Rightarrow> bool \<Rightarrow> ports \<Rightarrow> (host, nat) prog" where
  "start_services root isolated ps =
     seq (freePort (rpc_port ps)) (seq (freePort (api_port ps)) (seq (freePort (web_port ps))
    (bind (postgres root (base_dir root isolated @ ''/postgres'') (db_port ps)) (\<lambda>(p, url).
     seq (push_child p) (services_on root isolated ps (service_env root isolated ps url))))))"

text \<open>\<^verbatim>\<open>startStack\<close>; the result is the history service's process.\<close>

definition startStack :: "string \<Rightarrow> bool \<Rightarrow> int option \<Rightarrow> (host, nat) prog" where
  "startStack root isolated demo_web_port =
     (case ports_of isolated demo_web_port of
        None \<Rightarrow> Throw (new_Error ''DEMO_WEB_PORT must be an integer between 1 and 65535.'')
      | Some ps \<Rightarrow>
          Upd (\<lambda>s. s\<lparr>children := []\<rparr>)
            (catch (start_services root isolated ps) (\<lambda>e. seq shutdown (Throw e))))"

text \<open>\<^verbatim>\<open>restartBackend\<close>, a closure over the process of the first start.\<close>

definition restartBackend ::
  "string \<Rightarrow> bool \<Rightarrow> ports \<Rightarrow> (string \<times> string) list \<Rightarrow> nat \<Rightarrow> (host, nat) prog" where
  "restartBackend root isolated ps env backend = seq (stop backend) (start_backend root isolated ps env)"

section \<open>The two users\<close>

text \<open>
  \<^verbatim>\<open>scripts/local.mjs\<close>: build, start, and on a signal stop everything, once. Further signals while the
  stack is being stopped do nothing.
\<close>

definition local_main :: "string \<Rightarrow> int option \<Rightarrow> (host, nat) prog" where
  "local_main root demo_web_port =
     seq (run_command ''npm'' [''run'', ''build'']) (startStack root False demo_web_port)"

definition on_signal :: "(host, unit) prog" where
  "on_signal =
     Get (\<lambda>s. if stopping s then Ret ()
       else Upd (\<lambda>s. s\<lparr>stopping := True\<rparr>)
         (seq shutdown (update (\<lambda>s. s\<lparr>exit_with := Some 0\<rparr>))))"

text \<open>\<^verbatim>\<open>try { p } finally { await q }\<close>\<close>

definition finally_run :: "('s, 'a) prog \<Rightarrow> ('s, unit) prog \<Rightarrow> ('s, 'a) prog" where
  "finally_run p q =
     bind (catch (bind p (\<lambda>a. Ret (Inr a))) (\<lambda>e. Ret (Inl e))) (\<lambda>r.
       seq q (case r of Inl e \<Rightarrow> Throw e | Inr a \<Rightarrow> Ret a))"

text \<open>
  \<^verbatim>\<open>scripts/test-backend.mjs\<close>: the tests of the service, on a database of their own unless one is given.
  \<open>children\<close> holds the variable \<^verbatim>\<open>db\<close>.
\<close>

definition test_backend :: "string \<Rightarrow> string option \<Rightarrow> (host, unit) prog" where
  "test_backend root given =
     Upd (\<lambda>s. s\<lparr>children := []\<rparr>)
       (finally_run
          (seq (if given \<noteq> None \<and> given \<noteq> Some [] then Ret ()
                else bind (postgres root (root @ ''/.local/backend-tests'') 55434) (\<lambda>(p, url). push_child p))
             (run_command ''go'' [''test'', ''-race'', ''-count=1'', ''./...'']))
          (Get (\<lambda>s. stop_all (children s))))"

end
