(* ===== verification/Supervision.thy ===== *)
theory Supervision
  imports Stack
begin

text \<open>
  What the process handling of \<^verbatim>\<open>scripts/\<close> guarantees on an operating system that behaves as
  documented: waiting ends, \<open>stop\<close> leaves a dead process, and whoever starts the stack or the test
  database leaves no process behind when it fails or when it stops what it started.
\<close>

section \<open>The operating system\<close>

abbreviation running :: "host \<Rightarrow> nat \<Rightarrow> bool" where
  "running s p \<equiv> pr_alive (procs s ! p)"

text \<open>
  Between two steps of a script processes may end, Node may learn of it, files may appear and time passes,
  at least as long as was slept. A signal is refused only when the process has gone, and \<^verbatim>\<open>SIGKILL\<close> ends
  it. No error of a library is the one reserved for the bounded loops.
\<close>

definition os_step :: "req \<Rightarrow> host \<Rightarrow> resp \<Rightarrow> host \<Rightarrow> bool" where
  "os_step q s r t \<longleftrightarrow>
     length (procs t) = length (procs s) \<and> children t = children s \<and>
     stopping t = stopping s \<and> exit_with t = exit_with s \<and>
     (\<forall>p < length (procs s). (running t p \<longrightarrow> running s p) \<and> (exited t p \<longrightarrow> exited s p \<or> \<not> running t p)) \<and>
     clock s \<le> clock t \<and>
     (case q of
        Sleep ms \<Rightarrow> clock s + int ms \<le> clock t
      | WaitExit p ms \<Rightarrow> (\<forall>e. r \<noteq> Rej e)
      | Kill p signal \<Rightarrow>
          (\<exists>e. r = Rej e) \<or> signal = ''SIGKILL'' \<longrightarrow> \<not> running t p
      | _ \<Rightarrow> True) \<and>
     (\<forall>e. r = Rej e \<longrightarrow> e \<noteq> out_of_rounds)"

text \<open>What is known of exited processes, and an invariant no step of the system can break.\<close>

definition reaped :: "host \<Rightarrow> bool" where
  "reaped s \<longleftrightarrow> (\<forall>p < length (procs s). exited s p \<longrightarrow> \<not> running s p)"

definition lasting :: "(host \<Rightarrow> bool) \<Rightarrow> bool" where
  "lasting I \<longleftrightarrow> (\<forall>q s r t. os_step q s r t \<longrightarrow> I s \<longrightarrow> I t)"

abbreviation fails_with :: "(host \<Rightarrow> bool) \<Rightarrow> jserr \<Rightarrow> host \<Rightarrow> bool" where
  "fails_with I e s \<equiv> I s \<and> e \<noteq> out_of_rounds"

abbreviation does :: "(host, 'a) prog \<Rightarrow> ('a \<Rightarrow> host \<Rightarrow> bool) \<Rightarrow> (jserr \<Rightarrow> host \<Rightarrow> bool) \<Rightarrow> host \<Rightarrow> bool" where
  "does \<equiv> wp os_step (\<lambda>_ _. True)"

section \<open>Steps that start and stop nothing\<close>

text \<open>\<open>steady p\<close>: every lasting invariant survives \<open>p\<close>, and \<open>p\<close> does not run out of rounds.\<close>

definition steady :: "(host, 'a) prog \<Rightarrow> bool" where
  "steady p \<longleftrightarrow> (\<forall>I s. lasting I \<longrightarrow> I s \<longrightarrow> does p (\<lambda>_. I) (fails_with I) s)"

named_theorems steady_intros \<open>steps that start and stop no process\<close>

lemma steadyD: "steady p \<Longrightarrow> lasting I \<Longrightarrow> I s \<Longrightarrow> does p (\<lambda>_. I) (fails_with I) s"
  by (simp add: steady_def)

lemma steady_Ret [steady_intros]: "steady (Ret a)"
  and steady_Throw [steady_intros]: "e \<noteq> out_of_rounds \<Longrightarrow> steady (Throw e)"
  by (simp_all add: steady_def)

lemma steady_Get [steady_intros]: "(\<And>s. steady (k s)) \<Longrightarrow> steady (Get k)"
  by (simp add: steady_def)

lemma steady_bind [steady_intros]:
  assumes "steady p" and "\<And>a. steady (f a)"
  shows "steady (bind p f)"
  unfolding steady_def wp_bind
proof (intro allI impI)
  fix I s
  assume I: "lasting I" "I s"
  from steadyD [OF assms(1) this]
  show "does p (\<lambda>a. does (f a) (\<lambda>_. I) (fails_with I)) (fails_with I) s"
    by (rule wp_mono) (simp_all add: steadyD [OF assms(2) I(1)])
qed

lemma steady_seq [steady_intros]: "steady p \<Longrightarrow> steady q \<Longrightarrow> steady (seq p q)"
  unfolding seq_def by (rule steady_bind)

lemma steady_catch [steady_intros]:
  assumes "steady p" and "\<And>e. steady (h e)"
  shows "steady (catch p h)"
  unfolding steady_def wp_catch
proof (intro allI impI)
  fix I s
  assume I: "lasting I" "I s"
  from steadyD [OF assms(1) this]
  show "does p (\<lambda>_. I) (\<lambda>e. does (h e) (\<lambda>_. I) (fails_with I)) s"
    by (rule wp_mono) (simp_all add: steadyD [OF assms(2) I(1)])
qed

lemma os_step_lasting: "lasting I \<Longrightarrow> I s \<Longrightarrow> os_step q s r t \<Longrightarrow> I t"
  unfolding lasting_def by blast

lemma os_step_reply: "os_step q s r t \<Longrightarrow> reply cast r = Inl e \<Longrightarrow> e \<noteq> out_of_rounds"
  by (cases r) (auto simp: os_step_def reply_def split: option.splits)

lemma steady_await [steady_intros]: "steady (await cast q)"
  unfolding steady_def wp_await
  by (auto dest: os_step_reply intro: os_step_lasting split: sum.split)

lemma lasting_conj: "lasting I \<Longrightarrow> lasting J \<Longrightarrow> lasting (\<lambda>s. I s \<and> J s)"
  unfolding lasting_def by blast

lemma lasting_clock: "lasting (\<lambda>s. til - clock s \<le> n)"
  unfolding lasting_def os_step_def by fastforce

lemma os_step_sleep: "os_step (Sleep ms) s r t \<Longrightarrow> clock s + int ms \<le> clock t"
  and os_step_wait: "os_step (WaitExit p ms) s r t \<Longrightarrow> reply as_any r \<noteq> Inl e"
  and os_step_refused: "os_step (Kill p signal) s (Rej e) t \<Longrightarrow> \<not> running t p"
  and os_step_kill: "os_step (Kill p ''SIGKILL'') s r t \<Longrightarrow> \<not> running t p"
  by (auto simp: os_step_def reply_def split: resp.splits)

lemma reply_any: "reply as_any r = Inl e \<longleftrightarrow> r = Rej e"
  by (cases r) (auto simp: reply_def)

lemma does_sleep:
  assumes "lasting I" and "I s" and "til - clock s \<le> n"
  shows "does (await as_any (Sleep ms)) (\<lambda>_ t. I t \<and> til - clock t \<le> n - int ms) (fails_with I) s"
proof -
  have "I t \<and> til - clock t \<le> n - int ms \<and> (\<forall>e. reply as_any r = Inl e \<longrightarrow> e \<noteq> out_of_rounds)"
    if "os_step (Sleep ms) s r t" for r t
    using os_step_lasting [OF assms(1,2) that] os_step_sleep [OF that] os_step_reply [OF that] assms(3) by auto
  then show ?thesis unfolding wp_await by (auto split: sum.split)
qed

text \<open>The loops, with enough rounds for the time that is left.\<close>

lemma does_wait_loop:
  assumes "\<And>r. steady (predicate r)" and "lasting I"
  shows "I s \<Longrightarrow> til - clock s \<le> 250 * int n \<Longrightarrow>
    does (wait_loop n url predicate til) (\<lambda>_. I) (fails_with I) s"
proof (induction n arbitrary: s)
  case (Suc n)
  let ?J = "\<lambda>s. I s \<and> til - clock s \<le> 250 * int (Suc n)"
  have J: "lasting ?J" using assms(2) lasting_clock by (rule lasting_conj)
  have attempt: "steady (catch (bind (await as_http (Fetch url)) predicate) (\<lambda>_. Ret False))"
    by (intro steady_intros assms(1))
  have again: "does (seq (await as_any (Sleep 250)) (wait_loop n url predicate til)) (\<lambda>_. I) (fails_with I) t"
    if "?J t" for t
    unfolding wp_seq
  proof (rule wp_mono [OF does_sleep [OF assms(2)]])
    show "I t" "til - clock t \<le> 250 * int (Suc n)" using that by simp_all
    fix u
    assume "I u \<and> til - clock u \<le> 250 * int (Suc n) - int 250"
    then show "does (wait_loop n url predicate til) (\<lambda>_. I) (fails_with I) u"
      by (intro Suc.IH) simp_all
  qed simp_all
  have "does (bind (catch (bind (await as_http (Fetch url)) predicate) (\<lambda>_. Ret False)) (\<lambda>ok.
      if ok then Ret () else seq (await as_any (Sleep 250)) (wait_loop n url predicate til)))
      (\<lambda>_. I) (fails_with I) s"
    unfolding wp_bind
    by (rule wp_mono [OF steadyD [OF attempt J]]) (use Suc.prems again in auto)
  then show ?case using Suc.prems by simp
qed simp

lemma steady_waitFor [steady_intros]:
  assumes "\<And>r. steady (predicate r)"
  shows "steady (waitFor url predicate)"
  unfolding steady_def waitFor_def using does_wait_loop [OF assms] by (auto simp del: wait_loop.simps)

lemma does_dial_loop:
  assumes "lasting I"
  shows "I s \<Longrightarrow> til - clock s < 100 * int n \<Longrightarrow> does (dial_loop n port til) (\<lambda>_. I) (fails_with I) s"
proof (induction n arbitrary: s)
  have attempt: "steady (catch (seq (await as_any (Dial port)) (Ret True)) (\<lambda>_. Ret False))"
    by (intro steady_intros)
  {
    case 0
    let ?J = "\<lambda>s. I s \<and> til - clock s \<le> -1"
    have J: "lasting ?J" using assms lasting_clock by (rule lasting_conj)
    show ?case
      unfolding dial_loop.simps [of 0] wp_bind
      by (rule wp_mono [OF steadyD [OF attempt J]]) (use 0 in auto)
  next
    case (Suc n)
    let ?J = "\<lambda>s. I s \<and> til - clock s \<le> 100 * int (Suc n) - 1"
    have J: "lasting ?J" using assms lasting_clock by (rule lasting_conj)
    have again: "does (seq (await as_any (Sleep 100)) (dial_loop n port til)) (\<lambda>_. I) (fails_with I) t"
      if "?J t" for t
      unfolding wp_seq
    proof (rule wp_mono [OF does_sleep [OF assms]])
      show "I t" "til - clock t \<le> 100 * int (Suc n) - 1" using that by simp_all
      fix u
      assume "I u \<and> til - clock u \<le> 100 * int (Suc n) - 1 - int 100"
      then show "does (dial_loop n port til) (\<lambda>_. I) (fails_with I) u"
        by (intro Suc.IH) simp_all
    qed simp_all
    show ?case
      unfolding dial_loop.simps [of "Suc n"] wp_bind
      by (rule wp_mono [OF steadyD [OF attempt J]]) (use Suc.prems again in auto)
  }
qed

lemma steady_database: "steady (await_database port)"
  unfolding steady_def await_database_def using does_dial_loop by (auto simp del: dial_loop.simps)

lemma steady_freePort [steady_intros]: "steady (freePort port)"
  unfolding freePort_def by (intro steady_intros) simp

lemma steady_run [steady_intros]: "steady (run_command command args)"
  unfolding run_command_def by (auto intro!: steady_intros)

lemma steady_chain_ready [steady_intros]: "steady (chain_ready r)"
  unfolding chain_ready_def by (intro steady_intros)

lemma steady_is_ok [steady_intros]: "steady (is_ok r)"
  unfolding is_ok_def by (intro steady_intros)

section \<open>Stopping\<close>

text \<open>Dead processes stay dead, and no process is added.\<close>

definition later :: "host \<Rightarrow> host \<Rightarrow> bool" where
  "later s t \<longleftrightarrow>
     length (procs t) = length (procs s) \<and> children t = children s \<and> reaped t \<and>
     (\<forall>p < length (procs s). running t p \<longrightarrow> running s p)"

lemma lasting_later: "lasting (later s)"
  unfolding lasting_def later_def os_step_def reaped_def by auto

lemma lasting_gone: "lasting (\<lambda>t. later s t \<and> (p < length (procs s) \<longrightarrow> \<not> running t p))"
  unfolding lasting_def later_def os_step_def reaped_def by auto

lemma does_try_kill:
  assumes "later s t"
  shows "does (try_kill p signal)
    (\<lambda>sent u. later s u \<and> (\<not> sent \<or> signal = ''SIGKILL'' \<longrightarrow> \<not> running u p)) (\<lambda>_ _. False) t"
proof -
  have "later s u" if "os_step (Kill p signal) t r u" for r u
    using os_step_lasting [OF lasting_later assms that] .
  then show ?thesis
    unfolding try_kill_def wp_catch wp_seq wp_await
    by (auto simp: reply_any dest: os_step_refused os_step_kill split: sum.split)
qed

lemma does_stop:
  assumes "p < length (procs s)" and "reaped s"
  shows "does (stop p) (\<lambda>_ t. later s t \<and> \<not> running t p) (\<lambda>_ _. False) s"
proof (cases "exited s p")
  case True
  then show ?thesis using assms by (simp add: stop_def reaped_def later_def)
next
  case False
  let ?Q = "\<lambda>_ u. later s u \<and> \<not> running u p"
  have kill: "does (seq (try_kill p ''SIGKILL'') (Ret ())) ?Q (\<lambda>_ _. False) t" if "later s t" for t
    unfolding wp_seq by (rule wp_mono [OF does_try_kill [OF that]]) simp_all
  have check: "does (Get (\<lambda>s. if \<not> exited s p then seq (try_kill p ''SIGKILL'') (Ret ()) else Ret ()))
      ?Q (\<lambda>_ _. False) t" if "later s t" for t
    using that kill [OF that] assms(1) by (auto simp: later_def reaped_def)
  have wait: "does (seq (await as_any (WaitExit p 7000))
      (Get (\<lambda>s. if \<not> exited s p then seq (try_kill p ''SIGKILL'') (Ret ()) else Ret ())))
      ?Q (\<lambda>_ _. False) t" if "later s t" for t
    unfolding wp_seq wp_await
    using check os_step_lasting [OF lasting_later that] os_step_wait
    by (auto simp del: wp.simps split: sum.split)
  have "later s s" using assms by (simp add: later_def)
  then have "does (bind (try_kill p ''SIGTERM'') (\<lambda>sent. if \<not> sent then Ret () else
      seq (await as_any (WaitExit p 7000))
        (Get (\<lambda>s. if \<not> exited s p then seq (try_kill p ''SIGKILL'') (Ret ()) else Ret ()))))
      ?Q (\<lambda>_ _. False) s"
    unfolding wp_bind by (rule wp_mono [OF does_try_kill]) (simp_all add: wait)
  then show ?thesis using False by (simp add: stop_def)
qed

lemma does_stop_all:
  assumes "later s t" and "set ps \<union> D \<subseteq> {..<length (procs s)}" and "\<forall>p \<in> D. \<not> running t p"
  shows "does (stop_all ps) (\<lambda>_ u. later s u \<and> (\<forall>p \<in> set ps \<union> D. \<not> running u p)) (\<lambda>_ _. False) t"
  using assms
proof (induction ps arbitrary: t D)
  case (Cons p ps)
  have t: "reaped t" "p < length (procs t)" using Cons.prems by (auto simp: later_def)
  have "does (stop_all ps) (\<lambda>_ v. later s v \<and> (\<forall>q \<in> set (p # ps) \<union> D. \<not> running v q)) (\<lambda>_ _. False) u"
    if "later t u" "\<not> running u p" for u
  proof -
    have "later s u" and "\<forall>q \<in> insert p D. \<not> running u q"
      using that Cons.prems by (auto simp: later_def subset_iff)
    then have "does (stop_all ps) (\<lambda>_ v. later s v \<and> (\<forall>q \<in> set ps \<union> insert p D. \<not> running v q)) (\<lambda>_ _. False) u"
      using Cons.prems(2) by (intro Cons.IH) auto
    then show ?thesis by simp
  qed
  then show ?case
    unfolding stop_all.simps wp_seq by (rule_tac wp_mono [OF does_stop [OF t(2,1)]]) simp_all
qed simp

lemma does_shutdown:
  assumes "reaped s" and "set (children s) \<subseteq> {..<length (procs s)}"
  shows "does shutdown (\<lambda>_ u. later s u \<and> (\<forall>p \<in> set (children s). \<not> running u p)) (\<lambda>_ _. False) s"
  using does_stop_all [of s s "rev (children s)" "{}"] assms
  by (simp add: shutdown_def later_def)

section \<open>Every process is registered\<close>

text \<open>
  \<open>registered b X s\<close>: of the processes started from number \<open>b\<close> on, those still running are among the
  children or in \<open>X\<close>.
\<close>

definition registered :: "nat \<Rightarrow> nat set \<Rightarrow> host \<Rightarrow> bool" where
  "registered b X s \<longleftrightarrow>
     reaped s \<and> set (children s) \<union> X \<subseteq> {..<length (procs s)} \<and> b \<le> length (procs s) \<and>
     (\<forall>p < length (procs s). b \<le> p \<longrightarrow> running s p \<longrightarrow> p \<in> set (children s) \<union> X)"

lemma lasting_registered: "lasting (registered b X)"
  unfolding lasting_def registered_def os_step_def reaped_def by auto

lemma registered_spawn:
  "registered b X s \<Longrightarrow> registered b (insert (length (procs s)) X) (spawn c args env s)"
  unfolding registered_def spawn_def reaped_def exited_def
  by (auto simp: nth_append less_Suc_eq)

lemma registered_push:
  "registered b (insert p X) s \<Longrightarrow> registered b X (s\<lparr>children := children s @ [p]\<rparr>)"
  unfolding registered_def reaped_def exited_def by auto

lemma registered_later:
  "registered b X s \<Longrightarrow> later s t \<Longrightarrow> \<forall>p \<in> Y. \<not> running t p \<Longrightarrow> X - Y \<subseteq> Z \<Longrightarrow> Z \<subseteq> {..<length (procs s)} \<Longrightarrow>
     registered b Z t"
  unfolding registered_def later_def by (auto simp: subset_iff) metis+

text \<open>A process that is started and registered at once.\<close>

lemma does_child_push:
  assumes "registered b X s" and "\<And>p t. registered b X t \<Longrightarrow> does (f p) Q E t"
  shows "does (bind (child c args env) (\<lambda>p. seq (push_child p) (f p))) Q E s"
  using registered_push [OF registered_spawn [OF assms(1)]] assms(2)
  by (simp add: child_def push_child_def)

section \<open>Starting the stack\<close>

abbreviation keeps_registered :: "nat \<Rightarrow> (host, 'a) prog \<Rightarrow> bool" where
  "keeps_registered b p \<equiv>
     (\<forall>s. registered b {} s \<longrightarrow> does p (\<lambda>_. registered b {}) (fails_with (registered b {})) s)"

lemma does_steady_then:
  assumes "steady p" and "registered b X s"
    and "\<And>a t. registered b X t \<Longrightarrow> does (f a) Q (fails_with (registered b X)) t"
  shows "does (bind p f) Q (fails_with (registered b X)) s"
  unfolding wp_bind by (rule wp_mono [OF steadyD [OF assms(1) lasting_registered assms(2)]]) (simp_all add: assms(3))

lemma does_steady_seq:
  assumes "steady p" and "registered b X s"
    and "\<And>t. registered b X t \<Longrightarrow> does q Q (fails_with (registered b X)) t"
  shows "does (seq p q) Q (fails_with (registered b X)) s"
  unfolding seq_def using assms by (rule does_steady_then)

lemma does_start_postgres:
  assumes "registered b {} s"
  shows "does (start_postgres root dir port) (\<lambda>p. registered b {p}) (fails_with (registered b {})) s"
proof -
  let ?p = "length (procs s)"
  have stopped: "does (seq (stop ?p) (Throw e)) Q (fails_with (registered b {})) t"
    if "registered b {?p} t" "e \<noteq> out_of_rounds" for t e and Q :: "unit \<Rightarrow> host \<Rightarrow> bool"
  proof -
    have t: "?p < length (procs t)" "reaped t" using that(1) by (auto simp: registered_def)
    show ?thesis
      unfolding wp_seq
      by (rule wp_mono [OF does_stop [OF t]])
         (use that in \<open>auto intro: registered_later [where Y = "{?p}"]\<close>)
  qed
  have "does (catch (await_database port) (\<lambda>e. seq (stop ?p) (Throw e)))
      (\<lambda>_. registered b {?p}) (fails_with (registered b {})) t" if "registered b {?p} t" for t
    unfolding wp_catch
    by (rule wp_mono [OF steadyD [OF steady_database lasting_registered that]]) (simp_all add: stopped)
  then have "does (seq (catch (await_database port) (\<lambda>e. seq (stop ?p) (Throw e)))
      (Ret ?p)) (\<lambda>p. registered b {p}) (fails_with (registered b {})) (spawn c args env s)" for c args env
    unfolding wp_seq by (rule_tac wp_mono) (use registered_spawn [OF assms] in auto)
  then show ?thesis by (simp add: start_postgres_def child_def)
qed

lemma does_postgres:
  assumes "registered b {} s"
  shows "does (postgres root dir port) (\<lambda>(p, url). registered b {p}) (fails_with (registered b {})) s"
proof -
  have "steady (if \<not> c then run_command x xs else Ret ())" for c x xs
    by (auto intro: steady_intros)
  note init = steady_Get [OF this]
  show ?thesis
    unfolding postgres_def
    by (simp add: assms)
       (auto intro!: does_steady_seq [OF steady_freePort] does_steady_seq [OF steady_run] does_steady_seq [OF init]
          wp_mono [OF does_start_postgres] assms simp: wp_bind)
qed

lemma registered_present: "registered b X (s\<lparr>present := f\<rparr>) = registered b X s"
  by (simp add: registered_def reaped_def exited_def)

lemma does_copy_file:
  "registered b X s \<Longrightarrow> does (copy_file src dst) (\<lambda>_. registered b X) (fails_with (registered b X)) s"
  by (simp add: copy_file_def wp_update registered_present)

lemma does_start_chain:
  "registered b {} s \<Longrightarrow> does (start_chain root ps env) (\<lambda>_. registered b {}) (fails_with (registered b {})) s"
  unfolding start_chain_def
  by (rule does_child_push, assumption, rule does_steady_seq)
     (auto intro!: steady_intros steadyD [OF steady_run lasting_registered])

lemma does_start_backend:
  "registered b {} s \<Longrightarrow> does (start_backend root isolated ps env) (\<lambda>_. registered b {}) (fails_with (registered b {})) s"
  unfolding start_backend_def
  by (rule does_child_push, assumption, rule does_steady_seq) (auto intro!: steady_intros)

lemma does_start_web:
  "registered b {} s \<Longrightarrow> does (start_web root ps env) (\<lambda>_. registered b {}) (fails_with (registered b {})) s"
  unfolding start_web_def
  by (rule does_child_push, assumption)
     (auto intro!: steadyD [OF _ lasting_registered] steady_intros)

lemma does_then:
  assumes "does p (\<lambda>_. registered b X) (fails_with (registered b {})) s"
    and "\<And>t. registered b X t \<Longrightarrow> does q Q (fails_with (registered b {})) t"
  shows "does (seq p q) Q (fails_with (registered b {})) s"
  unfolding wp_seq by (rule wp_mono [OF assms(1)]) (simp_all add: assms(2))

lemma does_postgres_push:
  assumes "registered b {} s"
    and "\<And>url t. registered b {} t \<Longrightarrow> does (k url) Q (fails_with (registered b {})) t"
  shows "does (bind (postgres root dir port) (\<lambda>(p, url). seq (push_child p) (k url))) Q (fails_with (registered b {})) s"
  unfolding wp_bind
  by (rule wp_mono [OF does_postgres [OF assms(1)]])
     (auto simp: push_child_def intro!: assms(2) registered_push)

lemma does_start_services:
  assumes "registered b {} s"
  shows "does (start_services root isolated ps) (\<lambda>_. registered b {}) (fails_with (registered b {})) s"
proof -
  have web: "does (bind (start_backend root isolated ps env) (\<lambda>backend. seq (start_web root ps env) (Ret backend)))
      (\<lambda>_. registered b {}) (fails_with (registered b {})) t" if "registered b {} t" for t env
    unfolding wp_bind
    by (rule wp_mono [OF does_start_backend [OF that]]) (auto simp: wp_seq intro: wp_mono [OF does_start_web])
  have copy: "does (if isolated then Ret () else copy_file src dst) (\<lambda>_. registered b {}) (fails_with (registered b {})) t"
    if "registered b {} t" for t src dst
    using that by (simp add: does_copy_file)
  have rest: "does (services_on root isolated ps env) (\<lambda>_. registered b {}) (fails_with (registered b {})) t"
    if "registered b {} t" for t env
    unfolding services_on_def
    by (intro does_then [OF does_start_chain [OF that]] does_then [OF copy] does_steady_seq [OF steady_run] web)
  show ?thesis
    unfolding start_services_def
    by (intro does_steady_seq [OF steady_freePort] does_postgres_push rest assms)
qed

definition all_gone :: "nat \<Rightarrow> host \<Rightarrow> bool" where
  "all_gone b s \<longleftrightarrow> (\<forall>p < length (procs s). b \<le> p \<longrightarrow> \<not> running s p)"

lemma does_shutdown_registered:
  assumes "registered b {} s"
  shows "does shutdown (\<lambda>_ t. all_gone b t \<and> reaped t) (\<lambda>_ _. False) s"
proof -
  have s: "reaped s" "set (children s) \<subseteq> {..<length (procs s)}"
    using assms by (simp_all add: registered_def)
  have "all_gone b t \<and> reaped t" if "later s t" "\<forall>p \<in> set (children s). \<not> running t p" for t
    using that assms unfolding all_gone_def later_def registered_def by auto
  then show ?thesis by (intro wp_mono [OF does_shutdown [OF s]]) auto
qed

lemma registered_fresh: "reaped s \<Longrightarrow> registered (length (procs s)) {} (s\<lparr>children := []\<rparr>)"
  by (simp add: registered_def reaped_def exited_def)

lemma does_startStack:
  assumes "reaped s"
  shows "does (startStack root isolated w) (\<lambda>_. registered (length (procs s)) {})
    (\<lambda>e t. all_gone (length (procs s)) t \<and> e \<noteq> out_of_rounds) s"
proof (cases "ports_of isolated w")
  case None
  then show ?thesis by (simp add: startStack_def all_gone_def)
next
  case (Some ps)
  have "does (seq shutdown (Throw e)) Q (\<lambda>e t. all_gone b t \<and> e \<noteq> out_of_rounds) t"
    if "fails_with (registered b {}) e t" for e t b and Q :: "nat \<Rightarrow> host \<Rightarrow> bool"
    unfolding wp_seq using that by (intro wp_mono [OF does_shutdown_registered]) auto
  then have "does (catch (start_services root isolated ps) (\<lambda>e. seq shutdown (Throw e)))
      (\<lambda>_. registered (length (procs s)) {}) (\<lambda>e t. all_gone (length (procs s)) t \<and> e \<noteq> out_of_rounds) (s\<lparr>children := []\<rparr>)"
    unfolding wp_catch
    by (intro wp_mono [OF does_start_services [OF registered_fresh [OF assms]]]) simp_all
  then show ?thesis using Some by (simp add: startStack_def)
qed

section \<open>The users of the stack\<close>

lemma lasting_flags: "lasting (\<lambda>s. stopping s = b)"
  unfolding lasting_def os_step_def by simp

lemma keeps_stopping_stop: "keeps stopping (stop p)"
  unfolding stop_def try_kill_def by (auto intro!: keeps_intros)

lemma keeps_stopping_stop_all: "keeps stopping (stop_all ps)"
  by (induction ps) (auto intro!: keeps_intros keeps_stopping_stop)

lemma wait_loop_silent: "(\<And>r. silent (predicate r)) \<Longrightarrow> silent (wait_loop n url predicate til)"
  by (induction n) (auto intro!: silent_intros simp: seq_def)

lemma dial_loop_silent: "silent (dial_loop n port til)"
  by (induction n) (auto intro!: silent_intros simp: seq_def)

lemma keeps_stopping_start: "keeps stopping (startStack root isolated w)"
proof -
  have "keeps stopping (waitFor url chain_ready)" "keeps stopping (waitFor url is_ok)" for url
    unfolding waitFor_def chain_ready_def is_ok_def
    by (auto intro!: silent_keeps wait_loop_silent silent_intros simp del: wait_loop.simps)
  moreover have "keeps stopping (await_database port)" for port
    unfolding await_database_def by (auto intro!: silent_keeps dial_loop_silent simp del: dial_loop.simps)
  ultimately show ?thesis
    unfolding startStack_def start_services_def services_on_def start_chain_def start_backend_def start_web_def shutdown_def
      freePort_def run_command_def postgres_def start_postgres_def copy_file_def push_child_def child_def spawn_def
    by (auto intro!: keeps_intros keeps_stopping_stop_all keeps_stopping_stop split: option.split)
qed

lemma wp_keeps_os:
  assumes "keeps stopping p"
  shows "does p (\<lambda>_ t. stopping t = stopping s) (\<lambda>_ t. stopping t = stopping s) s"
proof -
  have "\<lbrakk>keeps stopping p; stopping s = b\<rbrakk> \<Longrightarrow> does p (\<lambda>_ t. stopping t = b) (\<lambda>_ t. stopping t = b) s" for s b
    by (induction p arbitrary: s) (auto simp: os_step_def)
  then show ?thesis using assms by blast
qed

lemma does_on_signal:
  assumes "registered b {} s" and "\<not> stopping s"
  shows "does on_signal (\<lambda>_ t. all_gone b t \<and> exit_with t = Some 0) (\<lambda>_ _. False) s"
proof -
  have "registered b {} (s\<lparr>stopping := True\<rparr>)"
    using assms(1) by (simp add: registered_def reaped_def exited_def)
  from does_shutdown_registered [OF this]
  have "does shutdown (\<lambda>_ t. all_gone b (t\<lparr>exit_with := Some 0\<rparr>)) (\<lambda>_ _. False) (s\<lparr>stopping := True\<rparr>)"
    by (rule wp_mono) (simp_all add: all_gone_def)
  then show ?thesis using assms(2) by (simp add: on_signal_def wp_seq wp_update_ext)
qed

lemma does_local:
  assumes "reaped s" and "\<not> stopping s"
  shows "does (seq (local_main root w) on_signal)
    (\<lambda>_ t. all_gone (length (procs s)) t \<and> exit_with t = Some 0)
    (\<lambda>e t. all_gone (length (procs s)) t \<and> e \<noteq> out_of_rounds) s"
proof -
  let ?b = "length (procs s)"
  let ?start = "\<lambda>t. length (procs t) = ?b \<and> reaped t \<and> \<not> stopping t"
  have start: "does (startStack root False w) (\<lambda>_ t. registered ?b {} t \<and> \<not> stopping t)
      (\<lambda>e t. all_gone ?b t \<and> e \<noteq> out_of_rounds) t" if "?start t" for t
    using wp_conj [OF does_startStack wp_keeps_os [OF keeps_stopping_start], of t root False w] that
    by (auto elim: wp_mono)
  have "lasting ?start" unfolding lasting_def os_step_def reaped_def by auto
  from steadyD [OF steady_run this]
  have build: "does (run_command c args) (\<lambda>_. ?start) (fails_with ?start) s" for c args
    using assms by simp
  have signal: "does (startStack root False w)
      (\<lambda>_. does on_signal (\<lambda>_ t. all_gone ?b t \<and> exit_with t = Some 0) (\<lambda>e t. all_gone ?b t \<and> e \<noteq> out_of_rounds))
      (\<lambda>e t. all_gone ?b t \<and> e \<noteq> out_of_rounds) t" if "?start t" for t
  proof (rule wp_mono [OF start [OF that]])
    fix a :: nat and u
    assume "registered ?b {} u \<and> \<not> stopping u"
    then show "does on_signal (\<lambda>_ t. all_gone ?b t \<and> exit_with t = Some 0)
        (\<lambda>e t. all_gone ?b t \<and> e \<noteq> out_of_rounds) u"
      by (intro wp_mono [OF does_on_signal]) auto
  qed simp_all
  show ?thesis
    unfolding local_main_def wp_seq
    by (rule wp_mono [OF build])
       (use signal in \<open>simp_all add: all_gone_def\<close>)
qed

lemma does_finally:
  assumes "does p (\<lambda>_. I) (\<lambda>_. I) s"
    and "\<And>t. I t \<Longrightarrow> does q (\<lambda>_. J) (\<lambda>_ _. False) t"
  shows "does (finally_run p q) (\<lambda>_. J) (\<lambda>_. J) s"
proof -
  have step: "does (seq q (case r of Inl e \<Rightarrow> Throw e | Inr a \<Rightarrow> Ret a)) (\<lambda>_. J) (\<lambda>_. J) t" if "I t" for r t
    unfolding wp_seq by (rule wp_mono [OF assms(2) [OF that]]) (simp_all split: sum.split)
  have "does p (\<lambda>a. does (seq q (case Inr a of Inl e \<Rightarrow> Throw e | Inr a \<Rightarrow> Ret a)) (\<lambda>_. J) (\<lambda>_. J))
      (\<lambda>e. does (seq q (case Inl e of Inl e \<Rightarrow> Throw e | Inr a \<Rightarrow> Ret a)) (\<lambda>_. J) (\<lambda>_. J)) s"
    by (rule wp_mono [OF assms(1)]) (rule step, assumption | simp)+
  then show ?thesis
    by (simp add: finally_run_def wp_bind wp_catch wp_Ret_ext)
qed

lemma does_test_backend:
  assumes "reaped s"
  shows "does (test_backend root given) (\<lambda>_. all_gone (length (procs s))) (\<lambda>_. all_gone (length (procs s))) s"
proof -
  let ?b = "length (procs s)"
  let ?run = "run_command ''go'' [''test'', ''-race'', ''-count=1'', ''./...'']"
  have run: "does ?run (\<lambda>_. registered ?b {}) (fails_with (registered ?b {})) t" if "registered ?b {} t" for t
    using steadyD [OF steady_run lasting_registered that] .
  have stop: "does (Get (\<lambda>s. stop_all (children s))) (\<lambda>_. all_gone ?b) (\<lambda>_ _. False) t" if "registered ?b {} t" for t
  proof -
    have "does (stop_all (children t)) (\<lambda>_ u. later t u \<and> (\<forall>p \<in> set (children t) \<union> {}. \<not> running u p)) (\<lambda>_ _. False) t"
      using that by (intro does_stop_all) (auto simp: registered_def later_def)
    then have "does (stop_all (children t)) (\<lambda>_. all_gone ?b) (\<lambda>_ _. False) t"
      by (rule wp_mono) (use that in \<open>auto simp: later_def registered_def all_gone_def\<close>)
    then show ?thesis by simp
  qed
  have own: "does (bind (postgres root dir port) (\<lambda>(p, url). push_child p)) (\<lambda>_. registered ?b {})
      (fails_with (registered ?b {})) t" if "registered ?b {} t" for t dir port
    unfolding wp_bind
    by (rule wp_mono [OF does_postgres [OF that]]) (auto simp: push_child_def wp_update intro: registered_push)
  have "does (seq (if given \<noteq> None \<and> given \<noteq> Some [] then Ret ()
      else bind (postgres root (root @ ''/.local/backend-tests'') 55434) (\<lambda>(p, url). push_child p)) ?run)
      (\<lambda>_. registered ?b {}) (fails_with (registered ?b {})) (s\<lparr>children := []\<rparr>)"
    using registered_fresh [OF assms]
    by (intro does_then [OF _ run]) (split if_split, intro conjI impI, simp, rule own, assumption)
  then have "does (finally_run (seq (if given \<noteq> None \<and> given \<noteq> Some [] then Ret ()
      else bind (postgres root (root @ ''/.local/backend-tests'') 55434) (\<lambda>(p, url). push_child p)) ?run)
      (Get (\<lambda>s. stop_all (children s)))) (\<lambda>_. all_gone ?b) (\<lambda>_. all_gone ?b) (s\<lparr>children := []\<rparr>)"
    by (intro does_finally [where I = "registered ?b {}"] stop) (rule wp_mono, assumption, simp_all)
  then show ?thesis by (simp add: test_backend_def)
qed

section \<open>Restarting\<close>

text \<open>A system on which a process that is not signalled keeps running.\<close>

definition patient :: "req \<Rightarrow> host \<Rightarrow> resp \<Rightarrow> host \<Rightarrow> bool" where
  "patient q s r t \<longleftrightarrow>
     length (procs t) = length (procs s) \<and>
     (\<forall>p < length (procs s). running s p \<longrightarrow> (\<exists>signal. q = Kill p signal) \<or> running t p)"

definition alive_at :: "nat \<Rightarrow> host \<Rightarrow> bool" where
  "alive_at p s \<longleftrightarrow> p < length (procs s) \<and> running s p"

fun kills_of :: "nat \<Rightarrow> req \<Rightarrow> nat" where
  "kills_of p (Kill q signal) = (if q = p then 1 else 0)"
| "kills_of p q = 0"

lemma patient_alive: "alive_at p s \<Longrightarrow> patient q s r t \<Longrightarrow> kills_of p q = 0 \<Longrightarrow> alive_at p t"
  by (cases q) (auto simp: alive_at_def patient_def)

lemma wp_spares:
  assumes "maintains (alive_at p) prg" and "cost (kills_of p) prg 0" and "alive_at p s"
  shows "wp patient (\<lambda>_. alive_at p) prg (\<lambda>_. alive_at p) (\<lambda>_. alive_at p) s"
  using assms by (induction prg arbitrary: s) (auto dest: patient_alive)

lemma restart_maintains: "maintains (alive_at p) (restartBackend root isolated ps env backend)"
proof -
  have "silent (stop b)" for b
    by (auto simp: stop_def try_kill_def seq_def intro!: silent_intros)
  then have "maintains I (stop b)" for I b
    by (rule silent_maintains)
  moreover have "maintains I (waitFor url is_ok)" for I url
    unfolding waitFor_def is_ok_def
    by (auto intro!: silent_maintains wait_loop_silent silent_intros simp del: wait_loop.simps)
  ultimately show ?thesis
    unfolding restartBackend_def start_backend_def child_def push_child_def
    by (auto intro!: maintains_intros simp: alive_at_def spawn_def nth_append)
qed

lemma restart_kills: "p \<noteq> backend \<Longrightarrow> cost (kills_of p) (restartBackend root isolated ps env backend) 0"
proof -
  assume "p \<noteq> backend"
  then have "cost (kills_of p) (stop backend) 0"
    unfolding stop_def try_kill_def
    by (auto intro!: cost_bind_await cost_0_catch cost_bindI [of _ _ 0] cost_seqI [of _ _ 0])
  moreover have "cost (kills_of p) (wait_loop n url is_ok til) 0" for n url til
    by (induction n) (auto intro!: cost_bindI [of _ _ 0] cost_0_catch cost_seqI [of _ _ 0] simp: is_ok_def)
  ultimately show ?thesis
    unfolding restartBackend_def start_backend_def child_def push_child_def waitFor_def
    by (auto intro!: cost_seqI [of _ _ 0] simp del: wait_loop.simps)
qed

end
