(* ===== verification/Services.thy ===== *)
theory Services
  imports Supervision
begin

text \<open>
  The promises of the local stack, \<^verbatim>\<open>scripts/stack.mjs\<close>, \<^verbatim>\<open>scripts/local.mjs\<close> and \<^verbatim>\<open>scripts/test-backend.mjs\<close>, with
  sample runs: no process is left behind, except that a second restart forgets the first replacement.
\<close>

section \<open>What is left behind\<close>

text \<open>The local stack leaves no process behind: whether starting it fails at any point or it is started and
  then stopped by a signal, in the end no process that was started is running, and a waiting loop ends
  by its own deadline.\<close>

theorem stack_leaves_nothing:
  assumes "conforms os_step (seq (local_main root w) on_signal) env s" and "reaped s" and "\<not> stopping s"
    and "finished (outcome (seq (local_main root w) on_signal) env s)"
    and "t = final (seq (local_main root w) on_signal) env s"
  shows "all_gone (length (procs s)) t \<and>
    outcome (seq (local_main root w) on_signal) env s \<noteq> Raised out_of_rounds \<and>
    (outcome (seq (local_main root w) on_signal) env s = Returned () \<longrightarrow> exit_with t = Some 0)"
  using wp_outcome [OF does_local [OF assms(2,3)] assms(1)] assms(4,5)
  by (cases "outcome (seq (local_main root w) on_signal) env s") auto

text \<open>The tests of the service leave no database running, whether they pass, fail, or the database does not
  come up.\<close>

theorem tests_leave_nothing:
  assumes "conforms os_step (test_backend root given) env s" and "reaped s"
    and "finished (outcome (test_backend root given) env s)"
  shows "all_gone (length (procs s)) (final (test_backend root given) env s)"
  using wp_outcome [OF does_test_backend [OF assms(2)] assms(1)] assms(3)
  by (cases "outcome (test_backend root given) env s") auto

text \<open>C36: Restarting the service only stops the process of the first start: on a system where processes run until
  they are signalled, every other running process, also the replacement of an earlier restart, is
  still running after the restart.\<close>

theorem restart_spares_replacement:
  assumes "conforms patient (restartBackend root isolated ps vars backend) env s"
    and "p \<noteq> backend" and "p < length (procs s)" and "running s p"
  shows "running (final (restartBackend root isolated ps vars backend) env s) p"
proof -
  have "alive_at p s" using assms(3,4) by (simp add: alive_at_def)
  from wp_final [OF wp_spares [OF restart_maintains restart_kills [OF assms(2)] this] assms(1)]
  show ?thesis by (simp add: alive_at_def)
qed

text \<open>The stack as it runs, and a restart in which the service answers at once.\<close>

definition sample_proc :: "string \<Rightarrow> process" where
  "sample_proc c = \<lparr>pr_command = c, pr_args = [], pr_env = [], pr_alive = True, pr_exited = False\<rparr>"

definition sample_host :: host where
  "sample_host =
     \<lparr>procs = map sample_proc [''postgres'', ''node'', ''/r/.local/demo/server'', ''node''],
      children = [0, 1, 2, 3], clock = 0, present = (\<lambda>_. True), ld_path = None, stopping = False, exit_with = None\<rparr>"

definition sample_ports :: ports where
  "sample_ports = \<lparr>rpc_port = 8545, api_port = 8081, web_port = 5173, db_port = 55432\<rparr>"

definition ends_second :: "host \<Rightarrow> host" where
  "ends_second s = s\<lparr>procs := (procs s)[2 := (procs s ! 2)\<lparr>pr_alive := False, pr_exited := True\<rparr>]\<rparr>"

definition first_restart :: "(resp \<times> (host \<Rightarrow> host)) list" where
  "first_restart = [(RUnit, ends_second), (RUnit, \<lambda>s. s), (RHttp True 200, \<lambda>s. s)]"

definition restarted :: host where
  "restarted = final (restartBackend ''/r'' False sample_ports [] 2) first_restart sample_host"

lemma first_round: "wait_loop 181 url predicate til =
     Get (\<lambda>s. if clock s < til
       then bind (catch (bind (await as_http (Fetch url)) predicate) (\<lambda>_. Ret False)) (\<lambda>ok.
              if ok then Ret () else seq (await as_any (Sleep 250)) (wait_loop 180 url predicate til))
       else Throw (new_Error (''Timed out waiting for '' @ url)))"
proof -
  have "(181 :: nat) = Suc 180" by simp
  then show ?thesis by (metis (no_types) wait_loop.simps [of "Suc 180" url predicate til, unfolded nat.case])
qed

lemmas restart_defs =
  restartBackend_def start_backend_def waitFor_def first_round is_ok_def stop_def try_kill_def child_def spawn_def
  push_child_def await_def reply_def seq_def update_def exited_def sample_host_def sample_proc_def ends_second_def
  base_dir_def nth_append

lemma restarted_procs:
  "procs restarted =
     [sample_proc ''postgres'', sample_proc ''node'',
      (sample_proc ''/r/.local/demo/server'')\<lparr>pr_alive := False, pr_exited := True\<rparr>, sample_proc ''node'',
      sample_proc ''/r/.local/demo/server'']" "clock restarted = 0"
  by (simp_all add: restarted_def first_restart_def restart_defs numeral_2_eq_2 del: wait_loop.simps)

theorem restart_spares_replacement_witness:
  "let t = final (restartBackend ''/r'' False sample_ports [] 2) [(RHttp True 200, \<lambda>s. s)] restarted
   in running t 4 \<and> running t 5 \<and> pr_command (procs t ! 4) = pr_command (procs t ! 5)"
proof -
  define t where "t = final (restartBackend ''/r'' False sample_ports [] 2) [(RHttp True 200, \<lambda>s. s)] restarted"
  have procs: "procs t = procs restarted @ [sample_proc ''/r/.local/demo/server'']"
    by (simp add: t_def restart_defs restarted_procs numeral_2_eq_2 del: wait_loop.simps)
  have c: "conforms patient (restartBackend ''/r'' False sample_ports [] 2) [(RHttp True 200, \<lambda>s. s)] restarted"
    by (simp add: restart_defs restarted_procs patient_def numeral_2_eq_2 del: wait_loop.simps)
  have "running restarted 4" "4 < length (procs restarted)"
    by (simp_all add: restarted_procs sample_proc_def)
  with restart_spares_replacement [OF c, of 4] have "running t 4" by (simp add: t_def)
  then show ?thesis
    by (simp add: t_def [symmetric] procs restarted_procs sample_proc_def)
qed

text \<open>
  A start in which the database does not come up: its process is started, the connection fails beyond the
  deadline, and the process ends on the signal.
\<close>

lemma first_dial: "dial_loop 101 port til =
     bind (catch (seq (await as_any (Dial port)) (Ret True)) (\<lambda>_. Ret False)) (\<lambda>ok.
       if ok then Ret ()
       else Get (\<lambda>s. if til < clock s
              then Throw (new_Error ''PostgreSQL did not start; see its log'')
              else seq (await as_any (Sleep 100)) (dial_loop 100 port til)))"
proof -
  have "(101 :: nat) = Suc 100" by simp
  then show ?thesis by (metis (no_types) dial_loop.simps [of "Suc 100" port til, unfolded nat.case])
qed

definition ends_database :: "host \<Rightarrow> host" where
  "ends_database s = s\<lparr>procs := [(procs s ! 0)\<lparr>pr_alive := False, pr_exited := True\<rparr>]\<rparr>"

definition failing_start :: "(resp \<times> (host \<Rightarrow> host)) list" where
  "failing_start =
     [(RExit (Some 0), \<lambda>s. s), (RUnit, \<lambda>s. s), (RUnit, \<lambda>s. s), (RUnit, \<lambda>s. s), (RUnit, \<lambda>s. s), (RExit (Some 0), \<lambda>s. s),
      (Rej (new_Error ''ECONNREFUSED''), \<lambda>s. s\<lparr>clock := clock s + 20000\<rparr>), (RUnit, \<lambda>s. s), (RUnit, ends_database)]"

definition empty_host :: host where
  "empty_host = sample_host\<lparr>procs := [], children := []\<rparr>"

lemmas start_defs =
  local_main_def run_command_def startStack_def ports_of_def start_services_def freePort_def postgres_def
  start_postgres_def await_database_def first_dial shutdown_def stop_def try_kill_def child_def spawn_def
  push_child_def await_def reply_def seq_def update_def exited_def empty_host_def sample_host_def
  failing_start_def ends_database_def

theorem stack_leaves_nothing_witness:
  "let t = final (seq (local_main ''/r'' (Some 5173)) on_signal) failing_start empty_host
   in length (procs t) = 1 \<and> all_gone 0 t"
proof -
  let ?p = "seq (local_main ''/r'' (Some 5173)) on_signal"
  have r: "reaped empty_host" "\<not> stopping empty_host" "length (procs empty_host) = 0"
    by (simp_all add: empty_host_def sample_host_def reaped_def)
  have c: "conforms os_step ?p failing_start empty_host"
    by (simp add: start_defs os_step_def del: dial_loop.simps)
  have f: "finished (outcome ?p failing_start empty_host)" "length (procs (final ?p failing_start empty_host)) = 1"
    by (simp_all add: start_defs del: dial_loop.simps)
  show ?thesis
    using stack_leaves_nothing [OF c r(1,2) f(1) refl] r(3) f(2) by (simp add: Let_def)
qed

definition failing_tests :: "(resp \<times> (host \<Rightarrow> host)) list" where
  "failing_tests =
     [(RUnit, \<lambda>s. s), (RExit (Some 0), \<lambda>s. s), (RUnit, \<lambda>s. s), (RExit (Some 1), \<lambda>s. s), (RUnit, \<lambda>s. s),
      (RUnit, ends_database)]"

theorem tests_leave_nothing_witness:
  "let t = final (test_backend ''/r'' None) failing_tests empty_host in length (procs t) = 1 \<and> all_gone 0 t"
proof -
  have r: "reaped empty_host" "length (procs empty_host) = 0"
    by (simp_all add: empty_host_def sample_host_def reaped_def)
  have c: "conforms os_step (test_backend ''/r'' None) failing_tests empty_host"
    by (simp add: test_backend_def finally_run_def failing_tests_def start_defs os_step_def del: dial_loop.simps)
  have f: "finished (outcome (test_backend ''/r'' None) failing_tests empty_host)"
    "length (procs (final (test_backend ''/r'' None) failing_tests empty_host)) = 1"
    by (simp_all add: test_backend_def finally_run_def failing_tests_def start_defs del: dial_loop.simps)
  show ?thesis using tests_leave_nothing [OF c r(1) f(1)] r(2) f(2) by (simp add: Let_def)
qed

end
