(* ===== verification/Demo.thy ===== *)
theory Demo
  imports Deploy
begin

text \<open>
  The two scripts of the local demonstration: \<^verbatim>\<open>contracts/scripts/deploy.cjs\<close>, which also serves a public
  test network with everything given, and \<^verbatim>\<open>scripts/round.mjs\<close>, which fills or settles a round.
\<close>

section \<open>Accounts and transactions\<close>

text \<open>\<^verbatim>\<open>getSigners()\<close>, and \<^verbatim>\<open>getSigner(i)\<close>: the node's account at an index; there must be one.\<close>

definition signers :: "('s, string list) prog" where
  "signers = await as_strs (RpcCall ''eth_accounts'' [])"

definition signer_at :: "nat \<Rightarrow> ('s, string) prog" where
  "signer_at i =
     bind signers (\<lambda>accounts.
       if length accounts \<le> i then Throw (new_Error ''no such account'') else Ret (accounts ! i))"

text \<open>\<^verbatim>\<open>await (await contract.method(...)).wait()\<close>\<close>

definition send_and_wait :: "string \<Rightarrow> string \<Rightarrow> tx_call \<Rightarrow> ('s, mined option) prog" where
  "send_and_wait signer target call =
     bind (await as_str (Send signer target call)) (\<lambda>h. await as_mined (WaitTx h))"

text \<open>\<^verbatim>\<open>deploy(...)\<close> and \<^verbatim>\<open>waitForDeployment()\<close>: address and transaction of the new contract.\<close>

fun as_deployed :: "resp \<Rightarrow> (string \<times> string) option" where
  "as_deployed (RStrs [address, hash]) = Some (address, hash)"
| "as_deployed _ = None"

definition deploy_and_wait :: "string \<Rightarrow> string \<Rightarrow> arg list \<Rightarrow> ('s, string \<times> string) prog" where
  "deploy_and_wait signer name args =
     bind (await as_deployed (DeployTx signer name args)) (\<lambda>(address, hash).
       bind (await as_mined (WaitTx hash)) (\<lambda>_. Ret (address, hash)))"

section \<open>\<^verbatim>\<open>round.mjs\<close>\<close>

definition max_uint256 :: int where
  "max_uint256 = 2 ^ 256 - 1"

definition draw_of :: "string \<Rightarrow> string \<Rightarrow> nat \<Rightarrow> ('s, string SolDraw) prog" where
  "draw_of signer lottery i = await as_draw (SignerRead signer lottery (getDraw (show_nat 10 i)))"

text \<open>The loop over the first accounts: holders are skipped, a full round ends it.\<close>

fun fill_round :: "manifest \<Rightarrow> string \<Rightarrow> nat \<Rightarrow> nat list \<Rightarrow> ('s, unit) prog" where
  "fill_round m signer i [] = Ret ()"
| "fill_round m signer i (k # ks) =
     bind (signer_at k) (\<lambda>user.
     bind (await as_nat (SignerRead signer (mf_lotteryAddress m) (ticketOf (show_nat 10 i) user))) (\<lambda>held.
       if held \<noteq> 0 then fill_round m signer i ks
       else bind (draw_of signer (mf_lotteryAddress m) i) (\<lambda>d.
         if 5 \<le> s_participantCount d then Ret ()
         else seq (send_and_wait user (mf_tokenAddress m) (approve (mf_lotteryAddress m) max_uint256))
           (seq (send_and_wait user (mf_lotteryAddress m) (buyTicket (show_nat 10 i)))
              (fill_round m signer i ks)))))"

definition close_round :: "manifest \<Rightarrow> string \<Rightarrow> nat \<Rightarrow> string SolDraw \<Rightarrow> ('s, string SolDraw) prog" where
  "close_round m signer i d =
     (if s_status d = ACTIVE
      then seq (if s_participantCount d < 5
                then bind (await as_any (RpcCall ''evm_setNextBlockTimestamp'' [int (s_deadline d)])) (\<lambda>_. Ret ())
                else Ret ())
             (seq (send_and_wait signer (mf_lotteryAddress m) (performDraw (show_nat 10 i)))
                (draw_of signer (mf_lotteryAddress m) i))
      else Ret d)"

definition settle_round :: "manifest \<Rightarrow> string \<Rightarrow> nat \<Rightarrow> int \<Rightarrow> ('s, unit) prog" where
  "settle_round m signer i lucky =
     bind (draw_of signer (mf_lotteryAddress m) i) (\<lambda>d0.
     bind (close_round m signer i d0) (\<lambda>d.
       if s_status d = DRAWING
       then bind (send_and_wait signer (mf_randomnessProvider m)
              (fulfill (show_nat 10 (s_requestId d)) (lucky - 1))) (\<lambda>_. Ret ())
       else Ret ()))"

text \<open>
  The script. \<open>fill\<close> says whether its first argument is that word; \<open>lucky\<close> is \<^verbatim>\<open>Number(process.argv[3] || "1")\<close>,
  \<^const>\<open>None\<close> when that is no integer.
\<close>

definition round_script :: "manifest \<Rightarrow> bool \<Rightarrow> int option \<Rightarrow> ('s, unit) prog" where
  "round_script m fill lucky =
     bind (await as_nat GetNetwork) (\<lambda>chain.
       if chain \<noteq> 31337 \<and> chain \<noteq> 1337
       then Throw (new_Error ''Demo helper is restricted to a local chain.'')
       else bind (signer_at 0) (\<lambda>signer.
         bind (await as_nat (SignerRead signer (mf_lotteryAddress m) currentDrawId)) (\<lambda>i.
           if fill then fill_round m signer i [0..<5]
           else case lucky of
               None \<Rightarrow> Throw (new_Error ''Choose a local lucky number between 1 and 10'')
             | Some n \<Rightarrow>
                 if n < 1 \<or> 10 < n then Throw (new_Error ''Choose a local lucky number between 1 and 10'')
                 else settle_round m signer i n)))"

section \<open>\<^verbatim>\<open>deploy.cjs\<close>\<close>

text \<open>
  The environment of the script. Numeric variables are given as the numbers the source converts them
  to, \<^const>\<open>None\<close> when the result is no integer; \<open>is_address\<close> is the library's check.
\<close>

record deploy_env =
  de_minimum :: "int option"
  de_dao :: "string option"
  de_vars :: "string \<Rightarrow> string option"
  de_confirmations :: "int option"
  de_callback_gas :: "int option"
  is_address :: "string \<Rightarrow> bool"

definition required_keys :: "string list" where
  "required_keys =
     [''USD8_ADDRESS'', ''VRF_COORDINATOR'', ''VRF_SUBSCRIPTION_ID'', ''VRF_KEY_HASH'', ''VRF_CONFIRMATIONS'',
      ''VRF_CALLBACK_GAS_LIMIT'']"

definition missing_key :: "deploy_env \<Rightarrow> string option" where
  "missing_key e = List.find (\<lambda>k. \<not> set_env (de_vars e k)) required_keys"

definition is_local :: "nat \<Rightarrow> bool" where
  "is_local chain \<longleftrightarrow> chain = 31337 \<or> chain = 1337"

definition supported :: "nat \<Rightarrow> bool" where
  "supported chain \<longleftrightarrow> is_local chain \<or> chain = 11155111 \<or> chain = 97"

definition deploy_dao :: "deploy_env \<Rightarrow> nat \<Rightarrow> ('s, string) prog" where
  "deploy_dao e chain =
     (if set_env (de_dao e) then Ret (the (de_dao e))
      else if is_local chain
      then bind signers (\<lambda>accounts. if length accounts \<le> 9 then Throw TypeError else Ret (accounts ! 9))
      else Ret [])"

definition int_arg :: "int option \<Rightarrow> ('s, arg) prog" where
  "int_arg n = (case n of None \<Rightarrow> Throw TypeError | Some k \<Rightarrow> Ret (ArgInt k))"

text \<open>Token and randomness provider: mocks on a local chain, given and real ones elsewhere.\<close>

definition parts_local :: "string \<Rightarrow> ('s, string \<times> string) prog" where
  "parts_local signer =
     bind (deploy_and_wait signer ''MockUSD8'' [ArgInt 8]) (\<lambda>(token, _).
     bind (deploy_and_wait signer ''MockRandomnessProvider'' []) (\<lambda>(provider, _).
       Ret (token, provider)))"

definition parts_public :: "deploy_env \<Rightarrow> string \<Rightarrow> ('s, string \<times> string) prog" where
  "parts_public e signer =
     (case missing_key e of
        Some k \<Rightarrow> Throw (new_Error (k @ '' is required''))
      | None \<Rightarrow>
          bind (BigInt (the (de_vars e ''VRF_SUBSCRIPTION_ID''))) (\<lambda>sub.
          bind (int_arg (de_confirmations e)) (\<lambda>conf.
          bind (int_arg (de_callback_gas e)) (\<lambda>gas.
          bind (deploy_and_wait signer ''VRFProvider''
             [ArgStr (the (de_vars e ''VRF_COORDINATOR'')), ArgInt sub, ArgStr (the (de_vars e ''VRF_KEY_HASH'')),
              conf, gas, ArgBool (de_vars e ''VRF_NATIVE_PAYMENT'' = Some ''true'')]) (\<lambda>(provider, _).
            Ret (the (de_vars e ''USD8_ADDRESS''), provider))))))"

fun mint_users :: "string \<Rightarrow> string \<Rightarrow> nat \<Rightarrow> string list \<Rightarrow> ('s, unit) prog" where
  "mint_users signer token unit [] = Ret ()"
| "mint_users signer token unit (u # us) =
     seq (send_and_wait signer token (mint u (1000 * int unit))) (mint_users signer token unit us)"

definition deploy_rest ::
  "nat \<Rightarrow> string \<Rightarrow> string \<Rightarrow> nat \<Rightarrow> string \<times> string \<Rightarrow> (manifest option, unit) prog" where
  "deploy_rest chain signer dao minimum parts =
     (let token = fst parts; provider = snd parts in
      bind (deploy_and_wait signer ''DLottery'' [ArgStr token, ArgStr dao, ArgInt (int minimum), ArgStr provider])
       (\<lambda>(lottery, hash).
      bind (await as_mined (WaitTx hash)) (\<lambda>receipt.
      seq (if is_local chain then Ret ()
           else bind (send_and_wait signer provider (setLottery lottery)) (\<lambda>_. Ret ()))
     (seq (if is_local chain
           then bind (await as_nat (SignerRead signer token decimals)) (\<lambda>d.
                bind signers (\<lambda>users. mint_users signer token (10 ^ d) (take 6 users)))
           else Ret ())
     (seq (send_and_wait signer lottery (startDraw ''0''))
     (bind (await as_nat (SignerRead signer token decimals)) (\<lambda>d.
        case receipt of
          None \<Rightarrow> Throw TypeError
        | Some r \<Rightarrow>
            update (\<lambda>_. Some
              \<lparr>mf_chainId = show_nat 10 chain, mf_lotteryAddress = lottery, mf_tokenAddress = token,
               mf_tokenDecimals = d, mf_daoAddress = dao, mf_randomnessProvider = provider,
               mf_deploymentBlock = Some (m_blockNumber r), mf_minimumParticipants = minimum,
               mf_localMock = is_local chain, mf_testToken = False, mf_vrfSubscriptionId = None,
               mf_vrfNativePayment = False\<rparr>))))))))"

text \<open>\<^verbatim>\<open>main\<close>; the state is the manifest file. The fields the script does not write are false or absent.\<close>

definition deploy_cjs :: "deploy_env \<Rightarrow> (manifest option, unit) prog" where
  "deploy_cjs e =
     bind (await as_nat GetNetwork) (\<lambda>chain.
       if \<not> supported chain
       then Throw (new_Error ''Public deployment supports Sepolia (11155111) or BSC testnet (97) only'')
       else bind signers (\<lambda>accounts.
         if accounts = []
         then Throw (new_Error ''Configure DEPLOYER_PRIVATE_KEY locally for a public testnet deployment'')
         else case de_minimum e of
             None \<Rightarrow> Throw (new_Error ''Invalid minimum participants'')
           | Some n \<Rightarrow>
               if n < 1 \<or> 5 < n then Throw (new_Error ''Invalid minimum participants'')
               else bind (deploy_dao e chain) (\<lambda>dao.
                 if \<not> is_address e dao \<or> dao = ZeroAddress
                 then Throw (new_Error ''DAO_ADDRESS is required'')
                 else bind (if is_local chain then parts_local (accounts ! 0) else parts_public e (accounts ! 0))
                        (deploy_rest chain (accounts ! 0) dao (nat n)))))"

end
