(* ===== verification/Demonstration.thy ===== *)
theory Demonstration
  imports Demo ContractProps
begin

text \<open>
  What the demonstration scripts promise: \<^verbatim>\<open>scripts/round.mjs\<close> and \<^verbatim>\<open>contracts/scripts/deploy.cjs\<close> touch only
  the networks they are meant for, and the number chosen on the command line is the number the
  contract draws.
\<close>

section \<open>Only the intended networks\<close>

text \<open>On a network it is not meant for, a script asks for the network and does nothing else: the demo helper
  outside the two local chains, the deployment outside those and the two test networks.\<close>

theorem other_networks_untouched:
  assumes "n \<notin> {31337, 1337}"
  shows "map fst (trace (round_script m fill lucky) ((RNat n, u) # env) s) = [GetNetwork] \<and>
    (n \<notin> {11155111, 97} \<longrightarrow>
       map fst (trace (deploy_cjs e) ((RNat n, v) # env') f) = [GetNetwork] \<and>
       final (deploy_cjs e) ((RNat n, v) # env') f = v f)"
  using assms by (simp add: round_script_def deploy_cjs_def await_def reply_def supported_def is_local_def)

theorem other_networks_untouched_witness:
  "\<forall>m fill lucky env. map fst (trace (round_script m fill lucky) ((RNat 1, \<lambda>s. s) # env) ()) = [GetNetwork]"
  by (intro allI, rule other_networks_untouched [THEN conjunct1]) simp

section \<open>The chosen number\<close>

definition chosen :: "int option \<Rightarrow> req \<Rightarrow> bool" where
  "chosen lucky q \<longleftrightarrow>
     (case q of
        Send a p c \<Rightarrow> (case c of fulfill r x \<Rightarrow> 0 \<le> x \<and> x < 10 \<and> lucky = Some (x + 1) | _ \<Rightarrow> True)
      | _ \<Rightarrow> True)"

definition picks :: "int option \<Rightarrow> ('s, 'a) prog \<Rightarrow> bool" where
  "picks lucky p \<longleftrightarrow> (\<forall>R s. wp R (\<lambda>q _. chosen lucky q) p (\<lambda>_ _. True) (\<lambda>_ _. True) s)"

lemma picks_Ret: "picks l (Ret a)"
  and picks_Throw: "picks l (Throw e)"
  by (simp_all add: picks_def)

lemma picks_bind: "picks l p \<Longrightarrow> (\<And>a. picks l (f a)) \<Longrightarrow> picks l (bind p f)"
  unfolding picks_def wp_bind by (blast intro: wp_mono)

lemma picks_seq: "picks l p \<Longrightarrow> picks l q \<Longrightarrow> picks l (seq p q)"
  unfolding seq_def by (rule picks_bind)

lemma picks_await: "chosen l q \<Longrightarrow> picks l (await c q)"
  by (auto simp: picks_def wp_await split: sum.split)

lemmas picks_intros = picks_Ret picks_Throw picks_bind picks_seq picks_await

lemma picks_send: "chosen l (Send a t call) \<Longrightarrow> picks l (send_and_wait a t call)"
  unfolding send_and_wait_def by (intro picks_intros) (simp_all add: chosen_def)

lemma picks_signer: "picks l (signer_at i)"
  unfolding signer_at_def signers_def by (auto intro!: picks_intros simp: chosen_def)

lemma picks_draw: "picks l (draw_of signer lottery i)"
  unfolding draw_of_def by (rule picks_await) (simp add: chosen_def)

lemma picks_fill: "picks l (fill_round m signer i ks)"
  by (induction ks) (auto intro!: picks_intros picks_send picks_signer picks_draw simp: chosen_def)

lemma picks_settle:
  assumes "1 \<le> n" and "n \<le> 10"
  shows "picks (Some n) (settle_round m signer i n)"
proof -
  have "picks (Some n) (close_round m signer i d)" for d
    unfolding close_round_def by (auto intro!: picks_intros picks_send picks_draw simp: chosen_def)
  then show ?thesis
    using assms unfolding settle_round_def
    by (auto intro!: picks_intros picks_send picks_draw simp: chosen_def)
qed

lemma picks_round: "picks lucky (round_script m fill lucky)"
  unfolding round_script_def
  by (auto intro!: picks_intros picks_fill picks_signer picks_settle simp: chosen_def split: option.split)

text \<open>The number chosen on the command line is the number drawn: whatever the node answers, the word the demo
  helper hands to the mock provider makes the contract settle a waiting round with exactly that lucky
  number.\<close>

theorem chosen_number_is_drawn:
  assumes "(Send a p (fulfill r x), t) \<in> set (trace (round_script m fill lucky) env s)"
    and "deployed im T P w" and "exact_token T (im_this im)" and "valid_deployment im"
    and "s_status (l_draws (w_lottery w) i) = DRAWING"
  shows "\<exists>v. transact im T P (im_randomnessProvider im)
      (call_fulfillRandomness (s_requestId (l_draws (w_lottery w) i)) (nat x)) w = Inr v \<and>
    lucky = Some (int (s_luckyNumber (l_draws (w_lottery v) i)))"
proof -
  have free: "conforms (\<lambda>_ _ _ _. True) p env s" for p :: "('a, unit) prog" and env s
    by (induction p arbitrary: env s) (auto split: list.split)
  have "wp (\<lambda>_ _ _ _. True) (\<lambda>q _. chosen lucky q) (round_script m fill lucky) (\<lambda>_ _. True) (\<lambda>_ _. True) s"
    by (rule picks_round [unfolded picks_def, rule_format])
  from wp_trace [OF this free assms(1)] have x: "0 \<le> x" "x < 10" "lucky = Some (x + 1)"
    by (simp_all add: chosen_def)
  then have "int (nat x mod 10 + 1) = x + 1" by simp
  then show ?thesis
    using fulfill_decides [OF assms(2-5), of "nat x"] x(3) by (auto simp: transact_def)
qed

definition sample_manifest :: manifest where
  "sample_manifest =
     \<lparr>mf_chainId = ''31337'', mf_lotteryAddress = ''0x55'', mf_tokenAddress = ''0x33'', mf_tokenDecimals = 8,
      mf_daoAddress = ''0xD'', mf_randomnessProvider = ''0x44'', mf_deploymentBlock = None,
      mf_minimumParticipants = 2, mf_localMock = True, mf_testToken = False, mf_vrfSubscriptionId = None,
      mf_vrfNativePayment = False\<rparr>"

definition drawing_round :: "string SolDraw" where
  "drawing_round =
     \<lparr>s_id = 1, s_status = DRAWING, s_startTime = 0, s_deadline = 0, s_finalizedAt = 0, s_participantCount = 5,
      s_luckyNumber = 0, s_winner = [], s_inheritedRollover = 0, s_pool = 0, s_daoFee = 0, s_winnerPrize = 0,
      s_requestId = 1\<rparr>"

theorem chosen_number_is_drawn_witness:
  "\<exists>v. transact sample_im plain_token counting_provider 77 (call_fulfillRandomness 1 6) sample_drawing = Inr v \<and>
     s_luckyNumber (l_draws (w_lottery v) 1) = 7"
proof -
  let ?env = "[(RNat 31337, \<lambda>s. s), (RStrs [''0xA''], \<lambda>s. s), (RNat 1, \<lambda>s. s), (RDraw drawing_round, \<lambda>s :: unit. s)]"
  have "(Send ''0xA'' ''0x44'' (fulfill (show_nat 10 1) 6), ()) \<in> set (trace (round_script sample_manifest False (Some 7)) ?env ())"
    by (simp add: round_script_def settle_round_def close_round_def draw_of_def send_and_wait_def signer_at_def
        signers_def await_def reply_def drawing_round_def sample_manifest_def del: One_nat_def)
  from chosen_number_is_drawn [OF this drawing_deployed plain_exact sample_valid drawing_facts(1)]
  show ?thesis by (simp add: drawing_facts del: One_nat_def) (auto simp: sample_im_def)
qed

end
