(* ===== verification/Concurrent.thy ===== *)
theory Concurrent
  imports Async
begin

text \<open>
  Several \<^verbatim>\<open>async\<close> functions at once. \<^verbatim>\<open>Promise.allSettled\<close> over a list of them runs each to its
  first await, in order; whenever one of the outstanding requests is answered, the function that waits
  for it runs to its next await. The functions share the state, so that at an await each of them must
  expect what the others do. The rule of the locale \<open>rely_guarantee\<close> reduces the combination to its parts.
\<close>

section \<open>Running a list of programs\<close>

text \<open>The immediate parts of a program.\<close>

inductive part :: "('s, 'a) prog \<Rightarrow> ('s, 'a) prog \<Rightarrow> bool" where
  part_Get: "part (k s) (Get k)"
| part_Upd: "part p (Upd u p)"
| part_Await: "part (k r) (Await q k)"

inductive_cases partE [elim!]: "part p (Ret a)" "part p (Throw e)" "part p (Get k)" "part p (Upd u q)"
  "part p (Await r k)"

lemma wf_part: "wf {(p :: ('s, 'a) prog, q). part p q}"
proof (rule wfUNIVI)
  fix P :: "('s, 'a) prog \<Rightarrow> bool" and p
  assume step: "\<forall>p. (\<forall>q. (q, p) \<in> {(p, q). part p q} \<longrightarrow> P q) \<longrightarrow> P p"
  show "P p" by (induction p) (rule step [rule_format]; auto)+
qed

text \<open>A program that is neither at an await nor at its end.\<close>

fun moves :: "('s, 'a) prog \<Rightarrow> bool" where
  "moves (Get k) = True"
| "moves (Upd u p) = True"
| "moves _ = False"

fun awaited :: "('s, 'a) prog \<Rightarrow> req option" where
  "awaited (Await q k) = Some q"
| "awaited _ = None"

text \<open>What \<^verbatim>\<open>allSettled\<close> reports of a function that has ended.\<close>

fun settlement :: "('s, 'a) prog \<Rightarrow> jserr + 'a" where
  "settlement (Ret a) = Inr a"
| "settlement (Throw e) = Inl e"
| "settlement _ = Inl TypeError"

definition mover :: "('s, 'a) prog list \<Rightarrow> nat option" where
  "mover ps = List.find (\<lambda>i. moves (ps ! i)) [0..<length ps]"

lemma part_update: "i < length ps \<Longrightarrow> part p (ps ! i) \<Longrightarrow> (ps[i := p], ps) \<in> listrel1 {(p, q). part p q}"
  unfolding listrel1_iff_update by (intro exI [of _ "ps ! i"] exI [of _ i]) simp

function all_settled :: "('s, 'a) prog list \<Rightarrow> ('s, (jserr + 'a) list) prog" where
  "all_settled ps =
     (case mover ps of
        Some i \<Rightarrow>
          (if i < length ps
           then case ps ! i of
               Get k \<Rightarrow> Get (\<lambda>s. all_settled (ps[i := k s]))
             | Upd u p \<Rightarrow> Upd u (all_settled (ps[i := p]))
             | _ \<Rightarrow> Throw TypeError
           else Throw TypeError)
      | None \<Rightarrow>
          if \<forall>p \<in> set ps. awaited p = None then Ret (map settlement ps)
          else Await (Race (map awaited ps)) (\<lambda>r.
            case r of
              RPick i x \<Rightarrow>
                (if i < length ps
                 then case ps ! i of Await q k \<Rightarrow> all_settled (ps[i := k x]) | _ \<Rightarrow> Throw TypeError
                 else Throw TypeError)
            | _ \<Rightarrow> Throw TypeError))"
  by pat_completeness auto

termination
proof (relation "listrel1 {(p, q). part p q}")
  show "wf (listrel1 {(p, q). part p q})" by (simp add: wf_listrel1_iff wf_part)
qed (rule part_update; (assumption | simp add: part.intros))+

declare all_settled.simps [simp del]

lemma mover_Some: "mover ps = Some i \<Longrightarrow> i < length ps \<and> moves (ps ! i)"
  unfolding mover_def by (drule find_SomeD) simp

lemma mover_None: "mover ps = None \<longleftrightarrow> (\<forall>i < length ps. \<not> moves (ps ! i))"
  unfolding mover_def by (simp add: find_None_iff)

lemma all_settled_Get: "mover ps = Some i \<Longrightarrow> ps ! i = Get k \<Longrightarrow>
    all_settled ps = Get (\<lambda>s. all_settled (ps[i := k s]))"
  and all_settled_Upd: "mover ps = Some i \<Longrightarrow> ps ! i = Upd u p \<Longrightarrow>
    all_settled ps = Upd u (all_settled (ps[i := p]))"
  by (subst all_settled.simps, simp add: mover_Some)+

lemma all_settled_Ret: "mover ps = None \<Longrightarrow> \<forall>p \<in> set ps. awaited p = None \<Longrightarrow>
    all_settled ps = Ret (map settlement ps)"
  by (subst all_settled.simps) simp

lemma all_settled_Await: "mover ps = None \<Longrightarrow> \<not> (\<forall>p \<in> set ps. awaited p = None) \<Longrightarrow>
    all_settled ps = Await (Race (map awaited ps)) (\<lambda>r.
            case r of
              RPick i x \<Rightarrow>
                (if i < length ps
                 then case ps ! i of Await q k \<Rightarrow> all_settled (ps[i := k x]) | _ \<Rightarrow> Throw TypeError
                 else Throw TypeError)
            | _ \<Rightarrow> Throw TypeError)"
  by (subst all_settled.simps) simp

lemma moves_False: "\<not> moves p \<longleftrightarrow> (\<exists>a. p = Ret a) \<or> (\<exists>e. p = Throw e) \<or> (\<exists>q k. p = Await q k)"
  by (cases p) auto

lemma mover_update:
  assumes "i < length ps" and "\<forall>j < i. \<not> moves (ps ! j)" and "moves p"
  shows "mover (ps[i := p]) = Some i"
  using assms unfolding mover_def by (auto simp: find_Some_iff intro!: exI [of _ i])

lemma mover_first: "mover ps = Some i \<Longrightarrow> j < i \<Longrightarrow> \<not> moves (ps ! j)"
  unfolding mover_def by (auto simp: find_Some_iff)

section \<open>Relying on the others\<close>

text \<open>An answer to one of several outstanding requests is an answer to that request.\<close>

definition racing :: "(req \<Rightarrow> 's \<Rightarrow> resp \<Rightarrow> 's \<Rightarrow> bool) \<Rightarrow> req \<Rightarrow> 's \<Rightarrow> resp \<Rightarrow> 's \<Rightarrow> bool" where
  "racing R q s r t \<longleftrightarrow>
     (case q of
        Race qs \<Rightarrow> (\<exists>i q' x. r = RPick i x \<and> i < length qs \<and> qs ! i = Some q' \<and> R q' s x t)
      | _ \<Rightarrow> R q s r t)"

lemma racing_Race:
  "racing R (Race qs) s r t \<longleftrightarrow> (\<exists>i q x. r = RPick i x \<and> i < length qs \<and> qs ! i = Some q \<and> R q s x t)"
  by (auto simp: racing_def)

lemma racing_others: "(\<And>qs. q \<noteq> Race qs) \<Longrightarrow> racing R q s r t \<longleftrightarrow> R q s r t"
  by (cases q) (auto simp: racing_def)

text \<open>What one function sees at an await: the others act first, then its own answer arrives.\<close>

definition among ::
  "(req \<Rightarrow> 's \<Rightarrow> resp \<Rightarrow> 's \<Rightarrow> bool) \<Rightarrow> ('s \<Rightarrow> bool) \<Rightarrow> ('s \<Rightarrow> 's \<Rightarrow> bool) \<Rightarrow> req \<Rightarrow> 's \<Rightarrow> resp \<Rightarrow> 's \<Rightarrow> bool"
where
  "among R I other q s r t \<longleftrightarrow> (\<exists>u. other s u \<and> I u \<and> R q u r t)"

text \<open>Every single update of a program is one the relation allows.\<close>

primrec within :: "('s \<Rightarrow> 's \<Rightarrow> bool) \<Rightarrow> ('s, 'a) prog \<Rightarrow> bool" where
  "within S (Ret a) = True"
| "within S (Throw e) = True"
| "within S (Get k) = (\<forall>s. within S (k s))"
| "within S (Upd u p) = ((\<forall>s. S s (u s)) \<and> within S p)"
| "within S (Await q k) = (\<forall>r. within S (k r))"

lemma within_bind: "within S p \<Longrightarrow> (\<And>a. within S (f a)) \<Longrightarrow> within S (bind p f)"
  by (induction p) auto

lemma within_catch: "within S p \<Longrightarrow> (\<And>e. within S (h e)) \<Longrightarrow> within S (catch p h)"
  by (induction p) auto

lemma within_seq: "within S p \<Longrightarrow> within S q \<Longrightarrow> within S (seq p q)"
  unfolding seq_def by (rule within_bind)

lemma within_await: "within S (await c q)"
  by (auto simp: await_def split: sum.split)

lemma within_update: "(\<And>s. S s (u s)) \<Longrightarrow> within S (update u)"
  by (simp add: update_def)

lemmas within_intros = within_bind within_catch within_seq within_await within_update

text \<open>
  The \<open>i\<close>-th function asks only \<open>asks i\<close>, its updates and the effects of its requests are \<open>mine i\<close>, and
  it expects \<open>other i\<close> of the rest. \<open>I\<close> holds whenever all of them wait.
\<close>

locale rely_guarantee =
  fixes R :: "req \<Rightarrow> 's \<Rightarrow> resp \<Rightarrow> 's \<Rightarrow> bool"
    and I :: "'s \<Rightarrow> bool"
    and mine :: "nat \<Rightarrow> 's \<Rightarrow> 's \<Rightarrow> bool"
    and other :: "nat \<Rightarrow> 's \<Rightarrow> 's \<Rightarrow> bool"
    and asks :: "nat \<Rightarrow> req \<Rightarrow> bool"
  assumes other_refl: "other i s s"
    and other_trans: "other i s t \<Longrightarrow> other i t u \<Longrightarrow> other i s u"
    and mine_other: "mine i s t \<Longrightarrow> i \<noteq> j \<Longrightarrow> other j s t"
    and answered: "asks i q \<Longrightarrow> R q s r t \<Longrightarrow> mine i s t"

context rely_guarantee
begin

abbreviation alone ::
  "nat \<Rightarrow> ('s, 'a) prog \<Rightarrow> (nat \<Rightarrow> 'a \<Rightarrow> 's \<Rightarrow> bool) \<Rightarrow> (nat \<Rightarrow> jserr \<Rightarrow> 's \<Rightarrow> bool) \<Rightarrow> 's \<Rightarrow> bool" where
  "alone i p Q E \<equiv>
     wp (among R I (other i)) (\<lambda>q s. asks i q \<and> I s) p (\<lambda>a t. I t \<and> Q i a t) (\<lambda>e t. I t \<and> E i e t)"

abbreviation fit ::
  "nat \<Rightarrow> ('s, 'a) prog \<Rightarrow> (nat \<Rightarrow> 'a \<Rightarrow> 's \<Rightarrow> bool) \<Rightarrow> (nat \<Rightarrow> jserr \<Rightarrow> 's \<Rightarrow> bool) \<Rightarrow> 's \<Rightarrow> bool" where
  "fit i p Q E s \<equiv> \<forall>t. other i s t \<longrightarrow> I t \<longrightarrow> alone i p Q E t"

abbreviation lasts :: "(nat \<Rightarrow> 'a \<Rightarrow> 's \<Rightarrow> bool) \<Rightarrow> bool" where
  "lasts Q \<equiv> \<forall>i a s t. other i s t \<longrightarrow> Q i a s \<longrightarrow> Q i a t"

text \<open>A program at an await or at its end stands what the others do.\<close>

lemma stopped_fit:
  assumes "lasts Q" and "lasts E"
    and "\<not> moves p" and "alone i p Q E s"
  shows "I s \<and> fit i p Q E s"
proof -
  have "alone i p Q E t" if "other i s t" "I t" for t
    using assms that unfolding moves_False by (auto simp: among_def) (blast intro: other_trans)+
  moreover have "I s" using assms(3,4) unfolding moves_False by auto
  ultimately show ?thesis by blast
qed

lemma resumed:
  assumes "i < length ps" and "\<forall>j < i. \<not> moves (ps ! j)" and "alone i p Q E s"
    and "\<forall>j < length ps. j \<noteq> i \<longrightarrow> fit j (ps ! j) Q E s"
    and stable: "lasts Q" "lasts E"
  shows "I s \<and> (\<forall>j < length ps. fit j (ps[i := p] ! j) Q E s) \<or>
    (\<exists>m < length ps. mover (ps[i := p]) = Some m \<and> alone m (ps[i := p] ! m) Q E s \<and>
       (\<forall>j < length ps. j \<noteq> m \<longrightarrow> fit j (ps[i := p] ! j) Q E s))"
proof (cases "moves p")
  case True
  then show ?thesis using assms(1-4) mover_update [OF assms(1,2) True] by (intro disjI2 exI [of _ i]) auto
next
  case False
  from stopped_fit [of Q E p i s, OF stable False assms(3)] assms(1,4) show ?thesis
    by (intro disjI1) (auto simp: nth_list_update)
qed

lemma fit_mine:
  assumes "mine i s t" and "\<forall>j < n. j \<noteq> i \<longrightarrow> fit j (f j) Q E s"
  shows "\<forall>j < n. j \<noteq> i \<longrightarrow> fit j (f j) Q E t"
proof (intro allI impI)
  fix j u
  assume j: "j < n" "j \<noteq> i" and u: "other j t u" "I u"
  from mine_other [OF assms(1)] j have "other j s t" by simp
  with u(1) have "other j s u" by (rule other_trans [rotated])
  then show "alone j (f j) Q E u" using assms(2) j u(2) by blast
qed

lemma all_settled_wp:
  assumes stable: "lasts Q" "lasts E"
    and "\<forall>i < length ps. within (mine i) (ps ! i)"
    and "I s \<and> (\<forall>i < length ps. fit i (ps ! i) Q E s) \<or>
      (\<exists>m < length ps. mover ps = Some m \<and> alone m (ps ! m) Q E s \<and>
         (\<forall>i < length ps. i \<noteq> m \<longrightarrow> fit i (ps ! i) Q E s))"
  shows "wp (racing R) (\<lambda>_. I) (all_settled ps)
    (\<lambda>rs t. I t \<and> length rs = length ps \<and>
       (\<forall>i < length ps. case rs ! i of Inl e \<Rightarrow> E i e t | Inr a \<Rightarrow> Q i a t)) (\<lambda>_ _. False) s"
  using assms(3,4)
proof (induction ps arbitrary: s rule: all_settled.induct)
  case (1 ps)
  note within = 1(4) and now = 1(5)
  let ?res = "\<lambda>rs t. I t \<and> length rs = length ps \<and>
       (\<forall>i < length ps. case rs ! i of Inl e \<Rightarrow> E i e t | Inr a \<Rightarrow> Q i a t)"
  have within': "\<forall>j < length ps. within (mine j) (ps[i := p] ! j)" if "within (mine i) p" for i p
    using within that by (metis nth_list_update_eq nth_list_update_neq)
  show ?case
  proof (cases "mover ps")
    case None
    then have stopped: "\<forall>i < length ps. \<not> moves (ps ! i)" by (simp add: mover_None)
    have s: "I s" and fits: "\<forall>i < length ps. fit i (ps ! i) Q E s" using now None by auto
    then have alone: "alone i (ps ! i) Q E s" if "i < length ps" for i using that other_refl by blast
    show ?thesis
    proof (cases "\<forall>p \<in> set ps. awaited p = None")
      case True
      have "case settlement (ps ! i) of Inl e \<Rightarrow> E i e s | Inr a \<Rightarrow> Q i a s" if "i < length ps" for i
        using alone [OF that] stopped [rule_format, OF that] True nth_mem [OF that] by (cases "ps ! i") auto
      then show ?thesis using s by (simp add: all_settled_Ret [OF None True])
    next
      case False
      have "wp (racing R) (\<lambda>_. I) (all_settled (ps[i := k x])) ?res (\<lambda>_ _. False) t"
        if i: "i < length ps" "ps ! i = Await q k" and x: "R q s x t" for i q k x t
      proof -
        have "among R I (other i) q s x t" unfolding among_def using other_refl s x by blast
        then have ask: "asks i q" and on: "alone i (k x) Q E t"
          using alone [OF i(1)] by (simp_all add: i(2))
        have "fit j (ps ! j) Q E t" if "j < length ps" "j \<noteq> i" for j
          using fit_mine [OF answered [OF ask x], of "length ps" "\<lambda>j. ps ! j" Q E] fits that by blast
        then have others: "\<forall>j < length ps. j \<noteq> i \<longrightarrow> fit j (ps ! j) Q E t" by blast
        have "\<forall>j < i. \<not> moves (ps ! j)" using stopped i(1) by auto
        note ready = resumed [OF i(1) this on others stable]
        have "within (mine i) (k x)" using within [rule_format, OF i(1)] i(2) by simp
        with "1.IH"(1) [OF None False i, of x t] ready within' [of i] show ?thesis by simp
      qed
      then show ?thesis
        using s by (auto simp: all_settled_Await [OF None False] racing_Race nth_map elim!: awaited.elims)
    qed
  next
    case (Some m)
    then have m: "m < length ps" "moves (ps ! m)" by (auto dest: mover_Some)
    have alone: "alone m (ps ! m) Q E s" and fits: "\<forall>i < length ps. i \<noteq> m \<longrightarrow> fit i (ps ! i) Q E s"
      using now Some m(1) other_refl by auto
    have before: "\<forall>j < m. \<not> moves (ps ! j)" using mover_first [OF Some] by blast
    show ?thesis
    proof (cases "ps ! m")
      case (Get k)
      then have "alone m (k s) Q E s" using alone by simp
      from "1.IH"(2) [OF Some m(1) Get] resumed [OF m(1) before this fits stable]
        within' [of m "k s"] within [rule_format, OF m(1)] Get
      show ?thesis by (simp add: all_settled_Get [OF Some Get])
    next
      case (Upd u p)
      then have "alone m p Q E (u s)" using alone by simp
      moreover have "mine m s (u s)" using within m(1) Upd by fastforce
      then have "\<forall>j < length ps. j \<noteq> m \<longrightarrow> fit j (ps ! j) Q E (u s)" by (rule fit_mine) (rule fits)
      ultimately show ?thesis
        using "1.IH"(3) [OF Some m(1) Upd] resumed [OF m(1) before _ _ stable, of p]
          within' [of m p] within [rule_format, OF m(1)] Upd
        by (simp add: all_settled_Upd [OF Some Upd])
    qed (use m in auto)
  qed
qed

text \<open>The rule: every part is right by itself, whenever it is started.\<close>

lemma parallel:
  assumes "lasts Q" and "lasts E"
    and "\<And>i. i < length ps \<Longrightarrow> within (mine i) (ps ! i)"
    and "\<And>i t. i < length ps \<Longrightarrow> other i s t \<Longrightarrow> I t \<Longrightarrow> alone i (ps ! i) Q E t"
    and "I s"
  shows "wp (racing R) (\<lambda>_. I) (all_settled ps)
    (\<lambda>rs t. I t \<and> length rs = length ps \<and>
       (\<forall>i < length ps. case rs ! i of Inl e \<Rightarrow> E i e t | Inr a \<Rightarrow> Q i a t)) (\<lambda>_ _. False) s"
  by (rule all_settled_wp) (use assms in blast)+

end

section \<open>Costs add up\<close>

lemma cost_Await_each: "cost each_await (Await q k) n \<longleftrightarrow> 0 < n \<and> (\<forall>r. cost each_await (k r) (n - 1))"
  by auto

lemma sum_list_update_nat:
  "i < length ns \<Longrightarrow> ns ! i = Suc m \<Longrightarrow> sum_list ns = Suc (sum_list (ns[i := m]))" for ns :: "nat list"
  by (induction ns arbitrary: i) (auto split: nat.split simp: nth_Cons)

lemma cost_all_settled:
  assumes "length ns = length ps" and "\<forall>i < length ps. cost each_await (ps ! i) (ns ! i)"
  shows "cost each_await (all_settled ps) (sum_list ns)"
  using assms
proof (induction ps arbitrary: ns rule: all_settled.induct)
  case (1 ps)
  have upd: "\<forall>j < length ps. cost each_await (ps[i := p] ! j) (ns[i := n] ! j)"
    if "cost each_await p n" for i p n
    using 1(5) that 1(4) by (metis length_list_update nth_list_update nth_list_update_neq)
  show ?case
  proof (cases "mover ps")
    case None
    show ?thesis
    proof (cases "\<forall>p \<in> set ps. awaited p = None")
      case False
      then obtain i q k where "i < length ps" "ps ! i = Await q k"
        by (auto simp: in_set_conv_nth elim!: awaited.elims)
      then have "0 < ns ! i" "i < length ns" using 1(4,5) by (auto simp: cost_Await_each)
      then have pos: "0 < sum_list ns" by (metis gr0I in_set_conv_nth sum_list_eq_0_iff)
      have "cost each_await (all_settled (ps[i := k x])) (sum_list ns - 1)"
        if i: "i < length ps" "ps ! i = Await q k" for i q k x
      proof -
        obtain m where m: "ns ! i = Suc m" and k: "cost each_await (k x) m"
          using 1(5) [rule_format, OF i(1)] i(2) by (cases "ns ! i") (auto simp: cost_Await_each)
        show ?thesis
          using "1.IH"(1) [OF None False i, of "ns[i := m]"] upd [OF k, of i] i 1(4)
            sum_list_update_nat [of i ns m] m by (simp del: each_await_simp)
      qed
      then show ?thesis
        using pos unfolding all_settled_Await [OF None False] cost_Await_each
        by (auto simp del: each_await_simp split: resp.split prog.split)
    qed (simp add: all_settled_Ret [OF None])
  next
    case (Some m)
    then have m: "m < length ps" "moves (ps ! m)" by (auto dest: mover_Some)
    have same: "ns[m := ns ! m] = ns" by simp
    show ?thesis
    proof (cases "ps ! m")
      case (Get k)
      then have "cost each_await (k s) (ns ! m)" for s using 1(5) [rule_format, OF m(1)] Get by simp
      from "1.IH"(2) [OF Some m(1) Get] upd [OF this, of m] 1(4) same
      show ?thesis by (simp add: all_settled_Get [OF Some Get] del: each_await_simp)
    next
      case (Upd u p)
      then have "cost each_await p (ns ! m)" using 1(5) [rule_format, OF m(1)] Upd by simp
      from "1.IH"(3) [OF Some m(1) Upd] upd [OF this, of m] 1(4) same
      show ?thesis by (simp add: all_settled_Upd [OF Some Upd] del: each_await_simp)
    qed (use m in auto)
  qed
qed

end
