(* ===== verification/Activity.thy ===== *)
theory Activity
  imports Concurrent Deploy Processes
begin

text \<open>
  \<^verbatim>\<open>scripts/check-sepolia.mjs\<close>: real activity on the test network. Five wallets buy tickets of the first
  round, concurrently, the round is drawn, its prize claimed, and a second round is left with four tickets.
  Every transaction has a label; its hash is saved to the evidence file as soon as the node has taken
  it. A run may stop at any await, and the next one starts from the files. \<open>taken\<close>, \<open>adrift\<close> and
  \<open>holders\<close> belong to the network: the submissions it answered with a hash, those it took although
  no hash reached the script, and who holds a ticket of which round.
\<close>

section \<open>The evidence file\<close>

record first_draw =
  fr_status :: nat
  fr_lucky :: nat
  fr_winner :: string
  fr_request :: string

record evidence =
  ev_players :: "string list"
  ev_txs :: "string \<Rightarrow> tx_entry option"
  ev_first :: "first_draw option"

record activity =
  journal :: evidence
  journal_file :: "evidence option"
  wallet_file :: "string list option"
  today :: int
  told :: "(string \<times> string) option"
  exit_code :: nat
  taken :: "(req \<times> string) list"
  holders :: "string \<Rightarrow> string \<Rightarrow> bool"
  adrift :: "req list"

text \<open>
  What the run is given: the owner's address, the manifest of the deployment, four new keys for the case
  that there is no wallet file, and the address of a key.
\<close>

record tester =
  t_owner :: string
  t_manifest :: manifest
  t_fresh :: "string list"
  t_address :: "string \<Rightarrow> string"

abbreviation t_lottery :: "tester \<Rightarrow> string" where
  "t_lottery v \<equiv> mf_lotteryAddress (t_manifest v)"

abbreviation t_token :: "tester \<Rightarrow> string" where
  "t_token v \<equiv> mf_tokenAddress (t_manifest v)"

definition check_players :: "tester \<Rightarrow> activity \<Rightarrow> string list" where
  "check_players v s =
     t_owner v # map (t_address v) (case wallet_file s of None \<Rightarrow> t_fresh v | Some keys \<Rightarrow> keys)"

definition start_check :: "tester \<Rightarrow> activity \<Rightarrow> activity" where
  "start_check v s =
     s\<lparr>wallet_file := Some (case wallet_file s of None \<Rightarrow> t_fresh v | Some keys \<Rightarrow> keys),
       journal := (case journal_file s of
          Some e \<Rightarrow> e
        | None \<Rightarrow> \<lparr>ev_players = check_players v s, ev_txs = (\<lambda>_. None), ev_first = None\<rparr>),
       told := None, exit_code := 0\<rparr>"

definition save_journal :: "activity \<Rightarrow> activity" where
  "save_journal s = s\<lparr>journal_file := Some (journal s)\<rparr>"

definition enter :: "string \<Rightarrow> tx_entry \<Rightarrow> activity \<Rightarrow> activity" where
  "enter l e s = save_journal (s\<lparr>journal := (journal s)\<lparr>ev_txs := (ev_txs (journal s))(l := Some e)\<rparr>\<rparr>)"

section \<open>Submitting and confirming\<close>

text \<open>\<^verbatim>\<open>/in-flight transaction limit|nonce too low/i\<close> on the error's text\<close>

definition pool_error :: "jserr \<Rightarrow> bool" where
  "pool_error e =
     (let t = toLowerCase (or_opt (e_inner e) (or_opt (e_shortMessage e) []))
      in sublist ''in-flight transaction limit'' t \<or> sublist ''nonce too low'' t)"

text \<open>The retries: \<open>n\<close> more attempts are left after this one, eight at first.\<close>

primrec send_retry :: "nat \<Rightarrow> ('s, string) prog \<Rightarrow> ('s, string) prog" where
  "send_retry 0 send = send"
| "send_retry (Suc n) send =
     bind (catch (bind send (\<lambda>h. Ret (Some h))) (\<lambda>e. if pool_error e then Ret None else Throw e)) (\<lambda>x.
       case x of
         Some h \<Rightarrow> Ret h
       | None \<Rightarrow> seq (await as_any (Sleep 15000)) (send_retry n send))"

definition submit :: "string \<Rightarrow> (activity, string) prog \<Rightarrow> (activity, string) prog" where
  "submit label send =
     seq (Get (\<lambda>s. if ev_txs (journal s) label = None
              then bind (send_retry 8 send) (\<lambda>h. update (enter label \<lparr>te_hash = h, te_block = None\<rparr>))
              else Ret ()))
       (Get (\<lambda>s. case ev_txs (journal s) label of None \<Rightarrow> Throw TypeError | Some e \<Rightarrow> Ret (te_hash e)))"

definition confirm :: "string \<Rightarrow> (activity, string) prog \<Rightarrow> (activity, mined) prog" where
  "confirm label send =
     bind (submit label send) (\<lambda>hash.
     bind (await as_mined (WaitTx hash)) (\<lambda>receipt.
       case receipt of
         None \<Rightarrow> Throw (new_Error (''Failed or pending: '' @ label))
       | Some r \<Rightarrow>
           if m_status r \<noteq> Some 1 then Throw (new_Error (''Failed or pending: '' @ label))
           else Get (\<lambda>s. case ev_txs (journal s) label of
                  None \<Rightarrow> Throw TypeError
                | Some e \<Rightarrow> Upd (enter label (e\<lparr>te_block := Some (m_blockNumber r)\<rparr>)) (Ret r))))"

definition confirm_send :: "string \<Rightarrow> string \<Rightarrow> string \<Rightarrow> tx_call \<Rightarrow> (activity, unit) prog" where
  "confirm_send label sender target call =
     bind (confirm label (await as_str (Send sender target call))) (\<lambda>_. Ret ())"

section \<open>Buying tickets\<close>

definition mint_label :: "nat \<Rightarrow> string" where
  "mint_label i = ''mint'' @ show_nat 10 i"

definition approve_label :: "string \<Rightarrow> nat \<Rightarrow> string" where
  "approve_label d i = ''approve'' @ d @ ''-'' @ show_nat 10 i"

definition buy_label :: "string \<Rightarrow> nat \<Rightarrow> string" where
  "buy_label d i = ''buy'' @ d @ ''-'' @ show_nat 10 i"

definition fund_label :: "nat \<Rightarrow> string" where
  "fund_label i = ''fund'' @ show_nat 10 i"

text \<open>The function \<^verbatim>\<open>tickets\<close> starts for each wallet.\<close>

definition buy_one :: "tester \<Rightarrow> string \<Rightarrow> nat \<Rightarrow> string \<Rightarrow> (activity, unit) prog" where
  "buy_one v d i w =
     bind (await as_nat (SignerRead w (t_lottery v) (ticketOf d w))) (\<lambda>held.
       if held \<noteq> 0 then Ret ()
       else bind (await as_nat (SignerRead w (t_token v) (balanceOf w))) (\<lambda>balance.
         seq (if balance < 10 ^ 9
              then confirm_send (mint_label i) w (t_token v) (mint w (1000 * 10 ^ 8))
              else Ret ())
        (seq (confirm_send (approve_label d i) w (t_token v) (approve (t_lottery v) (10 ^ 9)))
             (confirm_send (buy_label d i) w (t_lottery v) (buyTicket d)))))"

definition buyers :: "tester \<Rightarrow> string \<Rightarrow> string list \<Rightarrow> (activity, unit) prog list" where
  "buyers v d ws = map (\<lambda>i. buy_one v d i (ws ! i)) [0..<length ws]"

definition buy_tickets :: "tester \<Rightarrow> string \<Rightarrow> string list \<Rightarrow> (activity, unit) prog" where
  "buy_tickets v d ws =
     bind (all_settled (buyers v d ws)) (\<lambda>results.
       case List.find isl results of Some (Inl e) \<Rightarrow> Throw e | _ \<Rightarrow> Ret ())"

section \<open>The script\<close>

definition stake :: nat where
  "stake = 3 * 10 ^ 15"

definition fund_one :: "tester \<Rightarrow> nat \<Rightarrow> string \<Rightarrow> (activity, unit) prog" where
  "fund_one v i w =
     Get (\<lambda>s. if ev_txs (journal s) (fund_label i) \<noteq> None then Ret ()
       else bind (await as_nat (GetBalance w)) (\<lambda>balance.
         if balance < stake
         then bind (confirm (fund_label i) (await as_str (SendValue (t_owner v) w stake))) (\<lambda>_. Ret ())
         else Ret ()))"

primrec fund_all :: "tester \<Rightarrow> nat \<Rightarrow> string list \<Rightarrow> (activity, unit) prog" where
  "fund_all v i [] = Ret ()"
| "fund_all v i (w # ws) = seq (fund_one v i w) (fund_all v (Suc i) ws)"

definition round_at :: "tester \<Rightarrow> string \<Rightarrow> (activity, string SolDraw) prog" where
  "round_at v d = await as_draw (SignerRead (t_owner v) (t_lottery v) (getDraw d))"

definition current_round :: "tester \<Rightarrow> (activity, nat) prog" where
  "current_round v = await as_nat (SignerRead (t_owner v) (t_lottery v) currentDrawId)"

text \<open>The monitoring loop, with a bound on its rounds that the deadline keeps it from reaching.\<close>

fun wait_drawn :: "tester \<Rightarrow> nat \<Rightarrow> int \<Rightarrow> (activity, string SolDraw) prog" where
  "wait_drawn v n til =
     bind (round_at v ''1'') (\<lambda>d.
       if s_status d \<noteq> DRAWING then Ret d
       else Get (\<lambda>s.
         if til < today s then Throw (new_Error ''VRF still pending; rerun to resume monitoring'')
         else (case n of
            0 \<Rightarrow> Throw out_of_rounds
          | Suc m \<Rightarrow> seq (await as_any (Sleep 15000)) (wait_drawn v m til))))"

declare wait_drawn.simps [simp del]

definition write_first :: "string SolDraw \<Rightarrow> activity \<Rightarrow> activity" where
  "write_first d s =
     save_journal (s\<lparr>journal := (journal s)\<lparr>ev_first := Some
       \<lparr>fr_status = status_code (s_status d), fr_lucky = s_luckyNumber d, fr_winner = s_winner d,
        fr_request = show_nat 10 (s_requestId d)\<rparr>\<rparr>\<rparr>)"

definition claim_first :: "tester \<Rightarrow> string list \<Rightarrow> string SolDraw \<Rightarrow> (activity, unit) prog" where
  "claim_first v ps d =
     (if s_status d = WINNER_DECLARED
      then (case List.find (\<lambda>p. same_address p (s_winner d)) ps of
              None \<Rightarrow> Throw (new_Error ''Winner is outside test wallets'')
            | Some w \<Rightarrow> confirm_send ''claimPrize1'' w (t_lottery v) (claimPrize ''1''))
      else Ret ())"

definition second_round :: "tester \<Rightarrow> string list \<Rightarrow> (activity, unit) prog" where
  "second_round v ps =
     bind (current_round v) (\<lambda>n.
     seq (if n = 1 then confirm_send ''startDraw2'' (t_owner v) (t_lottery v) (startDraw ''1'') else Ret ())
    (bind (current_round v) (\<lambda>current.
     seq (if current = 2
          then bind (round_at v ''2'') (\<lambda>d.
            if s_status d = ACTIVE then buy_tickets v ''2'' (take 4 ps) else Ret ())
          else Ret ())
         (bind (current_round v) (\<lambda>_. Ret ())))))"

definition first_round :: "tester \<Rightarrow> string list \<Rightarrow> (activity, unit) prog" where
  "first_round v ps =
     bind (round_at v ''1'') (\<lambda>d.
       if s_status d = ACTIVE
       then seq (buy_tickets v ''1'' ps)
              (confirm_send ''performDraw1'' (t_owner v) (t_lottery v) (performDraw ''1''))
       else Ret ())"

definition main_check :: "tester \<Rightarrow> string list \<Rightarrow> (activity, unit) prog" where
  "main_check v ps =
     (if mf_chainId (t_manifest v) \<noteq> ''11155111'' then Throw (new_Error ''Sepolia test fixture required'')
      else bind (await as_str (RpcCall ''eth_chainId'' [])) (\<lambda>x.
        bind (BigInt x) (\<lambda>n.
          if n \<noteq> 11155111 \<or> \<not> mf_testToken (t_manifest v)
          then Throw (new_Error ''Sepolia test fixture required'')
          else seq (fund_all v 1 (tl ps))
              (seq (first_round v ps)
              (Get (\<lambda>s. bind (wait_drawn v 61 (today s + 15 * 60 * 1000)) (\<lambda>d.
                 Upd (write_first d)
                  (seq (claim_first v ps d) (second_round v ps)))))))))"

definition check_script :: "tester \<Rightarrow> (activity, unit) prog" where
  "check_script v =
     Get (\<lambda>s. catch (main_check v (check_players v s))
       (\<lambda>e. update (\<lambda>s. s\<lparr>told := Some (report e), exit_code := 1\<rparr>)))"

end
