(* ===== verification/ActivityRuns.thy ===== *)
theory ActivityRuns
  imports Activity
begin

text \<open>
  What \<^verbatim>\<open>scripts/check-sepolia.mjs\<close> keeps while its purchases run side by side and while its runs are
  interrupted: the evidence file names every transaction the network answered, each under a label of
  its own, and a confirmed purchase is a ticket.
\<close>

section \<open>The network\<close>

fun submission :: "req \<Rightarrow> bool" where
  "submission (Send a t c) = True"
| "submission (SendValue a b n) = True"
| "submission _ = False"

text \<open>
  A submission that is answered with a hash is taken; one that fails, by a refusal or because the request
  timed out, may be taken all the same and is then adrift. Tickets are never lost, a node that reports a
  ticket is right, and a purchase that was mined with success is a ticket. Time passes, and no error of a
  library is the one reserved for the bounded loops.
\<close>

definition testnet :: "tester \<Rightarrow> req \<Rightarrow> activity \<Rightarrow> resp \<Rightarrow> activity \<Rightarrow> bool" where
  "testnet v q s r t \<longleftrightarrow>
     (\<exists>H n D. t = s\<lparr>taken := (case r of RStr h \<Rightarrow> if submission q then taken s @ [(q, h)] else taken s | _ \<Rightarrow> taken s),
                today := n, holders := H, adrift := D\<rparr> \<and>
        (D = adrift s \<or> submission q \<and> (\<forall>h. r \<noteq> RStr h) \<and> D = adrift s @ [q]) \<and>
        holders s \<le> H \<and> today s \<le> n \<and> (\<forall>ms. q = Sleep ms \<longrightarrow> today s + int ms \<le> n) \<and>
        (\<forall>a d w k. q = SignerRead a (t_lottery v) (ticketOf d w) \<and> r = RNat k \<and> k \<noteq> 0 \<longrightarrow> H d w) \<and>
        (\<forall>h m w d. q = WaitTx h \<and> r = RMined (Some m) \<and> m_status m = Some 1 \<and>
           (Send w (t_lottery v) (buyTicket d), h) \<in> set (taken s) \<longrightarrow> H d w) \<and>
        (\<forall>e. r = Rej e \<longrightarrow> e \<noteq> out_of_rounds))"

text \<open>Any number of runs, each ended wherever its answers end; any of the submissions that were on their way
  when a run was stopped may have been taken.\<close>

definition nothing_done :: "activity \<Rightarrow> bool" where
  "nothing_done s \<longleftrightarrow> journal_file s = None \<and> wallet_file s = None \<and> taken s = []"

fun outstanding :: "req \<Rightarrow> req set" where
  "outstanding (Race qs) = {q. Some q \<in> set qs \<and> submission q}"
| "outstanding q = {x. x = q \<and> submission q}"

inductive check_runs :: "tester \<Rightarrow> activity \<Rightarrow> bool" for v :: tester where
  no_run: "nothing_done s \<Longrightarrow> check_runs v s"
| one_more: "check_runs v s \<Longrightarrow> conforms (racing (testnet v)) (check_script v) env (start_check v s) \<Longrightarrow>
     check_runs v (final (check_script v) env (start_check v s))"
| stopped: "check_runs v s \<Longrightarrow> conforms (racing (testnet v)) (check_script v) env (start_check v s) \<Longrightarrow>
     outcome (check_script v) env (start_check v s) = Waiting q \<Longrightarrow> set D \<subseteq> outstanding q \<Longrightarrow>
     t = final (check_script v) env (start_check v s) \<Longrightarrow>
     check_runs v (t\<lparr>adrift := adrift t @ D\<rparr>)"

section \<open>Labels\<close>

definition labels_of :: "nat \<Rightarrow> string list" where
  "labels_of i = [mint_label i, approve_label ''1'' i, approve_label ''2'' i, buy_label ''1'' i, buy_label ''2'' i]"

definition all_labels :: "nat \<Rightarrow> string list" where
  "all_labels n =
     map fund_label [1..<n] @ map mint_label [0..<n] @
     map (approve_label ''1'') [0..<n] @ map (buy_label ''1'') [0..<n] @
     map (approve_label ''2'') [0..<min 4 n] @ map (buy_label ''2'') [0..<min 4 n] @
     [''performDraw1'', ''claimPrize1'', ''startDraw2'']"

lemma labels_distinct [simp]:
  "mint_label i = mint_label j \<longleftrightarrow> i = j" "mint_label i \<noteq> approve_label d j" "mint_label i \<noteq> buy_label d j"
  "approve_label d i = approve_label d j \<longleftrightarrow> i = j" "approve_label d i \<noteq> mint_label j" "approve_label d i \<noteq> buy_label e j"
  "buy_label d i = buy_label d j \<longleftrightarrow> i = j" "buy_label d i \<noteq> mint_label j" "buy_label d i \<noteq> approve_label e j"
  "fund_label i \<noteq> mint_label j" "fund_label i \<noteq> approve_label d j" "fund_label i \<noteq> buy_label d j"
  "mint_label i \<noteq> fund_label j" "approve_label d i \<noteq> fund_label j" "buy_label d i \<noteq> fund_label j"
  by (simp_all add: mint_label_def approve_label_def buy_label_def fund_label_def)

lemma labels_rounds [simp]:
  "approve_label ''1'' i \<noteq> approve_label ''2'' j" "approve_label ''2'' i \<noteq> approve_label ''1'' j"
  "buy_label ''1'' i \<noteq> buy_label ''2'' j" "buy_label ''2'' i \<noteq> buy_label ''1'' j"
  by (simp_all add: approve_label_def buy_label_def)

lemma labels_fixed [simp]:
  "buy_label d i \<noteq> ''performDraw1''" "buy_label d i \<noteq> ''claimPrize1''" "buy_label d i \<noteq> ''startDraw2''"
  "''performDraw1'' \<noteq> buy_label d i" "''claimPrize1'' \<noteq> buy_label d i" "''startDraw2'' \<noteq> buy_label d i"
  by (simp_all add: buy_label_def)

lemma labels_apart: "l \<in> set (labels_of i) \<Longrightarrow> l \<in> set (labels_of j) \<Longrightarrow> i = j"
  by (auto simp: labels_of_def)

lemma length_all_labels: "length (all_labels n) = (n - 1) + 3 * n + 2 * min 4 n + 3"
  by (simp add: all_labels_def)

section \<open>The invariant\<close>

definition listed :: "activity \<Rightarrow> bool" where
  "listed s \<longleftrightarrow>
     (\<exists>ls. distinct ls \<and> set ls = dom (ev_txs (journal s)) \<and>
        map snd (taken s) = map (\<lambda>l. te_hash (the (ev_txs (journal s) l))) ls)"

definition on_file :: "activity \<Rightarrow> bool" where
  "on_file s \<longleftrightarrow>
     journal_file s = Some (journal s) \<or>
     journal_file s = None \<and> ev_txs (journal s) = (\<lambda>_. None) \<and> taken s = []"

definition bought_by :: "tester \<Rightarrow> string list \<Rightarrow> activity \<Rightarrow> bool" where
  "bought_by v ps s \<longleftrightarrow>
     (\<forall>d \<in> {''1'', ''2''}. \<forall>i < length ps. \<forall>e. ev_txs (journal s) (buy_label d i) = Some e \<longrightarrow>
        (Send (ps ! i) (t_lottery v) (buyTicket d), te_hash e) \<in> set (taken s))"

definition evidenced :: "tester \<Rightarrow> string list \<Rightarrow> activity \<Rightarrow> bool" where
  "evidenced v ps s \<longleftrightarrow>
     wallet_file s \<noteq> None \<and> check_players v s = ps \<and> listed s \<and> on_file s \<and> bought_by v ps s \<and>
     dom (ev_txs (journal s)) \<subseteq> set (all_labels (length ps))"

text \<open>What the purchases of other wallets leave alone, and what one purchase changes.\<close>

definition apart :: "string set \<Rightarrow> activity \<Rightarrow> activity \<Rightarrow> bool" where
  "apart A s t \<longleftrightarrow>
     (\<forall>l \<in> A. ev_txs (journal t) l = ev_txs (journal s) l) \<and> holders s \<le> holders t"

definition touches :: "string set \<Rightarrow> activity \<Rightarrow> activity \<Rightarrow> bool" where
  "touches A s t \<longleftrightarrow>
     (\<forall>l. l \<notin> A \<longrightarrow> ev_txs (journal t) l = ev_txs (journal s) l) \<and> holders s \<le> holders t"

fun plain :: "req \<Rightarrow> bool" where
  "plain (Race qs) = False"
| "plain _ = True"

interpretation purchases: rely_guarantee "testnet v" "evidenced v ps" "\<lambda>i. touches (set (labels_of i))"
    "\<lambda>i. apart (set (labels_of i))" "\<lambda>i. plain" for v ps
proof
  show "apart (set (labels_of j)) s t" if "touches (set (labels_of i)) s t" "i \<noteq> j" for i j s t
    using that labels_apart [of _ i j] by (auto simp: touches_def apart_def)
  show "touches (set (labels_of i)) s t" if "testnet v q s r t" for i q s r t
    using that by (auto simp: touches_def testnet_def)
qed (auto simp: apart_def)

section \<open>One transaction\<close>

text \<open>
  \<open>lone A p Q\<close>: beside other purchases that leave the labels \<open>A\<close> alone, \<open>p\<close> keeps the invariant at every
  await and at its end, and returns with \<open>Q\<close>.
\<close>

abbreviation fails :: "tester \<Rightarrow> string list \<Rightarrow> jserr \<Rightarrow> activity \<Rightarrow> bool" where
  "fails v ps e t \<equiv> evidenced v ps t \<and> e \<noteq> out_of_rounds"

abbreviation lone ::
  "tester \<Rightarrow> string list \<Rightarrow> string set \<Rightarrow> (activity, 'a) prog \<Rightarrow> ('a \<Rightarrow> activity \<Rightarrow> bool) \<Rightarrow> activity \<Rightarrow> bool" where
  "lone v ps A p Q s \<equiv>
     wp (among (testnet v) (evidenced v ps) (apart A)) (\<lambda>q s. plain q \<and> evidenced v ps s) p
       (\<lambda>a t. evidenced v ps t \<and> Q a t) (fails v ps) s"

definition kept :: "string set \<Rightarrow> (activity \<Rightarrow> bool) \<Rightarrow> bool" where
  "kept A P \<longleftrightarrow> (\<forall>s t. apart A s t \<longrightarrow> P s \<longrightarrow> P t)"

lemma keptD: "kept A P \<Longrightarrow> apart A s t \<Longrightarrow> P s \<Longrightarrow> P t"
  by (simp add: kept_def)

lemma kept_intros:
  "kept A (\<lambda>_. True)" "kept A P \<Longrightarrow> kept A Q \<Longrightarrow> kept A (\<lambda>s. P s \<and> Q s)"
  "l \<in> A \<Longrightarrow> kept A (\<lambda>s. ev_txs (journal s) l = x)" "kept A (\<lambda>s. holders s d w)"
  by (auto simp: kept_def apart_def le_fun_def)

lemma testnet_apart: "testnet v q s r t \<Longrightarrow> apart A s t"
  by (auto simp: testnet_def apart_def)

lemma evidenced_ext:
  "journal t = journal s \<Longrightarrow> journal_file t = journal_file s \<Longrightarrow> wallet_file t = wallet_file s \<Longrightarrow>
     taken t = taken s \<Longrightarrow> evidenced v ps t = evidenced v ps s"
  by (simp add: evidenced_def listed_def on_file_def bought_by_def check_players_def)

lemma testnet_evidenced:
  assumes "testnet v q s r t" and "\<not> submission q \<or> (\<forall>h. r \<noteq> RStr h)" and "evidenced v ps s"
  shows "evidenced v ps t"
proof -
  from assms(1,2) have "journal t = journal s" "journal_file t = journal_file s" "wallet_file t = wallet_file s"
    "taken t = taken s"
    by (auto simp: testnet_def split: resp.split)
  then show ?thesis using assms(3) evidenced_ext by blast
qed

lemma among_quiet:
  assumes "among (testnet v) (evidenced v ps) (apart A) q s r t"
    and "\<not> submission q \<or> (\<forall>h. r \<noteq> RStr h)" and "kept A P" and "P s"
  shows "evidenced v ps t \<and> P t"
proof -
  obtain u where u: "apart A s u" "evidenced v ps u" "testnet v q u r t" using assms(1) by (auto simp: among_def)
  show ?thesis
    using testnet_evidenced [OF u(3) assms(2) u(2)] keptD [OF assms(3) u(1) assms(4)]
      keptD [OF assms(3) testnet_apart [OF u(3)]] by simp
qed

lemma reply_Inl: "reply c r = Inl e \<Longrightarrow> r = Rej e \<or> e = TypeError"
  by (cases r) (auto simp: reply_def split: option.splits)

lemma among_reply: "among (testnet v) I B q s r t \<Longrightarrow> reply c r = Inl e \<Longrightarrow> e \<noteq> out_of_rounds"
  by (drule reply_Inl) (elim disjE; simp add: among_def testnet_def; blast)

text \<open>The two ways an await goes on.\<close>

lemma lone_awaitI:
  assumes "plain q" and "evidenced v ps s"
    and "\<And>r t a. among (testnet v) (evidenced v ps) (apart A) q s r t \<Longrightarrow> c r = Some a \<Longrightarrow> Q a t"
    and "\<And>r t e. among (testnet v) (evidenced v ps) (apart A) q s r t \<Longrightarrow> reply c r = Inl e \<Longrightarrow>
      e \<noteq> out_of_rounds \<Longrightarrow> E e t"
  shows "wp (among (testnet v) (evidenced v ps) (apart A)) (\<lambda>q s. plain q \<and> evidenced v ps s) (await c q) Q E s"
  unfolding wp_await
proof (intro conjI allI impI)
  fix r t
  assume a: "among (testnet v) (evidenced v ps) (apart A) q s r t"
  show "case reply c r of Inl e \<Rightarrow> E e t | Inr b \<Rightarrow> Q b t"
    using assms(3,4) [OF a] among_reply [OF a] by (auto split: sum.split dest: reply_Inr)
qed (use assms(1,2) in simp_all)

lemma lone_await:
  assumes "\<not> submission q" and "plain q" and "kept A P" and "evidenced v ps s" and "P s"
  shows "lone v ps A (await c q) (\<lambda>_. P) s"
  by (rule lone_awaitI) (use assms among_quiet in blast)+

definition fresh_label :: "string \<Rightarrow> activity \<Rightarrow> bool" where
  "fresh_label l s \<longleftrightarrow> ev_txs (journal s) l = None"

definition submitted :: "tester \<Rightarrow> string list \<Rightarrow> string \<Rightarrow> req \<Rightarrow> string \<Rightarrow> activity \<Rightarrow> bool" where
  "submitted v ps l q h t \<longleftrightarrow>
     (\<exists>u m H. evidenced v ps u \<and> fresh_label l u \<and>
        t = u\<lparr>taken := taken u @ [(q, h)], today := m, holders := H\<rparr>)"

text \<open>The submission, with its retries: it is taken at most once, in a state where the label is free.\<close>

lemma lone_send_once:
  assumes "submission q" and "plain q" and "l \<in> A" and "evidenced v ps s" and "fresh_label l s"
  shows "wp (among (testnet v) (evidenced v ps) (apart A)) (\<lambda>q s. plain q \<and> evidenced v ps s)
    (await as_str q) (submitted v ps l q) (\<lambda>e t. fails v ps e t \<and> fresh_label l t) s"
proof -
  have k: "kept A (fresh_label l)" using assms(3) by (simp add: fresh_label_def [abs_def] kept_intros)
  have "case reply as_str r of Inl e \<Rightarrow> fails v ps e t \<and> fresh_label l t | Inr h \<Rightarrow> submitted v ps l q h t"
    if a: "among (testnet v) (evidenced v ps) (apart A) q s r t" for r t
  proof (cases "\<exists>h. r = RStr h")
    case True
    then obtain h where h: "r = RStr h" ..
    obtain u where u: "apart A s u" "evidenced v ps u" "testnet v q u r t" using a by (auto simp: among_def)
    have "fresh_label l u" by (rule keptD [OF k u(1) assms(5)])
    with u h assms(1) show ?thesis by (auto simp: testnet_def reply_def submitted_def)
  next
    case False
    then show ?thesis
      using among_quiet [OF a _ k assms(5)] among_reply [OF a, of as_str] by (cases r) (auto simp: reply_def)
  qed
  then show ?thesis unfolding wp_await using assms(2,4) by blast
qed

lemma lone_send:
  assumes "submission q" and "plain q" and "l \<in> A" and "evidenced v ps s" and "fresh_label l s"
  shows "wp (among (testnet v) (evidenced v ps) (apart A)) (\<lambda>q s. plain q \<and> evidenced v ps s)
    (send_retry n (await as_str q)) (submitted v ps l q) (\<lambda>e t. fails v ps e t \<and> fresh_label l t) s"
  using assms(4,5)
proof (induction n arbitrary: s)
  case 0
  then show ?case using lone_send_once [OF assms(1-3)] by simp
next
  case (Suc n)
  have k: "kept A (fresh_label l)" using assms(3) by (simp add: fresh_label_def [abs_def] kept_intros)
  have pause: "wp (among (testnet v) (evidenced v ps) (apart A)) (\<lambda>q s. plain q \<and> evidenced v ps s)
      (seq (await as_any (Sleep 15000)) (send_retry n (await as_str q))) (submitted v ps l q)
      (\<lambda>e t. fails v ps e t \<and> fresh_label l t) t" if "evidenced v ps t" "fresh_label l t" for t
    unfolding wp_seq
    by (rule lone_awaitI) (use that Suc.IH among_quiet [OF _ _ k] in \<open>auto\<close>)
  show ?case
    unfolding send_retry.simps wp_bind wp_catch
    by (rule wp_mono [OF lone_send_once [OF assms(1-3) Suc.prems]])
       (use pause [unfolded conj_assoc] in \<open>auto\<close>)
qed

lemma evidenced_wallet: "evidenced v ps s \<Longrightarrow> i < length ps \<Longrightarrow> check_players v s ! i = ps ! i"
  by (simp add: evidenced_def)

text \<open>The entry for a submission that was just taken.\<close>

definition label_ok :: "tester \<Rightarrow> string list \<Rightarrow> string \<Rightarrow> req \<Rightarrow> bool" where
  "label_ok v ps l q \<longleftrightarrow>
     l \<in> set (all_labels (length ps)) \<and>
     (\<forall>d \<in> {''1'', ''2''}. \<forall>i < length ps. l = buy_label d i \<longrightarrow> q = Send (ps ! i) (t_lottery v) (buyTicket d))"

lemma enter_fields [simp]:
  "journal (enter l e s) = (journal s)\<lparr>ev_txs := (ev_txs (journal s))(l := Some e)\<rparr>"
  "journal_file (enter l e s) = Some (journal (enter l e s))"
  "wallet_file (enter l e s) = wallet_file s" "taken (enter l e s) = taken s" "holders (enter l e s) = holders s"
  "today (enter l e s) = today s"
  by (simp_all add: enter_def save_journal_def)

lemma listed_enter:
  assumes "listed u" and "fresh_label l u"
  shows "listed (enter l \<lparr>te_hash = h, te_block = None\<rparr> (u\<lparr>taken := taken u @ [(q, h)], today := m, holders := H\<rparr>))"
proof -
  obtain ls where ls: "distinct ls" "set ls = dom (ev_txs (journal u))"
    "map snd (taken u) = map (\<lambda>l. te_hash (the (ev_txs (journal u) l))) ls"
    using assms(1) by (auto simp: listed_def)
  then have "l \<notin> set ls" using assms(2) by (auto simp: fresh_label_def)
  then show ?thesis
    unfolding listed_def by (intro exI [of _ "ls @ [l]"]) (use ls in auto)
qed

lemma evidenced_enter:
  assumes "submitted v ps l q h t" and "label_ok v ps l q"
  shows "evidenced v ps (enter l \<lparr>te_hash = h, te_block = None\<rparr> t)"
proof -
  obtain u m H where u: "evidenced v ps u" "fresh_label l u"
    and t: "t = u\<lparr>taken := taken u @ [(q, h)], today := m, holders := H\<rparr>"
    using assms(1) by (auto simp: submitted_def)
  have "bought_by v ps (enter l \<lparr>te_hash = h, te_block = None\<rparr> t)"
    using u assms(2) by (auto simp: t bought_by_def evidenced_def label_ok_def)
  then show ?thesis
    using u assms(2) listed_enter [of u l, where h = h and q = q and m = m and H = H]
    by (auto simp: t evidenced_def on_file_def check_players_def label_ok_def)
qed

lemma evidenced_block:
  assumes "evidenced v ps s" and "ev_txs (journal s) l = Some e"
  shows "evidenced v ps (enter l (e\<lparr>te_block := b\<rparr>) s)"
proof -
  obtain ls where ls: "distinct ls" "set ls = dom (ev_txs (journal s))"
    "map snd (taken s) = map (\<lambda>l. te_hash (the (ev_txs (journal s) l))) ls"
    using assms(1) by (auto simp: evidenced_def listed_def)
  then have "listed (enter l (e\<lparr>te_block := b\<rparr>) s)"
    unfolding listed_def by (intro exI [of _ ls]) (use assms(2) in auto)
  then show ?thesis
    using assms by (auto simp: evidenced_def on_file_def bought_by_def check_players_def)
qed

lemma lone_submit:
  assumes "submission q" and "plain q" and "l \<in> A" and "label_ok v ps l q" and "kept A P"
    and "evidenced v ps s" and "P s"
  shows "lone v ps A (submit l (await as_str q))
    (\<lambda>h t. \<exists>e. ev_txs (journal t) l = Some e \<and> te_hash e = h) s"
proof -
  let ?known = "\<lambda>_ t. evidenced v ps t \<and> ev_txs (journal t) l \<noteq> None"
  have "wp (among (testnet v) (evidenced v ps) (apart A)) (\<lambda>q s. plain q \<and> evidenced v ps s)
      (Get (\<lambda>s. if ev_txs (journal s) l = None
              then bind (send_retry 8 (await as_str q)) (\<lambda>h. update (enter l \<lparr>te_hash = h, te_block = None\<rparr>))
              else Ret ())) ?known (fails v ps) s"
  proof (cases "ev_txs (journal s) l")
    case None
    then have "fresh_label l s" by (simp add: fresh_label_def)
    then show ?thesis
      using None unfolding wp.simps wp_bind if_P [OF None] wp_update
      by (intro wp_mono [OF lone_send [OF assms(1-3,6)]]) (auto intro: evidenced_enter [OF _ assms(4)])
  qed (use assms(6) in simp)
  then show ?thesis
    unfolding submit_def wp_seq by (rule wp_mono) auto
qed

text \<open>A confirmed purchase is a ticket.\<close>

definition ticketed :: "tester \<Rightarrow> string list \<Rightarrow> string \<Rightarrow> activity \<Rightarrow> bool" where
  "ticketed v ps l s \<longleftrightarrow>
     (\<forall>d \<in> {''1'', ''2''}. \<forall>i < length ps. l = buy_label d i \<longrightarrow> holders s d (ps ! i))"

lemma mined_ticketed:
  assumes "evidenced v ps u" and "ev_txs (journal u) l = Some e"
    and "testnet v (WaitTx (te_hash e)) u (RMined (Some r)) t" and "m_status r = Some 1"
  shows "ticketed v ps l t"
  using assms by (fastforce simp: ticketed_def evidenced_def bought_by_def testnet_def)

lemma lone_confirm:
  assumes "submission q" and "plain q" and "l \<in> A" and "label_ok v ps l q" and "evidenced v ps s"
  shows "lone v ps A (confirm l (await as_str q)) (\<lambda>_. ticketed v ps l) s"
proof -
  let ?R = "among (testnet v) (evidenced v ps) (apart A)"
  let ?G = "\<lambda>q s. plain q \<and> evidenced v ps s"
  let ?after = "\<lambda>receipt.
       case receipt of
         None \<Rightarrow> Throw (new_Error (''Failed or pending: '' @ l))
       | Some r \<Rightarrow>
           if m_status r \<noteq> Some 1 then Throw (new_Error (''Failed or pending: '' @ l))
           else Get (\<lambda>s. case ev_txs (journal s) l of
                  None \<Rightarrow> Throw TypeError
                | Some e \<Rightarrow> Upd (enter l (e\<lparr>te_block := Some (m_blockNumber r)\<rparr>)) (Ret r))"
  have "lone v ps A (bind (await as_mined (WaitTx (te_hash e))) ?after) (\<lambda>_. ticketed v ps l) t"
    if t: "evidenced v ps t" "ev_txs (journal t) l = Some e" for t e
    unfolding wp_bind
  proof (rule lone_awaitI)
    fix r w a
    assume a: "?R (WaitTx (te_hash e)) t r w" and r: "as_mined r = Some a"
    then obtain u where u: "apart A t u" "evidenced v ps u" "testnet v (WaitTx (te_hash e)) u r w"
      by (auto simp: among_def)
    have eu: "ev_txs (journal u) l = Some e" using u(1) t(2) assms(3) by (simp add: apart_def)
    have w: "evidenced v ps w" "ev_txs (journal w) l = Some e"
      using testnet_evidenced [OF u(3) _ u(2)] testnet_apart [OF u(3), of A] eu assms(3) by (auto simp: apart_def)
    have "ticketed v ps l w" if "a = Some m" "m_status m = Some 1" for m
      using mined_ticketed [OF u(2) eu _ that(2)] u(3) r that by (cases r) auto
    then show "wp ?R ?G (?after a) (\<lambda>_ t. evidenced v ps t \<and> ticketed v ps l t) (fails v ps) w"
      using w by (auto simp: ticketed_def intro: evidenced_block split: option.split)
  next
    show "fails v ps x w" if "?R (WaitTx (te_hash e)) t r w" "x \<noteq> out_of_rounds" for r w x
      using among_quiet [OF that(1) _ kept_intros(1)] that(2) by simp
  qed (use t in simp_all)
  then show ?thesis
    unfolding confirm_def
    by (subst wp_bind) (rule wp_mono [OF lone_submit [OF assms(1-4) kept_intros(1) assms(5)]], auto)
qed

lemma lone_confirm_send:
  assumes "l \<in> A" and "label_ok v ps l (Send a t c)" and "evidenced v ps s"
  shows "lone v ps A (confirm_send l a t c) (\<lambda>_. ticketed v ps l) s"
  unfolding confirm_send_def wp_bind
  by (rule wp_mono [OF lone_confirm [OF _ _ assms]]) auto

section \<open>Tickets bought side by side\<close>

lemma lone_buy_one:
  assumes "i < length ps" and "d = ''1'' \<or> d = ''2'' \<and> i < 4" and "evidenced v ps s"
  shows "lone v ps (set (labels_of i)) (buy_one v d i (ps ! i)) (\<lambda>_ t. holders t d (ps ! i)) s"
proof -
  let ?A = "set (labels_of i)"
  let ?lone = "lone v ps ?A"
  have ok: "label_ok v ps (mint_label i) q" "label_ok v ps (approve_label d i) q"
    "label_ok v ps (buy_label d i) (Send (ps ! i) (t_lottery v) (buyTicket d))" for q
    using assms(1,2) by (auto simp: label_ok_def all_labels_def)
  have mem: "mint_label i \<in> ?A" "approve_label d i \<in> ?A" "buy_label d i \<in> ?A"
    using assms(2) by (auto simp: labels_of_def)
  have purchase: "?lone (seq (confirm_send (approve_label d i) (ps ! i) (t_token v) (approve (t_lottery v) (10 ^ 9)))
             (confirm_send (buy_label d i) (ps ! i) (t_lottery v) (buyTicket d))) (\<lambda>_ t. holders t d (ps ! i)) t"
    if "evidenced v ps t" for t
    unfolding wp_seq
    by (rule wp_mono [OF lone_confirm_send [OF mem(2) ok(2) that]], rule wp_mono [OF lone_confirm_send [OF mem(3) ok(3)]])
       (use assms(1,2) in \<open>auto simp: ticketed_def\<close>)
  have mint: "?lone (if b then confirm_send (mint_label i) (ps ! i) (t_token v) c else Ret ()) (\<lambda>_ _. True) t"
    if "evidenced v ps t" for t b c
    using that wp_mono [OF lone_confirm_send [OF mem(1) ok(1) that]] by simp
  have held: "evidenced v ps t \<and> (k \<noteq> 0 \<longrightarrow> holders t d (ps ! i))"
    if a: "among (testnet v) (evidenced v ps) (apart ?A) (SignerRead (ps ! i) (t_lottery v) (ticketOf d (ps ! i))) s r t"
      and r: "as_nat r = Some k" for r t k
  proof -
    have "k \<noteq> 0 \<longrightarrow> holders t d (ps ! i)" using a r by (cases r) (auto simp: among_def testnet_def)
    then show ?thesis using among_quiet [OF a _ kept_intros(1)] by simp
  qed
  have body: "?lone (seq (if b < 10 ^ 9
              then confirm_send (mint_label i) (ps ! i) (t_token v) (mint (ps ! i) (1000 * 10 ^ 8))
              else Ret ())
        (seq (confirm_send (approve_label d i) (ps ! i) (t_token v) (approve (t_lottery v) (10 ^ 9)))
             (confirm_send (buy_label d i) (ps ! i) (t_lottery v) (buyTicket d)))) (\<lambda>_ t. holders t d (ps ! i)) t"
    if "evidenced v ps t" for t and b :: nat
    by (subst wp_seq, rule wp_mono [OF mint [OF that]], rule purchase) simp_all
  have rest: "?lone (bind (await as_nat (SignerRead (ps ! i) (t_token v) (balanceOf (ps ! i)))) (\<lambda>balance.
         seq (if balance < 10 ^ 9
              then confirm_send (mint_label i) (ps ! i) (t_token v) (mint (ps ! i) (1000 * 10 ^ 8))
              else Ret ())
        (seq (confirm_send (approve_label d i) (ps ! i) (t_token v) (approve (t_lottery v) (10 ^ 9)))
             (confirm_send (buy_label d i) (ps ! i) (t_lottery v) (buyTicket d))))) (\<lambda>_ t. holders t d (ps ! i)) t"
    if "evidenced v ps t" for t
    by (subst wp_bind, rule wp_mono [OF lone_await [OF _ _ kept_intros(1) that]], simp_all only: plain.simps submission.simps)
       (simp, rule body, simp_all)
  show ?thesis
    unfolding buy_one_def
    by (subst wp_bind, rule lone_awaitI)
       (use assms(3) held rest among_quiet [OF _ _ kept_intros(1)] in \<open>auto\<close>)
qed

lemma lone_racing:
  "lone v ps A p Q s \<Longrightarrow>
     wp (racing (testnet v)) (\<lambda>_. evidenced v ps) p (\<lambda>a t. evidenced v ps t \<and> Q a t) (fails v ps) s"
proof (induction p arbitrary: s)
  case (Await q k)
  have "wp (racing (testnet v)) (\<lambda>_. evidenced v ps) (k r) (\<lambda>a t. evidenced v ps t \<and> Q a t) (fails v ps) t"
    if "racing (testnet v) q s r t" for r t
  proof (rule Await.IH)
    have "testnet v q s r t" using that Await.prems by (cases q) (auto simp: racing_def)
    moreover have "apart A s s" "evidenced v ps s" using Await.prems by (simp_all add: apart_def)
    ultimately have "among (testnet v) (evidenced v ps) (apart A) q s r t" unfolding among_def by blast
    then show "lone v ps A (k r) Q t" using Await.prems by simp
  qed
  then show ?case using Await.prems by simp
qed auto

lemma within_buy_one:
  assumes "d = ''1'' \<or> d = ''2''"
  shows "within (touches (set (labels_of i))) (buy_one v d i w)"
proof -
  have enter: "touches A s (enter l e s)" if "l \<in> A" for A l e s using that by (simp add: touches_def)
  have retry: "within S (send_retry n p)" if "within S p" for S n and p :: "(activity, string) prog"
    using that by (induction n) (auto intro!: within_intros split: option.split)
  have "within (touches A) (confirm_send l a t c)" if "l \<in> A" for A l a t c
    unfolding confirm_send_def confirm_def submit_def
    by (auto intro!: within_intros retry enter that split: option.split)
  then show ?thesis
    using assms unfolding buy_one_def by (auto intro!: within_intros simp: labels_of_def)
qed

lemma wp_buy_tickets:
  assumes "evidenced v ps s" and "d = ''1'' \<or> d = ''2'' \<and> k \<le> 4"
  shows "wp (racing (testnet v)) (\<lambda>_. evidenced v ps) (buy_tickets v d (take k ps))
    (\<lambda>_ t. evidenced v ps t \<and> (\<forall>w \<in> set (take k ps). holders t d w)) (fails v ps) s"
proof -
  let ?ws = "take k ps"
  have nth: "buyers v d ?ws ! i = buy_one v d i (ps ! i)" if "i < length ?ws" for i
    using that by (simp add: buyers_def)
  have len: "length (buyers v d ?ws) = length ?ws" by (simp add: buyers_def)
  have both: "wp (racing (testnet v)) (\<lambda>_. evidenced v ps) (all_settled (buyers v d ?ws))
    (\<lambda>rs t. evidenced v ps t \<and> length rs = length (buyers v d ?ws) \<and>
       (\<forall>i < length (buyers v d ?ws). case rs ! i of Inl e \<Rightarrow> e \<noteq> out_of_rounds | Inr a \<Rightarrow> holders t d (?ws ! i))) (\<lambda>_ _. False) s"
  proof (rule purchases.parallel [where E = "\<lambda>_ e _. e \<noteq> out_of_rounds" and Q = "\<lambda>i a t. holders t d (?ws ! i)"])
    fix i t
    assume i: "i < length (buyers v d ?ws)" and t: "evidenced v ps t"
    then have "i < length ps" "d = ''1'' \<or> d = ''2'' \<and> i < 4" using assms(2) by (auto simp: len)
    from lone_buy_one [OF this t] i
    show "wp (among (testnet v) (evidenced v ps) (apart (set (labels_of i)))) (\<lambda>q s. plain q \<and> evidenced v ps s)
        (buyers v d ?ws ! i) (\<lambda>a t. evidenced v ps t \<and> holders t d (?ws ! i)) (\<lambda>e t. evidenced v ps t \<and> e \<noteq> out_of_rounds) t"
      by (simp add: nth len)
  next
    show "within (touches (set (labels_of i))) (buyers v d ?ws ! i)" if "i < length (buyers v d ?ws)" for i
      using that within_buy_one [of d i v "ps ! i"] assms(2) by (auto simp: nth len)
  qed (use assms(1) in \<open>auto simp: apart_def le_fun_def\<close>)
  have decided: "(\<exists>e. List.find isl rs = Some (Inl e) \<and> e \<noteq> out_of_rounds) \<or> List.find isl rs = None \<and> (\<forall>w \<in> set ?ws. holders t d w)"
    if len: "length rs = length ?ws"
      and all: "\<forall>i < length ?ws. case rs ! i of Inl e \<Rightarrow> e \<noteq> out_of_rounds | Inr (a :: unit) \<Rightarrow> holders t d (?ws ! i)"
    for rs :: "(jserr + unit) list" and t
  proof (cases "List.find isl rs")
    case None
    have "holders t d (?ws ! i)" if i: "i < length ?ws" for i
    proof -
      have "\<not> isl (rs ! i)" using None i len by (simp add: find_None_iff)
      then show ?thesis using all [rule_format, OF i] by (cases "rs ! i") auto
    qed
    then show ?thesis unfolding all_set_conv_all_nth using None by blast
  next
    case (Some r)
    obtain i where "i < length ?ws" "rs ! i = r" using find_SomeD [OF Some] len by (auto simp: in_set_conv_nth)
    then show ?thesis using find_SomeD [OF Some] all Some by (cases r) auto
  qed
  show ?thesis
    unfolding buy_tickets_def wp_bind
  proof (rule wp_mono [OF both])
    fix rs :: "(jserr + unit) list" and t
    assume r: "evidenced v ps t \<and> length rs = length (buyers v d ?ws) \<and>
       (\<forall>i < length (buyers v d ?ws). case rs ! i of Inl e \<Rightarrow> e \<noteq> out_of_rounds | Inr a \<Rightarrow> holders t d (?ws ! i))"
    then have "(\<exists>e. List.find isl rs = Some (Inl e) \<and> e \<noteq> out_of_rounds) \<or> List.find isl rs = None \<and> (\<forall>w \<in> set ?ws. holders t d w)"
      unfolding len by (intro decided) blast+
    then show "wp (racing (testnet v)) (\<lambda>_. evidenced v ps)
        (case List.find isl rs of Some (Inl e) \<Rightarrow> Throw e | _ \<Rightarrow> Ret ())
        (\<lambda>_ t. evidenced v ps t \<and> (\<forall>w \<in> set ?ws. holders t d w)) (fails v ps) t"
      using r by auto
  qed simp_all
qed

section \<open>The whole script\<close>

definition records :: "tester \<Rightarrow> string list \<Rightarrow> (activity, 'a) prog \<Rightarrow> bool" where
  "records v ps p \<longleftrightarrow>
     (\<forall>s. evidenced v ps s \<longrightarrow>
        wp (racing (testnet v)) (\<lambda>_. evidenced v ps) p (\<lambda>_. evidenced v ps) (fails v ps) s)"

named_theorems records_intros \<open>steps that keep the evidence\<close>

lemma recordsD:
  "records v ps p \<Longrightarrow> evidenced v ps s \<Longrightarrow>
     wp (racing (testnet v)) (\<lambda>_. evidenced v ps) p (\<lambda>_. evidenced v ps) (fails v ps) s"
  by (simp add: records_def)

lemma records_lone: "(\<And>s. evidenced v ps s \<Longrightarrow> lone v ps A p Q s) \<Longrightarrow> records v ps p"
  unfolding records_def by (blast intro: wp_mono [OF lone_racing])

lemma records_basic [records_intros]:
  "records v ps (Ret a)" "e \<noteq> out_of_rounds \<Longrightarrow> records v ps (Throw e)" "(\<And>s. records v ps (k s)) \<Longrightarrow> records v ps (Get k)"
  by (simp_all add: records_def)

lemma records_if: "(b \<Longrightarrow> records v ps p) \<Longrightarrow> (\<not> b \<Longrightarrow> records v ps q) \<Longrightarrow> records v ps (if b then p else q)"
  by simp

lemma records_Upd [records_intros]:
  "(\<And>s. evidenced v ps s \<Longrightarrow> evidenced v ps (u s)) \<Longrightarrow> records v ps p \<Longrightarrow> records v ps (Upd u p)"
  by (simp add: records_def)

lemma records_bind [records_intros]: "records v ps p \<Longrightarrow> (\<And>a. records v ps (f a)) \<Longrightarrow> records v ps (bind p f)"
  unfolding records_def wp_bind by (blast intro: wp_mono)

lemma records_seq [records_intros]: "records v ps p \<Longrightarrow> records v ps q \<Longrightarrow> records v ps (seq p q)"
  unfolding seq_def by (rule records_bind)

lemma records_await [records_intros]: "\<not> submission q \<Longrightarrow> plain q \<Longrightarrow> records v ps (await c q)"
  by (rule records_lone [of v ps UNIV], rule lone_await [OF _ _ kept_intros(1)]) simp_all

lemma records_BigInt [records_intros]: "records v ps (BigInt t)"
  by (auto simp: BigInt_def SyntaxError_def intro: records_intros split: option.split)

lemma records_confirm [records_intros]:
  "submission q \<Longrightarrow> plain q \<Longrightarrow> label_ok v ps l q \<Longrightarrow> records v ps (confirm l (await as_str q))"
  by (rule records_lone [of v ps UNIV], rule lone_confirm) simp_all

lemma records_confirm_send [records_intros]:
  "label_ok v ps l (Send a t c) \<Longrightarrow> records v ps (confirm_send l a t c)"
  by (rule records_lone [of v ps UNIV], rule lone_confirm_send) simp_all

lemma records_buy: "d = ''1'' \<or> d = ''2'' \<and> k \<le> 4 \<Longrightarrow> records v ps (buy_tickets v d (take k ps))"
  unfolding records_def by (blast intro: wp_mono [OF wp_buy_tickets])

lemma records_fund:
  "0 < i \<Longrightarrow> i + length ws \<le> length ps \<Longrightarrow> records v ps (fund_all v i ws)"
proof (induction ws arbitrary: i)
  case (Cons w ws)
  have "label_ok v ps (fund_label i) q" for q
    using Cons.prems by (auto simp: label_ok_def all_labels_def)
  then have "records v ps (fund_one v i w)"
    unfolding fund_one_def by (auto intro!: records_intros)
  then show ?case using Cons by (auto intro: records_intros)
qed (simp add: records_intros)

lemma records_rounds [records_intros]: "records v ps (round_at v d)" "records v ps (current_round v)"
  by (auto simp: round_at_def current_round_def intro: records_intros)

text \<open>Fifteen minutes are over after sixty-one pauses of fifteen seconds.\<close>

lemma testnet_time:
  "testnet v q s r t \<Longrightarrow> today s \<le> today t" "testnet v (Sleep ms) s r t \<Longrightarrow> today s + int ms \<le> today t"
  by (auto simp: testnet_def)

lemma racing_plain: "plain q \<Longrightarrow> racing R q s r t \<longleftrightarrow> R q s r t"
  by (rule racing_others) auto

lemma racing_awaitI:
  assumes "plain q" and "\<not> submission q" and "evidenced v ps s"
    and "\<And>r t a. testnet v q s r t \<Longrightarrow> evidenced v ps t \<Longrightarrow> Q a t"
  shows "wp (racing (testnet v)) (\<lambda>_. evidenced v ps) (await c q) Q (fails v ps) s"
proof -
  have "case reply c r of Inl e \<Rightarrow> fails v ps e t | Inr a \<Rightarrow> Q a t" if t: "testnet v q s r t" for r t
  proof -
    have "among (testnet v) (evidenced v ps) (apart {}) q s r t"
      using t assms(3) by (auto simp: among_def apart_def)
    then show ?thesis
      using assms(4) [OF t] testnet_evidenced [OF t _ assms(3)] assms(2) among_reply by (fastforce split: sum.split)
  qed
  then show ?thesis using assms(1,3) by (simp add: wp_await racing_plain)
qed

lemma wp_wait_drawn:
  assumes "evidenced v ps s" and "til - today s < 15000 * int n"
  shows "wp (racing (testnet v)) (\<lambda>_. evidenced v ps) (wait_drawn v n til) (\<lambda>_. evidenced v ps) (fails v ps) s"
  using assms
proof (induction n arbitrary: s)
  case 0
  show ?case
    by (subst wait_drawn.simps, subst wp_bind, unfold round_at_def, rule racing_awaitI)
       (use 0 in \<open>auto dest: testnet_time\<close>)
next
  case (Suc n)
  have pause: "wp (racing (testnet v)) (\<lambda>_. evidenced v ps) (seq (await as_any (Sleep 15000)) (wait_drawn v n til))
      (\<lambda>_. evidenced v ps) (fails v ps) t" if "evidenced v ps t" "today s \<le> today t" for t
    unfolding wp_seq
    by (rule racing_awaitI) (use that Suc.prems in \<open>auto intro!: Suc.IH dest!: testnet_time(2)\<close>)
  show ?case
    by (subst wait_drawn.simps, subst wp_bind, unfold round_at_def, rule racing_awaitI)
       (use Suc.prems pause in \<open>auto dest: testnet_time\<close>)
qed

lemma records_watch [records_intros]:
  "(\<And>d. records v ps (f d)) \<Longrightarrow> records v ps (Get (\<lambda>s. bind (wait_drawn v 61 (today s + 15 * 60 * 1000)) f))"
  unfolding records_def wp.simps wp_bind by (intro allI impI, rule wp_mono [OF wp_wait_drawn]) auto

lemma label_ok_fixed:
  "label_ok v ps ''performDraw1'' q" "label_ok v ps ''claimPrize1'' q" "label_ok v ps ''startDraw2'' q"
  by (auto simp: label_ok_def all_labels_def)

lemma records_main:
  assumes "ps \<noteq> []"
  shows "records v ps (main_check v ps)"
proof -
  have first: "records v ps (first_round v ps)"
    using records_buy [of "''1''" "length ps" v ps]
    unfolding first_round_def by (auto intro!: records_intros label_ok_fixed)
  have second: "records v ps (second_round v ps)"
    unfolding second_round_def by (auto intro!: records_intros label_ok_fixed records_buy)
  have claim: "records v ps (claim_first v ps d)" for d
    unfolding claim_first_def by (auto intro!: records_intros label_ok_fixed split: option.split)
  have written: "evidenced v ps (write_first d s)" if "evidenced v ps s" for d s
    using that
    by (auto simp: write_first_def save_journal_def evidenced_def listed_def on_file_def bought_by_def check_players_def)
  have fund: "records v ps (fund_all v 1 (tl ps))" using assms by (intro records_fund) (cases ps, auto)
  have watch: "records v ps (Get (\<lambda>s. bind (wait_drawn v 61 (today s + 15 * 60 * 1000)) (\<lambda>d.
      Upd (write_first d) (seq (claim_first v ps d) (second_round v ps)))))"
    by (rule records_watch) (intro records_intros claim second written)
  show ?thesis
    unfolding main_check_def
    by (rule records_if fund first watch records_bind records_seq records_await records_BigInt records_basic(2)
        new_Error_rounds | simp only: submission.simps plain.simps not_False_eq_True)+
qed

lemma records_script:
  assumes "evidenced v ps s" and "ps \<noteq> []"
  shows "wp (racing (testnet v)) (\<lambda>_. evidenced v ps) (check_script v) (\<lambda>_. evidenced v ps) (\<lambda>_. evidenced v ps) s"
proof -
  have told: "evidenced v ps (t\<lparr>told := x, exit_code := n\<rparr>) = evidenced v ps t" for t x n
    by (rule evidenced_ext) simp_all
  have ps: "check_players v s = ps" using assms(1) by (simp add: evidenced_def)
  show ?thesis
    unfolding check_script_def wp.simps wp_catch wp_update_ext ps told
    by (rule wp_mono [OF recordsD [OF records_main [OF assms(2)] assms(1)]]) simp_all
qed

lemma evidenced_start:
  assumes "nothing_done s \<or> (\<exists>ps. evidenced v ps s)"
  shows "evidenced v (check_players v s) (start_check v s)"
  using assms
proof
  assume "nothing_done s"
  then show ?thesis
    by (auto simp: nothing_done_def start_check_def evidenced_def check_players_def listed_def on_file_def bought_by_def)
next
  assume "\<exists>ps. evidenced v ps s"
  then show ?thesis
    by (auto simp: start_check_def evidenced_def check_players_def listed_def on_file_def bought_by_def)
qed

lemma script_evidenced:
  assumes "nothing_done s \<or> evidenced v (t_owner v # map (t_address v) (t_fresh v)) s"
    and "conforms (racing (testnet v)) (check_script v) env (start_check v s)"
  shows "evidenced v (t_owner v # map (t_address v) (t_fresh v)) (final (check_script v) env (start_check v s))"
proof -
  have "check_players v s = t_owner v # map (t_address v) (t_fresh v)"
    using assms(1) by (auto simp: nothing_done_def evidenced_def check_players_def)
  then have "evidenced v (t_owner v # map (t_address v) (t_fresh v)) (start_check v s)"
    using evidenced_start [of s v] assms(1) by auto
  from wp_final [OF records_script [OF this] assms(2)] show ?thesis by simp
qed

lemma runs_evidenced:
  "check_runs v s \<Longrightarrow> nothing_done s \<or> evidenced v (t_owner v # map (t_address v) (t_fresh v)) s"
proof (induction rule: check_runs.induct)
  case (one_more s env)
  then show ?case using script_evidenced by blast
next
  case (stopped s env q D t)
  have "evidenced v ps (t\<lparr>adrift := adrift t @ D\<rparr>) = evidenced v ps t" for ps
    by (rule evidenced_ext) simp_all
  then show ?case using script_evidenced [OF stopped.IH stopped.hyps(2)] stopped.hyps(5) by simp
qed simp

end
