(* ===== verification/TestTickets.thy ===== *)
theory TestTickets
  imports ActivityRuns
begin

text \<open>
  The promises of \<^verbatim>\<open>scripts/check-sepolia.mjs\<close>: it ends, it records every transaction it got an answer for
  under a label of its own however often it is stopped and started, and the wallets that buy side by
  side all hold their tickets when it goes on.
\<close>

section \<open>Termination\<close>

lemma awaits_send_retry: "cost each_await (send_retry n (await c q)) (2 * n + 1)"
proof (induction n)
  case (Suc n)
  have "cost each_await (catch (bind (await c q) (\<lambda>h. Ret (Some h))) (\<lambda>e. if pool_error e then Ret None else Throw e)) 1"
    by (rule cost_0_catch, rule cost_bindI [of _ _ 1]) auto
  then show ?case
    unfolding send_retry.simps
    by (rule cost_bindI [of _ _ 1])
       (use Suc.IH in \<open>auto simp del: each_await_simp intro!: cost_seqI [of _ _ 1] split: option.split\<close>, simp)
qed simp

lemma awaits_confirm: "cost each_await (confirm l (await c q)) 18"
proof -
  have "cost each_await (submit l (await c q)) 17"
    unfolding submit_def
    by (rule cost_seqI [of _ _ 17]) (auto intro!: cost_bindI [OF awaits_send_retry] split: option.split)
  then show ?thesis
    unfolding confirm_def
    by (rule cost_bindI) (auto intro!: cost_bindI [of _ _ 1] split: option.split)
qed

lemma awaits_confirm_send: "cost each_await (confirm_send l a t c) 18"
  unfolding confirm_send_def by (rule cost_bindI [OF awaits_confirm]) simp_all

lemma awaits_buy_one: "cost each_await (buy_one v d i w) 56"
  unfolding buy_one_def
  by (auto intro!: cost_bindI [of _ "await c q" 1 for c q] cost_seqI [of _ _ 18] awaits_confirm_send
      cost_mono [OF awaits_confirm_send])

lemma awaits_buy_tickets: "cost each_await (buy_tickets v d ws) (56 * length ws)"
proof -
  have "cost each_await (all_settled (buyers v d ws)) (sum_list (replicate (length ws) 56))"
    by (rule cost_all_settled) (simp_all add: buyers_def awaits_buy_one)
  then show ?thesis
    unfolding buy_tickets_def
    by (rule_tac cost_bindI [of _ _ "56 * length ws"]) (auto simp: sum_list_replicate mult.commute split: option.split sum.split)
qed

lemma awaits_check_fund: "cost each_await (fund_all v i ws) (19 * length ws)"
proof (induction ws arbitrary: i)
  case (Cons w ws)
  have "cost each_await (fund_one v i w) 19"
    unfolding fund_one_def
    by (auto intro!: cost_bindI [of _ "await c q" 1 for c q] cost_bindI [OF awaits_confirm])
  then show ?case using Cons.IH [of "Suc i"] by (simp del: each_await_simp add: cost_seq)
qed simp

lemma awaits_wait: "cost each_await (wait_drawn v n til) (2 * n + 1)"
proof (induction n)
  case 0
  show ?case by (subst wait_drawn.simps) (auto simp: round_at_def intro!: cost_bindI [of _ _ 1])
next
  case (Suc n)
  have "cost each_await (seq (await as_any (Sleep 15000)) (wait_drawn v n til)) (2 * n + 2)"
    by (rule cost_seqI [of _ _ 1], simp, simp, use Suc.IH in \<open>simp del: each_await_simp\<close>)
  then show ?case
    by (subst wait_drawn.simps, unfold round_at_def, intro cost_bindI [of _ _ 1])
       (auto simp del: each_await_simp, simp)
qed

lemma awaits_main:
  assumes "length ps = 5"
  shows "cost each_await (main_check v ps) 763"
proof -
  have first: "cost each_await (first_round v ps) 299"
    unfolding first_round_def round_at_def
    by (auto intro!: cost_bindI [of _ _ 1] cost_seqI [of _ "buy_tickets v ''1'' ps" 280] awaits_confirm_send
        simp: awaits_buy_tickets [of v "''1''" ps, simplified assms, simplified])
  have claim: "cost each_await (claim_first v ps d) 18" for d
    by (simp add: claim_first_def awaits_confirm_send split: option.split)
  have buy: "cost each_await (buy_tickets v ''2'' (take 4 ps)) 224"
    using awaits_buy_tickets [of v "''2''" "take 4 ps"] assms by simp
  have start: "cost each_await (if n = 1 then confirm_send ''startDraw2'' (t_owner v) (t_lottery v) (startDraw ''1'')
      else Ret ()) 18" for n :: nat
    by (simp add: awaits_confirm_send)
  have "cost each_await (if n = 2 then bind (round_at v ''2'') (\<lambda>d.
      if s_status d = ACTIVE then buy_tickets v ''2'' (take 4 ps) else Ret ()) else Ret ()) 225" for n :: nat
    by (auto simp: round_at_def buy intro!: cost_bindI [of _ _ 1])
  then have second: "cost each_await (second_round v ps) 246"
    unfolding second_round_def current_round_def
    by (intro cost_bindI [of _ "await c q" 1 for c q] cost_seqI [OF start] cost_seqI [of _ _ 225]) simp_all
  have fund: "cost each_await (fund_all v 1 (tl ps)) 76"
    using awaits_check_fund [of v 1 "tl ps"] assms by simp
  have watch: "cost each_await (wait_drawn v 61 til) 123" for til
    using awaits_wait [of v 61 til] by simp
  show ?thesis
    unfolding main_check_def
    by (auto intro!: cost_bindI [of _ "await c q" 1 for c q] cost_bindI [of _ "BigInt x" 0 for x]
        cost_seqI [OF fund, simplified] cost_seqI [OF first] cost_bindI [OF watch] cost_seqI [OF claim]
        cost_mono [OF second] simp: BigInt_def split: option.split)
qed

section \<open>A sample\<close>

definition sample_tester :: tester where
  "sample_tester =
     \<lparr>t_owner = ''0xowner'',
      t_manifest =
        \<lparr>mf_chainId = ''11155111'', mf_lotteryAddress = ''0xlottery'', mf_tokenAddress = ''0xtoken'',
         mf_tokenDecimals = 8, mf_daoAddress = ''0xdao'', mf_randomnessProvider = ''0xvrf'',
         mf_deploymentBlock = Some 7, mf_minimumParticipants = 2, mf_localMock = False, mf_testToken = True,
         mf_vrfSubscriptionId = Some ''1'', mf_vrfNativePayment = True\<rparr>,
      t_fresh = [''a'', ''b'', ''c'', ''d''], t_address = (\<lambda>key. ''0x'' @ key)\<rparr>"

definition before_check :: activity where
  "before_check =
     \<lparr>journal = \<lparr>ev_players = [], ev_txs = (\<lambda>_. None), ev_first = None\<rparr>, journal_file = None,
      wallet_file = None, today = 0, told = None, exit_code = 0, taken = [], holders = (\<lambda>_ _. False),
      adrift = []\<rparr>"

definition started :: activity where
  "started = start_check sample_tester before_check"

lemma untouched_runs: "check_runs sample_tester before_check"
  by (rule check_runs.no_run) (simp add: nothing_done_def before_check_def)

lemma started_evidenced: "evidenced sample_tester (check_players sample_tester before_check) started"
  unfolding started_def by (rule evidenced_start) (simp add: nothing_done_def before_check_def)

section \<open>The promises\<close>

text \<open>C38: However often the check is stopped and started again, although five wallets buy at the same time,
  and whether or not submissions whose reply was lost have been taken: the network answers at most
  thirty submissions with a hash, the evidence file records exactly these, each under a label of its
  own, and what it records as the purchase of a wallet in a round is that wallet's purchase.\<close>

theorem activity_is_recorded:
  assumes "check_runs v s" and "length (t_fresh v) = 4" and "taken s \<noteq> []"
    and "ps = t_owner v # map (t_address v) (t_fresh v)"
  shows "length (taken s) \<le> 30 \<and>
    (\<exists>e ls. journal_file s = Some e \<and> distinct ls \<and> set ls = dom (ev_txs e) \<and>
       map snd (taken s) = map (\<lambda>l. te_hash (the (ev_txs e l))) ls \<and>
       (\<forall>d \<in> {''1'', ''2''}. \<forall>i < 5. \<forall>x. ev_txs e (buy_label d i) = Some x \<longrightarrow>
          (Send (ps ! i) (t_lottery v) (buyTicket d), te_hash x) \<in> set (taken s)))"
proof -
  have e: "evidenced v ps s" using runs_evidenced [OF assms(1)] assms(3,4) by (auto simp: nothing_done_def)
  then obtain ls where ls: "distinct ls" "set ls = dom (ev_txs (journal s))"
    "map snd (taken s) = map (\<lambda>l. te_hash (the (ev_txs (journal s) l))) ls"
    by (auto simp: evidenced_def listed_def)
  have five: "length ps = 5" using assms(2,4) by simp
  have "length (taken s) = card (set ls)" using ls(1,3) by (metis distinct_card length_map)
  also have "\<dots> \<le> card (set (all_labels 5))"
    using e ls(2) by (intro card_mono) (auto simp: evidenced_def five)
  also have "\<dots> \<le> 30" using card_length [of "all_labels 5"] by (simp add: length_all_labels)
  finally have "length (taken s) \<le> 30" .
  moreover have "journal_file s = Some (journal s)" using e assms(3) by (auto simp: evidenced_def on_file_def)
  moreover have "bought_by v ps s" using e by (simp add: evidenced_def)
  ultimately show ?thesis using ls unfolding bought_by_def five by blast
qed

text \<open>A run that is stopped while it waits for the funding it has sent.\<close>

lemma testnet_answers:
  "testnet v (RpcCall m xs) s (RStr x) s" "testnet v (GetBalance w) s (RNat n) s"
  "testnet v (SignerRead a t (balanceOf w)) s (RNat n) s" "testnet v (SignerRead a t (ticketOf d w)) s (RNat 0) s"
  "submission q \<Longrightarrow> testnet v q s (RStr h) (s\<lparr>taken := taken s @ [(q, h)]\<rparr>)"
  by (auto simp: testnet_def intro!: exI [of _ "holders s"] exI [of _ "today s"] exI [of _ "adrift s"])

definition funding_env :: "(resp \<times> (activity \<Rightarrow> activity)) list" where
  "funding_env =
     [(RStr ''0xaa36a7'', id), (RNat 0, id),
      (RStr ''0xf1'', \<lambda>s. s\<lparr>taken := taken s @ [(SendValue ''0xowner'' ''0xa'' stake, ''0xf1'')]\<rparr>)]"

lemma send_retry_8:
  "send_retry 8 p =
     bind (catch (bind p (\<lambda>h. Ret (Some h))) (\<lambda>e. if pool_error e then Ret None else Throw e)) (\<lambda>x.
       case x of Some h \<Rightarrow> Ret h | None \<Rightarrow> seq (await as_any (Sleep 15000)) (send_retry 7 p))"
  by (rule trans [OF _ send_retry.simps(2) [of 7 p]]) simp

lemma stake_pos: "0 < stake"
  by (simp add: stake_def)

lemmas check_eval =
  check_script_def main_check_def funding_env_def sample_tester_def check_players_def start_check_def before_check_def
  started_def BigInt_def fund_one_def confirm_def submit_def fund_label_def enter_def save_journal_def
  await_def reply_def seq_def update_def send_retry_8 stake_pos

lemma chain_text: "parse_bigint ''0xaa36a7'' = Some 11155111"
  by (simp add: parse_bigint_def trim_def is_space_def read_nat_def digit_val_def)

text \<open>The run is stopped while the funding is on its way, and the network has taken it; the next run sends it
  again and is stopped while it waits for the receipt.\<close>

abbreviation funding_of_a :: req where
  "funding_of_a \<equiv> SendValue ''0xowner'' ''0xa'' stake"

definition adrift_once :: activity where
  "adrift_once = (let t = final (check_script sample_tester) (take 2 funding_env) started
     in t\<lparr>adrift := adrift t @ [funding_of_a]\<rparr>)"

lemma adrift_once_state: "adrift_once = started\<lparr>adrift := [funding_of_a]\<rparr>"
  by (simp add: adrift_once_def check_eval chain_text)

lemma adrift_once_run: "check_runs sample_tester adrift_once"
  unfolding adrift_once_def Let_def
proof (rule check_runs.stopped [OF untouched_runs])
  show "conforms (racing (testnet sample_tester)) (check_script sample_tester) (take 2 funding_env)
      (start_check sample_tester before_check)"
    by (simp add: check_eval chain_text racing_plain testnet_def)
  show "outcome (check_script sample_tester) (take 2 funding_env) (start_check sample_tester before_check) =
      Waiting funding_of_a"
    by (simp add: check_eval chain_text)
qed (simp_all add: started_def)

definition funded_twice :: activity where
  "funded_twice = final (check_script sample_tester) funding_env (start_check sample_tester adrift_once)"

lemma funded_twice_run: "check_runs sample_tester funded_twice"
  unfolding funded_twice_def
  by (rule check_runs.one_more [OF adrift_once_run])
     (simp add: adrift_once_state check_eval chain_text racing_plain testnet_def)

lemma funded_twice_taken: "taken funded_twice = [(funding_of_a, ''0xf1'')]" "adrift funded_twice = [funding_of_a]"
  by (simp_all add: funded_twice_def adrift_once_state check_eval chain_text)

theorem activity_is_recorded_witness:
  "length (taken funded_twice) \<le> 30 \<and> length (adrift funded_twice) = 1 \<and>
   (\<exists>e ls. journal_file funded_twice = Some e \<and> distinct ls \<and> set ls = dom (ev_txs e) \<and> length ls = 1)"
proof -
  have "length (t_fresh sample_tester) = 4" by (simp add: sample_tester_def)
  note r = activity_is_recorded [OF funded_twice_run this _ refl, unfolded funded_twice_taken]
  then obtain e ls where l: "journal_file funded_twice = Some e" "distinct ls" "set ls = dom (ev_txs e)"
    "map snd [(funding_of_a, ''0xf1'')] = map (\<lambda>l. te_hash (the (ev_txs e l))) ls" by blast
  from arg_cong [OF l(4), of length] have "length ls = 1" by simp
  then show ?thesis using l(1-3) by (auto simp: funded_twice_taken)
qed

text \<open>C37: when the concurrent purchases of a round return normally, every wallet they were started for holds
  a ticket of that round, whatever the order in which the answers arrived; nobody is forgotten because
  another wallet was faster or held a ticket already.\<close>

theorem every_wallet_holds_ticket:
  assumes "evidenced v ps s" and "d = ''1'' \<or> d = ''2'' \<and> k \<le> 4"
    and "conforms (racing (testnet v)) (buy_tickets v d (take k ps)) env s"
    and "outcome (buy_tickets v d (take k ps)) env s = Returned ()"
    and "w \<in> set (take k ps)"
  shows "holders (final (buy_tickets v d (take k ps)) env s) d w"
  using wp_outcome [OF wp_buy_tickets [OF assms(1,2)] assms(3)] assms(4,5) by simp

text \<open>The owner holds a ticket already; the other wallet's answers come before and after that.\<close>

definition mined_ok :: resp where
  "mined_ok = RMined (Some \<lparr>m_status = Some 1, m_blockNumber = 9, m_contractAddress = None, m_logs = []\<rparr>)"

definition two_buyers_env :: "(resp \<times> (activity \<Rightarrow> activity)) list" where
  "two_buyers_env =
     [(RPick 1 (RNat 0), id),
      (RPick 0 (RNat 3), \<lambda>s. s\<lparr>holders := (\<lambda>d w. d = ''1'' \<and> w = ''0xowner'')\<rparr>),
      (RPick 1 (RNat 1000000000), id),
      (RPick 1 (RStr ''h1''), \<lambda>s. s\<lparr>taken := taken s @ [(Send ''0xa'' ''0xtoken'' (approve ''0xlottery'' 1000000000), ''h1'')]\<rparr>),
      (RPick 1 mined_ok, id),
      (RPick 1 (RStr ''h2''), \<lambda>s. s\<lparr>taken := taken s @ [(Send ''0xa'' ''0xlottery'' (buyTicket ''1''), ''h2'')]\<rparr>),
      (RPick 1 mined_ok, \<lambda>s. s\<lparr>holders := (\<lambda>d w. d = ''1'' \<and> (w = ''0xowner'' \<or> w = ''0xa''))\<rparr>)]"

lemmas buy_eval =
  buy_tickets_def buyers_def buy_one_def confirm_send_def confirm_def submit_def send_retry_8 await_def reply_def seq_def
  update_def all_settled.simps mover_def mint_label_def approve_label_def buy_label_def mined_ok_def racing_Race enter_def
  save_journal_def

theorem every_wallet_holds_ticket_witness:
  "holders (final (buy_tickets sample_tester ''1'' (take 2 (check_players sample_tester before_check))) two_buyers_env started)
     ''1'' ''0xa''"
proof -
  let ?ps = "check_players sample_tester before_check"
  have two: "take 2 ?ps = [''0xowner'', ''0xa'']"
    by (simp add: check_players_def sample_tester_def before_check_def)
  have given: "t_lottery sample_tester = ''0xlottery''" "t_token sample_tester = ''0xtoken''"
    by (simp_all add: sample_tester_def)
  have "conforms (racing (testnet sample_tester)) (buy_tickets sample_tester ''1'' (take 2 ?ps)) two_buyers_env started"
    unfolding two two_buyers_env_def
    by (simp add: buy_eval given started_def start_check_def before_check_def) (auto simp: testnet_def given le_fun_def)
  moreover have "outcome (buy_tickets sample_tester ''1'' (take 2 ?ps)) two_buyers_env started = Returned ()"
    unfolding two two_buyers_env_def by (simp add: buy_eval given started_def start_check_def before_check_def)
  ultimately show ?thesis
    by (intro every_wallet_holds_ticket [OF started_evidenced]) (auto simp: two)
qed

text \<open>C39: whatever was done before, a run of the check is over after at most 763 answers, the fifteen minutes
  of monitoring included, and it is the deadline that ends the monitoring, not the bound on its rounds.\<close>

theorem check_ends:
  assumes "check_runs v s0" and "length (t_fresh v) = 4" and "s = start_check v s0"
    and "conforms (racing (testnet v)) (main_check v (check_players v s)) env s" and "763 \<le> length env"
  shows "outcome (main_check v (check_players v s)) env s = Returned () \<or>
    (\<exists>e. outcome (main_check v (check_players v s)) env s = Raised e \<and> e \<noteq> out_of_rounds)"
proof -
  let ?ps = "t_owner v # map (t_address v) (t_fresh v)"
  have before: "nothing_done s0 \<or> evidenced v ?ps s0" by (rule runs_evidenced [OF assms(1)])
  then have "check_players v s0 = ?ps" by (auto simp: nothing_done_def evidenced_def check_players_def)
  with before have e: "evidenced v ?ps s" using evidenced_start [of s0 v] assms(3) by auto
  then have ps: "check_players v s = ?ps" by (simp add: evidenced_def)
  have "finished (outcome (main_check v ?ps) env s)"
    by (rule cost_finished [OF awaits_main assms(5)]) (simp add: assms(2))
  with wp_outcome [OF recordsD [OF records_main e] assms(4) [unfolded ps]] show ?thesis
    unfolding ps by (cases "outcome (main_check v ?ps) env s") auto
qed

theorem check_ends_witness:
  "outcome (main_check sample_tester (check_players sample_tester started)) (replicate 763 (RStr ''0x1'', id)) started
     \<noteq> Raised out_of_rounds"
proof -
  let ?env = "replicate 763 (RStr ''0x1'' :: resp, id :: activity \<Rightarrow> activity)"
  have env: "?env = (RStr ''0x1'', id) # replicate 762 (RStr ''0x1'', id)" by (simp add: replicate_app_Cons_same [symmetric] numeral_eq_Suc)
  have "conforms (racing (testnet sample_tester)) (main_check sample_tester (check_players sample_tester started)) ?env started"
    unfolding env by (simp add: check_eval parse_bigint_def trim_def is_space_def read_nat_def digit_val_def racing_plain testnet_def)
  from check_ends [OF untouched_runs _ started_def this] show ?thesis by (auto simp: sample_tester_def)
qed

end
