(* ===== verification/Staging.thy ===== *)
theory Staging
  imports Types "HOL-Library.AList" "HOL-Library.Sublist"
begin

text \<open>
  \<^verbatim>\<open>scripts/stage-railway.mjs\<close>: a copy of the application for the hosting service, one directory per service,
  without keys, build results and local state. Directories are lists of named entries; a path is the
  list of its components below the repository's root. Symbolic links are not modelled.
\<close>

section \<open>Files\<close>

datatype file_tree = File string | Dir "(string \<times> file_tree) list"

fun sub_tree :: "file_tree \<Rightarrow> string list \<Rightarrow> file_tree option" where
  "sub_tree t [] = Some t"
| "sub_tree (File c) (n # ns) = None"
| "sub_tree (Dir es) (n # ns) = (case map_of es n of None \<Rightarrow> None | Some t \<Rightarrow> sub_tree t ns)"

text \<open>Writing a tree at a path, with the directories on the way; what else they hold stays.\<close>

fun put_tree :: "string list \<Rightarrow> file_tree \<Rightarrow> file_tree \<Rightarrow> file_tree" where
  "put_tree [] t u = t"
| "put_tree (n # ns) t (File c) = Dir [(n, put_tree ns t (Dir []))]"
| "put_tree (n # ns) t (Dir es) =
     Dir (AList.update n (put_tree ns t (case map_of es n of None \<Rightarrow> Dir [] | Some u \<Rightarrow> u)) es)"

text \<open>
  \<^verbatim>\<open>fs.cpSync(source, dest, { recursive: true, filter })\<close>: the filter is asked for every file and directory
  on the way down, with its path, and what it refuses is left out with everything below.
\<close>

fun copy_tree :: "(string list \<Rightarrow> bool) \<Rightarrow> string list \<Rightarrow> file_tree \<Rightarrow> file_tree option"
  and copy_entries :: "(string list \<Rightarrow> bool) \<Rightarrow> string list \<Rightarrow> (string \<times> file_tree) list \<Rightarrow> (string \<times> file_tree) list" where
  "copy_tree keep p (File c) = (if keep p then Some (File c) else None)"
| "copy_tree keep p (Dir es) = (if keep p then Some (Dir (copy_entries keep p es)) else None)"
| "copy_entries keep p [] = []"
| "copy_entries keep p ((n, t) # es) =
     (case copy_tree keep (p @ [n]) t of
        None \<Rightarrow> copy_entries keep p es
      | Some u \<Rightarrow> (n, u) # copy_entries keep p es)"

section \<open>What is left out\<close>

definition exclude :: "string list" where
  "exclude = [''node_modules'', ''dist'', ''artifacts'', ''cache'', ''.git'', ''.local'']"

definition excluded_name :: "string \<Rightarrow> bool" where
  "excluded_name n \<longleftrightarrow>
     n \<in> set exclude \<or> n = ''.env'' \<or> prefix ''.env.'' n \<or> suffix ''.tsbuildinfo'' n"

definition left_out :: "string list list" where
  "left_out = [[''shared'', ''deployment.json''], [''backend'', ''server'']]"

definition stage_filter :: "string list \<Rightarrow> bool" where
  "stage_filter p \<longleftrightarrow> \<not> excluded_name (last p) \<and> p \<notin> set left_out"

definition staged_names :: "string list list" where
  "staged_names =
     [[''backend''], [''frontend''], [''shared''], [''deploy''], [''contracts'', ''package.json''], [''package.json''],
      [''package-lock.json''], [''.dockerignore'']]"

section \<open>The script\<close>

text \<open>The directory of one service; \<^const>\<open>None\<close> is the error of a file or directory that is missing.\<close>

fun stage_names :: "file_tree \<Rightarrow> string list list \<Rightarrow> file_tree \<Rightarrow> file_tree option" where
  "stage_names root [] out = Some out"
| "stage_names root (p # ps) out =
     (case sub_tree root p of
        None \<Rightarrow> None
      | Some t \<Rightarrow>
          (case copy_tree stage_filter p t of
             None \<Rightarrow> stage_names root ps out
           | Some u \<Rightarrow> stage_names root ps (put_tree p u out)))"

definition stage_service :: "file_tree \<Rightarrow> string \<Rightarrow> file_tree option" where
  "stage_service root service =
     (case stage_names root staged_names (Dir [(''contracts'', Dir [])]) of
        None \<Rightarrow> None
      | Some out \<Rightarrow>
          (case sub_tree root [''deploy'', ''railway.'' @ service @ ''.json''] of
             Some (File c) \<Rightarrow> Some (put_tree [''railway.json''] (File c) out)
           | _ \<Rightarrow> None))"

text \<open>
  The script: the two directories and the note that says where they are, in the repository's \<^verbatim>\<open>.local\<close>.
\<close>

definition stage_script :: "string \<Rightarrow> file_tree \<Rightarrow> (file_tree \<times> file_tree) option" where
  "stage_script stage root =
     (case stage_service root ''backend'' of
        None \<Rightarrow> None
      | Some b \<Rightarrow>
          (case stage_service root ''frontend'' of
             None \<Rightarrow> None
           | Some f \<Rightarrow>
               Some (Dir [(''backend'', b), (''frontend'', f)],
                     put_tree [''.local'', ''railway-staging-path''] (File (stage @ [CHR 0x0A])) root)))"

section \<open>Copying\<close>

text \<open>What a copy has at a path: the original, if the filter passes every step of the way.\<close>

fun passes :: "(string list \<Rightarrow> bool) \<Rightarrow> string list \<Rightarrow> string list \<Rightarrow> bool" where
  "passes keep p [] = keep p"
| "passes keep p (n # ns) = (keep p \<and> passes keep (p @ [n]) ns)"

definition file_at :: "file_tree \<Rightarrow> string list \<Rightarrow> string option" where
  "file_at t p = (case sub_tree t p of Some (File c) \<Rightarrow> Some c | _ \<Rightarrow> None)"

lemma file_at_simps [simp]:
  "file_at (File c) [] = Some c" "file_at (File c) (n # ns) = None" "file_at (Dir es) [] = None"
  "file_at (Dir es) (n # ns) = (case map_of es n of None \<Rightarrow> None | Some t \<Rightarrow> file_at t ns)"
  by (simp_all add: file_at_def split: option.split)

lemma copy_tree_None: "copy_tree keep p t = None \<longleftrightarrow> \<not> keep p"
  by (cases t) auto

lemma copy_entries_map_of:
  "map_of (copy_entries keep p es) n =
     (case map_of es n of None \<Rightarrow> None | Some t \<Rightarrow> copy_tree keep (p @ [n]) t)"
proof (induction es)
  case (Cons e es)
  obtain m t where e: "e = (m, t)" by (cases e)
  show ?case
  proof (cases "copy_tree keep (p @ [m]) t")
    case None
    then have "\<not> keep (p @ [m])" by (simp add: copy_tree_None)
    then have "copy_tree keep (p @ [m]) u = None" for u by (simp add: copy_tree_None)
    then show ?thesis using None Cons e by (simp split: option.split)
  qed (use Cons e in simp)
qed simp

lemma file_at_copy:
  "copy_tree keep p t = Some u \<Longrightarrow> file_at u q = (if passes keep p q then file_at t q else None)"
proof (induction q arbitrary: p t u)
  case Nil
  then show ?case by (cases t) (auto split: if_splits)
next
  case (Cons n q)
  show ?case
  proof (cases t)
    case (Dir es)
    then have keep: "keep p" and u: "u = Dir (copy_entries keep p es)" using Cons.prems by (auto split: if_splits)
    have below: "(case copy_tree keep (p @ [n]) v of None \<Rightarrow> None | Some w \<Rightarrow> file_at w q) =
        (if passes keep (p @ [n]) q then file_at v q else None)" for v
      using Cons.IH [of "p @ [n]" v] copy_tree_None [of keep "p @ [n]" v]
      by (cases q) (auto split: option.split)
    show ?thesis
    proof (cases "map_of es n")
      case (Some v)
      with below [of v] show ?thesis using keep by (simp add: Dir u copy_entries_map_of)
    qed (simp add: Dir u copy_entries_map_of)
  qed (use Cons.prems in \<open>auto split: if_splits\<close>)
qed

lemma file_at_put_below: "file_at (put_tree p t u) (p @ r) = file_at t r"
  by (induction p t u rule: put_tree.induct) (simp_all add: update_conv')

lemma file_at_put_above: "strict_prefix q p \<Longrightarrow> file_at (put_tree p t u) q = None"
proof (induction p t u arbitrary: q rule: put_tree.induct)
  case (2 n ns t c)
  then show ?case by (cases q) auto
next
  case (3 n ns t es)
  then show ?case by (cases q) (auto simp: update_conv')
qed simp

lemma file_at_put_beside:
  "\<not> prefix p q \<Longrightarrow> \<not> prefix q p \<Longrightarrow> file_at (put_tree p t u) q = file_at u q"
proof (induction p t u arbitrary: q rule: put_tree.induct)
  case (2 n ns t c)
  have "file_at (Dir []) r = None" for r by (cases r) simp_all
  then show ?case using 2 by (cases q) auto
next
  case (3 n ns t es)
  have "file_at (Dir []) r = None" for r by (cases r) simp_all
  then show ?case using 3 by (cases q) (auto simp: update_conv' split: option.split)
qed simp

lemma file_at_sub: "sub_tree t p = Some u \<Longrightarrow> file_at t (p @ r) = file_at u r"
proof (induction t p rule: sub_tree.induct)
  case (3 es n ns)
  then show ?case by (auto split: option.splits)
qed (auto split: option.splits)

section \<open>What is staged\<close>

definition antichain :: "string list list \<Rightarrow> bool" where
  "antichain ps \<longleftrightarrow> distinct ps \<and> (\<forall>p \<in> set ps. \<forall>p' \<in> set ps. prefix p p' \<longrightarrow> p = p')"

definition from_root :: "file_tree \<Rightarrow> string list \<Rightarrow> string list \<Rightarrow> string option" where
  "from_root root p q = (if passes stage_filter p (drop (length p) q) then file_at root q else None)"

lemma stage_names_files:
  assumes "stage_names root ps out = Some out'" and "\<forall>p \<in> set ps. stage_filter p" and "antichain ps"
  shows "file_at out' q =
    (case List.find (\<lambda>p. prefix p q) ps of
       Some p \<Rightarrow> from_root root p q
     | None \<Rightarrow> if \<exists>p \<in> set ps. strict_prefix q p then None else file_at out q)"
  using assms
proof (induction ps arbitrary: out)
  case (Cons p ps)
  obtain t where t: "sub_tree root p = Some t" using Cons.prems(1) by (auto split: option.splits)
  obtain u where u: "copy_tree stage_filter p t = Some u"
    using Cons.prems(2) copy_tree_None [of stage_filter p t] by auto
  have rest: "stage_names root ps (put_tree p u out) = Some out'" using Cons.prems(1) t u by simp
  have others: "\<not> prefix p p'" "\<not> prefix p' p" if "p' \<in> set ps" for p'
    using Cons.prems(3) that by (auto simp: antichain_def)
  have anti': "antichain ps" using Cons.prems(3) by (simp add: antichain_def)
  note IH = Cons.IH [OF rest _ anti']
  show ?case
  proof (cases "prefix p q")
    case True
    then obtain r where r: "q = p @ r" by (auto simp: prefix_def)
    have none: "\<not> prefix p' q" "\<not> strict_prefix q p'" if "p' \<in> set ps" for p'
      using others [OF that] True prefix_same_cases [OF True, of p'] prefix_order.trans [OF True, of p']
      by (auto simp: strict_prefix_def)
    then have "List.find (\<lambda>p. prefix p q) ps = None" by (simp add: find_None_iff)
    then have "file_at out' q = file_at (put_tree p u out) q" using IH Cons.prems(2) none by simp
    also have "\<dots> = from_root root p q"
      by (simp add: r file_at_put_below file_at_copy [OF u] file_at_sub [OF t] from_root_def)
    finally show ?thesis using True by simp
  next
    case False
    then have "file_at (put_tree p u out) q = (if strict_prefix q p then None else file_at out q)"
      using file_at_put_above [of q p u out] file_at_put_beside [of p q u out] by (auto simp: strict_prefix_def)
    then show ?thesis using False IH Cons.prems(2) by (auto split: option.split)
  qed
qed simp

lemma staged_antichain: "antichain staged_names"
  by (simp add: antichain_def staged_names_def)

lemma staged_names_pass: "p \<in> set staged_names \<Longrightarrow> stage_filter p \<and> (\<forall>n \<in> set p. \<not> excluded_name n)"
  by (auto simp: staged_names_def stage_filter_def left_out_def excluded_name_def exclude_def suffix_def)

lemma prefix_step:
  "prefix x (p @ n # r) \<Longrightarrow> strict_prefix p x \<longleftrightarrow> p @ [n] = x \<or> strict_prefix (p @ [n]) x"
  by (auto simp: strict_prefix_def prefix_def append_eq_append_conv2 append_eq_Cons_conv Cons_eq_append_conv)

lemma passes_filter:
  "p \<noteq> [] \<Longrightarrow> passes stage_filter p r \<longleftrightarrow>
     stage_filter p \<and> (\<forall>n \<in> set r. \<not> excluded_name n) \<and>
     (\<forall>x \<in> set left_out. \<not> (strict_prefix p x \<and> prefix x (p @ r)))"
proof (induction r arbitrary: p)
  case Nil
  then show ?case by (auto dest: prefix_order.less_le_not_le [THEN iffD1])
next
  case (Cons n r)
  have last: "stage_filter (p @ [n]) \<longleftrightarrow> \<not> excluded_name n \<and> p @ [n] \<notin> set left_out"
    by (simp only: stage_filter_def last_snoc)
  have "(\<forall>x \<in> set left_out. \<not> (strict_prefix p x \<and> prefix x (p @ n # r))) \<longleftrightarrow>
      p @ [n] \<notin> set left_out \<and> (\<forall>x \<in> set left_out. \<not> (strict_prefix (p @ [n]) x \<and> prefix x (p @ n # r)))"
    using prefix_step [of _ p n r] same_prefix_prefix [of p "[n]" "n # r"] by (metis Cons_prefix_Cons Nil_prefix)
  moreover have "passes stage_filter p (n # r) \<longleftrightarrow> stage_filter p \<and> stage_filter (p @ [n]) \<and>
      (\<forall>m \<in> set r. \<not> excluded_name m) \<and>
      (\<forall>x \<in> set left_out. \<not> (strict_prefix (p @ [n]) x \<and> prefix x (p @ n # r)))"
    using Cons.IH [of "p @ [n]"] by simp
  ultimately show ?case unfolding last by auto
qed

definition stageable :: "string list \<Rightarrow> bool" where
  "stageable q \<longleftrightarrow>
     (\<exists>p \<in> set staged_names. prefix p q) \<and> (\<forall>n \<in> set q. \<not> excluded_name n) \<and>
     (\<forall>x \<in> set left_out. \<not> prefix x q)"

lemma left_out_below: "p \<in> set staged_names \<Longrightarrow> x \<in> set left_out \<Longrightarrow> p \<noteq> [] \<and> \<not> prefix x p"
  by (auto simp: staged_names_def left_out_def)

lemma passes_stageable:
  assumes "p \<in> set staged_names" and "prefix p q"
  shows "passes stage_filter p (drop (length p) q) \<longleftrightarrow> stageable q"
proof -
  obtain r where q: "q = p @ r" using assms(2) by (auto simp: prefix_def)
  have "p \<noteq> []" using assms(1) by (auto simp: staged_names_def)
  then have passes: "passes stage_filter p r \<longleftrightarrow> (\<forall>n \<in> set r. \<not> excluded_name n) \<and>
     (\<forall>x \<in> set left_out. \<not> (strict_prefix p x \<and> prefix x q))"
    using passes_filter [of p r] staged_names_pass [OF assms(1)] q by simp
  have "strict_prefix p x" if "x \<in> set left_out" "prefix x q" for x
    using prefix_same_cases [OF assms(2) that(2)] left_out_below [OF assms(1) that(1)] by (auto simp: strict_prefix_def)
  then have "(\<forall>x \<in> set left_out. \<not> (strict_prefix p x \<and> prefix x q)) \<longleftrightarrow> (\<forall>x \<in> set left_out. \<not> prefix x q)" by blast
  moreover have "(\<forall>n \<in> set q. \<not> excluded_name n) \<longleftrightarrow> (\<forall>n \<in> set r. \<not> excluded_name n)"
    using staged_names_pass [OF assms(1)] by (auto simp: q)
  moreover have "\<exists>p \<in> set staged_names. prefix p q" using assms by blast
  ultimately show ?thesis using passes unfolding stageable_def by (simp add: q)
qed

lemma stage_service_files:
  assumes "stage_service root service = Some out"
  shows "file_at out q =
    (if q = [''railway.json''] then file_at root [''deploy'', ''railway.'' @ service @ ''.json'']
     else if stageable q then file_at root q else None)"
proof -
  obtain mid c where mid: "stage_names root staged_names (Dir [(''contracts'', Dir [])]) = Some mid"
    and c: "sub_tree root [''deploy'', ''railway.'' @ service @ ''.json''] = Some (File c)"
    and out: "out = put_tree [''railway.json''] (File c) mid"
    using assms by (auto simp: stage_service_def split: option.splits file_tree.splits)
  have old: "file_at (Dir [(''contracts'', Dir [])]) x = None" for x
    by (cases x; cases "tl x") auto
  have all: "file_at mid q = (if stageable q then file_at root q else None)"
  proof (cases "List.find (\<lambda>p. prefix p q) staged_names")
    case None
    then have "\<not> stageable q" by (auto simp: find_None_iff stageable_def)
    then show ?thesis
      using stage_names_files [OF mid _ staged_antichain, of q] staged_names_pass None old by auto
  next
    case (Some p)
    from find_SomeD [OF this] have "p \<in> set staged_names" "prefix p q" by auto
    then show ?thesis
      using stage_names_files [OF mid _ staged_antichain, of q] staged_names_pass Some passes_stageable [of p q]
      by (simp add: from_root_def)
  qed
  have top: "file_at out q = file_at mid q" if ne: "q \<noteq> [''railway.json'']"
  proof (cases "strict_prefix q [''railway.json'']")
    case True
    then have "q = []" by (cases q) (auto simp: strict_prefix_def)
    then show ?thesis using all file_at_put_above [OF True] out by (simp add: stageable_def staged_names_def)
  next
    case False
    show ?thesis
    proof (cases "prefix [''railway.json''] q")
      case True
      then obtain zs where zs: "q = [''railway.json''] @ zs" by (rule prefixE)
      then obtain n ns where "zs = n # ns" using ne by (cases zs) auto
      then show ?thesis
        using all file_at_put_below [of "[''railway.json'']" "File c" mid zs] unfolding out zs
        by (simp add: stageable_def staged_names_def)
    next
      case False
      then show ?thesis
        using file_at_put_beside [of "[''railway.json'']" q "File c" mid] \<open>\<not> strict_prefix q _\<close> ne
        by (auto simp: out strict_prefix_def)
    qed
  qed
  show ?thesis
    using top all c file_at_put_below [of "[''railway.json'']" "File c" mid "[]"] by (auto simp: out file_at_def)
qed

section \<open>The promise\<close>

text \<open>C40: the staged directories hold exactly the files of the application: for each service the files under the
  eight given names, unchanged, without anything whose path has a component that is excluded (environment
  files with keys, the local state with the keys of the test wallets, build results) and without the
  manifest and the built server, plus the service's own configuration.\<close>

theorem staged_exactly:
  assumes "stage_script stage root = Some (out, root')" and "service = ''backend'' \<or> service = ''frontend''"
  shows "file_at out (service # q) =
    (if q = [''railway.json''] then file_at root [''deploy'', ''railway.'' @ service @ ''.json'']
     else if stageable q then file_at root q else None)"
proof -
  obtain b f where b: "stage_service root ''backend'' = Some b" and f: "stage_service root ''frontend'' = Some f"
    and out: "out = Dir [(''backend'', b), (''frontend'', f)]"
    using assms(1) by (auto simp: stage_script_def split: option.splits)
  show ?thesis
    using assms(2) stage_service_files [OF b, of q] stage_service_files [OF f, of q] by (auto simp: out)
qed

definition sample_repo :: file_tree where
  "sample_repo =
     Dir [(''backend'', Dir [(''main.go'', File ''go''), (''server'', File ''elf''), (''.env'', File ''PRIVATE_KEY'')]),
          (''frontend'', Dir [(''src'', Dir [(''main.tsx'', File ''tsx'')]), (''.env.local'', File ''RPC'')]),
          (''shared'', Dir [(''deployment.json'', File ''local''), (''DLottery.json'', File ''abi'')]),
          (''deploy'', Dir [(''railway.backend.json'', File ''b''), (''railway.frontend.json'', File ''f'')]),
          (''contracts'', Dir [(''package.json'', File ''p'')]), (''package.json'', File ''p''),
          (''package-lock.json'', File ''l''), (''.dockerignore'', File ''d''), (''.env'', File ''PRIVATE_KEY''),
          (''.local'', Dir [(''test-wallets.json'', File ''keys'')])]"

theorem staged_exactly_witness:
  "\<exists>out root'. stage_script ''/tmp/x'' sample_repo = Some (out, root') \<and>
     file_at out [''backend'', ''backend'', ''.env''] = None \<and>
     file_at out [''backend'', ''backend'', ''main.go''] = Some ''go''"
proof -
  have "\<exists>out root'. stage_script ''/tmp/x'' sample_repo = Some (out, root')"
    by (simp add: stage_script_def stage_service_def sample_repo_def staged_names_def stage_filter_def left_out_def
        excluded_name_def exclude_def suffix_def)
  then obtain out root' where s: "stage_script ''/tmp/x'' sample_repo = Some (out, root')" by blast
  have "file_at out (''backend'' # [''backend'', ''.env'']) = None"
    using staged_exactly [OF s, of "''backend''" "[''backend'', ''.env'']"] by (simp add: stageable_def excluded_name_def)
  moreover have "file_at out (''backend'' # [''backend'', ''main.go'']) = Some ''go''"
    using staged_exactly [OF s, of "''backend''" "[''backend'', ''main.go'']"]
    by (simp add: stageable_def staged_names_def left_out_def excluded_name_def exclude_def suffix_def sample_repo_def)
  ultimately show ?thesis using s by blast
qed

end
