(* ===== verification/Projection.thy ===== *)
theory Projection
  imports Chain Lottery
begin

text \<open>
  \<^verbatim>\<open>backend/internal/lottery/model.go\<close>: the history service rebuilds the rounds from the events of the contract.
  A log is decoded into an event with texts as values, and each event changes one round or is refused.
  The service's \<^verbatim>\<open>Draw\<close> has the fields of the client's, which reads it as JSON.
\<close>

section \<open>Numbers\<close>

text \<open>\<^verbatim>\<open>new(big.Int).SetString(s, 10)\<close>, and a Go \<^verbatim>\<open>uint64\<close> converted to \<^verbatim>\<open>int\<close>.\<close>

fun big_int :: "string \<Rightarrow> int option" where
  "big_int [] = None"
| "big_int (c # s) =
     (if c = CHR ''+'' then map_option int (read_nat 10 s)
      else if c = CHR ''-'' then map_option (\<lambda>n. - int n) (read_nat 10 s)
      else map_option int (read_nat 10 (c # s)))"

definition int64 :: "int \<Rightarrow> int" where
  "int64 x = (x + 2 ^ 63) mod 2 ^ 64 - 2 ^ 63"

section \<open>Events\<close>

text \<open>
  A log as the node returns it; \<open>log_content\<close> is what go-ethereum's ABI package reads in its topics and
  data, \<^const>\<open>None\<close> when they are not one of the contract's events.
\<close>

record chain_log =
  log_content :: "event option"
  log_blockNumber :: nat
  log_blockHash :: string
  log_txHash :: string
  log_txIndex :: nat
  log_index :: nat
  log_emitter :: string
  log_removed :: bool

record Event =
  ev_name :: string
  ev_values :: "(string \<times> string) list"
  ev_blockNumber :: nat
  ev_blockHash :: string
  ev_txHash :: string
  ev_txIndex :: nat
  ev_logIndex :: nat
  ev_timestamp :: nat

text \<open>Names and values of the parameters, as the ABI gives them; addresses in lower case.\<close>

fun event_name :: "event \<Rightarrow> string" where
  "event_name (DrawStarted i st dl price mn inh) = ''DrawStarted''"
| "event_name (TicketBought i a n price k pl) = ''TicketBought''"
| "event_name (RandomnessRequested i r) = ''RandomnessRequested''"
| "event_name (LotteryDrawn i k a pl fee prize ro) = ''LotteryDrawn''"
| "event_name (DrawCancelled i k tot ro) = ''DrawCancelled''"
| "event_name (PrizeClaimed i a prize dao fee) = ''PrizeClaimed''"
| "event_name (RefundClaimed i a price) = ''RefundClaimed''"

definition hex_text :: "(addr \<Rightarrow> string) \<Rightarrow> addr \<Rightarrow> string" where
  "hex_text sa a = toLowerCase (sa a)"

fun event_values :: "(addr \<Rightarrow> string) \<Rightarrow> event \<Rightarrow> (string \<times> string) list" where
  "event_values sa (DrawStarted i st dl price mn inh) =
     [(''drawId'', show_nat 10 i), (''startTime'', show_nat 10 st), (''deadline'', show_nat 10 dl),
      (''ticketPrice'', show_nat 10 price), (''minimumParticipants'', show_nat 10 mn),
      (''inheritedRollover'', show_nat 10 inh)]"
| "event_values sa (TicketBought i a n price k pl) =
     [(''drawId'', show_nat 10 i), (''buyer'', hex_text sa a), (''ticketNumber'', show_nat 10 n),
      (''amount'', show_nat 10 price), (''participantCount'', show_nat 10 k), (''pool'', show_nat 10 pl)]"
| "event_values sa (RandomnessRequested i r) = [(''drawId'', show_nat 10 i), (''requestId'', show_nat 10 r)]"
| "event_values sa (LotteryDrawn i k a pl fee prize ro) =
     [(''drawId'', show_nat 10 i), (''luckyNumber'', show_nat 10 k), (''winner'', hex_text sa a),
      (''pool'', show_nat 10 pl), (''daoFee'', show_nat 10 fee), (''winnerPrize'', show_nat 10 prize),
      (''rollover'', show_nat 10 ro)]"
| "event_values sa (DrawCancelled i k tot ro) =
     [(''drawId'', show_nat 10 i), (''participantCount'', show_nat 10 k),
      (''refundableTotal'', show_nat 10 tot), (''rollover'', show_nat 10 ro)]"
| "event_values sa (PrizeClaimed i a prize dao fee) =
     [(''drawId'', show_nat 10 i), (''winner'', hex_text sa a), (''amount'', show_nat 10 prize),
      (''dao'', hex_text sa dao), (''daoFee'', show_nat 10 fee)]"
| "event_values sa (RefundClaimed i a price) =
     [(''drawId'', show_nat 10 i), (''participant'', hex_text sa a), (''amount'', show_nat 10 price)]"

definition Decode :: "(addr \<Rightarrow> string) \<Rightarrow> chain_log \<Rightarrow> nat \<Rightarrow> Event option" where
  "Decode sa l timestamp =
     (case log_content l of
        None \<Rightarrow> None
      | Some e \<Rightarrow> Some
          \<lparr>ev_name = event_name e, ev_values = event_values sa e, ev_blockNumber = log_blockNumber l,
           ev_blockHash = log_blockHash l, ev_txHash = log_txHash l, ev_txIndex = log_txIndex l,
           ev_logIndex = log_index l, ev_timestamp = timestamp\<rparr>)"

text \<open>Reading the map of values: a name that is not there is the empty text.\<close>

definition val :: "Event \<Rightarrow> string \<Rightarrow> string" where
  "val e k = (case map_of (ev_values e) k of None \<Rightarrow> [] | Some x \<Rightarrow> x)"

section \<open>Applying an event to a round\<close>

datatype apply_error =
    Missing_drawId
  | Duplicate_start
  | Invalid_integer string
  | Precedes string string
  | Invalid_ticket_number
  | Invalid_ticket_transition
  | Duplicate_wallet
  | Invalid_randomness_transition
  | Invalid_settlement_transition
  | Invalid_lucky_number
  | Invalid_cancellation_transition
  | Invalid_prize_claim
  | Invalid_refund
  | Unknown_refund
  | Unsupported_event string
  | Index_out_of_range

type_synonym 'a applied = "apply_error + 'a"

definition go_number :: "string \<Rightarrow> nat applied" where
  "go_number s =
     (case big_int s of
        None \<Rightarrow> Inl (Invalid_integer s)
      | Some n \<Rightarrow> if 0 \<le> n \<and> n < 2 ^ 64 then Inr (nat n) else Inl (Invalid_integer s))"

definition fresh_tickets :: "Ticket list" where
  "fresh_tickets = map (\<lambda>i. \<lparr>number = int i + 1, wallet = None, refunded = False\<rparr>) [0..<10]"

definition apply_started :: "Event \<Rightarrow> Draw applied" where
  "apply_started e =
     (case go_number (val e ''startTime'') of Inl x \<Rightarrow> Inl x | Inr start \<Rightarrow>
     (case go_number (val e ''deadline'') of Inl x \<Rightarrow> Inl x | Inr dl \<Rightarrow>
     (case go_number (val e ''minimumParticipants'') of Inl x \<Rightarrow> Inl x | Inr mn \<Rightarrow>
       Inr \<lparr>draw_id = val e ''drawId'', status = ''ACTIVE'', startTime = int start, deadline = int dl,
            finalizedAt = None, ticketPrice = val e ''ticketPrice'', minimumParticipants = int64 (int mn),
            participantCount = 0, luckyNumber = None, winner = None, pool = val e ''inheritedRollover'',
            inheritedRollover = val e ''inheritedRollover'', rollover = ''0'', daoFee = ''0'',
            winnerPrize = ''0'', prizeClaimed = False, daoFeePaid = ''0'', requestId = None,
            tickets = fresh_tickets, remainingSeconds = 0, draw_canPerformDraw = False\<rparr>)))"

definition apply_ticket :: "Draw \<Rightarrow> Event \<Rightarrow> Draw applied" where
  "apply_ticket d e =
     (case go_number (val e ''ticketNumber'') of Inl x \<Rightarrow> Inl Invalid_ticket_number | Inr n \<Rightarrow>
       if n < 1 \<or> 10 < n then Inl Invalid_ticket_number
       else
     (case go_number (val e ''participantCount'') of Inl x \<Rightarrow> Inl x | Inr count \<Rightarrow>
       if status d \<noteq> ''ACTIVE'' then Inl Invalid_ticket_transition
       else if length (tickets d) < n then Inl Index_out_of_range
       else if wallet (tickets d ! (n - 1)) \<noteq> None \<or> int64 (int count) \<noteq> int64 (participantCount d + 1)
       then Inl Invalid_ticket_transition
       else if list_ex (\<lambda>t. wallet t = Some (val e ''buyer'')) (tickets d) then Inl Duplicate_wallet
       else Inr (d\<lparr>tickets := (tickets d)[n - 1 := (tickets d ! (n - 1))\<lparr>wallet := Some (val e ''buyer'')\<rparr>],
                   participantCount := int64 (int count), pool := val e ''pool''\<rparr>)))"

definition apply_requested :: "Draw \<Rightarrow> Event \<Rightarrow> Draw applied" where
  "apply_requested d e =
     (if status d \<noteq> ''ACTIVE'' then Inl Invalid_randomness_transition
      else Inr (d\<lparr>status := ''DRAWING'', requestId := Some (val e ''requestId'')\<rparr>))"

definition apply_drawn :: "Draw \<Rightarrow> Event \<Rightarrow> Draw applied" where
  "apply_drawn d e =
     (if status d \<noteq> ''DRAWING'' then Inl Invalid_settlement_transition
      else case go_number (val e ''luckyNumber'') of Inl x \<Rightarrow> Inl Invalid_lucky_number | Inr n \<Rightarrow>
        if n < 1 \<or> 10 < n then Inl Invalid_lucky_number
        else let d1 = d\<lparr>luckyNumber := Some (int n), pool := val e ''pool'', daoFee := val e ''daoFee'',
                     winnerPrize := val e ''winnerPrize'', rollover := val e ''rollover'',
                     finalizedAt := Some (int (ev_timestamp e))\<rparr>
          in if val e ''winner'' = toLowerCase ZeroAddress then Inr (d1\<lparr>status := ''NO_WINNER''\<rparr>)
             else Inr (d1\<lparr>status := ''WINNER_DECLARED'', winner := Some (val e ''winner'')\<rparr>))"

definition apply_cancelled :: "Draw \<Rightarrow> Event \<Rightarrow> Draw applied" where
  "apply_cancelled d e =
     (if status d \<noteq> ''ACTIVE'' then Inl Invalid_cancellation_transition
      else Inr (d\<lparr>status := ''CANCELLED'', rollover := val e ''rollover'',
                  finalizedAt := Some (int (ev_timestamp e))\<rparr>))"

definition apply_prize :: "Draw \<Rightarrow> Event \<Rightarrow> Draw applied" where
  "apply_prize d e =
     (if status d \<noteq> ''WINNER_DECLARED'' \<or> winner d \<noteq> Some (val e ''winner'') \<or>
         winnerPrize d \<noteq> val e ''amount'' \<or> daoFee d \<noteq> val e ''daoFee''
      then Inl Invalid_prize_claim
      else Inr (d\<lparr>status := ''COMPLETED'', prizeClaimed := True, daoFeePaid := val e ''daoFee''\<rparr>))"

primrec refund_first :: "string \<Rightarrow> Ticket list \<Rightarrow> Ticket list option" where
  "refund_first a [] = None"
| "refund_first a (t # ts) =
     (if wallet t = Some a \<and> \<not> refunded t then Some (t\<lparr>refunded := True\<rparr> # ts)
      else map_option ((#) t) (refund_first a ts))"

definition apply_refund :: "Draw \<Rightarrow> Event \<Rightarrow> Draw applied" where
  "apply_refund d e =
     (if status d \<noteq> ''CANCELLED'' \<or> val e ''amount'' \<noteq> ticketPrice d then Inl Invalid_refund
      else case refund_first (val e ''participant'') (tickets d) of
          None \<Rightarrow> Inl Unknown_refund
        | Some ts \<Rightarrow> Inr (d\<lparr>tickets := ts\<rparr>))"

definition Apply :: "Draw option \<Rightarrow> Event \<Rightarrow> Draw applied" where
  "Apply r e =
     (let i = val e ''drawId'' in
       if big_int i = None then Inl Missing_drawId
       else if ev_name e = ''DrawStarted'' then (if r \<noteq> None then Inl Duplicate_start else apply_started e)
       else case r of
           None \<Rightarrow> Inl (Precedes (ev_name e) i)
         | Some d \<Rightarrow>
             if draw_id d \<noteq> i then Inl (Precedes (ev_name e) i)
             else if ev_name e = ''TicketBought'' then apply_ticket d e
             else if ev_name e = ''RandomnessRequested'' then apply_requested d e
             else if ev_name e = ''LotteryDrawn'' then apply_drawn d e
             else if ev_name e = ''DrawCancelled'' then apply_cancelled d e
             else if ev_name e = ''PrizeClaimed'' then apply_prize d e
             else if ev_name e = ''RefundClaimed'' then apply_refund d e
             else Inl (Unsupported_event (ev_name e)))"

text \<open>What depends on the time is filled in when a round is read.\<close>

definition Refresh :: "nat \<Rightarrow> Draw \<Rightarrow> Draw" where
  "Refresh now d =
     d\<lparr>remainingSeconds := (if status d = ''ACTIVE'' \<and> int now < deadline d then deadline d - int now else 0),
       draw_canPerformDraw := (status d = ''ACTIVE'' \<and> (participantCount d = 5 \<or> deadline d \<le> int now))\<rparr>"

section \<open>The values of a decoded event\<close>

lemma big_int_show [simp]: "big_int (show_nat 10 n) = Some (int n)"
proof -
  have "c \<noteq> CHR ''+'' \<and> c \<noteq> CHR ''-''" if m: "c \<in> set (show_nat 10 n)" for c
  proof -
    obtain k where "k < 10" "c = digit_char k" using m digits_less [of 10 n] by (auto simp: show_nat_def)
    then have "digit_val c = Some k" by (simp add: digit_val_digit_char)
    moreover have "digit_val (CHR ''+'') = None" "digit_val (CHR ''-'') = None" by (simp_all add: digit_val_def)
    ultimately show ?thesis by (metis option.distinct(1))
  qed
  then show ?thesis
    using read_nat_show_nat [of 10 n] by (cases "show_nat 10 n") auto
qed

lemma go_number_show [simp]: "n < 2 ^ 64 \<Longrightarrow> go_number (show_nat 10 n) = Inr n"
  by (simp add: go_number_def)

lemma int64_small [simp]: "- (2 ^ 63) \<le> n \<Longrightarrow> n < 2 ^ 63 \<Longrightarrow> int64 n = n"
  by (simp add: int64_def)

end
