(* ===== verification/Store.thy ===== *)
theory Store
  imports Projection "HOL-Library.Product_Lexorder" "HOL-Library.AList" "HOL-Library.Sublist"
begin

text \<open>
  \<^verbatim>\<open>backend/internal/store/store.go\<close> over the tables of one deployment (\<^verbatim>\<open>schema.sql\<close>): the blocks and the events
  that were indexed, and the rounds, tickets and claims projected from them. Every operation is one
  database transaction: it takes effect as a whole or is refused.
\<close>

section \<open>Tables\<close>

record Block =
  b_number :: int
  b_hash :: string
  b_parentHash :: string
  b_timestamp :: nat

text \<open>The projections: \<^verbatim>\<open>draws\<close> by identifier, \<^verbatim>\<open>tickets\<close> by round and number, \<^verbatim>\<open>claims\<close> by round, wallet and kind.\<close>

record tables =
  draws_table :: "(int \<times> Draw) list"
  tickets_table :: "int \<times> int \<rightharpoonup> string \<times> bool"
  claims_table :: "int \<times> string \<times> string \<rightharpoonup> string \<times> string"

record store =
  st_start :: int
  st_cursor :: int
  st_hash :: string
  blocks :: "int \<rightharpoonup> Block"
  events :: "Event list"
  tables :: tables

datatype store_error =
    Apply_failed apply_error
  | Invalid_numeric
  | Constraint_violated
  | No_rows
  | Conflicting_replay
  | Noncontiguous int int
  | Header_mismatch

type_synonym 'a stored = "store_error + 'a"

text \<open>A text written to a column of type \<^verbatim>\<open>NUMERIC(78,0)\<close>.\<close>

definition numeric :: "string \<Rightarrow> int stored" where
  "numeric t =
     (case big_int t of
        Some n \<Rightarrow> if \<bar>n\<bar> < 10 ^ 78 then Inr n else Inl Invalid_numeric
      | None \<Rightarrow> Inl Invalid_numeric)"

definition no_tables :: tables where
  "no_tables = \<lparr>draws_table = [], tickets_table = Map.empty, claims_table = Map.empty\<rparr>"

text \<open>\<^verbatim>\<open>Open\<close> on a database without the deployment.\<close>

definition fresh_store :: "int \<Rightarrow> store" where
  "fresh_store st =
     \<lparr>st_start = st, st_cursor = st - 1, st_hash = [], blocks = Map.empty, events = [], tables = no_tables\<rparr>"

section \<open>Projecting an event\<close>

definition ticket_numbers :: "int list" where
  "ticket_numbers = [1, 2, 3, 4, 5, 6, 7, 8, 9, 10]"

text \<open>
  One ticket: a row that is there keeps its wallet; a new one must have a number from one to ten and a
  wallet without a ticket in the round.
\<close>

definition put_ticket :: "int \<Rightarrow> Ticket \<Rightarrow> (int \<times> int \<rightharpoonup> string \<times> bool) \<Rightarrow> (int \<times> int \<rightharpoonup> string \<times> bool) stored" where
  "put_ticket i t tb =
     (case wallet t of
        None \<Rightarrow> Inr tb
      | Some w \<Rightarrow>
          if number t \<notin> set ticket_numbers then Inl Constraint_violated
          else case tb (i, number t) of
              Some (w', r) \<Rightarrow> Inr (tb((i, number t) \<mapsto> (w', refunded t)))
            | None \<Rightarrow>
                if list_ex (\<lambda>n. map_option fst (tb (i, n)) = Some w) ticket_numbers
                then Inl Constraint_violated
                else Inr (tb((i, number t) \<mapsto> (w, refunded t))))"

fun put_tickets :: "int \<Rightarrow> Ticket list \<Rightarrow> (int \<times> int \<rightharpoonup> string \<times> bool) \<Rightarrow> (int \<times> int \<rightharpoonup> string \<times> bool) stored" where
  "put_tickets i [] tb = Inr tb"
| "put_tickets i (t # ts) tb = (case put_ticket i t tb of Inl x \<Rightarrow> Inl x | Inr tb' \<Rightarrow> put_tickets i ts tb')"

definition put_claim ::
  "int \<Rightarrow> Event \<Rightarrow> (int \<times> string \<times> string \<rightharpoonup> string \<times> string) \<Rightarrow> (int \<times> string \<times> string \<rightharpoonup> string \<times> string) stored" where
  "put_claim i e tb =
     (if ev_name e = ''PrizeClaimed'' \<or> ev_name e = ''RefundClaimed''
      then let w = (if ev_name e = ''RefundClaimed'' then val e ''participant'' else val e ''winner'') in
        case numeric (val e ''amount'') of
          Inl x \<Rightarrow> Inl x
        | Inr n \<Rightarrow>
            if tb (i, w, ev_name e) \<noteq> None then Inl Constraint_violated
            else Inr (tb((i, w, ev_name e) \<mapsto> (val e ''amount'', ev_txHash e)))
      else Inr tb)"

definition project :: "Event \<Rightarrow> tables \<Rightarrow> tables stored" where
  "project e tb =
     (case numeric (val e ''drawId'') of Inl x \<Rightarrow> Inl x | Inr i \<Rightarrow>
     (case Apply (map_of (draws_table tb) i) e of Inl x \<Rightarrow> Inl (Apply_failed x) | Inr d \<Rightarrow>
     (case numeric (draw_id d) of Inl x \<Rightarrow> Inl x | Inr j \<Rightarrow>
     (case numeric (pool d) of Inl x \<Rightarrow> Inl x | Inr p \<Rightarrow>
     (case put_tickets j (tickets d) (tickets_table tb) of Inl x \<Rightarrow> Inl x | Inr tt \<Rightarrow>
     (case put_claim j e (claims_table tb) of Inl x \<Rightarrow> Inl x | Inr ct \<Rightarrow>
       Inr \<lparr>draws_table = AList.update j d (draws_table tb), tickets_table = tt, claims_table = ct\<rparr>))))))"

fun project_all :: "Event list \<Rightarrow> tables \<Rightarrow> tables stored" where
  "project_all [] tb = Inr tb"
| "project_all (e # es) tb = (case project e tb of Inl x \<Rightarrow> Inl x | Inr tb' \<Rightarrow> project_all es tb')"

section \<open>Committing a block\<close>

text \<open>The primary key of the table of events.\<close>

definition event_key :: "Event \<Rightarrow> string \<times> string \<times> nat" where
  "event_key e = (ev_blockHash e, ev_txHash e, ev_logIndex e)"

fun commit_events :: "Block \<Rightarrow> Event list \<Rightarrow> store \<Rightarrow> store stored" where
  "commit_events b [] s = Inr s"
| "commit_events b (e # es) s =
     (if int (ev_blockNumber e) \<noteq> b_number b mod 2 ^ 64 \<or> ev_blockHash e \<noteq> b_hash b then Inl Header_mismatch
      else if event_key e \<in> event_key ` set (events s) then commit_events b es s
      else case project e (tables s) of
          Inl x \<Rightarrow> Inl x
        | Inr tb \<Rightarrow> commit_events b es (s\<lparr>events := events s @ [e], tables := tb\<rparr>))"

definition CommitBlock :: "Block \<Rightarrow> Event list \<Rightarrow> store \<Rightarrow> store stored" where
  "CommitBlock b es s =
     (if b_number b \<le> st_cursor s
      then case blocks s (b_number b) of
          None \<Rightarrow> Inl No_rows
        | Some old \<Rightarrow> if b_hash old \<noteq> b_hash b then Inl Conflicting_replay else Inr s
      else if b_number b \<noteq> st_cursor s + 1 \<or> st_hash s \<noteq> [] \<and> st_hash s \<noteq> b_parentHash b
      then Inl (Noncontiguous (b_number b) (st_cursor s))
      else if blocks s (b_number b) \<noteq> None then Inl Constraint_violated
      else case commit_events b es (s\<lparr>blocks := (blocks s)(b_number b \<mapsto> b)\<rparr>) of
          Inl x \<Rightarrow> Inl x
        | Inr s' \<Rightarrow> Inr (s'\<lparr>st_cursor := b_number b, st_hash := b_hash b\<rparr>))"

section \<open>Rewinding\<close>

definition place :: "Event \<Rightarrow> nat \<times> nat \<times> nat" where
  "place e = (ev_blockNumber e, ev_txIndex e, ev_logIndex e)"

definition Rewind :: "int \<Rightarrow> store \<Rightarrow> store stored" where
  "Rewind ancestor s =
     (let es = filter (\<lambda>e. int (ev_blockNumber e) \<le> ancestor) (events s);
          bs = (\<lambda>n. if ancestor < n then None else blocks s n) in
       case project_all (sort_key place es) no_tables of
         Inl x \<Rightarrow> Inl x
       | Inr tb \<Rightarrow>
           (case (if st_start s \<le> ancestor then map_option b_hash (bs ancestor) else Some []) of
              None \<Rightarrow> Inl No_rows
            | Some h \<Rightarrow> Inr (s\<lparr>events := es, blocks := bs, tables := tb, st_cursor := ancestor, st_hash := h\<rparr>)))"

section \<open>Reading\<close>

record snapshot =
  sn_cursor :: int
  sn_hash :: string
  sn_time :: nat
  sn_draws :: "Draw list"
  sn_next :: "string option"

datatype read_mode = current_draw | draw_detail string | draw_history string

text \<open>\<^verbatim>\<open>ORDER BY id DESC\<close>\<close>

definition by_id :: "(int \<times> Draw) list \<Rightarrow> (int \<times> Draw) list" where
  "by_id rows = rev (sort_key fst rows)"

definition settled_row :: "Draw \<Rightarrow> bool" where
  "settled_row d \<longleftrightarrow> status d \<notin> {''ACTIVE'', ''DRAWING''}"

definition query :: "store \<Rightarrow> read_mode \<Rightarrow> nat \<Rightarrow> Draw list stored" where
  "query s mode limit =
     (let rows = by_id (draws_table (tables s)) in
       case mode of
         current_draw \<Rightarrow> Inr (map snd (take 1 rows))
       | draw_detail i \<Rightarrow>
           (case numeric i of Inl x \<Rightarrow> Inl x | Inr n \<Rightarrow> Inr (map snd (take 1 (filter (\<lambda>r. fst r = n) rows))))
       | draw_history c \<Rightarrow>
           let old = filter (\<lambda>r. settled_row (snd r)) rows in
             if c = [] then Inr (map snd (take (limit + 1) old))
             else (case numeric c of Inl x \<Rightarrow> Inl x
                   | Inr n \<Rightarrow> Inr (map snd (take (limit + 1) (filter (\<lambda>r. fst r < n) old)))))"

definition chain_time :: "store \<Rightarrow> nat stored" where
  "chain_time s =
     (if st_start s \<le> st_cursor s
      then case blocks s (st_cursor s) of None \<Rightarrow> Inl No_rows | Some b \<Rightarrow> Inr (b_timestamp b)
      else Inr 0)"

definition Read_store :: "store \<Rightarrow> read_mode \<Rightarrow> nat \<Rightarrow> snapshot stored" where
  "Read_store s mode limit =
     (case chain_time s of Inl x \<Rightarrow> Inl x | Inr tm \<Rightarrow>
     (case query s mode limit of Inl x \<Rightarrow> Inl x | Inr ds \<Rightarrow>
       let page = map (Refresh tm) ds in
         Inr (if limit < length page
              then \<lparr>sn_cursor = st_cursor s, sn_hash = st_hash s, sn_time = tm, sn_draws = take limit page,
                    sn_next = Some (draw_id (last (take limit page)))\<rparr>
              else \<lparr>sn_cursor = st_cursor s, sn_hash = st_hash s, sn_time = tm, sn_draws = page,
                    sn_next = None\<rparr>)))"

section \<open>The durable state\<close>

text \<open>
  What every store satisfies: the blocks reach from the first to the cursor without a gap, each on its
  parent; the events lie in them, in the order of the chain; and the projections are those of the events.
\<close>

definition chained :: "store \<Rightarrow> bool" where
  "chained s \<longleftrightarrow>
     st_start s - 1 \<le> st_cursor s \<and> 0 \<le> st_start s \<and> st_cursor s < 2 ^ 63 \<and>
     st_hash s = (if st_start s \<le> st_cursor s then b_hash (the (blocks s (st_cursor s))) else []) \<and>
     (\<forall>n. blocks s n \<noteq> None \<longleftrightarrow> st_start s \<le> n \<and> n \<le> st_cursor s) \<and>
     (\<forall>n b. blocks s n = Some b \<longrightarrow> b_number b = n \<and> b_hash b \<noteq> []) \<and>
     (\<forall>n b. blocks s n = Some b \<longrightarrow> st_start s < n \<longrightarrow> b_parentHash b = b_hash (the (blocks s (n - 1))))"

definition well_kept :: "store \<Rightarrow> bool" where
  "well_kept s \<longleftrightarrow>
     chained s \<and> sorted (map place (events s)) \<and> distinct (map event_key (events s)) \<and>
     (\<forall>e \<in> set (events s). \<exists>b. blocks s (int (ev_blockNumber e)) = Some b \<and> ev_blockHash e = b_hash b) \<and>
     project_all (events s) no_tables = Inr (tables s)"

lemma well_kept_fresh: "0 \<le> st \<Longrightarrow> st \<le> 2 ^ 63 \<Longrightarrow> well_kept (fresh_store st)"
  by (simp add: well_kept_def chained_def fresh_store_def)

lemma project_all_append:
  "project_all (es @ fs) tb = (case project_all es tb of Inl x \<Rightarrow> Inl x | Inr tb' \<Rightarrow> project_all fs tb')"
  by (induction es arbitrary: tb) (auto split: sum.split)

text \<open>The events a block adds: those whose key is not in the table yet.\<close>

lemma commit_events_effect:
  assumes "commit_events b es s = Inr s'"
  obtains fs where "s' = s\<lparr>events := events s @ fs, tables := tables s'\<rparr>" and "set fs \<subseteq> set es"
    and "project_all fs (tables s) = Inr (tables s')" and "subseq fs es"
    and "distinct (map event_key fs)" and "event_key ` set fs \<inter> event_key ` set (events s) = {}"
    and "\<forall>e \<in> set es. int (ev_blockNumber e) = b_number b mod 2 ^ 64 \<and> ev_blockHash e = b_hash b"
  using assms
proof (induction es arbitrary: s thesis)
  case Nil
  show ?case by (rule Nil.prems(1) [of "[]"]) (use Nil.prems(2) in auto)
next
  case (Cons e es)
  note h = Cons.prems(2)
  have m: "int (ev_blockNumber e) = b_number b mod 2 ^ 64 \<and> ev_blockHash e = b_hash b"
    using h by (auto split: if_splits)
  show ?case
  proof (cases "event_key e \<in> event_key ` set (events s)")
    case True
    then have c: "commit_events b es s = Inr s'" using h m by simp
    show ?thesis
    proof (rule Cons.IH [OF _ c], goal_cases)
      case (1 fs)
      then show ?case using m by (intro Cons.prems(1) [of fs]) auto
    qed
  next
    case False
    then obtain tb where p: "project e (tables s) = Inr tb"
      and c: "commit_events b es (s\<lparr>events := events s @ [e], tables := tb\<rparr>) = Inr s'"
      using h m by (auto split: sum.splits)
    show ?thesis
    proof (rule Cons.IH [OF _ c])
      fix fs
      assume f: "s' = s\<lparr>events := events s @ [e], tables := tb, events := events (s\<lparr>events := events s @ [e], tables := tb\<rparr>) @ fs, tables := tables s'\<rparr>"
        "set fs \<subseteq> set es" "project_all fs (tables (s\<lparr>events := events s @ [e], tables := tb\<rparr>)) = Inr (tables s')"
        "subseq fs es" "distinct (map event_key fs)"
        "event_key ` set fs \<inter> event_key ` set (events (s\<lparr>events := events s @ [e], tables := tb\<rparr>)) = {}"
        "\<forall>e \<in> set es. int (ev_blockNumber e) = b_number b mod 2 ^ 64 \<and> ev_blockHash e = b_hash b"
      show ?thesis
      proof (rule Cons.prems(1) [of "e # fs"])
        show "s' = s\<lparr>events := events s @ e # fs, tables := tables s'\<rparr>" using f(1) by simp
      qed (use f p m False in auto)
    qed
  qed
qed

lemma sorted_subseq: "subseq xs ys \<Longrightarrow> sorted ys \<Longrightarrow> sorted (xs :: 'a :: linorder list)"
  by (induction rule: list_emb.induct) (auto dest: list_emb_set)

lemma place_le: "place e \<le> place f \<Longrightarrow> ev_blockNumber e \<le> ev_blockNumber f"
  by (auto simp: place_def less_eq_prod_def)

text \<open>The events up to a block are the first ones of the table.\<close>

lemma events_upto:
  assumes "sorted (map place es)"
  obtains fs where "es = filter (\<lambda>e. int (ev_blockNumber e) \<le> a) es @ fs"
proof -
  have "\<exists>fs. es = filter (\<lambda>e. int (ev_blockNumber e) \<le> a) es @ fs"
    using assms
  proof (induction es)
    case (Cons e es)
    show ?case
    proof (cases "int (ev_blockNumber e) \<le> a")
      case False
      have "\<not> int (ev_blockNumber f) \<le> a" if "f \<in> set es" for f
        using Cons.prems that False by (force dest: place_le)
      then have "filter (\<lambda>e. int (ev_blockNumber e) \<le> a) (e # es) = []" using False by simp
      then show ?thesis by simp
    qed (use Cons in auto)
  qed simp
  then show thesis using that by blast
qed

lemma prefix_projects:
  assumes "project_all (es @ fs) tb = Inr tb'"
  obtains u where "project_all es tb = Inr u"
  using assms by (auto simp: project_all_append split: sum.splits)

lemma chained_block: "chained s \<Longrightarrow> blocks s n = Some b \<Longrightarrow> st_start s \<le> n \<and> n \<le> st_cursor s \<and> b_number b = n"
  unfolding chained_def by (metis option.distinct(1))

lemma chained_reach: "chained s \<Longrightarrow> st_start s \<le> n \<Longrightarrow> n \<le> st_cursor s \<Longrightarrow> \<exists>b. blocks s n = Some b"
  unfolding chained_def by (metis option.exhaust)

lemma event_number:
  assumes "well_kept s" and "e \<in> set (events s)"
  shows "st_start s \<le> int (ev_blockNumber e) \<and> int (ev_blockNumber e) \<le> st_cursor s"
  using assms chained_block unfolding well_kept_def by blast

lemma chained_add:
  assumes ch: "chained s" and n: "b_number b = st_cursor s + 1" and p: "st_hash s = [] \<or> st_hash s = b_parentHash b"
    and b: "b_hash b \<noteq> []" "b_number b < 2 ^ 63"
    and t: "blocks t = (blocks s)(b_number b \<mapsto> b)" "st_cursor t = b_number b" "st_hash t = b_hash b" "st_start t = st_start s"
  shows "chained t"
proof -
  have st: "st_start s - 1 \<le> st_cursor s" "0 \<le> st_start s" using ch by (simp_all add: chained_def)
  show ?thesis
    unfolding chained_def t
  proof (intro conjI allI impI)
    fix m c
    assume c: "((blocks s)(b_number b \<mapsto> b)) m = Some c"
    show "b_number c = m" "b_hash c \<noteq> []"
      using c b ch unfolding chained_def by (auto split: if_splits)
    assume m: "st_start s < m"
    show "b_parentHash c = b_hash (the (((blocks s)(b_number b \<mapsto> b)) (m - 1)))"
    proof (cases "m = b_number b")
      case True
      then have "st_start s \<le> st_cursor s" using m n by simp
      then obtain o' where "blocks s (st_cursor s) = Some o'" using chained_reach [OF ch] by blast
      then show ?thesis using ch c True n p \<open>st_start s \<le> st_cursor s\<close> unfolding chained_def by auto
    next
      case False
      then have "blocks s m = Some c" using c by simp
      then show ?thesis using ch m chained_block [OF ch \<open>blocks s m = Some c\<close>] n unfolding chained_def by auto
    qed
  next
    fix m
    show "(((blocks s)(b_number b \<mapsto> b)) m \<noteq> None) = (st_start s \<le> m \<and> m \<le> b_number b)"
      using ch n st unfolding chained_def by auto
  qed (use st n b in auto)
qed

lemma places_sorted:
  assumes "sorted (map place es)" and "sorted (map place fs)"
    and "\<And>e f. e \<in> set es \<Longrightarrow> f \<in> set fs \<Longrightarrow> ev_blockNumber e < ev_blockNumber f"
  shows "sorted (map place (es @ fs))"
proof -
  have "place e \<le> place f" if "e \<in> set es" "f \<in> set fs" for e f
    using assms(3) [OF that] by (simp add: place_def less_eq_prod_def)
  then show ?thesis using assms(1,2) by (auto simp: sorted_append)
qed

lemma commit_well_kept:
  assumes s: "well_kept s" and c: "CommitBlock b es s = Inr s'" and es: "sorted (map place es)"
    and b: "b_hash b \<noteq> []" "b_number b < 2 ^ 63"
  shows "well_kept s'"
proof (cases "b_number b \<le> st_cursor s")
  case True
  then show ?thesis using c s by (auto simp: CommitBlock_def split: option.splits if_splits)
next
  case False
  let ?t = "s\<lparr>blocks := (blocks s)(b_number b \<mapsto> b)\<rparr>"
  have ch: "chained s" using s by (simp add: well_kept_def)
  obtain s1 where n: "b_number b = st_cursor s + 1" and p: "st_hash s = [] \<or> st_hash s = b_parentHash b"
    and e: "commit_events b es ?t = Inr s1" and s': "s' = s1\<lparr>st_cursor := b_number b, st_hash := b_hash b\<rparr>"
    using c False by (auto simp: CommitBlock_def split: option.splits if_splits sum.splits)
  obtain fs where s1: "s1 = ?t\<lparr>events := events ?t @ fs, tables := tables s1\<rparr>" and "set fs \<subseteq> set es"
    and pr: "project_all fs (tables ?t) = Inr (tables s1)" and sub: "subseq fs es"
    and dis: "distinct (map event_key fs)" "event_key ` set fs \<inter> event_key ` set (events ?t) = {}"
    and num: "\<forall>e \<in> set es. int (ev_blockNumber e) = b_number b mod 2 ^ 64 \<and> ev_blockHash e = b_hash b"
    by (rule commit_events_effect [OF e])
  have st: "st_start s - 1 \<le> st_cursor s" "0 \<le> st_start s" using ch by (simp_all add: chained_def)
  have nm: "b_number b mod 2 ^ 64 = b_number b" using n st b(2) by simp
  have new: "int (ev_blockNumber e) = b_number b \<and> ev_blockHash e = b_hash b" if "e \<in> set fs" for e
    using num [unfolded nm] that \<open>set fs \<subseteq> set es\<close> by blast
  have v: "blocks s' = (blocks s)(b_number b \<mapsto> b)" "events s' = events s @ fs" "tables s' = tables s1"
    "st_cursor s' = b_number b" "st_hash s' = b_hash b" "st_start s' = st_start s"
    by (subst s', subst s1, simp)+
  have none: "blocks s (b_number b) = None" using chained_block [OF ch, of "b_number b"] n by (cases "blocks s (b_number b)") auto
  have "chained s'" using chained_add [OF ch n p b] v by blast
  moreover have "sorted (map place (events s @ fs))"
  proof (rule places_sorted)
    show "sorted (map place (events s))" using s by (simp add: well_kept_def)
    show "sorted (map place fs)" by (rule sorted_subseq [OF subseq_map [OF sub] es])
    show "ev_blockNumber e < ev_blockNumber f" if "e \<in> set (events s)" "f \<in> set fs" for e f
      using event_number [OF s that(1)] new [OF that(2)] n by linarith
  qed
  moreover have "project_all (events s @ fs) no_tables = Inr (tables s1)"
    using s pr by (simp add: well_kept_def project_all_append)
  moreover have "\<exists>c. ((blocks s)(b_number b \<mapsto> b)) (int (ev_blockNumber e)) = Some c \<and> ev_blockHash e = b_hash c"
    if "e \<in> set (events s @ fs)" for e
  proof (cases "e \<in> set fs")
    case False
    then obtain c where c: "blocks s (int (ev_blockNumber e)) = Some c" "ev_blockHash e = b_hash c"
      using s \<open>e \<in> set (events s @ fs)\<close> by (auto simp: well_kept_def)
    then have "int (ev_blockNumber e) \<noteq> b_number b" using none by auto
    then show ?thesis using c by simp
  qed (use new in simp)
  ultimately show ?thesis
    using s dis by (auto simp: well_kept_def v)
qed

section \<open>Rewinding keeps the rest\<close>

text \<open>A store cut off after block \<open>a\<close>.\<close>

definition cut_off :: "int \<Rightarrow> store \<Rightarrow> store \<Rightarrow> bool" where
  "cut_off a s t \<longleftrightarrow>
     st_start t = st_start s \<and> st_cursor t = a \<and>
     events t = filter (\<lambda>e. int (ev_blockNumber e) \<le> a) (events s) \<and>
     blocks t = (\<lambda>n. if a < n then None else blocks s n)"

lemma Rewind_cut:
  assumes s: "well_kept s" and a: "st_start s - 1 \<le> a" "a \<le> st_cursor s"
  obtains t where "Rewind a s = Inr t" and "cut_off a s t" and "well_kept t"
proof -
  let ?es = "filter (\<lambda>e. int (ev_blockNumber e) \<le> a) (events s)"
  let ?bs = "\<lambda>n. if a < n then None else blocks s n"
  have ch: "chained s" and so: "sorted (map place (events s))"
    and pr: "project_all (events s) no_tables = Inr (tables s)"
    using s by (simp_all add: well_kept_def)
  obtain fs where f: "events s = ?es @ fs" using events_upto [OF so] by blast
  obtain tb where tb: "project_all ?es no_tables = Inr tb" using pr f by (metis prefix_projects)
  have sk: "sort_key place ?es = ?es" by (rule sort_key_id_if_sorted) (use so f in \<open>metis map_append sorted_append\<close>)
  define h where "h = (if st_start s \<le> a then b_hash (the (blocks s a)) else [])"
  define t where "t = s\<lparr>events := ?es, blocks := ?bs, tables := tb, st_cursor := a, st_hash := h\<rparr>"
  have h: "(if st_start s \<le> a then map_option b_hash (?bs a) else Some []) = Some h"
    using chained_reach [OF ch, of a] a by (auto simp: h_def)
  have "Rewind a s = Inr t"
    by (simp add: Rewind_def sk tb h t_def)
  moreover have "cut_off a s t" by (simp add: cut_off_def t_def)
  moreover have "well_kept t"
    unfolding well_kept_def
  proof (intro conjI)
    show "chained t"
      using ch a unfolding chained_def by (auto simp: t_def h_def)
    show "sorted (map place (events t))" using so f by (simp add: t_def) (metis map_append sorted_append)
    have "distinct (map event_key (events s))" using s by (simp add: well_kept_def)
    then show "distinct (map event_key (events t))" by (simp add: t_def distinct_map_filter)
    show "\<forall>e \<in> set (events t). \<exists>b. blocks t (int (ev_blockNumber e)) = Some b \<and> ev_blockHash e = b_hash b"
      using s by (auto simp: t_def well_kept_def)
    show "project_all (events t) no_tables = Inr (tables t)" using tb by (simp add: t_def)
  qed
  ultimately show thesis using that by blast
qed

text \<open>A consistent store is determined by its blocks and events.\<close>

lemma well_kept_determined:
  assumes "well_kept s" and "well_kept t" and "st_start t = st_start s" and "st_cursor t = st_cursor s"
    and "blocks t = blocks s" and "events t = events s"
  shows "t = s"
proof -
  have "tables t = tables s" using assms by (auto simp: well_kept_def)
  moreover have "st_hash t = st_hash s" using assms by (auto simp: well_kept_def chained_def)
  ultimately show ?thesis using assms(3-6) by simp
qed

text \<open>Committing any number of blocks.\<close>

fun commit_all :: "(Block \<times> Event list) list \<Rightarrow> store \<Rightarrow> store stored" where
  "commit_all [] s = Inr s"
| "commit_all ((b, es) # bs) s = (case CommitBlock b es s of Inl x \<Rightarrow> Inl x | Inr t \<Rightarrow> commit_all bs t)"

definition presented :: "Block \<times> Event list \<Rightarrow> bool" where
  "presented x \<longleftrightarrow> sorted (map place (snd x)) \<and> b_hash (fst x) \<noteq> [] \<and> b_number (fst x) < 2 ^ 63"

text \<open>What lies below a block stays.\<close>

definition extends :: "store \<Rightarrow> store \<Rightarrow> bool" where
  "extends s t \<longleftrightarrow>
     st_start t = st_start s \<and> st_cursor s \<le> st_cursor t \<and> (\<forall>n \<le> st_cursor s. blocks t n = blocks s n) \<and>
     (\<exists>fs. events t = events s @ fs \<and> (\<forall>e \<in> set fs. st_cursor s < int (ev_blockNumber e)))"

lemma extends_refl: "extends s s"
  by (simp add: extends_def)

lemma extends_trans: "extends s t \<Longrightarrow> extends t u \<Longrightarrow> extends s u"
  unfolding extends_def by fastforce

lemma commit_extends:
  assumes s: "well_kept s" and c: "CommitBlock b es s = Inr t" and b: "b_number b < 2 ^ 63"
  shows "extends s t"
proof (cases "b_number b \<le> st_cursor s")
  case True
  then show ?thesis using c by (auto simp: CommitBlock_def extends_refl split: option.splits if_splits)
next
  case False
  let ?t = "s\<lparr>blocks := (blocks s)(b_number b \<mapsto> b)\<rparr>"
  obtain s1 where n: "b_number b = st_cursor s + 1" and e: "commit_events b es ?t = Inr s1"
    and t: "t = s1\<lparr>st_cursor := b_number b, st_hash := b_hash b\<rparr>"
    using c False by (auto simp: CommitBlock_def split: option.splits if_splits sum.splits)
  obtain fs where s1: "s1 = ?t\<lparr>events := events ?t @ fs, tables := tables s1\<rparr>" and "set fs \<subseteq> set es"
    and num: "\<forall>e \<in> set es. int (ev_blockNumber e) = b_number b mod 2 ^ 64 \<and> ev_blockHash e = b_hash b"
    by (rule commit_events_effect [OF e])
  have "0 \<le> b_number b" using s n by (auto simp: well_kept_def chained_def)
  then have "b_number b mod 2 ^ 64 = b_number b" using b by simp
  then have "\<forall>e \<in> set fs. st_cursor s < int (ev_blockNumber e)" using num \<open>set fs \<subseteq> set es\<close> n by auto
  moreover have "blocks t = (blocks s)(b_number b \<mapsto> b)" "events t = events s @ fs" "st_cursor t = b_number b"
    "st_start t = st_start s"
    by (subst t, subst s1, simp)+
  ultimately show ?thesis using n by (auto simp: extends_def)
qed

lemma commit_all_extends:
  "well_kept s \<Longrightarrow> commit_all bs s = Inr t \<Longrightarrow> list_all presented bs \<Longrightarrow> extends s t \<and> well_kept t"
proof (induction bs s rule: commit_all.induct)
  case (2 b es bs s)
  obtain u where c: "CommitBlock b es s = Inr u" and r: "commit_all bs u = Inr t"
    using 2(3) by (auto split: sum.splits)
  have "well_kept u" "extends s u"
    using commit_well_kept [OF 2(2) c] commit_extends [OF 2(2) c] 2(4) by (simp_all add: presented_def)
  then show ?case using 2(1) [OF c _ r] 2(4) extends_trans by fastforce
qed (simp add: extends_refl)

text \<open>C25: Rewinding undoes committing: whatever blocks were committed on a store, rewinding to the block it ended
  with rebuilds exactly the store as it was, its rounds, tickets and claims included.\<close>

theorem rewind_restores:
  assumes "well_kept s" and "list_all presented bs" and "commit_all bs s = Inr t"
  shows "Rewind (st_cursor s) t = Inr s"
proof -
  have e: "extends s t" and t: "well_kept t" using commit_all_extends [OF assms(1,3,2)] by auto
  have a: "st_start t - 1 \<le> st_cursor s" "st_cursor s \<le> st_cursor t"
    using e assms(1) by (auto simp: extends_def well_kept_def chained_def)
  obtain u where r: "Rewind (st_cursor s) t = Inr u" and c: "cut_off (st_cursor s) t u" and u: "well_kept u"
    using Rewind_cut [OF t a] .
  obtain fs where "events t = events s @ fs" and "\<forall>e \<in> set fs. st_cursor s < int (ev_blockNumber e)"
    using e by (auto simp: extends_def)
  then have "events u = events s"
    using c event_number [OF assms(1)] by (auto simp: cut_off_def filter_id_conv filter_empty_conv)
  moreover have "blocks u = blocks s"
  proof
    fix n
    have "blocks s n = None" if "st_cursor s < n"
      using that assms(1) chained_block by (cases "blocks s n") (force simp: well_kept_def)+
    then show "blocks u n = blocks s n" using c e by (auto simp: cut_off_def extends_def)
  qed
  moreover have "st_start u = st_start s" "st_cursor u = st_cursor s" using c e by (auto simp: cut_off_def extends_def)
  ultimately have "u = s" using well_kept_determined [OF assms(1) u] by simp
  then show ?thesis using r by simp
qed

end
