(* ===== verification/Indexer.thy ===== *)
theory Indexer
  imports Store
begin

text \<open>
  \<^verbatim>\<open>backend/internal/indexer/indexer.go\<close>: one pass of the indexer follows the chain of a node into the
  store. The node answers every request from a view of its own: it may fail, move on or reorganise
  between any two of them.
\<close>

section \<open>The node and the state\<close>

record block_header =
  h_hash :: string
  h_parent :: string
  h_time :: nat

text \<open>What the node would answer at one moment; \<^const>\<open>None\<close> is a request that fails.\<close>

record chain_view =
  v_head :: "nat option"
  v_header :: "int \<Rightarrow> block_header option"
  v_logs :: "string \<Rightarrow> chain_log list option"

record sync_state =
  ix_observedHead :: int
  ix_safeHead :: int
  ix_indexedBlock :: int
  ix_recovering :: bool
  ix_synced :: bool
  ix_lastSuccess :: "nat option"
  ix_failures :: nat
  ix_reorgs :: nat

definition initial_sync :: sync_state where
  "initial_sync =
     \<lparr>ix_observedHead = 0, ix_safeHead = 0, ix_indexedBlock = 0, ix_recovering = False, ix_synced = False,
      ix_lastSuccess = None, ix_failures = 0, ix_reorgs = 0\<rparr>"

record indexer =
  ix_address :: string
  ix_confirmations :: nat

datatype sync_error =
    Lock_lost
  | Rpc_failed
  | Store_failed store_error
  | Parent_changed
  | Noncanonical_log
  | Undecodable_log
  | Block_changed

section \<open>The last common block\<close>

function find_ancestor :: "(nat \<Rightarrow> chain_view) \<Rightarrow> nat \<Rightarrow> store \<Rightarrow> int \<Rightarrow> sync_error + int \<times> nat" where
  "find_ancestor V k s a =
     (if a < st_start s then Inr (a, k)
      else case v_header (V k) a of
          None \<Rightarrow> Inl Rpc_failed
        | Some h \<Rightarrow>
            (case blocks s a of
               None \<Rightarrow> Inl (Store_failed No_rows)
             | Some b \<Rightarrow> if h_hash h = b_hash b then Inr (a, Suc k) else find_ancestor V (Suc k) s (a - 1)))"
  by pat_completeness auto
termination
  by (relation "measure (\<lambda>(V, k, s, a). nat (a + 1 - st_start s))") auto

declare find_ancestor.simps [simp del]

section \<open>Following the chain\<close>

text \<open>The logs of the block, in order; one that belongs elsewhere or is no event of the contract is an error.\<close>

definition log_place :: "chain_log \<Rightarrow> nat \<times> nat" where
  "log_place l = (log_txIndex l, log_index l)"

fun decode_logs ::
  "indexer \<Rightarrow> (addr \<Rightarrow> string) \<Rightarrow> block_header \<Rightarrow> int \<Rightarrow> chain_log list \<Rightarrow> sync_error + Event list" where
  "decode_logs ix sa h n [] = Inr []"
| "decode_logs ix sa h n (l # ls) =
     (if log_removed l \<or> log_emitter l \<noteq> ix_address ix \<or> log_blockHash l \<noteq> h_hash h \<or>
         int (log_blockNumber l) \<noteq> n mod 2 ^ 64
      then Inl Noncanonical_log
      else case Decode sa l (h_time h) of
          None \<Rightarrow> Inl Undecodable_log
        | Some e \<Rightarrow> (case decode_logs ix sa h n ls of Inl x \<Rightarrow> Inl x | Inr es \<Rightarrow> Inr (e # es)))"

text \<open>At most \<open>f\<close> more blocks; \<open>c\<close> and \<open>hash\<close> are the variables \<^verbatim>\<open>cursor\<close> and \<^verbatim>\<open>hash\<close>.\<close>

fun scan ::
  "indexer \<Rightarrow> (addr \<Rightarrow> string) \<Rightarrow> (nat \<Rightarrow> chain_view) \<Rightarrow> int \<Rightarrow> nat \<Rightarrow> nat \<Rightarrow> int \<Rightarrow> string \<Rightarrow> store \<Rightarrow> sync_state
     \<Rightarrow> int \<times> store \<times> sync_state \<times> sync_error option" where
  "scan ix sa V safe 0 k c hash s st = (c, s, st, None)"
| "scan ix sa V safe (Suc f) k c hash s st =
     (if \<not> c < safe then (c, s, st, None)
      else case v_header (V k) (c + 1) of
          None \<Rightarrow> (c, s, st, Some Rpc_failed)
        | Some h \<Rightarrow>
            if hash \<noteq> [] \<and> h_parent h \<noteq> hash then (c, s, st, Some Parent_changed)
            else (case v_logs (V (k + 1)) (h_hash h) of
                None \<Rightarrow> (c, s, st, Some Rpc_failed)
              | Some logs \<Rightarrow>
                  (case decode_logs ix sa h (c + 1) (sort_key log_place logs) of
                     Inl x \<Rightarrow> (c, s, st, Some x)
                   | Inr es \<Rightarrow>
                       (case v_header (V (k + 2)) (c + 1) of
                          None \<Rightarrow> (c, s, st, Some Rpc_failed)
                        | Some h' \<Rightarrow>
                            if h_hash h' \<noteq> h_hash h then (c, s, st, Some Block_changed)
                            else (case CommitBlock
                                \<lparr>b_number = c + 1, b_hash = h_hash h, b_parentHash = h_parent h, b_timestamp = h_time h\<rparr>
                                es s of
                                Inl x \<Rightarrow> (c, s, st, Some (Store_failed x))
                              | Inr s' \<Rightarrow>
                                  scan ix sa V safe f (k + 3) (c + 1) (h_hash h) s' (st\<lparr>ix_indexedBlock := c + 1\<rparr>))))))"

section \<open>One pass\<close>

definition follow ::
  "indexer \<Rightarrow> (addr \<Rightarrow> string) \<Rightarrow> (nat \<Rightarrow> chain_view) \<Rightarrow> nat \<Rightarrow> int \<Rightarrow> nat \<Rightarrow> store \<Rightarrow> sync_state
     \<Rightarrow> store \<times> sync_state \<times> sync_error option" where
  "follow ix sa V now safe k s st =
     (case scan ix sa V safe 100 k (st_cursor s) (st_hash s) s (st\<lparr>ix_recovering := False\<rparr>) of
        (c, s', st', None) \<Rightarrow>
          (s', st'\<lparr>ix_indexedBlock := c, ix_synced := safe \<le> c, ix_lastSuccess := Some now\<rparr>, None)
      | (c, s', st', Some x) \<Rightarrow> (s', st', Some x))"

definition Sync ::
  "indexer \<Rightarrow> (addr \<Rightarrow> string) \<Rightarrow> bool \<Rightarrow> (nat \<Rightarrow> chain_view) \<Rightarrow> nat \<Rightarrow> store \<Rightarrow> sync_state
     \<Rightarrow> store \<times> sync_state \<times> sync_error option" where
  "Sync ix sa locked V now s st =
     (if \<not> locked then (s, st, Some Lock_lost)
      else case v_head (V 0) of
          None \<Rightarrow> (s, st, Some Rpc_failed)
        | Some head \<Rightarrow>
            let hd = int64 (int head); safe = int64 (hd - int64 (int (ix_confirmations ix)));
                st1 = st\<lparr>ix_observedHead := hd, ix_safeHead := safe, ix_synced := False\<rparr> in
            if st_cursor s < st_start s then follow ix sa V now safe 1 s st1
            else (case find_ancestor V 1 s (min (st_cursor s) hd) of
                Inl x \<Rightarrow> (s, st1, Some x)
              | Inr (a, k) \<Rightarrow>
                  if max a (st_start s - 1) < st_cursor s
                  then let st2 = st1\<lparr>ix_recovering := True, ix_reorgs := Suc (ix_reorgs st1)\<rparr> in
                    (case Rewind (max a (st_start s - 1)) s of
                       Inl x \<Rightarrow> (s, st2, Some (Store_failed x))
                     | Inr s' \<Rightarrow> follow ix sa V now safe k s' st2)
                  else follow ix sa V now safe k s st1))"

text \<open>\<^verbatim>\<open>Run\<close>: a pass that fails is counted, and the next one starts from the durable state.\<close>

definition Run_once ::
  "indexer \<Rightarrow> (addr \<Rightarrow> string) \<Rightarrow> bool \<Rightarrow> (nat \<Rightarrow> chain_view) \<Rightarrow> nat \<Rightarrow> store \<times> sync_state \<Rightarrow> store \<times> sync_state" where
  "Run_once ix sa locked V now x =
     (case Sync ix sa locked V now (fst x) (snd x) of
        (s, st, None) \<Rightarrow> (s, st)
      | (s, st, Some e) \<Rightarrow> (s, st\<lparr>ix_failures := Suc (ix_failures st), ix_synced := False\<rparr>))"

section \<open>The store stays well_kept\<close>

text \<open>A block's hash is never the empty text.\<close>

definition hashed :: "(nat \<Rightarrow> chain_view) \<Rightarrow> bool" where
  "hashed V \<longleftrightarrow> (\<forall>k n h. v_header (V k) n = Some h \<longrightarrow> h_hash h \<noteq> [])"

lemma decode_logs_events:
  "decode_logs ix sa h n ls = Inr es \<Longrightarrow>
     list_all2 (\<lambda>l e. Decode sa l (h_time h) = Some e \<and> log_blockHash l = h_hash h \<and> log_emitter l = ix_address ix \<and>
       int (log_blockNumber l) = n mod 2 ^ 64) ls es"
  by (induction ls arbitrary: es) (auto split: if_splits option.splits sum.splits)

lemma Decode_place: "Decode sa l tm = Some e \<Longrightarrow> place e = (log_blockNumber l, log_place l) \<and>
    ev_blockHash e = log_blockHash l \<and> ev_blockNumber e = log_blockNumber l \<and> ev_timestamp e = tm \<and>
    event_key e = (log_blockHash l, log_txHash l, log_index l)"
  by (auto simp: Decode_def place_def log_place_def event_key_def split: option.splits)

lemma decoded_sorted:
  assumes "decode_logs ix sa h n ls = Inr es" and "sorted (map log_place ls)"
  shows "sorted (map place es)"
  using decode_logs_events [OF assms(1)] assms(2)
proof (induction rule: list_all2_induct)
  case (Cons l ls e es)
  have "place e \<le> place f" if f: "f \<in> set es" for f
  proof -
    obtain m where m: "m \<in> set ls" and d: "Decode sa m (h_time h) = Some f" "int (log_blockNumber m) = n mod 2 ^ 64"
      using Cons.hyps(2) f by (auto simp: list_all2_conv_all_nth in_set_conv_nth) metis
    have "log_place l \<le> log_place m" using Cons.prems m by simp
    moreover have "log_blockNumber l = log_blockNumber m" using Cons.hyps(1) d(2) by linarith
    ultimately show ?thesis
      using Decode_place [OF d(1)] Decode_place [of sa l "h_time h" e] Cons.hyps(1) by (simp add: less_eq_prod_def)
  qed
  then show ?case using Cons by simp
qed simp

text \<open>A turn of the loop stops, or commits the next block and goes on.\<close>

definition block_at :: "int \<Rightarrow> block_header \<Rightarrow> Block" where
  "block_at n h = \<lparr>b_number = n, b_hash = h_hash h, b_parentHash = h_parent h, b_timestamp = h_time h\<rparr>"

lemma scan_cases:
  assumes "scan ix sa V safe (Suc f) k c hash s st = (c', s', st', x)"
  obtains (stop) "c' = c" "s' = s" "st' = st" "x = None \<Longrightarrow> safe \<le> c"
  | (turn) h logs es s1 where "c < safe" "v_header (V k) (c + 1) = Some h" "hash = [] \<or> h_parent h = hash"
      "v_logs (V (k + 1)) (h_hash h) = Some logs"
      "decode_logs ix sa h (c + 1) (sort_key log_place logs) = Inr es"
      "CommitBlock (block_at (c + 1) h) es s = Inr s1"
      "scan ix sa V safe f (k + 3) (c + 1) (h_hash h) s1 (st\<lparr>ix_indexedBlock := c + 1\<rparr>) = (c', s', st', x)"
  using assms
  by (auto simp: block_at_def split: if_splits option.splits sum.splits)

lemma committed_cursor:
  assumes "CommitBlock b es s = Inr s'" and "b_number b = st_cursor s + 1"
  shows "st_cursor s' = b_number b \<and> st_hash s' = b_hash b \<and> st_start s' = st_start s"
proof -
  obtain s1 where e: "commit_events b es (s\<lparr>blocks := (blocks s)(b_number b \<mapsto> b)\<rparr>) = Inr s1"
    and s': "s' = s1\<lparr>st_cursor := b_number b, st_hash := b_hash b\<rparr>"
    using assms by (auto simp: CommitBlock_def split: option.splits if_splits sum.splits)
  obtain fs where f: "s1 = s\<lparr>blocks := (blocks s)(b_number b \<mapsto> b)\<rparr>\<lparr>events := events (s\<lparr>blocks := (blocks s)(b_number b \<mapsto> b)\<rparr>) @ fs,
      tables := tables s1\<rparr>"
    by (rule commit_events_effect [OF e])
  have "st_start s1 = st_start s" by (subst f) simp
  then show ?thesis by (simp add: s')
qed

text \<open>
  A condition on the store that a committed block and a rewind keep is kept by every pass, whatever the
  node answers. \<open>D\<close> is what is known of the headers and logs it returns.
\<close>

locale indexed =
  fixes ix :: indexer and sa :: "addr \<Rightarrow> string" and V :: "nat \<Rightarrow> chain_view" and I :: "store \<Rightarrow> bool"
  assumes block_keeps: "\<And>s n h h' logs es s'. I s \<Longrightarrow> n < 2 ^ 63 \<Longrightarrow> n = st_cursor s + 1 \<Longrightarrow>
      (\<exists>k. v_header (V k) n = Some h) \<Longrightarrow> (\<exists>k. v_logs (V k) (h_hash h) = Some logs) \<Longrightarrow>
      decode_logs ix sa h n (sort_key log_place logs) = Inr es \<Longrightarrow>
      CommitBlock (block_at n h) es s = Inr s' \<Longrightarrow> I s'"
    and rewind_keeps: "\<And>s a s'. I s \<Longrightarrow> st_start s - 1 \<le> a \<Longrightarrow> a < st_cursor s \<Longrightarrow> Rewind a s = Inr s' \<Longrightarrow> I s'"
begin

lemma scan_keeps:
  assumes "scan ix sa V safe f k c hash s st = (c', s', st', x)" and "I s" and "c = st_cursor s"
    and "hash = st_hash s" and "safe < 2 ^ 63"
  shows "I s' \<and> c' = st_cursor s'"
  using assms(1-4)
proof (induction f arbitrary: k c hash s st)
  case (Suc f)
  from Suc.prems(1) show ?case
  proof (cases rule: scan_cases)
    case (turn h logs es s1)
    have n: "b_number (block_at (c + 1) h) = st_cursor s + 1" by (simp add: block_at_def Suc.prems(3))
    note C = committed_cursor [OF turn(6) n]
    have "I s1"
      by (rule block_keeps [OF Suc.prems(2) _ _ _ _ turn(5,6)]) (use turn Suc.prems assms(5) in auto)
    then show ?thesis
      by (intro Suc.IH [OF turn(7)]) (use C in \<open>simp_all add: block_at_def\<close>)
  qed (use Suc.prems in simp)
qed simp

lemma follow_keeps:
  assumes "follow ix sa V now safe k s st = (s', st', x)" and "I s" and "safe < 2 ^ 63"
  shows "I s'"
proof -
  obtain c s1 st1 y where r: "scan ix sa V safe 100 k (st_cursor s) (st_hash s) s (st\<lparr>ix_recovering := False\<rparr>) = (c, s1, st1, y)"
    by (metis prod_cases4)
  have "I s1" using scan_keeps [OF r assms(2) refl refl assms(3)] by simp
  then show ?thesis using assms(1) r by (auto simp: follow_def split: option.splits)
qed

lemma Sync_keeps:
  assumes "Sync ix sa locked V now s st = (s', st', x)" and "I s"
  shows "I s'"
proof -
  have small: "int64 n < 2 ^ 63" for n :: int
  proof -
    have "(n + 2 ^ 63) mod 2 ^ 64 < 2 ^ 64" by simp
    then show ?thesis by (simp add: int64_def)
  qed
  note F = follow_keeps [OF _ _ small]
  have r: "I u" if "Rewind (max a (st_start s - 1)) s = Inr u" "max a (st_start s - 1) < st_cursor s" for a u
    using rewind_keeps [OF assms(2) _ that(2,1)] by simp
  show ?thesis
    using assms
    by (auto simp: Sync_def Let_def split: if_splits option.splits sum.splits dest: F dest!: r)
qed

end

text \<open>The store stays consistent whatever the node answers.\<close>

interpretation durable: indexed ix sa V "\<lambda>s. hashed V \<longrightarrow> well_kept s" for ix sa V
proof unfold_locales
  fix s n h h' logs es s'
  assume I: "hashed V \<longrightarrow> well_kept s" and n: "n < 2 ^ 63" and h: "\<exists>k. v_header (V k) n = Some h"
    and d: "decode_logs ix sa h n (sort_key log_place logs) = Inr es"
    and c: "CommitBlock (block_at n h) es s = Inr s'"
  show "hashed V \<longrightarrow> well_kept s'"
  proof
    assume "hashed V"
    then have "h_hash h \<noteq> []" "well_kept s" using h I by (auto simp: hashed_def)
    then show "well_kept s'"
      by (intro commit_well_kept [OF _ c decoded_sorted [OF d]]) (use n in \<open>simp_all add: block_at_def\<close>)
  qed
next
  fix s a s'
  assume "hashed V \<longrightarrow> well_kept s" "st_start s - 1 \<le> a" "a < st_cursor s" "Rewind a s = Inr s'"
  then show "hashed V \<longrightarrow> well_kept s'" using Rewind_cut [of s a] by auto
qed

section \<open>Following one chain\<close>

text \<open>
  The blocks that exist, by hash: a hash identifies a block with its parent and its logs. A node is honest
  if what it answers, however often it changes its mind about the chain, is about such blocks.
\<close>

record chain_block =
  cb_number :: int
  cb_parent :: string
  cb_time :: nat
  cb_logs :: "chain_log list"

definition honest :: "(string \<rightharpoonup> chain_block) \<Rightarrow> (nat \<Rightarrow> chain_view) \<Rightarrow> bool" where
  "honest B V \<longleftrightarrow>
     (\<forall>k n h. v_header (V k) n = Some h \<longrightarrow> h_hash h \<noteq> [] \<and>
        (\<exists>c. B (h_hash h) = Some c \<and> cb_number c = n \<and> cb_parent c = h_parent h \<and> cb_time c = h_time h)) \<and>
     (\<forall>k x ls c. v_logs (V k) x = Some ls \<longrightarrow> B x = Some c \<longrightarrow> ls = cb_logs c) \<and>
     (\<forall>x c. B x = Some c \<longrightarrow> distinct (map (\<lambda>l. (log_txHash l, log_index l)) (cb_logs c)))"

definition header_of :: "string \<Rightarrow> chain_block \<Rightarrow> block_header" where
  "header_of x c = \<lparr>h_hash = x, h_parent = cb_parent c, h_time = cb_time c\<rparr>"

definition block_events :: "indexer \<Rightarrow> (addr \<Rightarrow> string) \<Rightarrow> string \<Rightarrow> chain_block \<Rightarrow> sync_error + Event list" where
  "block_events ix sa x c = decode_logs ix sa (header_of x c) (cb_number c) (sort_key log_place (cb_logs c))"

text \<open>The events of the last \<open>m\<close> blocks of the chain that ends with the block \<open>x\<close>.\<close>

fun lineage :: "indexer \<Rightarrow> (addr \<Rightarrow> string) \<Rightarrow> (string \<rightharpoonup> chain_block) \<Rightarrow> nat \<Rightarrow> string \<Rightarrow> Event list" where
  "lineage ix sa B 0 x = []"
| "lineage ix sa B (Suc m) x =
     (case B x of
        None \<Rightarrow> []
      | Some c \<Rightarrow> lineage ix sa B m (cb_parent c) @ (case block_events ix sa x c of Inl e \<Rightarrow> [] | Inr es \<Rightarrow> es))"

definition at_block :: "int \<Rightarrow> Event list \<Rightarrow> Event list" where
  "at_block n es = filter (\<lambda>e. int (ev_blockNumber e) = n) es"

definition grounded :: "indexer \<Rightarrow> (addr \<Rightarrow> string) \<Rightarrow> (string \<rightharpoonup> chain_block) \<Rightarrow> store \<Rightarrow> bool" where
  "grounded ix sa B s \<longleftrightarrow>
     well_kept s \<and>
     (\<forall>n b. blocks s n = Some b \<longrightarrow>
        (\<exists>c. B (b_hash b) = Some c \<and> cb_number c = n \<and> cb_parent c = b_parentHash b \<and> cb_time c = b_timestamp b \<and>
             block_events ix sa (b_hash b) c = Inr (at_block n (events s))))"

lemma commit_events_all:
  assumes "commit_events b es s = Inr s'" and "distinct (map event_key es)"
    and "event_key ` set es \<inter> event_key ` set (events s) = {}"
  shows "events s' = events s @ es"
  using assms
proof (induction es arbitrary: s)
  case (Cons e es)
  then obtain tb where "commit_events b es (s\<lparr>events := events s @ [e], tables := tb\<rparr>) = Inr s'"
    by (auto split: if_splits sum.splits)
  from Cons.IH [OF this] show ?case using Cons.prems by auto
qed simp

lemma committed_blocks:
  assumes "CommitBlock b es s = Inr s'" and "b_number b = st_cursor s + 1"
  shows "blocks s' = (blocks s)(b_number b \<mapsto> b)"
    and "distinct (map event_key es) \<Longrightarrow> event_key ` set es \<inter> event_key ` set (events s) = {} \<Longrightarrow>
      events s' = events s @ es"
proof -
  let ?t = "s\<lparr>blocks := (blocks s)(b_number b \<mapsto> b)\<rparr>"
  obtain s1 where e: "commit_events b es ?t = Inr s1"
    and s': "s' = s1\<lparr>st_cursor := b_number b, st_hash := b_hash b\<rparr>"
    using assms by (auto simp: CommitBlock_def split: option.splits if_splits sum.splits)
  obtain fs where f: "s1 = ?t\<lparr>events := events ?t @ fs, tables := tables s1\<rparr>"
    by (rule commit_events_effect [OF e])
  show "blocks s' = (blocks s)(b_number b \<mapsto> b)" unfolding s' by (subst f) simp
  show "distinct (map event_key es) \<Longrightarrow> event_key ` set es \<inter> event_key ` set (events s) = {} \<Longrightarrow>
      events s' = events s @ es"
    using commit_events_all [OF e] by (simp add: s')
qed

lemma decoded_keys:
  assumes "decode_logs ix sa h n ls = Inr es" and "distinct (map (\<lambda>l. (log_txHash l, log_index l)) ls)"
  shows "distinct (map event_key es)" and "\<forall>e \<in> set es. ev_blockHash e = h_hash h \<and> int (ev_blockNumber e) = n mod 2 ^ 64"
proof -
  note D = decode_logs_events [OF assms(1)]
  show "distinct (map event_key es)"
    using D assms(2)
  proof (induction rule: list_all2_induct)
    case (Cons l ls e es)
    have "event_key f \<noteq> event_key e" if f: "f \<in> set es" for f
    proof -
      obtain m where m: "m \<in> set ls" "Decode sa m (h_time h) = Some f"
        using Cons.hyps(2) f by (auto simp: list_all2_conv_all_nth in_set_conv_nth) metis
      have "(log_txHash m, log_index m) \<in> (\<lambda>l. (log_txHash l, log_index l)) ` set ls"
        using m(1) by (rule rev_image_eqI) simp
      moreover have "(log_txHash l, log_index l) \<notin> (\<lambda>l. (log_txHash l, log_index l)) ` set ls"
        using Cons.prems by simp
      ultimately have "(log_txHash m, log_index m) \<noteq> (log_txHash l, log_index l)" by metis
      then show ?thesis using Decode_place [OF m(2)] Decode_place [of sa l "h_time h" e] Cons.hyps(1) by auto
    qed
    then have "event_key e \<notin> event_key ` set es" by (metis imageE)
    then show ?case using Cons by simp
  qed simp
  show "\<forall>e \<in> set es. ev_blockHash e = h_hash h \<and> int (ev_blockNumber e) = n mod 2 ^ 64"
    using D by (induction rule: list_all2_induct) (auto dest: Decode_place)
qed

lemma at_block_append [simp]: "at_block n (es @ fs) = at_block n es @ at_block n fs"
  by (simp add: at_block_def)

lemma at_block_none: "\<forall>e \<in> set es. int (ev_blockNumber e) \<noteq> n \<Longrightarrow> at_block n es = []"
  and at_block_all: "\<forall>e \<in> set es. int (ev_blockNumber e) = n \<Longrightarrow> at_block n es = es"
  by (simp_all add: at_block_def filter_empty_conv filter_id_conv)

text \<open>Committing a block of the chain adds exactly its events, and rewinding cuts off whole blocks.\<close>

lemma grounded_hash:
  assumes g: "grounded ix sa B s" and c: "B x = Some c" "st_cursor s < cb_number c" and b: "blocks s m = Some b"
  shows "b_hash b \<noteq> x"
proof -
  have "m \<le> st_cursor s" using g b chained_block by (simp add: grounded_def well_kept_def)
  moreover obtain c' where "B (b_hash b) = Some c'" "cb_number c' = m" using g b unfolding grounded_def by blast
  ultimately show ?thesis using c by (metis linorder_not_le option.inject)
qed

lemma grounded_commit:
  assumes g: "grounded ix sa B s" and n: "n < 2 ^ 63" "n = st_cursor s + 1"
    and cb: "h_hash h \<noteq> []" "B (h_hash h) = Some cb" "cb_number cb = n" "cb_parent cb = h_parent h" "cb_time cb = h_time h"
    and d: "decode_logs ix sa h n (sort_key log_place (cb_logs cb)) = Inr es"
    and dl: "distinct (map (\<lambda>l. (log_txHash l, log_index l)) (cb_logs cb))"
    and c: "CommitBlock (block_at n h) es s = Inr s'"
  shows "grounded ix sa B s'"
proof -
  have s: "well_kept s" using g by (simp add: grounded_def)
  have "distinct (map (\<lambda>l. (log_txHash l, log_index l)) (sort_key log_place (cb_logs cb)))"
    using dl by (metis distinct_map distinct_sort set_sort)
  note K = decoded_keys [OF d this]
  have "header_of (h_hash h) cb = h" using cb by (cases h) (simp add: header_of_def)
  then have be: "block_events ix sa (h_hash h) cb = Inr es" using d cb by (simp add: block_events_def)
  have "0 \<le> n" using s n by (simp add: well_kept_def chained_def)
  then have nm: "\<forall>e \<in> set es. int (ev_blockNumber e) = n" using K(2) n(1) by simp
  have "ev_blockHash f \<noteq> h_hash h" if f: "f \<in> set (events s)" for f
  proof -
    obtain b where "blocks s (int (ev_blockNumber f)) = Some b" "ev_blockHash f = b_hash b"
      using s f by (auto simp: well_kept_def)
    then show ?thesis using grounded_hash [OF g cb(2)] cb(3) n(2) by simp
  qed
  then have dis: "event_key ` set es \<inter> event_key ` set (events s) = {}"
    using K(2) by (fastforce simp: event_key_def)
  have B: "blocks s' = (blocks s)(n \<mapsto> block_at n h)" and E: "events s' = events s @ es"
    using committed_blocks [OF c] n(2) K(1) dis by (simp_all add: block_at_def)
  have cs: "well_kept s'"
    by (rule commit_well_kept [OF s c decoded_sorted [OF d]]) (use n cb(1) in \<open>simp_all add: block_at_def\<close>)
  have old: "at_block n (events s) = []"
    by (rule at_block_none) (use event_number [OF s] n(2) in fastforce)
  have "\<exists>c. B (b_hash b) = Some c \<and> cb_number c = m \<and> cb_parent c = b_parentHash b \<and> cb_time c = b_timestamp b \<and>
      block_events ix sa (b_hash b) c = Inr (at_block m (events s'))" if b: "blocks s' m = Some b" for m b
  proof (cases "m = n")
    case True
    then show ?thesis using b B E be cb old at_block_all [OF nm] by (auto simp: block_at_def)
  next
    case False
    then have b: "blocks s m = Some b" using b B by simp
    have "at_block m es = []" using nm False by (intro at_block_none) auto
    then show ?thesis using g b E unfolding grounded_def by simp
  qed
  then show ?thesis using cs by (simp add: grounded_def)
qed

lemma at_block_upto: "m \<le> a \<Longrightarrow> at_block m (filter (\<lambda>e. int (ev_blockNumber e) \<le> a) es) = at_block m es"
  by (auto simp: at_block_def intro!: filter_cong)

lemma grounded_cut:
  assumes g: "grounded ix sa B s" and t: "cut_off a s t" "well_kept t"
  shows "grounded ix sa B t"
  unfolding grounded_def
proof (intro conjI allI impI)
  fix n b
  assume "blocks t n = Some b"
  then have n: "n \<le> a" "blocks s n = Some b" using t(1) by (auto simp: cut_off_def split: if_splits)
  then show "\<exists>c. B (b_hash b) = Some c \<and> cb_number c = n \<and> cb_parent c = b_parentHash b \<and> cb_time c = b_timestamp b \<and>
      block_events ix sa (b_hash b) c = Inr (at_block n (events t))"
    using g t(1) at_block_upto [OF n(1), of "events s"] unfolding grounded_def cut_off_def by simp
qed (rule t(2))

interpretation faithful: indexed ix sa V "\<lambda>s. honest B V \<longrightarrow> grounded ix sa B s" for ix sa V B
proof unfold_locales
  fix s n h h' logs es s'
  assume I: "honest B V \<longrightarrow> grounded ix sa B s" and n: "n < 2 ^ 63" "n = st_cursor s + 1"
    and h: "\<exists>k. v_header (V k) n = Some h" and ls: "\<exists>k. v_logs (V k) (h_hash h) = Some logs"
    and d: "decode_logs ix sa h n (sort_key log_place logs) = Inr es"
    and c: "CommitBlock (block_at n h) es s = Inr s'"
  show "honest B V \<longrightarrow> grounded ix sa B s'"
  proof
    assume H: "honest B V"
    then obtain cb where cb: "h_hash h \<noteq> []" "B (h_hash h) = Some cb" "cb_number cb = n" "cb_parent cb = h_parent h"
        "cb_time cb = h_time h"
      using h unfolding honest_def by blast
    have logs: "logs = cb_logs cb" and dl: "distinct (map (\<lambda>l. (log_txHash l, log_index l)) (cb_logs cb))"
      using H ls cb(2) unfolding honest_def by blast+
    have g: "grounded ix sa B s" using I H by simp
    show "grounded ix sa B s'"
      by (rule grounded_commit [where B = B and h = h, OF g n cb d [unfolded logs] dl c])
  qed
next
  fix s a s'
  assume I: "honest B V \<longrightarrow> grounded ix sa B s" and a: "st_start s - 1 \<le> a" "a < st_cursor s" and r: "Rewind a s = Inr s'"
  show "honest B V \<longrightarrow> grounded ix sa B s'"
  proof
    assume "honest B V"
    then have g: "grounded ix sa B s" and s: "well_kept s" using I by (auto simp: grounded_def)
    obtain t where "Rewind a s = Inr t" "cut_off a s t" "well_kept t" using Rewind_cut [OF s a(1)] a(2) by auto
    then show "grounded ix sa B s'" using grounded_cut [OF g] r by simp
  qed
qed

text \<open>The table of events is the chain that ends with the cursor.\<close>

lemma upto_next:
  assumes "sorted (map place es)"
  shows "filter (\<lambda>e. int (ev_blockNumber e) \<le> n) es =
    filter (\<lambda>e. int (ev_blockNumber e) \<le> n - 1) es @ at_block n es"
  using assms
proof (induction es)
  case (Cons e es)
  show ?case
  proof (cases "int (ev_blockNumber e) \<le> n - 1")
    case False
    have "\<not> int (ev_blockNumber f) \<le> n - 1" if "f \<in> set es" for f
      using Cons.prems that False by (force dest: place_le)
    then have "filter (\<lambda>f. int (ev_blockNumber f) \<le> n - 1) es = []" by simp
    then show ?thesis using Cons False by (auto simp: at_block_def)
  qed (use Cons in \<open>auto simp: at_block_def\<close>)
qed (simp add: at_block_def)

lemma events_are_lineage:
  assumes g: "grounded ix sa B s"
  shows "events s = lineage ix sa B (nat (st_cursor s - st_start s + 1)) (st_hash s)"
proof -
  have s: "well_kept s" and ch: "chained s" and so: "sorted (map place (events s))"
    using g by (simp_all add: grounded_def well_kept_def)
  define hash where "hash n = (if st_start s \<le> n then b_hash (the (blocks s n)) else [])" for n
  have "filter (\<lambda>e. int (ev_blockNumber e) \<le> st_start s + int m - 1) (events s) =
      lineage ix sa B m (hash (st_start s + int m - 1))" if "st_start s + int m - 1 \<le> st_cursor s" for m
    using that
  proof (induction m)
    case 0
    then show ?case using event_number [OF s] by (force simp: filter_empty_conv)
  next
    case (Suc m)
    let ?n = "st_start s + int m"
    obtain b where b: "blocks s ?n = Some b" using chained_reach [OF ch, of ?n] Suc.prems by auto
    obtain c where c: "B (b_hash b) = Some c" "cb_parent c = b_parentHash b"
        "block_events ix sa (b_hash b) c = Inr (at_block ?n (events s))"
      using g b unfolding grounded_def by blast
    have "lineage ix sa B m (cb_parent c) = lineage ix sa B m (hash (?n - 1))"
    proof (cases m)
      case (Suc m')
      then have "cb_parent c = hash (?n - 1)" using ch b c(2) by (simp add: chained_def hash_def)
      then show ?thesis by simp
    qed simp
    moreover have "hash ?n = b_hash b" using b by (simp add: hash_def)
    ultimately show ?case
      using Suc upto_next [OF so, of ?n] c by (simp add: algebra_simps)
  qed
  from this [of "nat (st_cursor s - st_start s + 1)"] have
    "filter (\<lambda>e. int (ev_blockNumber e) \<le> st_cursor s) (events s) =
      lineage ix sa B (nat (st_cursor s - st_start s + 1)) (hash (st_cursor s))"
    using ch by (simp add: chained_def)
  moreover have "filter (\<lambda>e. int (ev_blockNumber e) \<le> st_cursor s) (events s) = events s"
    using event_number [OF s] by (simp add: filter_id_conv)
  moreover have "hash (st_cursor s) = st_hash s" using ch by (simp add: chained_def hash_def)
  ultimately show ?thesis by simp
qed

section \<open>Any number of passes\<close>

fun sync_passes ::
  "indexer \<Rightarrow> (addr \<Rightarrow> string) \<Rightarrow> (bool \<times> (nat \<Rightarrow> chain_view) \<times> nat) list \<Rightarrow> store \<times> sync_state \<Rightarrow> store \<times> sync_state" where
  "sync_passes ix sa [] x = x"
| "sync_passes ix sa ((locked, V, now) # ps) x = sync_passes ix sa ps (Run_once ix sa locked V now x)"

lemma Run_once_store: "fst (Run_once ix sa locked V now x) = fst (Sync ix sa locked V now (fst x) (snd x))"
  by (simp add: Run_once_def split: prod.split option.split)

lemma sync_passes_grounded:
  "grounded ix sa B (fst x) \<Longrightarrow> \<forall>p \<in> set ps. honest B (fst (snd p)) \<Longrightarrow> grounded ix sa B (fst (sync_passes ix sa ps x))"
proof (induction ix sa ps x rule: sync_passes.induct)
  case (2 ix sa locked V now ps x)
  obtain s' st' e where r: "Sync ix sa locked V now (fst x) (snd x) = (s', st', e)" by (metis prod_cases3)
  have "honest B V \<longrightarrow> grounded ix sa B (fst x)" using 2(2) by simp
  from faithful.Sync_keeps [OF r this] show ?case
    using 2(1,3) r by (simp add: Run_once_store)
qed simp

lemma grounded_fresh: "0 \<le> st \<Longrightarrow> st \<le> 2 ^ 63 \<Longrightarrow> grounded ix sa B (fresh_store st)"
  using well_kept_fresh by (simp add: grounded_def) (simp add: fresh_store_def)

text \<open>C6: The indexer follows the chain through reorganisations: after any number of passes against a node that may
  fail, move on or reorganise between any two answers, as long as a hash identifies its block and its logs,
  the events in the store are exactly those of the one
  chain that ends with the block of the cursor, in order, and the rounds, tickets and claims are the
  projection of just these events.\<close>

theorem indexer_follows_chain:
  assumes "0 \<le> start" and "start \<le> 2 ^ 63" and "\<forall>p \<in> set ps. honest B (fst (snd p))"
    and "s = fst (sync_passes ix sa ps (fresh_store start, initial_sync))"
  shows "events s = lineage ix sa B (nat (st_cursor s - st_start s + 1)) (st_hash s) \<and>
    project_all (events s) no_tables = Inr (tables s)"
proof -
  have g: "grounded ix sa B s"
    unfolding assms(4) by (rule sync_passes_grounded [OF _ assms(3)]) (simp add: grounded_fresh [OF assms(1,2)])
  then show ?thesis using events_are_lineage [OF g] by (simp add: grounded_def well_kept_def)
qed

end
