(* ===== verification/Replay.thy ===== *)
theory Replay
  imports Projection Agreement
begin

text \<open>
  The history service and the contract agree: folding \<^verbatim>\<open>Apply\<close> over the events the contract has emitted
  gives every round as the contract holds it, in every reachable world and however the token and the
  provider call back.
\<close>

declare address_text_simps [simp del]

section \<open>Replaying events\<close>

fun replay :: "Draw option \<Rightarrow> Event list \<Rightarrow> Draw option applied" where
  "replay r [] = Inr r"
| "replay r (e # es) = (case Apply r e of Inl x \<Rightarrow> Inl x | Inr d \<Rightarrow> replay (Some d) es)"

lemma replay_append:
  "replay r (es @ fs) = (case replay r es of Inl x \<Rightarrow> Inl x | Inr q \<Rightarrow> replay q fs)"
  by (induction es arbitrary: r) (auto split: sum.split)

text \<open>The decoded event of a block with timestamp \<open>tm\<close>; its position is left out.\<close>

definition bare :: "(addr \<Rightarrow> string) \<Rightarrow> event \<times> nat \<Rightarrow> Event" where
  "bare sa x =
     \<lparr>ev_name = event_name (fst x), ev_values = event_values sa (fst x), ev_blockNumber = 0,
      ev_blockHash = [], ev_txHash = [], ev_txIndex = 0, ev_logIndex = 0, ev_timestamp = snd x\<rparr>"

definition about :: "nat \<Rightarrow> (event \<times> nat) list \<Rightarrow> (event \<times> nat) list" where
  "about i h = filter (\<lambda>x. round_of (fst x) = i) h"

lemma about_append [simp]: "about i (h @ k) = about i h @ about i k"
  and about_Nil [simp]: "about i [] = []"
  and about_Cons [simp]: "about i (x # h) = (if round_of (fst x) = i then x # about i h else about i h)"
  by (simp_all add: about_def)

section \<open>What the events of a round must add up to\<close>

definition ticket_view :: "(addr \<Rightarrow> string) \<Rightarrow> addr list \<Rightarrow> (addr \<Rightarrow> bool) \<Rightarrow> Ticket list" where
  "ticket_view sa os rf =
     map (\<lambda>k. \<lparr>number = int k + 1, wallet = (if os ! k = 0 then None else Some (hex_text sa (os ! k))),
               refunded = rf (os ! k)\<rparr>) [0..<10]"

definition projection :: "(addr \<Rightarrow> string) \<Rightarrow> immutables \<Rightarrow> addr SolDraw \<Rightarrow> addr list \<Rightarrow> (addr \<Rightarrow> bool) \<Rightarrow> Draw" where
  "projection sa im d os rf =
     \<lparr>draw_id = show_nat 10 (s_id d), status = statusName (s_status d), startTime = int (s_startTime d),
      deadline = int (s_deadline d),
      finalizedAt = (if live d then None else Some (int (s_finalizedAt d))),
      ticketPrice = show_nat 10 (im_ticketPrice im), minimumParticipants = int (im_minimumParticipants im),
      participantCount = int (s_participantCount d),
      luckyNumber = (if s_luckyNumber d = 0 then None else Some (int (s_luckyNumber d))),
      winner = (if s_winner d = 0 then None else Some (hex_text sa (s_winner d))),
      pool = show_nat 10 (s_pool d), inheritedRollover = show_nat 10 (s_inheritedRollover d),
      rollover = show_nat 10 (carry d),
      daoFee = show_nat 10 (s_daoFee d), winnerPrize = show_nat 10 (s_winnerPrize d),
      prizeClaimed = (s_status d = COMPLETED),
      daoFeePaid = (if s_status d = COMPLETED then show_nat 10 (s_daoFee d) else ''0''),
      requestId = (if s_requestId d = 0 then None else Some (show_nat 10 (s_requestId d))),
      tickets = ticket_view sa os rf, remainingSeconds = 0, draw_canPerformDraw = False\<rparr>"

definition held :: "(addr \<Rightarrow> string) \<Rightarrow> immutables \<Rightarrow> lottery \<Rightarrow> nat \<Rightarrow> Draw option" where
  "held sa im s i =
     (if 1 \<le> i \<and> i \<le> l_currentDrawId s
      then Some (projection sa im (l_draws s i) (l_owners s i) (l_refunded s i)) else None)"

lemma show_zero [simp]: "show_nat 10 0 = ''0''"
  by (simp add: show_nat_zero)

lemma bare_simps [simp]:
  "ev_name (bare sa x) = event_name (fst x)" "ev_timestamp (bare sa x) = snd x"
  "val (bare sa x) k = (case map_of (event_values sa (fst x)) k of None \<Rightarrow> [] | Some y \<Rightarrow> y)"
  by (simp_all add: bare_def val_def)

lemma projection_simps [simp]:
  "status (projection sa im d os rf) = statusName (s_status d)"
  "draw_id (projection sa im d os rf) = show_nat 10 (s_id d)"
  "tickets (projection sa im d os rf) = ticket_view sa os rf"
  "participantCount (projection sa im d os rf) = int (s_participantCount d)"
  "winner (projection sa im d os rf) = (if s_winner d = 0 then None else Some (hex_text sa (s_winner d)))"
  "winnerPrize (projection sa im d os rf) = show_nat 10 (s_winnerPrize d)"
  "daoFee (projection sa im d os rf) = show_nat 10 (s_daoFee d)"
  "ticketPrice (projection sa im d os rf) = show_nat 10 (im_ticketPrice im)"
  by (simp_all add: projection_def)

lemma hex_text_eq [simp]:
  assumes "address_text sa un"
  shows "hex_text sa a = hex_text sa b \<longleftrightarrow> a = b"
    and "hex_text sa a = toLowerCase ZeroAddress \<longleftrightarrow> a = 0"
proof -
  have z: "toLowerCase ZeroAddress = hex_text sa 0"
    using assms unfolding address_text_def by (simp add: hex_text_def)
  show e: "hex_text sa a = hex_text sa b \<longleftrightarrow> a = b" for a b
    using address_text_simps(3) [OF assms, of a b] by (simp add: hex_text_def)
  show "hex_text sa a = toLowerCase ZeroAddress \<longleftrightarrow> a = 0" unfolding z by (rule e)
qed

lemma ticket_view_nth:
  "k < 10 \<Longrightarrow> ticket_view sa os rf ! k =
     \<lparr>number = int k + 1, wallet = (if os ! k = 0 then None else Some (hex_text sa (os ! k))),
      refunded = rf (os ! k)\<rparr>"
  and length_ticket_view [simp]: "length (ticket_view sa os rf) = 10"
  by (simp_all add: ticket_view_def)

lemma ticket_view_empty: "\<not> rf 0 \<Longrightarrow> ticket_view sa (replicate 10 0) rf = fresh_tickets"
  by (simp add: ticket_view_def fresh_tickets_def)

section \<open>One event at a time\<close>

lemma started_projection:
  assumes "d = zero_draw\<lparr>s_id := i, s_startTime := st, s_deadline := dl, s_inheritedRollover := c, s_pool := c\<rparr>"
    and "st < 2 ^ 64" and "dl < 2 ^ 64" and "im_minimumParticipants im < 2 ^ 63"
  shows "Apply None (bare sa (DrawStarted i st dl (im_ticketPrice im) (im_minimumParticipants im) c, tm)) =
    Inr (projection sa im d (replicate 10 0) (\<lambda>_. False))"
  using assms
  by (simp add: Apply_def apply_started_def projection_def zero_draw_def ticket_view_empty statusName_def
      statusNames_def live_def carry_def Let_def)

lemma bought_projection:
  assumes r: "round_ok im i d os tk rf" and t: "address_text sa un" and a: "a \<noteq> 0" "tk a = 0"
    and d: "s_status d = ACTIVE" "s_participantCount d < MAX_PARTICIPANTS" "n = Suc (s_participantCount d)"
    and d': "d' = d\<lparr>s_participantCount := n, s_pool := pl\<rparr>"
  shows "Apply (Some (projection sa im d os rf)) (bare sa (TicketBought i a n price n pl, tm)) =
    Inr (projection sa im d' (os[n - 1 := a]) rf)"
proof -
  let ?ts = "ticket_view sa os rf"
  have ok: "tickets_ok (s_participantCount d) os tk" and id: "s_id d = i" and rf: "\<And>b. \<not> rf b"
    using r d(1) by (auto simp: round_ok_def)
  have n: "n < 6" "n - 1 < 10" "n - 1 < length os" using d ok by (auto simp: MAX_PARTICIPANTS_def tickets_ok_def)
  have free: "os ! (n - 1) = 0" using ok d(3) n by (auto simp: tickets_ok_def)
  have new: "\<not> list_ex (\<lambda>t. wallet t = Some (hex_text sa a)) ?ts"
  proof -
    have "os ! k \<noteq> a" if "k < 10" for k
      using ok a that unfolding tickets_ok_def by (metis not_less nat.simps(3))
    then show ?thesis using t by (auto simp: list_ex_length ticket_view_nth)
  qed
  have "?ts[n - 1 := (?ts ! (n - 1))\<lparr>wallet := Some (hex_text sa a)\<rparr>] = ticket_view sa (os[n - 1 := a]) rf"
    by (rule nth_equalityI) (use n a rf in \<open>auto simp: ticket_view_nth nth_list_update\<close>)
  then show ?thesis
    using n d new free
    by (simp add: Apply_def apply_ticket_def id ticket_view_nth statusName_def statusNames_def Let_def)
       (simp add: projection_def d' live_def carry_def statusName_def statusNames_def)
qed

lemma requested_projection:
  assumes "round_ok im i d os tk rf" and "s_status d = ACTIVE" and "r \<noteq> 0"
  shows "Apply (Some (projection sa im d os rf)) (bare sa (RandomnessRequested i r, tm)) =
    Inr (projection sa im (d\<lparr>s_status := DRAWING, s_requestId := r\<rparr>) os rf)"
  using assms
  by (simp add: Apply_def apply_requested_def round_ok_def projection_def statusName_def statusNames_def
      live_def carry_def Let_def)

lemma cancelled_projection:
  assumes "round_ok im i d os tk rf" and "s_status d = ACTIVE"
  shows "Apply (Some (projection sa im d os rf)) (bare sa (DrawCancelled i n tot (s_inheritedRollover d), tm)) =
    Inr (projection sa im (d\<lparr>s_status := CANCELLED, s_finalizedAt := tm\<rparr>) os rf)"
  using assms
  by (simp add: Apply_def apply_cancelled_def round_ok_def projection_def statusName_def statusNames_def
      live_def carry_def Let_def)

lemma drawn_projection:
  assumes "round_ok im i d os tk rf" and "s_status d = DRAWING" and t: "address_text sa un"
    and k: "1 \<le> k" "k \<le> 10"
    and d': "d' = d\<lparr>s_luckyNumber := k, s_winner := a, s_finalizedAt := tm,
      s_status := (if a = 0 then NO_WINNER else WINNER_DECLARED), s_daoFee := fee, s_winnerPrize := prize\<rparr>"
  shows "Apply (Some (projection sa im d os rf))
      (bare sa (LotteryDrawn i k a (s_pool d) fee prize (if a = 0 then s_pool d else 0), tm)) =
    Inr (projection sa im d' os rf)"
  using assms
  by (simp add: Apply_def apply_drawn_def round_ok_def result_ok_def projection_def statusName_def
      statusNames_def live_def carry_def Let_def)

lemma claimed_projection:
  assumes "round_ok im i d os tk rf" and "s_status d = WINNER_DECLARED" and t: "address_text sa un"
  shows "Apply (Some (projection sa im d os rf))
      (bare sa (PrizeClaimed i (s_winner d) (s_winnerPrize d) dao (s_daoFee d), tm)) =
    Inr (projection sa im (d\<lparr>s_status := COMPLETED\<rparr>) os rf)"
  using assms
  by (simp add: Apply_def apply_prize_def round_ok_def result_ok_def projection_def statusName_def
      statusNames_def live_def carry_def Let_def)

lemma refund_first_nth:
  assumes "k < length ts" and "wallet (ts ! k) = Some a" and "\<not> refunded (ts ! k)"
    and "\<And>j. j < k \<Longrightarrow> wallet (ts ! j) \<noteq> Some a"
  shows "refund_first a ts = Some (ts[k := (ts ! k)\<lparr>refunded := True\<rparr>])"
  using assms
proof (induction ts arbitrary: k)
  case (Cons t ts)
  show ?case
  proof (cases k)
    case (Suc m)
    have "wallet t \<noteq> Some a" using Cons.prems(4) [of 0] Suc by simp
    moreover have "refund_first a ts = Some (ts[m := (ts ! m)\<lparr>refunded := True\<rparr>])"
      using Cons.prems Cons.IH [of m] Suc by fastforce
    ultimately show ?thesis using Suc by simp
  qed (use Cons.prems in simp)
qed simp

lemma refunded_projection:
  assumes r: "round_ok im i d os tk rf" and d: "s_status d = CANCELLED" and t: "address_text sa un"
    and a: "tk a \<noteq> 0" "\<not> rf a"
  shows "Apply (Some (projection sa im d os rf)) (bare sa (RefundClaimed i a (im_ticketPrice im), tm)) =
    Inr (projection sa im d os (rf(a := True)))"
proof -
  let ?k = "tk a - 1" let ?ts = "ticket_view sa os rf"
  have ok: "tickets_ok (s_participantCount d) os tk" and id: "s_id d = i" using r by (auto simp: round_ok_def)
  have "tk a \<le> s_participantCount d" "os ! ?k = a" "s_participantCount d \<le> 5"
    using ok a(1) by (auto simp: tickets_ok_def MAX_PARTICIPANTS_def)
  then have k: "?k < s_participantCount d" "?k < 10" "os ! ?k = a" using a(1) by linarith+
  have nz: "a \<noteq> 0" using ok k(1,3) by (auto simp: tickets_ok_def)
  have other: "os ! j \<noteq> a" if "j < 10" "j \<noteq> ?k" for j
  proof (cases "j < s_participantCount d")
    case True
    then have "tk (os ! j) = Suc j" using ok by (simp add: tickets_ok_def)
    then show ?thesis using that(2) by auto
  next
    case False
    then have "os ! j = 0" using ok that(1) by (simp add: tickets_ok_def)
    then show ?thesis using nz by simp
  qed
  have "refund_first (hex_text sa a) ?ts = Some (?ts[?k := (?ts ! ?k)\<lparr>refunded := True\<rparr>])"
    by (rule refund_first_nth) (use k a nz other t in \<open>auto simp: ticket_view_nth\<close>)
  also have "?ts[?k := (?ts ! ?k)\<lparr>refunded := True\<rparr>] = ticket_view sa os (rf(a := True))"
    by (rule nth_equalityI) (use k other in \<open>auto simp: ticket_view_nth nth_list_update\<close>)
  finally show ?thesis
    using d by (simp add: Apply_def apply_refund_def id statusName_def statusNames_def Let_def)
      (simp add: projection_def)
qed

section \<open>What a transaction tells\<close>

text \<open>The events \<open>es\<close> of a block at time \<open>tm\<close> lead from the round in \<open>s\<close> to the round in \<open>v\<close>.\<close>

definition on_round :: "nat \<Rightarrow> event list \<Rightarrow> event list" where
  "on_round i es = filter (\<lambda>e. round_of e = i) es"

lemma on_round_simps [simp]:
  "on_round i [] = []" "on_round i (es @ fs) = on_round i es @ on_round i fs"
  "on_round i (e # es) = (if round_of e = i then e # on_round i es else on_round i es)"
  by (simp_all add: on_round_def)

definition retold :: "(addr \<Rightarrow> string) \<Rightarrow> immutables \<Rightarrow> nat \<Rightarrow> nat \<Rightarrow> lottery \<Rightarrow> event list \<Rightarrow> lottery \<Rightarrow> bool" where
  "retold sa im tm i s es v \<longleftrightarrow>
     replay (held sa im s i) (map (\<lambda>e. bare sa (e, tm)) (on_round i es)) = Inr (held sa im v i)"

lemma retold_append: "retold sa im tm i s es u \<Longrightarrow> retold sa im tm i u fs v \<Longrightarrow> retold sa im tm i s (es @ fs) v"
  by (simp add: retold_def replay_append)

lemma retold_nothing: "on_round i es = [] \<Longrightarrow> held sa im v i = held sa im s i \<Longrightarrow> retold sa im tm i s es v"
  by (simp add: retold_def)

lemma retold_one:
  "on_round i es = [e] \<Longrightarrow> Apply (held sa im s i) (bare sa (e, tm)) = Inr d \<Longrightarrow> held sa im v i = Some d \<Longrightarrow>
   retold sa im tm i s es v"
  by (simp add: retold_def)

lemma held_round: "1 \<le> i \<Longrightarrow> i \<le> l_currentDrawId s \<Longrightarrow>
    held sa im s i = Some (projection sa im (l_draws s i) (l_owners s i) (l_refunded s i))"
  by (simp add: held_def)

lemma held_cong: "l_currentDrawId v = l_currentDrawId s \<Longrightarrow> l_draws v i = l_draws s i \<Longrightarrow>
    l_owners v i = l_owners s i \<Longrightarrow> l_refunded v i = l_refunded s i \<Longrightarrow> held sa im v i = held sa im s i"
  by (simp add: held_def)

text \<open>A call from inside tells the results of the rounds it decided.\<close>

lemma inside_told:
  assumes f: "settled_from im s t u" and b: "books im s" and t: "address_text sa un"
  obtains es where "l_log (w_lottery u) = l_log s @ es"
    and "\<And>i. retold sa im (uint64 (w_time u)) i s es (w_lottery u)"
    and "\<And>i. l_draws (w_lottery u) i = l_draws s i \<Longrightarrow> on_round i es = []"
proof -
  let ?u = "w_lottery u"
  obtain es where l: "l_log ?u = l_log s @ es"
    and e: "\<And>i. l_draws ?u i = l_draws s i \<and> on_round i es = [] \<or>
      decided_as (w_time u) (l_draws s i) (l_draws ?u i) \<and> on_round i es = [result_event i (l_draws ?u i)]"
    using settled_from_announced [OF f] unfolding announced_def on_round_def by blast
  note F = settled_from_frame [OF f]
  have "retold sa im (uint64 (w_time u)) i s es ?u" for i
  proof (cases "l_draws ?u i = l_draws s i \<and> on_round i es = []")
    case True
    then show ?thesis using F by (intro retold_nothing held_cong) simp_all
  next
    case False
    then have d: "decided_as (w_time u) (l_draws s i) (l_draws ?u i)"
      and o: "on_round i es = [result_event i (l_draws ?u i)]" using e [of i] by blast+
    have st: "s_status (l_draws s i) = DRAWING" using d by (simp add: decided_as_def)
    note D = drawing_round [OF b st]
    obtain k a fee prize where k: "1 \<le> k" "k \<le> 10" and d': "l_draws ?u i =
        (l_draws s i)\<lparr>s_luckyNumber := k, s_winner := a, s_finalizedAt := uint64 (w_time u),
          s_status := (if a = 0 then NO_WINNER else WINNER_DECLARED), s_daoFee := fee, s_winnerPrize := prize\<rparr>"
      using d unfolding decided_as_def by blast
    note A = drawn_projection [OF D(5) st t k d']
    have "result_event i (l_draws ?u i) =
        LotteryDrawn i k a (s_pool (l_draws s i)) fee prize (if a = 0 then s_pool (l_draws s i) else 0)"
      by (simp add: result_event_def d')
    then show ?thesis
      using A D(1,2) F by (intro retold_one [OF o]) (simp_all add: held_round)
  qed
  moreover have "on_round i es = []" if "l_draws ?u i = l_draws s i" for i
    using e [of i] that decided_status by (metis decided_as_def)
  ultimately show thesis using l that by blast
qed

lemma start_told:
  assumes "startDraw_body im n w = Inr v" and b: "books im (w_lottery w)" and "valid_deployment im"
  shows "\<exists>es. l_log (w_lottery v) = l_log (w_lottery w) @ es \<and>
    (\<forall>i. retold sa im tm i (w_lottery w) es (w_lottery v))"
proof -
  let ?s = "w_lottery w" let ?i = "Suc (l_currentDrawId ?s)"
  have R: "rounds_ok im ?s" using b by (simp add: books_def)
  have new: "untouched (l_draws ?s ?i) (l_owners ?s ?i) (l_ticketOf ?s ?i) (l_refunded ?s ?i)"
    by (rule rounds_ok_beyond [OF R]) simp
  obtain dl where v: "w_lottery v = emit
      (DrawStarted ?i (uint64 (w_time w)) (uint64 dl) (im_ticketPrice im) (im_minimumParticipants im)
        (l_pendingRollover ?s))
      (?s\<lparr>l_currentDrawId := ?i,
         l_draws := (l_draws ?s)(?i := (l_draws ?s ?i)\<lparr>s_id := ?i, s_startTime := uint64 (w_time w),
           s_deadline := uint64 dl, s_inheritedRollover := l_pendingRollover ?s, s_pool := l_pendingRollover ?s\<rparr>),
         l_activePool := l_pendingRollover ?s, l_pendingRollover := 0\<rparr>)"
    using assms(1) by (auto simp: startDraw_body_def Let_def andThen_Inr change_def split: if_splits)
  let ?e = "DrawStarted ?i (uint64 (w_time w)) (uint64 dl) (im_ticketPrice im) (im_minimumParticipants im)
    (l_pendingRollover ?s)"
  have "retold sa im tm i ?s [?e] (w_lottery v)" for i
  proof (cases "i = ?i")
    case True
    have "im_minimumParticipants im < 2 ^ 63" using assms(3) by (simp add: valid_deployment_def MAX_PARTICIPANTS_def)
    then show ?thesis
      using started_projection [OF refl, of "uint64 (w_time w)" "uint64 dl" im sa ?i "l_pendingRollover ?s" tm] new True
      by (intro retold_one [of _ _ ?e]) (simp_all add: held_def v emit_def uint64_def untouched_def)
  next
    case False
    then show ?thesis by (intro retold_nothing) (auto simp: held_def v emit_def)
  qed
  then show ?thesis by (intro exI [of _ "[?e]"]) (simp add: v emit_def)
qed

lemma buy_told:
  assumes "buyTicket_body im T P a i w = Inr v" and b: "books im (w_lottery w)" and "a \<noteq> 0"
    and t: "address_text sa un"
  shows "\<exists>es. l_log (w_lottery v) = l_log (w_lottery w) @ es \<and>
    (\<forall>j. retold sa im (uint64 (w_time v)) j (w_lottery w) es (w_lottery v))"
proof (rule buyTicket_effect [OF assms(1-3)], goal_cases)
  case (1 u cs)
  let ?u = "w_lottery u" let ?d = "l_draws ?u i"
  let ?n = "Suc (s_participantCount ?d)" let ?pl = "s_pool ?d + im_ticketPrice im"
  let ?e = "TicketBought i a ?n (im_ticketPrice im) ?n ?pl"
  obtain es where l: "l_log ?u = l_log (w_lottery w) @ es"
    and es: "\<And>j. retold sa im (uint64 (w_time u)) j (w_lottery w) es ?u"
    using inside_told [OF 1(9) b t] by metis
  have du: "?d = l_draws (w_lottery w) i" using settled_from_draw [OF 1(9), of i] 1(3) by simp
  note F = settled_from_frame [OF 1(9)]
  have r: "round_ok im i ?d (l_owners ?u i) (l_ticketOf ?u i) (l_refunded ?u i)"
    using settled_from_books [OF 1(9)] 1(1,2) F by (intro rounds_ok_round) (simp_all add: books_def)
  note A = bought_projection [OF r t \<open>a \<noteq> 0\<close> _ _ _ refl refl, where price = "im_ticketPrice im" and pl = ?pl and tm = "uint64 (w_time u)"]
  have "retold sa im (uint64 (w_time u)) j ?u [?e] (bought im a i ?u)" for j
  proof (cases "j = i")
    case True
    then show ?thesis
      using A 1(1-6) F du by (intro retold_one [of _ _ ?e]) (simp_all add: held_def bought_def emit_def Let_def)
  next
    case False
    then show ?thesis by (intro retold_nothing held_cong) (simp_all add: bought_def emit_def Let_def)
  qed
  then have "retold sa im (uint64 (w_time v)) j (w_lottery w) (es @ [?e]) (w_lottery v)" for j
    using retold_append [OF es [of j]] by (simp add: 1(10))
  then show ?case by (intro exI [of _ "es @ [?e]"]) (simp add: 1(10) bought_def emit_def l Let_def)
qed

lemma perform_told:
  assumes "performDraw_body im P i w = Inr v" and b: "books im (w_lottery w)" and l: "linked (w_lottery w)"
    and t: "address_text sa un"
  shows "\<exists>es. l_log (w_lottery v) = l_log (w_lottery w) @ es \<and>
    (\<forall>j. retold sa im (uint64 (w_time v)) j (w_lottery w) es (w_lottery v))"
proof (rule performDraw_effect [OF assms(1,2)], goal_cases)
  case 1
  let ?s = "w_lottery w" let ?d = "l_draws ?s i"
  have i: "i = l_currentDrawId ?s" "1 \<le> i" "s_status ?d = ACTIVE" using 1(1) unfolding canPerformDraw_iff by auto
  have "rounds_ok im ?s" using b by (simp add: books_def)
  note r = rounds_ok_round [OF this i(2)]
  let ?e = "DrawCancelled i (s_participantCount ?d) (s_participantCount ?d * im_ticketPrice im) (s_inheritedRollover ?d)"
  note A = cancelled_projection [OF r i(3), of sa "s_participantCount ?d"
      "s_participantCount ?d * im_ticketPrice im" "uint64 (w_time w)"]
  have "retold sa im (uint64 (w_time v)) j ?s [?e] (w_lottery v)" for j
  proof (cases "j = i")
    case True
    then show ?thesis
      using A i by (intro retold_one [of _ _ ?e]) (simp_all add: held_def 1(3) emit_def)
  next
    case False
    then show ?thesis by (intro retold_nothing held_cong) (simp_all add: 1(3) emit_def)
  qed
  then show ?case by (intro exI [of _ "[?e]"]) (simp add: 1(3) emit_def)
next
  case (2 r cs p u)
  let ?s = "w_lottery w" let ?d = "l_draws ?s i" let ?u = "w_lottery u" let ?e = "RandomnessRequested i r"
  have i: "i = l_currentDrawId ?s" "1 \<le> i" "s_status ?d = ACTIVE" using 2(1) unfolding canPerformDraw_iff by auto
  have "rounds_ok im ?s" using b by (simp add: books_def)
  note ri = rounds_ok_round [OF this i(2)]
  have du: "l_draws ?u i = ?d\<lparr>s_status := DRAWING\<rparr>"
    by (rule 2(7)) (rule linked_unrequested [OF l i(3)], use i(2) in simp)
  obtain es where g: "l_log ?u = l_log (drawing_state i ?s) @ es"
    and es: "\<And>j. retold sa im (uint64 (w_time u)) j (drawing_state i ?s) es ?u"
    and quiet: "\<And>j. l_draws ?u j = l_draws (drawing_state i ?s) j \<Longrightarrow> on_round j es = []"
    using inside_told [OF 2(6) drawing_books(1) [OF b i] t] by metis
  have F: "l_owners ?u = l_owners ?s" "l_refunded ?u = l_refunded ?s" "l_currentDrawId ?u = l_currentDrawId ?s"
    using settled_from_frame [OF 2(6)] by (simp_all add: drawing_state_def change_draw_def)
  have "retold sa im (uint64 (w_time v)) j ?s (es @ [?e]) (w_lottery v)" for j
  proof (cases "j = i")
    case True
    have "on_round i es = []" by (rule quiet) (simp add: du drawing_state_def change_draw_def)
    then show ?thesis
      using True requested_projection [OF ri i(3) 2(4), of sa "uint64 (w_time v)"] F i du
      by (intro retold_one [of _ _ ?e]) (simp_all add: held_def 2(8) emit_def change_draw_def)
  next
    case False
    have h: "held sa im (drawing_state i ?s) j = held sa im ?s j" "held sa im (w_lottery v) j = held sa im ?u j"
      using False by (auto intro!: held_cong simp: drawing_state_def change_draw_def 2(8) emit_def)
    show ?thesis using es [of j] False by (simp add: retold_def h) (simp add: 2(8))
  qed
  then show ?case by (intro exI [of _ "es @ [?e]"]) (simp add: 2(8) emit_def change_draw_def g drawing_state_def)
qed

text \<open>
  A claim marks its round, pays, and tells at the end; what is retold from inside the payments is about
  other rounds.
\<close>

lemma claim_told:
  assumes s: "\<And>j. j \<noteq> i \<Longrightarrow> held sa im s' j = held sa im s j"
    and es: "\<And>j. retold sa im tm j s' es u" "on_round i es = []"
    and e: "round_of e = i" "Apply (held sa im s i) (bare sa (e, tm)) = Inr d" "held sa im u i = Some d"
  shows "retold sa im tm j s (es @ [e]) (emit e u)"
proof -
  have h: "held sa im (emit e u) j = held sa im u j" for j by (simp add: held_def emit_def)
  show ?thesis
  proof (cases "j = i")
    case True
    then show ?thesis using es(2) e by (intro retold_one [of _ _ e]) (simp_all add: h)
  next
    case False
    then show ?thesis using es(1) [of j] s [OF False] e(1) by (simp add: retold_def h)
  qed
qed

lemma prize_told:
  assumes "claimPrize_body im T P a i w = Inr v" and b: "books im (w_lottery w)" and t: "address_text sa un"
  shows "\<exists>es. l_log (w_lottery v) = l_log (w_lottery w) @ es \<and>
    (\<forall>j. retold sa im (uint64 (w_time v)) j (w_lottery w) es (w_lottery v))"
proof (rule claimPrize_effect [OF assms(1,2)], goal_cases)
  case (1 u1 u2 t1 cs1 cs2)
  let ?s = "w_lottery w" let ?d = "l_draws ?s i" let ?c = "completed i ?s"
  let ?e = "PrizeClaimed i a (s_winnerPrize ?d) (im_dao im) (s_daoFee ?d)" and ?tm = "uint64 (w_time w)"
  note bc = completed_books(1) [OF b 1(1)]
  obtain es1 where l1: "l_log (w_lottery u1) = l_log ?c @ es1"
    and t1: "\<And>j. retold sa im (uint64 (w_time u1)) j ?c es1 (w_lottery u1)"
    and q1: "\<And>j. l_draws (w_lottery u1) j = l_draws ?c j \<Longrightarrow> on_round j es1 = []"
    using inside_told [OF 1(4) bc t] by metis
  obtain es2 where l2: "l_log (w_lottery u2) = l_log (w_lottery u1) @ es2"
    and t2: "\<And>j. retold sa im (uint64 (w_time u2)) j (w_lottery u1) es2 (w_lottery u2)"
    and q2: "\<And>j. l_draws (w_lottery u2) j = l_draws (w_lottery u1) j \<Longrightarrow> on_round j es2 = []"
    using inside_told [OF 1(6) settled_from_books [OF 1(4)] t] by metis
  have dc: "l_draws ?c i = ?d\<lparr>s_status := COMPLETED\<rparr>" by (simp add: completed_def change_draw_def)
  have d1: "l_draws (w_lottery u1) i = l_draws ?c i" using settled_from_draw [OF 1(4), of i] by (simp add: dc)
  have d2: "l_draws (w_lottery u2) i = l_draws ?c i"
    using settled_from_draw [OF 1(6), of i] by (simp add: d1 dc)
  have F: "l_owners (w_lottery u2) = l_owners ?s" "l_refunded (w_lottery u2) = l_refunded ?s"
      "l_currentDrawId (w_lottery u2) = l_currentDrawId ?s"
    using settled_from_frame [OF 1(4)] settled_from_frame [OF 1(6)]
    by (simp_all add: completed_def change_draw_def)
  have R: "rounds_ok im ?s" using b by (simp add: books_def)
  have i: "1 \<le> i" "i \<le> l_currentDrawId ?s" using started_round [OF R, of i] 1(1) by simp_all
  note A = claimed_projection [OF rounds_ok_round [OF R i] 1(1) t, of "im_dao im" ?tm]
  have "retold sa im ?tm j ?s ((es1 @ es2) @ [?e]) (emit ?e (w_lottery u2))" for j
  proof (rule claim_told [where i = i and s' = ?c and d = "projection sa im (?d\<lparr>s_status := COMPLETED\<rparr>) (l_owners ?s i) (l_refunded ?s i)"])
    show "held sa im ?c j = held sa im ?s j" if "j \<noteq> i" for j
      using that by (intro held_cong) (simp_all add: completed_def change_draw_def)
    show "retold sa im ?tm j ?c (es1 @ es2) (w_lottery u2)" for j
      using retold_append t1 t2 1(8,9) by metis
    show "on_round i (es1 @ es2) = []" using q1 [OF d1] q2 [of i] d1 d2 by simp
    show "Apply (held sa im ?s i) (bare sa (?e, ?tm)) =
        Inr (projection sa im (?d\<lparr>s_status := COMPLETED\<rparr>) (l_owners ?s i) (l_refunded ?s i))"
      using A 1(2) i by (simp add: held_round)
    show "held sa im (w_lottery u2) i =
        Some (projection sa im (?d\<lparr>s_status := COMPLETED\<rparr>) (l_owners ?s i) (l_refunded ?s i))"
      using i F d2 dc by (simp add: held_round)
  qed simp
  then show ?case
    using l1 l2 1(9) by (intro exI [of _ "(es1 @ es2) @ [?e]"])
      (simp add: 1(7) emit_def completed_def change_draw_def)
qed

lemma refund_told:
  assumes "claimRefund_body im T P a i w = Inr v" and b: "books im (w_lottery w)" and t: "address_text sa un"
  shows "\<exists>es. l_log (w_lottery v) = l_log (w_lottery w) @ es \<and>
    (\<forall>j. retold sa im (uint64 (w_time v)) j (w_lottery w) es (w_lottery v))"
proof (rule claimRefund_effect [OF assms(1,2)], goal_cases)
  case (1 u cs)
  let ?s = "w_lottery w" let ?d = "l_draws ?s i" let ?c = "refund_taken im a i ?s" let ?tm = "uint64 (w_time u)"
  let ?e = "RefundClaimed i a (im_ticketPrice im)"
  note bc = refund_taken_books(1) [OF b 1(1-3)]
  obtain es where l: "l_log (w_lottery u) = l_log ?c @ es"
    and es: "\<And>j. retold sa im ?tm j ?c es (w_lottery u)"
    and q: "\<And>j. l_draws (w_lottery u) j = l_draws ?c j \<Longrightarrow> on_round j es = []"
    using inside_told [OF 1(5) bc t] by metis
  have du: "l_draws (w_lottery u) i = ?d" using settled_from_draw [OF 1(5), of i] 1(1) by (simp add: refund_taken_def)
  have F: "l_owners (w_lottery u) = l_owners ?s" "l_refunded (w_lottery u) i = (l_refunded ?s i)(a := True)"
      "l_currentDrawId (w_lottery u) = l_currentDrawId ?s"
    using settled_from_frame [OF 1(5)] by (simp_all add: refund_taken_def)
  have R: "rounds_ok im ?s" using b by (simp add: books_def)
  have i: "1 \<le> i" "i \<le> l_currentDrawId ?s" using started_round [OF R, of i] 1(1) by simp_all
  note A = refunded_projection [OF rounds_ok_round [OF R i] 1(1) t 1(2,3), of ?tm]
  have "retold sa im ?tm j ?s (es @ [?e]) (emit ?e (w_lottery u))" for j
  proof (rule claim_told [where i = i and s' = ?c and d = "projection sa im ?d (l_owners ?s i) ((l_refunded ?s i)(a := True))"])
    show "held sa im ?c j = held sa im ?s j" if "j \<noteq> i" for j
      using that by (intro held_cong) (simp_all add: refund_taken_def)
    show "on_round i es = []" by (rule q) (simp add: du refund_taken_def)
    show "Apply (held sa im ?s i) (bare sa (?e, ?tm)) =
        Inr (projection sa im ?d (l_owners ?s i) ((l_refunded ?s i)(a := True)))"
      using A i by (simp add: held_round)
    show "held sa im (w_lottery u) i = Some (projection sa im ?d (l_owners ?s i) ((l_refunded ?s i)(a := True)))"
      using i F du by (simp add: held_round)
  qed (rule es, simp)
  then show ?case
    using l by (intro exI [of _ "es @ [?e]"]) (simp add: 1(6) emit_def refund_taken_def)
qed

lemma held_lock [simp]: "held sa im (s\<lparr>l_entered := x\<rparr>) i = held sa im s i"
  by (simp add: held_def)

lemma retold_lock [simp]:
  "retold sa im tm i (s\<lparr>l_entered := x\<rparr>) es v = retold sa im tm i s es v"
  "retold sa im tm i s es (v\<lparr>l_entered := x\<rparr>) = retold sa im tm i s es v"
  by (simp_all add: retold_def)

definition tells :: "(addr \<Rightarrow> string) \<Rightarrow> immutables \<Rightarrow> ('t, 'p) world \<Rightarrow> ('t, 'p) world \<Rightarrow> bool" where
  "tells sa im w v \<longleftrightarrow>
     (\<exists>es. l_log (w_lottery v) = l_log (w_lottery w) @ es \<and>
        (\<forall>i. retold sa im (uint64 (w_time v)) i (w_lottery w) es (w_lottery v)))"

lemma guarded_tells:
  assumes "nonReentrant f w = Inr v" and "books im (w_lottery w)" and "linked (w_lottery w)"
    and "\<And>w v. f w = Inr v \<Longrightarrow> books im (w_lottery w) \<Longrightarrow> linked (w_lottery w) \<Longrightarrow> tells sa im w v"
  shows "tells sa im w v"
proof -
  let ?w = "change (\<lambda>s. s\<lparr>l_entered := True\<rparr>) w"
  obtain u where u: "f ?w = Inr u" "v = change (\<lambda>s. s\<lparr>l_entered := False\<rparr>) u"
    using assms(1) by (auto simp: nonReentrant_Inr)
  have "tells sa im ?w u" by (rule assms(4) [OF u(1)]) (use assms(2,3) in simp_all)
  then show ?thesis by (simp add: tells_def u(2))
qed

lemma settled_tells:
  "settled_from im (w_lottery w) t v \<Longrightarrow> books im (w_lottery w) \<Longrightarrow> address_text sa un \<Longrightarrow> tells sa im w v"
  unfolding tells_def by (rule inside_told) blast+

lemma transact_tells:
  assumes r: "transact im T P a c w = Inr v" and b: "books im (w_lottery w)" and l: "linked (w_lottery w)"
    and a: "a \<noteq> 0" and t: "address_text sa un" and im: "valid_deployment im"
  shows "tells sa im w v"
proof (cases c)
  case (call_startDraw n)
  then show ?thesis
    using r by (auto simp: transact_def intro!: guarded_tells [OF _ b l])
       (auto simp: tells_def dest!: start_told [OF _ _ im])
next
  case (call_buyTicket i)
  then show ?thesis
    using r by (auto simp: transact_def intro!: guarded_tells [OF _ b l])
       (auto simp: tells_def dest!: buy_told [OF _ _ a t])
next
  case (call_performDraw i)
  then show ?thesis
    using r by (auto simp: transact_def intro!: guarded_tells [OF _ b l])
       (auto simp: tells_def dest!: perform_told [OF _ _ _ t])
next
  case (call_fulfillRandomness r' word)
  then show ?thesis using r by (auto simp: transact_def intro: settled_tells [OF fulfill_keeps [OF _ b] b t])
next
  case (call_finalizeDraw i)
  then show ?thesis using r by (auto simp: transact_def intro: settled_tells [OF finalize_settled [OF _ b] b t])
next
  case (call_claimPrize i)
  then show ?thesis
    using r by (auto simp: transact_def intro!: guarded_tells [OF _ b l])
       (auto simp: tells_def dest!: prize_told [OF _ _ t])
next
  case (call_claimRefund i)
  then show ?thesis
    using r by (auto simp: transact_def intro!: guarded_tells [OF _ b l])
       (auto simp: tells_def dest!: refund_told [OF _ _ t])
qed

end
