(* ===== verification/History.thy ===== *)
theory History
  imports Replay
begin

text \<open>
  The rounds of the history service are the rounds of the contract: the events of a whole history,
  replayed, give every round as it stands, and as the page would read it from a node at that block.
\<close>

section \<open>Histories\<close>

text \<open>A reachable world with the events emitted on the way, each with the time of its block.\<close>

inductive logged ::
  "immutables \<Rightarrow> 't token \<Rightarrow> 'p provider \<Rightarrow> (event \<times> nat) list \<Rightarrow> ('t, 'p) world \<Rightarrow> bool"
  for im :: immutables and T :: "'t token" and P :: "'p provider" where
  deployment: "logged im T P [] \<lparr>w_lottery = fresh_lottery, w_token = t, w_provider = p, w_time = tm\<rparr>"
| recording: "logged im T P h w \<Longrightarrow> system_step im T P w v \<Longrightarrow>
    logged im T P
      (h @ map (\<lambda>e. (e, uint64 (w_time v))) (drop (length (l_log (w_lottery w))) (l_log (w_lottery v)))) v"

lemma logged_deployed: "logged im T P h w \<Longrightarrow> deployed im T P w"
  by (induction rule: logged.induct) (auto intro: deployed.intros)

lemma deployed_logged: "deployed im T P w \<Longrightarrow> \<exists>h. logged im T P h w"
  by (induction rule: deployed.induct) (auto intro: logged.intros)

lemma about_timed: "about i (map (\<lambda>e. (e, tm)) es) = map (\<lambda>e. (e, tm)) (on_round i es)"
  by (induction es) simp_all

text \<open>Replaying the events of a round gives the round.\<close>

lemma replay_held:
  assumes "logged im T P h w" and t: "address_text sa un" and im: "valid_deployment im"
  shows "replay None (map (bare sa) (about i h)) = Inr (held sa im (w_lottery w) i)"
  using assms(1)
proof (induction rule: logged.induct)
  case (deployment t p tm)
  then show ?case by (simp add: held_def fresh_lottery_def)
next
  case (recording h w v)
  have d: "deployed im T P w" using recording.hyps(1) by (rule logged_deployed)
  from recording.hyps(2) have "tells sa im w v"
  proof cases
    case (transaction a c)
    then show ?thesis
      using transact_tells deployed_books [OF d] deployed_linked [OF d] t im by blast
  next
    case (elsewhere t' tm' p')
    then show ?thesis by (intro tells_def [THEN iffD2] exI [of _ "[]"]) (simp add: retold_nothing)
  qed
  then obtain es where "l_log (w_lottery v) = l_log (w_lottery w) @ es"
    and "retold sa im (uint64 (w_time v)) i (w_lottery w) es (w_lottery v)" unfolding tells_def by blast
  then show ?case
    using recording.IH by (simp add: about_timed replay_append retold_def comp_def)
qed

section \<open>Times\<close>

text \<open>The times a round records lie in the past, and its deadline at most a day ahead.\<close>

definition dated :: "nat \<Rightarrow> lottery \<Rightarrow> bool" where
  "dated tm s \<longleftrightarrow>
     (\<forall>i. let d = l_draws s i in
        s_startTime d \<le> tm \<and> s_deadline d \<le> tm + DURATION \<and> s_finalizedAt d \<le> tm \<and>
        (if live d then s_finalizedAt d = 0 else s_startTime d \<le> s_finalizedAt d))"

lemma dated_later: "dated tm s \<Longrightarrow> tm \<le> tm' \<Longrightarrow> dated tm' s"
  unfolding dated_def Let_def by (meson add_le_mono1 order_trans)

lemma dated_same: "dated tm s \<Longrightarrow> l_draws v = l_draws s \<Longrightarrow> dated tm v"
  by (simp add: dated_def)

lemma dated_change:
  assumes "dated tm s" and "\<And>j. j \<noteq> i \<Longrightarrow> l_draws v j = l_draws s j"
    and "s_startTime (l_draws v i) \<le> tm" and "s_deadline (l_draws v i) \<le> tm + DURATION"
    and "s_finalizedAt (l_draws v i) \<le> tm"
    and "if live (l_draws v i) then s_finalizedAt (l_draws v i) = 0
      else s_startTime (l_draws v i) \<le> s_finalizedAt (l_draws v i)"
  shows "dated tm v"
  unfolding dated_def Let_def
proof (intro allI)
  fix j
  show "s_startTime (l_draws v j) \<le> tm \<and> s_deadline (l_draws v j) \<le> tm + DURATION \<and>
      s_finalizedAt (l_draws v j) \<le> tm \<and>
      (if live (l_draws v j) then s_finalizedAt (l_draws v j) = 0
       else s_startTime (l_draws v j) \<le> s_finalizedAt (l_draws v j))"
    using assms by (cases "j = i") (simp_all add: dated_def Let_def)
qed

lemma uint64_small [simp]: "n < 2 ^ 64 \<Longrightarrow> uint64 n = n"
  by (simp add: uint64_def)

lemma uint64_le [simp]: "uint64 n \<le> n"
  by (simp add: uint64_def)

lemma dated_inside:
  assumes "settled_from im s t u" and "dated tm s" and "w_time u = tm" and "tm < 2 ^ 64"
  shows "dated tm (w_lottery u)"
  unfolding dated_def Let_def
proof (intro allI)
  fix i
  let ?d = "l_draws s i" let ?e = "l_draws (w_lottery u) i"
  have "?e = ?d \<or> decided_as tm ?d ?e"
    using settled_from_announced [OF assms(1)] assms(3) unfolding announced_def by blast
  then show "s_startTime ?e \<le> tm \<and> s_deadline ?e \<le> tm + DURATION \<and> s_finalizedAt ?e \<le> tm \<and>
      (if live ?e then s_finalizedAt ?e = 0 else s_startTime ?e \<le> s_finalizedAt ?e)"
  proof
    assume "decided_as tm ?d ?e"
    then show ?thesis using assms(2,4) by (auto simp: dated_def Let_def decided_as_def live_def split: if_splits)
  qed (use assms(2) in \<open>simp add: dated_def Let_def\<close>)
qed

lemma finalize_time: "finalizeDraw im P i w = Inr v \<Longrightarrow> w_time v = w_time w"
  by (rule time_reentry.finalize_keeps) simp_all

lemma fulfill_time: "fulfillRandomness im a r word w = Inr v \<Longrightarrow> w_time v = w_time w"
  by (rule time_reentry.result_keeps [of w "w_time w"]) simp_all

lemma reenter_time: "w_time (reenter im P cs w) = w_time w"
  by (rule time_reentry.reenter_keeps) simp

lemma transact_time: "transact im T P a c w = Inr v \<Longrightarrow> w_time v = w_time w"
  by (cases c)
     (auto simp: transact_def nonReentrant_Inr startDraw_body_def buyTicket_body_def performDraw_body_def
        claimPrize_body_def claimRefund_body_def Let_def andThen_Inr reenter_time
        dest!: call_token_time dest: finalize_time fulfill_time split: if_splits option.splits)

text \<open>What every operation leaves of the times.\<close>

lemma guarded_dated:
  assumes "nonReentrant f w = Inr v" and "books im (w_lottery w)" and "linked (w_lottery w)"
    and "dated (w_time w) (w_lottery w)" and "w_time v = w_time w" and "w_time w < 2 ^ 64"
    and "\<And>w v. f w = Inr v \<Longrightarrow> books im (w_lottery w) \<Longrightarrow> linked (w_lottery w) \<Longrightarrow>
      dated (w_time w) (w_lottery w) \<Longrightarrow> w_time v = w_time w \<Longrightarrow> w_time w < 2 ^ 64 \<Longrightarrow>
      dated (w_time w) (w_lottery v)"
  shows "dated (w_time w) (w_lottery v)"
proof -
  let ?w = "change (\<lambda>s. s\<lparr>l_entered := True\<rparr>) w"
  obtain u where u: "f ?w = Inr u" "v = change (\<lambda>s. s\<lparr>l_entered := False\<rparr>) u"
    using assms(1) by (auto simp: nonReentrant_Inr)
  have "dated (w_time ?w) (w_lottery ?w)" using assms(4) by (auto intro: dated_same)
  then have "dated (w_time ?w) (w_lottery u)"
    by (intro assms(7) [OF u(1)]) (use assms(2,3,5,6) u(2) in simp_all)
  then show ?thesis by (auto simp: u(2) intro: dated_same)
qed

lemma start_dated:
  assumes "startDraw_body im n w = Inr v" and b: "books im (w_lottery w)" and d: "dated (w_time w) (w_lottery w)"
    and small: "w_time w < 2 ^ 64"
  shows "dated (w_time w) (w_lottery v)"
proof -
  let ?s = "w_lottery w" let ?i = "Suc (l_currentDrawId ?s)"
  have "rounds_ok im ?s" using b by (simp add: books_def)
  from rounds_ok_beyond [OF this, of ?i] have new: "l_draws ?s ?i = zero_draw" by (simp add: untouched_def)
  have v: "l_draws (w_lottery v) = (l_draws ?s)(?i := (l_draws ?s ?i)\<lparr>s_id := ?i, s_startTime := uint64 (w_time w),
      s_deadline := uint64 (w_time w + DURATION), s_inheritedRollover := l_pendingRollover ?s,
      s_pool := l_pendingRollover ?s\<rparr>)"
    using assms(1) by (auto simp: startDraw_body_def Let_def andThen_Inr change_def emit_def split: if_splits)
  show ?thesis
    by (rule dated_change [OF d, of ?i]) (simp_all add: v new zero_draw_def live_def)
qed

lemma dated_round: "dated tm s \<Longrightarrow> s_startTime (l_draws s i) \<le> tm \<and> s_deadline (l_draws s i) \<le> tm + DURATION \<and>
    s_finalizedAt (l_draws s i) \<le> tm \<and>
    (if live (l_draws s i) then s_finalizedAt (l_draws s i) = 0
     else s_startTime (l_draws s i) \<le> s_finalizedAt (l_draws s i))"
  by (simp add: dated_def Let_def)

lemma buy_dated:
  assumes "buyTicket_body im T P a i w = Inr v" and b: "books im (w_lottery w)" and "a \<noteq> 0"
    and d: "dated (w_time w) (w_lottery w)" and tm: "w_time v = w_time w" and small: "w_time w < 2 ^ 64"
  shows "dated (w_time w) (w_lottery v)"
proof (rule buyTicket_effect [OF assms(1-3)], goal_cases)
  case (1 u cs)
  have u: "dated (w_time w) (w_lottery u)"
    by (rule dated_inside [OF 1(9) d _ small]) (use tm in \<open>simp add: 1(10)\<close>)
  show ?case
    using dated_round [OF u, of i] by (intro dated_change [OF u, of i]) (simp_all add: 1(10) bought_def emit_def live_def Let_def)
qed

lemma perform_dated:
  assumes "performDraw_body im P i w = Inr v" and b: "books im (w_lottery w)"
    and d: "dated (w_time w) (w_lottery w)" and tm: "w_time v = w_time w" and small: "w_time w < 2 ^ 64"
  shows "dated (w_time w) (w_lottery v)"
proof (rule performDraw_effect [OF assms(1,2)], goal_cases)
  case 1
  then show ?case
    using dated_round [OF d, of i] small by (intro dated_change [OF d, of i]) (simp_all add: 1(3) emit_def live_def)
next
  case (2 r cs p u)
  have i: "s_status (l_draws (w_lottery w) i) = ACTIVE" using 2(1) unfolding canPerformDraw_iff by auto
  have s: "dated (w_time w) (drawing_state i (w_lottery w))"
    using dated_round [OF d, of i] i
    by (intro dated_change [OF d, of i]) (simp_all add: drawing_state_def change_draw_def live_def)
  have u: "dated (w_time w) (w_lottery u)"
    by (rule dated_inside [OF 2(6) s _ small]) (use tm in \<open>simp add: 2(8)\<close>)
  show ?case
    using dated_round [OF u, of i] by (intro dated_change [OF u, of i]) (simp_all add: 2(8) emit_def change_draw_def live_def)
qed

lemma prize_dated:
  assumes "claimPrize_body im T P a i w = Inr v" and b: "books im (w_lottery w)"
    and d: "dated (w_time w) (w_lottery w)" and small: "w_time w < 2 ^ 64"
  shows "dated (w_time w) (w_lottery v)"
proof (rule claimPrize_effect [OF assms(1,2)], goal_cases)
  case (1 u1 u2 t1 cs1 cs2)
  have s: "dated (w_time w) (completed i (w_lottery w))"
    using dated_round [OF d, of i] 1(1)
    by (intro dated_change [OF d, of i]) (simp_all add: completed_def change_draw_def live_def)
  have "dated (w_time w) (w_lottery u2)"
    by (rule dated_inside [OF 1(6) dated_inside [OF 1(4) s 1(8) small] 1(9) small])
  then show ?case by (rule dated_same) (simp add: 1(7) emit_def)
qed

lemma refund_dated:
  assumes "claimRefund_body im T P a i w = Inr v" and b: "books im (w_lottery w)"
    and d: "dated (w_time w) (w_lottery w)" and tm: "w_time v = w_time w" and small: "w_time w < 2 ^ 64"
  shows "dated (w_time w) (w_lottery v)"
proof (rule claimRefund_effect [OF assms(1,2)], goal_cases)
  case (1 u cs)
  have "dated (w_time w) (refund_taken im a i (w_lottery w))"
    by (rule dated_same [OF d]) (simp add: refund_taken_def)
  then have "dated (w_time w) (w_lottery u)"
    by (rule dated_inside [OF 1(5) _ _ small]) (use tm in \<open>simp add: 1(6)\<close>)
  then show ?case by (rule dated_same) (simp add: 1(6) emit_def)
qed

lemma transact_dated:
  assumes r: "transact im T P a c w = Inr v" and b: "books im (w_lottery w)" and l: "linked (w_lottery w)"
    and a: "a \<noteq> 0" and d: "dated (w_time w) (w_lottery w)" and small: "w_time w < 2 ^ 64"
  shows "dated (w_time w) (w_lottery v)"
proof -
  note tm = transact_time [OF r]
  note G = guarded_dated [OF _ b l d tm small]
  have i: "settled_from im (w_lottery w) t v \<Longrightarrow> dated (w_time w) (w_lottery v)" for t
    by (rule dated_inside [OF _ d tm small])
  show ?thesis
  proof (cases c)
    case (call_startDraw n)
    show ?thesis
      by (rule G [of "startDraw_body im n"]) (use r small in \<open>auto simp: call_startDraw transact_def intro: start_dated\<close>)
  next
    case (call_buyTicket i)
    show ?thesis
      by (rule G [of "buyTicket_body im T P a i"])
         (use r small a in \<open>auto simp: call_buyTicket transact_def intro: buy_dated\<close>)
  next
    case (call_performDraw i)
    show ?thesis
      by (rule G [of "performDraw_body im P i"])
         (use r small in \<open>auto simp: call_performDraw transact_def intro: perform_dated\<close>)
  next
    case (call_fulfillRandomness r' word)
    then show ?thesis using r i fulfill_keeps [OF _ b] by (fastforce simp: transact_def)
  next
    case (call_finalizeDraw j)
    then show ?thesis using r i finalize_settled [OF _ b] by (fastforce simp: transact_def)
  next
    case (call_claimPrize i)
    show ?thesis
      by (rule G [of "claimPrize_body im T P a i"])
         (use r small in \<open>auto simp: call_claimPrize transact_def intro: prize_dated\<close>)
  next
    case (call_claimRefund i)
    show ?thesis
      by (rule G [of "claimRefund_body im T P a i"])
         (use r small in \<open>auto simp: call_claimRefund transact_def intro: refund_dated\<close>)
  qed
qed

lemma deployed_dated:
  "deployed im T P w \<Longrightarrow> w_time w < 2 ^ 64 \<Longrightarrow> dated (w_time w) (w_lottery w)"
proof (induction rule: deployed.induct)
  case (created t p tm)
  then show ?case by (simp add: dated_def fresh_lottery_def zero_draw_def live_def)
next
  case (next_step w v)
  from next_step.hyps(2) show ?case
  proof cases
    case (transaction a c)
    then show ?thesis
      using transact_dated [of im T P a c w v] transact_time deployed_books [OF next_step.hyps(1)]
        deployed_linked [OF next_step.hyps(1)] next_step.IH next_step.prems by force
  next
    case (elsewhere t tm p)
    then show ?thesis using next_step.IH next_step.prems by (auto intro: dated_later dated_same)
  qed
qed

section \<open>The service and the node\<close>

text \<open>
  The service writes addresses in lower case, and has no remaining seconds for a round that is no longer
  active, where the node's reader counts down to the deadline all the same. (Nothing shows them.)
\<close>

definition lower_addresses :: "Draw \<Rightarrow> Draw" where
  "lower_addresses d =
     d\<lparr>winner := map_option toLowerCase (winner d),
       tickets := map (\<lambda>t. t\<lparr>wallet := map_option toLowerCase (wallet t)\<rparr>) (tickets d),
       remainingSeconds := (if status d = ''ACTIVE'' then remainingSeconds d else 0)\<rparr>"

lemma rows_agree:
  assumes r: "round_ok im i d os tk rf" and t: "address_text sa un"
  shows "map (\<lambda>t. t\<lparr>wallet := map_option toLowerCase (wallet t)\<rparr>)
      (ticket_rows (map sa os) (map (\<lambda>a. a \<noteq> 0 \<and> s_status d = CANCELLED \<and> rf a) os)) = ticket_view sa os rf"
proof (rule nth_equalityI)
  have len: "length os = 10" using r by (simp add: round_ok_def tickets_ok_def)
  show "length (map (\<lambda>t. t\<lparr>wallet := map_option toLowerCase (wallet t)\<rparr>)
      (ticket_rows (map sa os) (map (\<lambda>a. a \<noteq> 0 \<and> s_status d = CANCELLED \<and> rf a) os))) = length (ticket_view sa os rf)"
    by (simp add: length_ticket_rows len)
  have z: "sa a = ZeroAddress \<longleftrightarrow> a = 0" for a using address_text_simps(4) [OF t] .
  fix k
  assume "k < length (map (\<lambda>t. t\<lparr>wallet := map_option toLowerCase (wallet t)\<rparr>)
      (ticket_rows (map sa os) (map (\<lambda>a. a \<noteq> 0 \<and> s_status d = CANCELLED \<and> rf a) os)))"
  then have k: "k < 10" by (simp add: length_ticket_rows len)
  have "tk 0 = 0"
  proof (rule ccontr)
    assume a: "tk 0 \<noteq> 0"
    then have "tk 0 \<le> s_participantCount d" "os ! (tk 0 - 1) = 0" using r by (auto simp: round_ok_def tickets_ok_def)
    moreover have "os ! (tk 0 - 1) \<noteq> 0" if "tk 0 - 1 < s_participantCount d"
      using r that by (auto simp: round_ok_def tickets_ok_def)
    ultimately show False using a by linarith
  qed
  then have c: "rf (os ! k) \<longrightarrow> os ! k \<noteq> 0 \<and> s_status d = CANCELLED"
    using r unfolding round_ok_def by metis
  show "map (\<lambda>t. t\<lparr>wallet := map_option toLowerCase (wallet t)\<rparr>)
      (ticket_rows (map sa os) (map (\<lambda>a. a \<noteq> 0 \<and> s_status d = CANCELLED \<and> rf a) os)) ! k = ticket_view sa os rf ! k"
    using k len c by (simp add: ticket_rows_nth ticket_view_nth length_ticket_rows hex_text_def z)
       (metis neq0_conv)
qed

lemma projection_agrees:
  assumes r: "round_ok im i d os tk rf" and t: "address_text sa un" and im: "valid_deployment im"
    and times: "s_startTime d \<le> ts" "s_deadline d \<le> ts + DURATION" "s_finalizedAt d \<le> ts"
      "if live d then s_finalizedAt d = 0 else s_startTime d \<le> s_finalizedAt d"
      "0 < s_startTime d" "ts + DURATION < 2 ^ 53"
  shows "Refresh ts (projection sa im d os rf) =
    lower_addresses (draw_view (int ts) (text_draw sa d) (map sa os) (im_ticketPrice im)
      (im_minimumParticipants im) (map (\<lambda>a. a \<noteq> 0 \<and> s_status d = CANCELLED \<and> rf a) os))"
proof -
  have small: "s_startTime d < 2 ^ 53" "s_deadline d < 2 ^ 53" "s_finalizedAt d < 2 ^ 53" "ts < 2 ^ 53"
    using times by auto
  have few: "s_participantCount d \<le> 5" "s_luckyNumber d \<le> 10" "im_minimumParticipants im \<le> 5"
    using r im by (auto simp: round_ok_def tickets_ok_def result_ok_def MAX_PARTICIPANTS_def valid_deployment_def
        split: Status.splits)
  note rows = rows_agree [OF r t]
  have z: "sa a = ZeroAddress \<longleftrightarrow> a = 0" for a using address_text_simps(4) [OF t] .
  have num: "js_number (s_startTime d) = int (s_startTime d)" "js_number (s_deadline d) = int (s_deadline d)"
    "js_number (s_finalizedAt d) = int (s_finalizedAt d)"
    "js_number (s_participantCount d) = int (s_participantCount d)"
    "js_number (s_luckyNumber d) = int (s_luckyNumber d)"
    "js_number (im_minimumParticipants im) = int (im_minimumParticipants im)"
    using small few by simp_all
  have fz: "or_null (int (s_finalizedAt d)) = (if live d then None else Some (int (s_finalizedAt d)))"
    using times(4,5) by (auto simp: or_null_def split: if_splits)
  have lk: "or_null (int (s_luckyNumber d)) = (if s_luckyNumber d = 0 then None else Some (int (s_luckyNumber d)))"
    by (auto simp: or_null_def)
  have sub: "js_sub (int (s_deadline d)) (int ts) = int (s_deadline d) - int ts"
    using small by (auto simp: js_sub_def nat_diff_distrib')
  show ?thesis
    by (simp add: Refresh_def projection_def lower_addresses_def draw_view_def Let_def text_draw_def num fz lk sub rows z
        hex_text_def carry_def del: neq0_conv)
qed

lemma round_agrees:
  assumes d: "deployed im T P w" and t: "address_text sa un" and im: "valid_deployment im"
    and i: "1 \<le> i" "i \<le> l_currentDrawId (w_lottery w)" and st: "0 < s_startTime (l_draws (w_lottery w) i)"
    and tm: "w_time w + DURATION < 2 ^ 53"
  shows "Refresh (w_time w) (projection sa im (l_draws (w_lottery w) i) (l_owners (w_lottery w) i) (l_refunded (w_lottery w) i)) =
    lower_addresses (shown_round sa im w i)"
proof -
  have R: "rounds_ok im (w_lottery w)" using deployed_books [OF d] by (simp add: books_def)
  have "dated (w_time w) (w_lottery w)" by (rule deployed_dated [OF d]) (use tm in simp)
  from dated_round [OF this, of i] show ?thesis
    unfolding shown_round_def Let_def
    by (intro projection_agrees [OF rounds_ok_round [OF R i] t im]) (use st tm in simp_all)
qed

text \<open>C7: The history service and the contract agree: replaying the events of a round, in the order the contract
  emitted them, never fails and gives the round that chainDraw reads from a node at the same block, up to
  the case of addresses, whatever the token and the provider call back in between. A round the contract
  has not started has no events.\<close>

theorem events_rebuild_rounds:
  assumes "logged im T P h w" and "address_text sa un" and "valid_deployment im"
    and "0 < s_startTime (l_draws (w_lottery w) i)" and "w_time w + DURATION < 2 ^ 53"
  shows "if 1 \<le> i \<and> i \<le> l_currentDrawId (w_lottery w)
    then \<exists>d. replay None (map (bare sa) (about i h)) = Inr (Some d) \<and>
      Refresh (w_time w) d = lower_addresses (shown_round sa im w i)
    else replay None (map (bare sa) (about i h)) = Inr None"
  using replay_held [OF assms(1-3), of i] round_agrees [OF logged_deployed [OF assms(1)] assms(2,3) _ _ assms(4,5)]
  by (auto simp: held_def)

theorem events_rebuild_rounds_witness:
  "\<exists>h d. logged sample_im plain_token counting_provider h sample_won \<and>
     replay None (map (bare plain_text) (about 1 h)) = Inr (Some d) \<and> status d = ''WINNER_DECLARED'' \<and>
     luckyNumber d = Some 1"
proof -
  obtain h where h: "logged sample_im plain_token counting_provider h sample_won"
    using deployed_logged [OF won_deployed] by blast
  have f: "0 < s_startTime (l_draws (w_lottery sample_won) 1)" "w_time sample_won + DURATION < 2 ^ 53"
    "l_currentDrawId (w_lottery sample_won) = 1" "s_luckyNumber (l_draws (w_lottery sample_won) 1) = 1"
    "s_status (l_draws (w_lottery sample_won) 1) = WINNER_DECLARED"
    by (simp_all add: sample_won_def sample_drawing_def sample_due_def contract_run upt_rec slots)
  obtain d where d: "replay None (map (bare plain_text) (about 1 h)) = Inr (Some d)"
    and r: "Refresh (w_time sample_won) d = lower_addresses (shown_round plain_text sample_im sample_won 1)"
    using events_rebuild_rounds [OF h plain_address_text sample_valid f(1,2)] f(3) by auto
  have "status d = status (lower_addresses (shown_round plain_text sample_im sample_won 1))"
    "luckyNumber d = luckyNumber (lower_addresses (shown_round plain_text sample_im sample_won 1))"
    unfolding r [symmetric] by (simp_all add: Refresh_def)
  then show ?thesis
    using h d f by (auto simp: lower_addresses_def shown_round_def draw_view_def text_draw_def statusName_def
        statusNames_def Let_def)
qed

end
