(* ===== verification/Service.thy ===== *)
theory Service
  imports Indexer History
begin

text \<open>
  \<^verbatim>\<open>backend/internal/service/http.go\<close>: what the service answers, and that it is what the contract holds. The
  JSON fields the client does not read are left out.
\<close>

section \<open>Handlers\<close>

definition decimal :: "char \<Rightarrow> bool" where
  "decimal c \<longleftrightarrow> 48 \<le> (of_char c :: nat) \<and> (of_char c :: nat) \<le> 57"

definition validID :: "string \<Rightarrow> bool" where
  "validID i \<longleftrightarrow>
     i \<noteq> [] \<and> list_all decimal i \<and> length i \<le> 78 \<and>
     (case big_int i of Some n \<Rightarrow> 0 < n \<and> n < 2 ^ 256 | None \<Rightarrow> False)"

text \<open>Times in milliseconds.\<close>

definition healthy :: "nat \<Rightarrow> sync_state \<Rightarrow> bool" where
  "healthy ms st \<longleftrightarrow>
     ix_synced st \<and> \<not> ix_recovering st \<and>
     (case ix_lastSuccess st of None \<Rightarrow> False | Some t \<Rightarrow> ms < t + 60000)"

text \<open>
  The indexer runs meanwhile: its state is \<open>st\<close> at first and \<open>st'\<close> after the read of the store \<open>s\<close>.
\<close>

definition respond :: "sync_state \<Rightarrow> store \<Rightarrow> sync_state \<Rightarrow> nat \<Rightarrow> read_mode \<Rightarrow> nat \<Rightarrow> nat \<times> body" where
  "respond st s st' ms mode limit =
     (if ix_recovering st then (503, ErrorBody (Some ''Chain recovery in progress; retry shortly''))
      else case Read_store s mode limit of
          Inl x \<Rightarrow> (503, ErrorBody (Some ''History service temporarily unavailable''))
        | Inr sn \<Rightarrow>
            let fine = (healthy ms st' \<and> ix_safeHead st' \<le> sn_cursor sn);
                answer = (\<lambda>d. CurrentBody
                  \<lparr>api_draw = d, indexedBlock = sn_cursor sn, indexedBlockHash = sn_hash sn,
                   chainTime = int (sn_time sn), observedHead = ix_observedHead st', synced = fine\<rparr>) in
              case mode of
                draw_history c \<Rightarrow>
                  (200, HistoryBody \<lparr>hist_draws = sn_draws sn, nextCursor = sn_next sn, hist_synced = fine,
                                     hist_indexedBlock = sn_cursor sn\<rparr>)
              | current_draw \<Rightarrow> (200, answer (case sn_draws sn of [] \<Rightarrow> None | d # ds \<Rightarrow> Some d))
              | draw_detail i \<Rightarrow>
                  (case sn_draws sn of [] \<Rightarrow> (404, ErrorBody (Some ''Draw not found'')) | d # ds \<Rightarrow> (200, answer (Some d))))"

definition serve_current :: "sync_state \<Rightarrow> store \<Rightarrow> sync_state \<Rightarrow> nat \<Rightarrow> nat \<times> body" where
  "serve_current st s st' ms = respond st s st' ms current_draw 1"

definition serve_detail :: "sync_state \<Rightarrow> store \<Rightarrow> sync_state \<Rightarrow> nat \<Rightarrow> string \<Rightarrow> nat \<times> body" where
  "serve_detail st s st' ms i =
     (if \<not> validID i then (400, ErrorBody (Some ''Draw ID must be a positive uint256 decimal string''))
      else respond st s st' ms (draw_detail i) 1)"

text \<open>\<^verbatim>\<open>strconv.Atoi\<close>\<close>

definition atoi :: "string \<Rightarrow> int option" where
  "atoi t = (case big_int t of Some n \<Rightarrow> if - (2 ^ 63) \<le> n \<and> n < 2 ^ 63 then Some n else None | None \<Rightarrow> None)"

definition serve_history :: "sync_state \<Rightarrow> store \<Rightarrow> sync_state \<Rightarrow> nat \<Rightarrow> string \<Rightarrow> string \<Rightarrow> nat \<times> body" where
  "serve_history st s st' ms raw c =
     (case (if raw = [] then Some 20
            else case atoi raw of Some v \<Rightarrow> if v < 1 \<or> 100 < v then None else Some (nat v) | None \<Rightarrow> None) of
        None \<Rightarrow> (400, ErrorBody (Some ''limit must be between 1 and 100''))
      | Some limit \<Rightarrow>
          if c \<noteq> [] \<and> \<not> validID c then (400, ErrorBody (Some ''Invalid cursor''))
          else respond st s st' ms (draw_history c) limit)"

section \<open>The table of rounds\<close>

text \<open>Every row is keyed by its identifier, once.\<close>

definition keyed :: "(int \<times> Draw) list \<Rightarrow> bool" where
  "keyed rows \<longleftrightarrow> distinct (map fst rows) \<and> (\<forall>(i, d) \<in> set rows. numeric (draw_id d) = Inr i)"

lemma Apply_id: "Apply r e = Inr d \<Longrightarrow> draw_id d = val e ''drawId''"
  by (auto simp: Apply_def apply_started_def apply_ticket_def apply_requested_def apply_drawn_def
      apply_cancelled_def apply_prize_def apply_refund_def Let_def split: if_splits option.splits sum.splits)

lemma project_row:
  assumes "project e tb = Inr tb'"
  obtains i d where "numeric (val e ''drawId'') = Inr i" and "Apply (map_of (draws_table tb) i) e = Inr d"
    and "draws_table tb' = AList.update i d (draws_table tb)" and "numeric (draw_id d) = Inr i"
proof -
  obtain i d j where i: "numeric (val e ''drawId'') = Inr i" and d: "Apply (map_of (draws_table tb) i) e = Inr d"
    and j: "numeric (draw_id d) = Inr j" and t: "draws_table tb' = AList.update j d (draws_table tb)"
    using assms by (auto simp: project_def split: sum.splits)
  have "j = i" using i j Apply_id [OF d] by simp
  then show thesis using i d j t that by blast
qed

lemma project_keyed:
  assumes "project e tb = Inr tb'" and "keyed (draws_table tb)"
  shows "keyed (draws_table tb')"
proof -
  obtain i d where t: "draws_table tb' = AList.update i d (draws_table tb)" and n: "numeric (draw_id d) = Inr i"
    using project_row [OF assms(1)] by metis
  have "distinct (map fst (AList.update i d (draws_table tb)))" using assms(2) by (simp add: keyed_def distinct_update)
  moreover have "numeric (draw_id c) = Inr j" if "(j, c) \<in> set (AList.update i d (draws_table tb))" for j c
  proof -
    have "map_of (AList.update i d (draws_table tb)) j = Some c" using that calculation by simp
    then have "j = i \<and> c = d \<or> map_of (draws_table tb) j = Some c" by (auto simp: update_conv split: if_splits)
    then show ?thesis using n assms(2) by (auto simp: keyed_def dest: map_of_SomeD)
  qed
  ultimately show ?thesis by (auto simp: keyed_def t)
qed

lemma project_all_keyed: "project_all es tb = Inr tb' \<Longrightarrow> keyed (draws_table tb) \<Longrightarrow> keyed (draws_table tb')"
  by (induction es arbitrary: tb) (auto intro: project_keyed split: sum.splits)

lemma well_kept_keyed: "well_kept s \<Longrightarrow> keyed (draws_table (tables s))"
  using project_all_keyed [of "events s" no_tables "tables s"] by (simp add: well_kept_def no_tables_def keyed_def)

text \<open>A row is the replay of the events of its round.\<close>

definition of_id :: "int \<Rightarrow> Event list \<Rightarrow> Event list" where
  "of_id i es = filter (\<lambda>e. numeric (val e ''drawId'') = Inr i) es"

lemma project_all_replay:
  "project_all es tb = Inr tb' \<Longrightarrow>
     replay (map_of (draws_table tb) i) (of_id i es) = Inr (map_of (draws_table tb') i)"
proof (induction es arbitrary: tb)
  case (Cons e es)
  then obtain u where p: "project e tb = Inr u" and r: "project_all es u = Inr tb'" by (auto split: sum.splits)
  obtain j d where "numeric (val e ''drawId'') = Inr j" "Apply (map_of (draws_table tb) j) e = Inr d"
    "draws_table u = AList.update j d (draws_table tb)" "numeric (draw_id d) = Inr j"
    by (rule project_row [OF p])
  then show ?case using Cons.IH [OF r] by (auto simp: of_id_def update_conv)
qed (simp add: of_id_def)

section \<open>The service shows the contract\<close>

text \<open>The events of the store are those of a history of the contract.\<close>

definition tells_of :: "(addr \<Rightarrow> string) \<Rightarrow> event \<times> nat \<Rightarrow> Event \<Rightarrow> bool" where
  "tells_of sa x e \<longleftrightarrow>
     ev_name e = event_name (fst x) \<and> ev_values e = event_values sa (fst x) \<and> ev_timestamp e = snd x"

lemma Apply_cong:
  assumes "ev_name e = ev_name f" and "ev_values e = ev_values f" and "ev_timestamp e = ev_timestamp f"
  shows "Apply r e = Apply r f"
  unfolding Apply_def apply_started_def apply_ticket_def apply_requested_def apply_drawn_def apply_cancelled_def
    apply_prize_def apply_refund_def val_def assms by (rule refl)

lemma Apply_bare: "tells_of sa x e \<Longrightarrow> Apply r e = Apply r (bare sa x)"
  by (rule Apply_cong) (simp_all add: tells_of_def bare_def)

lemma replay_bare: "list_all2 (tells_of sa) h es \<Longrightarrow> replay r es = replay r (map (bare sa) h)"
  by (induction arbitrary: r rule: list_all2_induct) (simp_all add: Apply_bare split: sum.split)

lemma tells_of_id: "tells_of sa x e \<Longrightarrow> val e ''drawId'' = show_nat 10 (round_of (fst x))"
  by (cases "fst x") (simp_all add: tells_of_def val_def)

lemma numeric_show: "numeric (show_nat 10 n) = (if int n < 10 ^ 78 then Inr (int n) else Inl Invalid_numeric)"
  by (simp add: numeric_def)

lemma of_id_about:
  assumes "list_all2 (tells_of sa) h es" and "int i < 10 ^ 78"
  shows "list_all2 (tells_of sa) (about i h) (of_id (int i) es)"
  using assms(1)
proof (induction rule: list_all2_induct)
  case (Cons x h e es)
  have "numeric (val e ''drawId'') = Inr (int i) \<longleftrightarrow> round_of (fst x) = i"
    unfolding tells_of_id [OF Cons.hyps(1)] numeric_show using assms(2) by auto
  then show ?case using Cons by (auto simp: of_id_def)
qed (simp add: of_id_def)

lemma projected_ids:
  "project_all es tb = Inr tb' \<Longrightarrow> e \<in> set es \<Longrightarrow> \<exists>i. numeric (val e ''drawId'') = Inr i"
proof (induction es arbitrary: tb)
  case (Cons f es)
  then obtain u where p: "project f tb = Inr u" "project_all es u = Inr tb'" by (auto split: sum.splits)
  obtain j where "numeric (val f ''drawId'') = Inr j" by (rule project_row [OF p(1)])
  then show ?case using Cons.prems(2) Cons.IH [OF p(2)] by auto
qed simp

text \<open>The table holds the rounds of the contract, all of them and no others.\<close>

lemma rows_held:
  assumes s: "well_kept s" and r: "logged im T P h w" and e: "list_all2 (tells_of sa) h (events s)"
    and t: "address_text sa un" and im: "valid_deployment im"
  shows "int i < 10 ^ 78 \<Longrightarrow> map_of (draws_table (tables s)) (int i) = held sa im (w_lottery w) i"
    and "1 \<le> i \<Longrightarrow> i \<le> l_currentDrawId (w_lottery w) \<Longrightarrow> int i < 10 ^ 78"
proof -
  have p: "project_all (events s) no_tables = Inr (tables s)" using s by (simp add: well_kept_def)
  have R: "replay None (map (bare sa) (about i h)) = Inr (held sa im (w_lottery w) i)"
    by (rule replay_held [OF r t im])
  show "map_of (draws_table (tables s)) (int i) = held sa im (w_lottery w) i" if "int i < 10 ^ 78"
    using project_all_replay [OF p, of "int i"] replay_bare [OF of_id_about [OF e that], of None] R
    by (simp add: no_tables_def)
  show "int i < 10 ^ 78" if i: "1 \<le> i" "i \<le> l_currentDrawId (w_lottery w)"
  proof -
    have "about i h \<noteq> []" using R i by (auto simp: held_def)
    then obtain x where x: "x \<in> set h" "round_of (fst x) = i" by (auto simp: about_def filter_empty_conv)
    then obtain f where "f \<in> set (events s)" "tells_of sa x f"
      using e x(1) unfolding list_all2_conv_all_nth by (metis in_set_conv_nth)
    then show ?thesis
      using projected_ids [OF p] tells_of_id [of sa x f] x(2) by (fastforce simp: numeric_show split: if_splits)
  qed
qed

lemma by_id_set [simp]: "set (by_id rows) = set rows"
  by (simp add: by_id_def)

lemma by_id_distinct: "keyed rows \<Longrightarrow> distinct (map fst (by_id rows))"
  by (simp add: keyed_def by_id_def rev_map [symmetric] distinct_map)

lemma query_detail:
  assumes "keyed (draws_table (tables s))" and "int i < 10 ^ 78"
  shows "query s (draw_detail (show_nat 10 i)) limit =
    Inr (case map_of (draws_table (tables s)) (int i) of None \<Rightarrow> [] | Some d \<Rightarrow> [d])"
proof -
  let ?rows = "by_id (draws_table (tables s))"
  have only: "filter (\<lambda>r. fst r = k) rs = (case map_of rs k of None \<Rightarrow> [] | Some d \<Rightarrow> [(k, d)])"
    if "distinct (map fst rs)" for k and rs :: "(int \<times> Draw) list"
    using that
  proof (induction rs)
    case (Cons r rs)
    show ?case
    proof (cases "fst r = k")
      case True
      then have "map_of rs k = None" using Cons.prems by (auto simp: map_of_eq_None_iff)
      then show ?thesis using Cons True by (cases r) simp
    qed (use Cons in simp)
  qed simp
  have "map_of ?rows = map_of (draws_table (tables s))"
    by (rule map_of_inject_set [THEN iffD2]) (use by_id_distinct [OF assms(1)] assms(1) in \<open>simp_all add: keyed_def\<close>)
  then show ?thesis
    using only [OF by_id_distinct [OF assms(1)], of "int i"] assms(2)
    by (simp add: query_def numeric_show split: option.split)
qed

lemma length_digits: "n < 10 ^ k \<Longrightarrow> 0 < k \<Longrightarrow> length (digits 10 n) \<le> k"
proof (induction k arbitrary: n)
  case (Suc k)
  show ?case
  proof (cases "n < 10")
    case True
    then show ?thesis by (simp add: digits_one)
  next
    case False
    then have k: "0 < k" using Suc.prems by (cases k) simp_all
    have "n div 10 < 10 ^ k" using Suc.prems(1) by (simp add: less_mult_imp_div_less mult.commute)
    then show ?thesis using Suc.IH [OF _ k] False by (subst digits.simps) simp
  qed
qed simp

lemma validID_show:
  assumes "1 \<le> i" and "i < 2 ^ 256"
  shows "validID (show_nat 10 i)"
proof -
  have "(2 :: nat) ^ 256 \<le> 10 ^ 78" by simp
  then have "length (show_nat 10 i) \<le> 78"
    using length_digits [of i 78] assms(2) by (simp add: show_nat_def)
  moreover have "list_all decimal (show_nat 10 i)"
    using digits_less [of 10 i]
    by (auto simp: show_nat_def list_all_iff decimal_def digit_char_def of_char_of Let_def)
  ultimately show ?thesis using assms by (simp add: validID_def)
qed

lemma tip_time:
  assumes "grounded ix sa B s" and "B (st_hash s) = Some c" and "st_start s \<le> st_cursor s"
  shows "chain_time s = Inr (cb_time c)"
proof -
  have ch: "chained s" using assms(1) by (simp add: grounded_def well_kept_def)
  obtain b where b: "blocks s (st_cursor s) = Some b" using chained_reach [OF ch assms(3)] by auto
  then have "st_hash s = b_hash b" using ch assms(3) by (simp add: chained_def)
  moreover obtain c' where "B (b_hash b) = Some c'" "cb_time c' = b_timestamp b"
    using assms(1) b unfolding grounded_def by blast
  ultimately show ?thesis using assms(2,3) b by (simp add: chain_time_def)
qed

text \<open>C5: The history service shows the contract: after any number of passes through reorganisations and failures, the
  answer for a round is the round the contract holds in the block of the cursor, as chainDraw would read
  it from a node there, whatever the token and the provider did in between; and a round that does not
  exist is not found.\<close>

theorem service_shows_contract:
  assumes "0 \<le> start" and "start \<le> 2 ^ 63" and "\<forall>p \<in> set ps. honest B (fst (snd p))"
    and s: "s = fst (sync_passes ix sa ps (fresh_store start, initial_sync))"
    and tip: "st_start s \<le> st_cursor s" "B (st_hash s) = Some c" "cb_time c = w_time w"
    and h: "logged im T P h w"
      "list_all2 (tells_of sa) h (lineage ix sa B (nat (st_cursor s - st_start s + 1)) (st_hash s))"
    and t: "address_text sa un" and im: "valid_deployment im"
    and i: "1 \<le> i" "i < 2 ^ 256" "i \<le> l_currentDrawId (w_lottery w) \<Longrightarrow> 0 < s_startTime (l_draws (w_lottery w) i)"
    and tm: "w_time w + DURATION < 2 ^ 53" and st: "\<not> ix_recovering st"
  shows "if i \<le> l_currentDrawId (w_lottery w)
    then \<exists>r. serve_detail st s st' ms (show_nat 10 i) = (200, CurrentBody r) \<and>
      api_draw r = Some (lower_addresses (shown_round sa im w i)) \<and>
      indexedBlock r = st_cursor s \<and> chainTime r = int (w_time w)
    else serve_detail st s st' ms (show_nat 10 i) = (404, ErrorBody (Some ''Draw not found''))"
proof -
  have g: "grounded ix sa B s"
    unfolding s by (rule sync_passes_grounded [OF _ assms(3)]) (simp add: grounded_fresh [OF assms(1,2)])
  then have k: "well_kept s" by (simp add: grounded_def)
  have e: "list_all2 (tells_of sa) h (events s)" using h(2) events_are_lineage [OF g] by simp
  have small: "int i < 10 ^ 78"
  proof -
    have "i < 10 ^ 78" by (rule less_le_trans [OF i(2)]) simp
    then show ?thesis by (metis of_nat_less_iff of_nat_numeral of_nat_power)
  qed
  note rows = rows_held(1) [OF k h(1) e t im small]
  note Q = query_detail [OF well_kept_keyed [OF k] small]
  note C = tip_time [OF g tip(2,1), unfolded tip(3)]
  show ?thesis
    using round_agrees [OF logged_deployed [OF h(1)] t im i(1)] i(3) tm st validID_show [OF i(1,2)] C Q rows i(1)
    by (auto simp: serve_detail_def respond_def Read_store_def held_def)
qed

end
