(* ===== verification/Shape.thy ===== *)
theory Shape
  imports Service
begin

text \<open>
  The shape of a stored round. Go's struct \<^verbatim>\<open>Draw\<close> allows a winner without a number drawn or a ticket count
  that is not the number of tickets; the guards of \<^verbatim>\<open>Apply\<close> keep every round of the store from such states,
  whatever logs the chain presents, and keep the tables of tickets and claims in step with the rounds.
\<close>

section \<open>Well-formed rounds\<close>

definition sold :: "Ticket list \<Rightarrow> nat" where
  "sold ts = length (filter (\<lambda>t. wallet t \<noteq> None) ts)"

lemma sold_simps [simp]: "sold [] = 0" "sold (t # ts) = (if wallet t = None then 0 else 1) + sold ts"
  by (simp_all add: sold_def)

text \<open>Ten numbered tickets, no wallet with two of them, and none refunded that was not sold.\<close>

definition board :: "Ticket list \<Rightarrow> bool" where
  "board ts \<longleftrightarrow>
     map number ts = ticket_numbers \<and>
     (\<forall>t \<in> set ts. refunded t \<longrightarrow> wallet t \<noteq> None) \<and>
     (\<forall>t \<in> set ts. \<forall>t' \<in> set ts. wallet t \<noteq> None \<and> wallet t = wallet t' \<longrightarrow> number t = number t')"

definition well_typed :: "Draw \<Rightarrow> bool" where
  "well_typed d \<longleftrightarrow>
     status d \<in> {''ACTIVE'', ''DRAWING'', ''WINNER_DECLARED'', ''COMPLETED'', ''NO_WINNER'', ''CANCELLED''} \<and>
     board (tickets d) \<and> participantCount d = int (sold (tickets d)) \<and>
     0 \<le> startTime d \<and> startTime d < 2 ^ 64 \<and> 0 \<le> deadline d \<and> deadline d < 2 ^ 64 \<and>
     (luckyNumber d \<noteq> None \<longleftrightarrow> status d \<in> {''WINNER_DECLARED'', ''COMPLETED'', ''NO_WINNER''}) \<and>
     (case luckyNumber d of None \<Rightarrow> True | Some n \<Rightarrow> 1 \<le> n \<and> n \<le> 10) \<and>
     (winner d \<noteq> None \<longleftrightarrow> status d \<in> {''WINNER_DECLARED'', ''COMPLETED''}) \<and>
     (finalizedAt d = None \<longleftrightarrow> status d \<in> {''ACTIVE'', ''DRAWING''}) \<and>
     (requestId d = None \<longleftrightarrow> status d \<in> {''ACTIVE'', ''CANCELLED''}) \<and>
     (prizeClaimed d \<longleftrightarrow> status d = ''COMPLETED'') \<and>
     daoFeePaid d = (if prizeClaimed d then daoFee d else ''0'') \<and>
     (\<forall>t \<in> set (tickets d). refunded t \<longrightarrow> status d = ''CANCELLED'')"

lemma board_length: "board ts \<Longrightarrow> length ts = 10"
proof -
  assume "board ts"
  then have "length (map number ts) = length ticket_numbers" by (simp only: board_def)
  then show ?thesis by (simp add: ticket_numbers_def)
qed

lemma board_nth:
  assumes "board ts" and "k < 10"
  shows "number (ts ! k) = int k + 1"
proof -
  have "number (ts ! k) = map number ts ! k" using board_length [OF assms(1)] assms(2) by simp
  also have "map number ts = map (\<lambda>i. int i + 1) [0..<10]"
    using assms(1) by (simp add: board_def ticket_numbers_def upt_rec)
  finally show ?thesis using assms(2) by simp
qed

lemma board_index: "board ts \<Longrightarrow> t \<in> set ts \<Longrightarrow> \<exists>k < 10. t = ts ! k \<and> number t = int k + 1"
  by (metis board_length board_nth in_set_conv_nth)

lemma board_unique: "board ts \<Longrightarrow> t \<in> set ts \<Longrightarrow> t' \<in> set ts \<Longrightarrow> number t = number t' \<Longrightarrow> t = t'"
  by (metis board_index add_right_cancel of_nat_eq_iff)

lemma board_fresh: "board fresh_tickets" "sold fresh_tickets = 0"
  by (auto simp: board_def fresh_tickets_def ticket_numbers_def upt_rec sold_def)

text \<open>Replacing a ticket by one of the same number.\<close>

lemma numbers_update:
  assumes "board ts" and "k < 10" and "number u = number (ts ! k)"
  shows "map number (ts[k := u]) = ticket_numbers"
proof -
  have "map number (ts[k := u]) = (map number ts)[k := map number ts ! k]"
    using assms board_length [OF assms(1)] by (simp add: map_update)
  also have "\<dots> = map number ts" by (rule list_update_id)
  finally show ?thesis using assms(1) by (simp add: board_def)
qed

lemma sold_update: "k < length ts \<Longrightarrow> sold (ts[k := u]) + (if wallet (ts ! k) = None then 0 else 1) =
    sold ts + (if wallet u = None then 0 else 1)"
proof (induction ts arbitrary: k)
  case (Cons t ts)
  show ?case
  proof (cases k)
    case 0
    then show ?thesis by simp
  next
    case (Suc m)
    then have "sold (ts[m := u]) + (if wallet (ts ! m) = None then 0 else 1) =
        sold ts + (if wallet u = None then 0 else 1)" using Cons by simp
    then show ?thesis using Suc by (simp del: not_None_eq)
  qed
qed simp

lemma sold_bound: "board ts \<Longrightarrow> sold ts \<le> 10"
  using board_length [of ts] length_filter_le [of "\<lambda>t. wallet t \<noteq> None" ts] by (simp add: sold_def)

lemma board_sell:
  assumes b: "board ts" and k: "k < 10" and w: "wallet (ts ! k) = None"
    and a: "\<not> list_ex (\<lambda>t. wallet t = Some a) ts"
  shows "board (ts[k := (ts ! k)\<lparr>wallet := Some a\<rparr>])" and "sold (ts[k := (ts ! k)\<lparr>wallet := Some a\<rparr>]) = Suc (sold ts)"
    and "sold ts < 10"
proof -
  let ?u = "(ts ! k)\<lparr>wallet := Some a\<rparr>"
  have l: "length ts = 10" by (rule board_length [OF b])
  have in': "t \<in> set (ts[k := ?u]) \<Longrightarrow> t = ?u \<or> t \<in> set ts" for t
    using set_update_subset_insert [of ts k ?u] by auto
  have none: "wallet t \<noteq> Some a" if "t \<in> set ts" for t using a that by (auto simp: list_ex_iff)
  show "board (ts[k := ?u])"
    unfolding board_def
  proof (intro conjI ballI impI)
    show "map number (ts[k := ?u]) = ticket_numbers" by (rule numbers_update [OF b k]) simp
  next
    fix t assume "t \<in> set (ts[k := ?u])" "refunded t"
    then show "wallet t \<noteq> None" using in' b by (fastforce simp: board_def)
  next
    fix t t' assume h: "t \<in> set (ts[k := ?u])" "t' \<in> set (ts[k := ?u])" "wallet t \<noteq> None \<and> wallet t = wallet t'"
    show "number t = number t'"
    proof (cases "wallet t = Some a")
      case True
      then have "t = ?u" "t' = ?u" using in' [OF h(1)] in' [OF h(2)] none h(3) by auto
      then show ?thesis by simp
    next
      case False
      then have "t \<noteq> ?u" "t' \<noteq> ?u" using h(3) by auto
      then have "t \<in> set ts" "t' \<in> set ts" using in' [OF h(1)] in' [OF h(2)] by simp_all
      then show ?thesis using h(3) b unfolding board_def by blast
    qed
  qed
  show s: "sold (ts[k := ?u]) = Suc (sold ts)" using sold_update [of k ts ?u] k l w by simp
  then show "sold ts < 10"
    using sold_bound [OF \<open>board (ts[k := ?u])\<close>] by simp
qed

lemma board_refund:
  assumes b: "board ts" and k: "k < 10" and w: "wallet (ts ! k) \<noteq> None"
  shows "board (ts[k := (ts ! k)\<lparr>refunded := True\<rparr>])" and "sold (ts[k := (ts ! k)\<lparr>refunded := True\<rparr>]) = sold ts"
proof -
  let ?u = "(ts ! k)\<lparr>refunded := True\<rparr>"
  have l: "length ts = 10" by (rule board_length [OF b])
  have m: "ts ! k \<in> set ts" using k l by simp
  have in': "\<exists>t' \<in> set ts. number t = number t' \<and> wallet t = wallet t' \<and> (refunded t \<longrightarrow> refunded t' \<or> t = ?u)"
    if "t \<in> set (ts[k := ?u])" for t
  proof (cases "t = ?u")
    case True
    then show ?thesis by (intro bexI [OF _ m]) simp
  next
    case False
    then have "t \<in> set ts" using set_update_subset_insert [of ts k ?u] that by blast
    then show ?thesis by blast
  qed
  show "board (ts[k := ?u])"
    unfolding board_def
  proof (intro conjI ballI impI)
    show "map number (ts[k := ?u]) = ticket_numbers" by (rule numbers_update [OF b k]) simp
  next
    fix t assume t: "t \<in> set (ts[k := ?u])" "refunded t"
    obtain t' where "t' \<in> set ts" "wallet t = wallet t'" "refunded t' \<or> t = ?u" using in' [OF t(1)] t(2) by blast
    then show "wallet t \<noteq> None"
    proof (elim disjE)
      assume "t = ?u"
      then show ?thesis using w by simp
    qed (use b in \<open>simp add: board_def\<close>)
  next
    fix t t' assume h: "t \<in> set (ts[k := ?u])" "t' \<in> set (ts[k := ?u])" "wallet t \<noteq> None \<and> wallet t = wallet t'"
    obtain r where "r \<in> set ts" "number t = number r" "wallet t = wallet r" using in' [OF h(1)] by blast
    moreover obtain r' where "r' \<in> set ts" "number t' = number r'" "wallet t' = wallet r'" using in' [OF h(2)] by blast
    ultimately show "number t = number t'" using h(3) b unfolding board_def by metis
  qed
  show "sold (ts[k := ?u]) = sold ts" using sold_update [of k ts ?u] k l w by (cases "wallet (ts ! k)") auto
qed

lemma refund_first_some:
  "refund_first a ts = Some ts' \<Longrightarrow>
     \<exists>k < length ts. wallet (ts ! k) = Some a \<and> \<not> refunded (ts ! k) \<and> ts' = ts[k := (ts ! k)\<lparr>refunded := True\<rparr>]"
proof (induction ts arbitrary: ts')
  case (Cons t ts)
  show ?case
  proof (cases "wallet t = Some a \<and> \<not> refunded t")
    case True
    then show ?thesis using Cons.prems by (intro exI [of _ 0]) simp
  next
    case False
    then obtain us where u: "refund_first a ts = Some us" "ts' = t # us" using Cons.prems by (auto split: if_splits)
    then obtain k where "k < length ts" "wallet (ts ! k) = Some a" "\<not> refunded (ts ! k)"
      "us = ts[k := (ts ! k)\<lparr>refunded := True\<rparr>]" using Cons.IH by blast
    then show ?thesis using u by (intro exI [of _ "Suc k"]) simp
  qed
qed simp

section \<open>Applying an event keeps a round well-formed\<close>

lemma go_number_less: "go_number s = Inr n \<Longrightarrow> n < 2 ^ 64"
  by (auto simp: go_number_def split: option.splits if_splits)

lemma started_typed: "apply_started e = Inr d \<Longrightarrow> well_typed d"
  using board_fresh by (auto simp: apply_started_def well_typed_def fresh_tickets_def dest!: go_number_less split: sum.splits)

lemma requested_typed: "well_typed d \<Longrightarrow> apply_requested d e = Inr d' \<Longrightarrow> well_typed d'"
  by (auto simp: apply_requested_def well_typed_def split: if_splits)

lemma drawn_typed: "well_typed d \<Longrightarrow> apply_drawn d e = Inr d' \<Longrightarrow> well_typed d'"
  by (auto simp: apply_drawn_def well_typed_def Let_def split: if_splits sum.splits)

lemma cancelled_typed: "well_typed d \<Longrightarrow> apply_cancelled d e = Inr d' \<Longrightarrow> well_typed d'"
  by (auto simp: apply_cancelled_def well_typed_def split: if_splits)

lemma prize_typed: "well_typed d \<Longrightarrow> apply_prize d e = Inr d' \<Longrightarrow> well_typed d'"
  by (auto simp: apply_prize_def well_typed_def split: if_splits)

lemma ticket_typed:
  assumes d: "well_typed d" and a: "apply_ticket d e = Inr d'"
  obtains k where "k < 10" and "wallet (tickets d ! k) = None" and "well_typed d'"
    and "tickets d' = (tickets d)[k := (tickets d ! k)\<lparr>wallet := Some (val e ''buyer'')\<rparr>]"
    and "prizeClaimed d' = prizeClaimed d" and "winner d' = winner d"
proof -
  have b: "board (tickets d)" and c: "participantCount d = int (sold (tickets d))" using d by (simp_all add: well_typed_def)
  obtain n where n0: "go_number (val e ''ticketNumber'') = Inr n" using a by (auto simp: apply_ticket_def split: sum.splits)
  obtain m where m: "go_number (val e ''participantCount'') = Inr m"
    using a n0 by (auto simp: apply_ticket_def split: if_splits sum.splits)
  have n: "1 \<le> n" "n \<le> 10" "status d = ''ACTIVE''" "wallet (tickets d ! (n - 1)) = None"
    "int64 (int m) = int64 (participantCount d + 1)" "\<not> list_ex (\<lambda>t. wallet t = Some (val e ''buyer'')) (tickets d)"
    and d': "d' = d\<lparr>tickets := (tickets d)[n - 1 := (tickets d ! (n - 1))\<lparr>wallet := Some (val e ''buyer'')\<rparr>],
      participantCount := int64 (int m), pool := val e ''pool''\<rparr>"
    using a n0 m by (simp_all add: apply_ticket_def not_less split: if_splits)
  have k: "n - 1 < 10" using n by simp
  note B = board_sell [OF b k n(4,6)]
  have "int64 (int m) = int (Suc (sold (tickets d)))" using n(5) c B(3) by simp
  moreover have "\<not> refunded t" if "t \<in> set (tickets d)" for t using d n(3) that by (auto simp: well_typed_def)
  then have "\<not> refunded t" if "t \<in> set (tickets d')" for t
  proof -
    have "t \<in> set (tickets d) \<or> t = (tickets d ! (n - 1))\<lparr>wallet := Some (val e ''buyer'')\<rparr>"
      using that set_update_subset_insert [of "tickets d" "n - 1"] by (auto simp: d')
    moreover have "tickets d ! (n - 1) \<in> set (tickets d)" using k board_length [OF b] by simp
    ultimately show ?thesis using \<open>\<And>t. t \<in> set (tickets d) \<Longrightarrow> \<not> refunded t\<close> by auto
  qed
  ultimately have "well_typed d'"
    using d B(1,2) n(3) unfolding well_typed_def d' by simp
  then show thesis using that [of "n - 1"] k n(4) d' by simp
qed

lemma refund_typed:
  assumes d: "well_typed d" and a: "apply_refund d e = Inr d'"
  obtains k where "k < 10" and "wallet (tickets d ! k) = Some (val e ''participant'')" and "\<not> refunded (tickets d ! k)"
    and "well_typed d'" and "tickets d' = (tickets d)[k := (tickets d ! k)\<lparr>refunded := True\<rparr>]"
    and "prizeClaimed d' = prizeClaimed d" and "winner d' = winner d"
proof -
  have b: "board (tickets d)" using d by (simp add: well_typed_def)
  obtain ts where st: "status d = ''CANCELLED''" and ts: "refund_first (val e ''participant'') (tickets d) = Some ts"
    and d': "d' = d\<lparr>tickets := ts\<rparr>"
    using a by (auto simp: apply_refund_def split: if_splits option.splits)
  obtain k where k: "k < length (tickets d)" "wallet (tickets d ! k) = Some (val e ''participant'')"
    "\<not> refunded (tickets d ! k)" "ts = (tickets d)[k := (tickets d ! k)\<lparr>refunded := True\<rparr>]"
    using refund_first_some [OF ts] by blast
  have k10: "k < 10" using k(1) board_length [OF b] by simp
  note B = board_refund [OF b k10]
  have "well_typed d'" using d B k(2) st unfolding well_typed_def d' k(4) by simp
  then show thesis using that [of k] k10 k d' by simp
qed

text \<open>Any event the guards let through.\<close>

lemma Apply_cases:
  assumes "Apply r e = Inr d'"
  obtains (started) "r = None" "ev_name e = ''DrawStarted''" "apply_started e = Inr d'"
    | (ticket) d where "r = Some d" "ev_name e = ''TicketBought''" "apply_ticket d e = Inr d'"
    | (requested) d where "r = Some d" "ev_name e = ''RandomnessRequested''" "apply_requested d e = Inr d'"
    | (drawn) d where "r = Some d" "ev_name e = ''LotteryDrawn''" "apply_drawn d e = Inr d'"
    | (cancelled) d where "r = Some d" "ev_name e = ''DrawCancelled''" "apply_cancelled d e = Inr d'"
    | (prize) d where "r = Some d" "ev_name e = ''PrizeClaimed''" "apply_prize d e = Inr d'"
    | (refund) d where "r = Some d" "ev_name e = ''RefundClaimed''" "apply_refund d e = Inr d'"
  using assms unfolding Apply_def Let_def by (auto split: if_splits option.splits)

lemma Apply_typed:
  assumes "Apply r e = Inr d'" and "\<And>d. r = Some d \<Longrightarrow> well_typed d"
  shows "well_typed d'"
  using assms(1)
proof (cases rule: Apply_cases)
  case started
  then show ?thesis by (simp add: started_typed)
next
  case (ticket d)
  then show ?thesis using assms(2) by (metis ticket_typed)
next
  case (refund d)
  then show ?thesis using assms(2) by (metis refund_typed)
qed (use assms(2) requested_typed drawn_typed cancelled_typed prize_typed in blast)+

text \<open>A ticket that was sold stays with its wallet.\<close>

lemma update_keeps:
  assumes "t \<in> set ts" and "k < length ts" and "number u = number (ts ! k)" and "t = ts ! k \<Longrightarrow> wallet u = wallet t"
  shows "\<exists>t' \<in> set (ts[k := u]). number t' = number t \<and> wallet t' = wallet t"
proof -
  obtain m where m: "m < length ts" "t = ts ! m" using assms(1) by (auto simp: in_set_conv_nth)
  show ?thesis
  proof (cases "m = k")
    case True
    then show ?thesis using assms m by (intro bexI [of _ u]) (simp_all add: set_update_memI)
  next
    case False
    then have "t = ts[k := u] ! m" using m by simp
    then show ?thesis using m by (metis length_list_update nth_mem)
  qed
qed

lemma Apply_keeps:
  assumes "Apply (Some d) e = Inr d'" and "well_typed d" and "t \<in> set (tickets d)" and "wallet t \<noteq> None"
  shows "\<exists>t' \<in> set (tickets d'). number t' = number t \<and> wallet t' = wallet t"
proof -
  have l: "length (tickets d) = 10" using assms(2) by (simp add: well_typed_def board_length)
  show ?thesis
    using assms(1)
  proof (cases rule: Apply_cases)
    case (ticket c)
    have "apply_ticket d e = Inr d'" using ticket by simp
    then show ?thesis
      using assms(3,4) l by (elim ticket_typed [OF assms(2)]) (auto intro: update_keeps)
  next
    case (refund c)
    have "apply_refund d e = Inr d'" using refund by simp
    then show ?thesis
      using assms(3,4) l by (elim refund_typed [OF assms(2)]) (auto intro: update_keeps)
  qed (use assms(3) in \<open>auto simp: apply_requested_def apply_drawn_def apply_cancelled_def apply_prize_def Let_def
      split: if_splits sum.splits\<close>)
qed

section \<open>The tables of tickets and claims\<close>

definition ticket_row :: "Ticket list \<Rightarrow> int \<Rightarrow> (string \<times> bool) option" where
  "ticket_row ts n =
     (case List.find (\<lambda>t. number t = n) ts of None \<Rightarrow> None | Some t \<Rightarrow> map_option (\<lambda>w. (w, refunded t)) (wallet t))"

definition claimed_row :: "Draw \<Rightarrow> string \<Rightarrow> string \<Rightarrow> bool" where
  "claimed_row d w k \<longleftrightarrow>
     k = ''PrizeClaimed'' \<and> prizeClaimed d \<and> winner d = Some w \<or>
     k = ''RefundClaimed'' \<and> (\<exists>t \<in> set (tickets d). wallet t = Some w \<and> refunded t)"

text \<open>The tables agree with the rounds.\<close>

definition in_step :: "tables \<Rightarrow> bool" where
  "in_step tb \<longleftrightarrow>
     keyed (draws_table tb) \<and> (\<forall>r \<in> set (draws_table tb). well_typed (snd r)) \<and>
     (\<forall>i n. tickets_table tb (i, n) =
        (case map_of (draws_table tb) i of None \<Rightarrow> None | Some d \<Rightarrow> ticket_row (tickets d) n)) \<and>
     (\<forall>i w k. claims_table tb (i, w, k) \<noteq> None \<longleftrightarrow>
        (case map_of (draws_table tb) i of None \<Rightarrow> False | Some d \<Rightarrow> claimed_row d w k))"

lemma in_step_empty: "in_step no_tables"
  by (simp add: in_step_def no_tables_def keyed_def)

lemma find_unique: "x \<in> set xs \<Longrightarrow> P x \<Longrightarrow> (\<And>y. y \<in> set xs \<Longrightarrow> P y \<Longrightarrow> y = x) \<Longrightarrow> List.find P xs = Some x"
proof (induction xs)
  case (Cons a xs)
  show ?case
  proof (cases "P a")
    case True
    then have "a = x" using Cons.prems(3) [of a] by simp
    then show ?thesis using True by simp
  next
    case False
    then have "x \<in> set xs" using Cons.prems(1,2) by auto
    then have "List.find P xs = Some x" by (rule Cons.IH [OF _ Cons.prems(2)]) (rule Cons.prems(3), simp_all)
    then show ?thesis using False by simp
  qed
qed simp

lemma ticket_row_at: "board ts \<Longrightarrow> t \<in> set ts \<Longrightarrow> ticket_row ts (number t) = map_option (\<lambda>w. (w, refunded t)) (wallet t)"
proof -
  assume b: "board ts" and t: "t \<in> set ts"
  have "List.find (\<lambda>u. number u = number t) ts = Some t" by (rule find_unique [OF t refl board_unique [OF b _ t]])
  then show ?thesis by (simp add: ticket_row_def)
qed

lemma ticket_row_none: "n \<notin> number ` set ts \<Longrightarrow> ticket_row ts n = None"
proof -
  assume "n \<notin> number ` set ts"
  then have "List.find (\<lambda>t. number t = n) ts = None" by (auto simp: find_None_iff)
  then show ?thesis by (simp add: ticket_row_def)
qed

text \<open>
  A table that is not ahead of a list of tickets: what it has sold the list has sold to the same wallet.
\<close>

definition behind :: "int \<Rightarrow> Ticket list \<Rightarrow> (int \<times> int \<rightharpoonup> string \<times> bool) \<Rightarrow> bool" where
  "behind i ts tb \<longleftrightarrow> (\<forall>n w r. tb (i, n) = Some (w, r) \<longrightarrow> (\<exists>t \<in> set ts. number t = n \<and> wallet t = Some w))"

lemma behindD: "behind i ts tb \<Longrightarrow> tb (i, n) = Some (w, r) \<Longrightarrow> \<exists>t \<in> set ts. number t = n \<and> wallet t = Some w"
  by (auto simp: behind_def)

lemma put_ticket_row:
  assumes b: "board ts" and t: "t \<in> set ts" and h: "behind i ts tb"
  shows "put_ticket i t tb = Inr (tb((i, number t) := ticket_row ts (number t)))"
    and "behind i ts (tb((i, number t) := ticket_row ts (number t)))"
proof -
  note R = ticket_row_at [OF b t]
  have u: "t' = t" if "t' \<in> set ts" "number t' = number t" for t' using board_unique [OF b that(1) t that(2)] .
  show "put_ticket i t tb = Inr (tb((i, number t) := ticket_row ts (number t)))"
  proof (cases "wallet t")
    case None
    then have "tb (i, number t) = None" using behindD [OF h, of "number t"] u by (cases "tb (i, number t)") fastforce+
    then show ?thesis using None R by (simp add: put_ticket_def fun_upd_idem)
  next
    case (Some w)
    have "number t \<in> number ` set ts" using t by simp
    also have "number ` set ts = set ticket_numbers" using b by (metis board_def set_map)
    finally have n: "number t \<in> set ticket_numbers" .
    have other: "map_option fst (tb (i, m)) \<noteq> Some w" if none: "tb (i, number t) = None" for m
    proof
      assume "map_option fst (tb (i, m)) = Some w"
      then obtain r where r: "tb (i, m) = Some (w, r)" by auto
      then obtain t' where t': "t' \<in> set ts" "number t' = m" "wallet t' = Some w" using behindD [OF h] by blast
      then have "number t' = number t" using b t Some unfolding board_def by (metis option.distinct(1))
      then show False using t' r none by simp
    qed
    have same: "w' = w" if "tb (i, number t) = Some (w', r)" for w' r
      using behindD [OF h that] u Some by fastforce
    show ?thesis
      using Some R n other same by (auto simp: put_ticket_def list_ex_iff split: option.splits)
  qed
  show "behind i ts (tb((i, number t) := ticket_row ts (number t)))"
    using h t R by (auto simp: behind_def split: if_splits)
qed

lemma put_tickets_rows:
  assumes "board ts" and "set us \<subseteq> set ts" and "behind i ts tb"
  shows "\<exists>tb'. put_tickets i us tb = Inr tb' \<and>
    (\<forall>j n. tb' (j, n) = (if j = i \<and> n \<in> number ` set us then ticket_row ts n else tb (j, n)))"
  using assms(2,3)
proof (induction us arbitrary: tb)
  case (Cons t us)
  have t: "t \<in> set ts" and us: "set us \<subseteq> set ts" using Cons.prems(1) by simp_all
  note P = put_ticket_row [OF assms(1) t Cons.prems(2)]
  obtain tb' where "put_tickets i us (tb((i, number t) := ticket_row ts (number t))) = Inr tb'"
    "\<forall>j n. tb' (j, n) = (if j = i \<and> n \<in> number ` set us then ticket_row ts n
       else (tb((i, number t) := ticket_row ts (number t))) (j, n))"
    using Cons.IH [OF us P(2)] by blast
  then show ?case using P(1) by (intro exI [of _ tb']) auto
qed simp

lemma put_all_tickets:
  assumes "board ts" and "behind i ts tb"
  shows "\<exists>tb'. put_tickets i ts tb = Inr tb' \<and>
    (\<forall>j n. tb' (j, n) = (if j = i then ticket_row ts n else tb (j, n)))"
proof -
  obtain tb' where t: "put_tickets i ts tb = Inr tb'"
    "\<forall>j n. tb' (j, n) = (if j = i \<and> n \<in> number ` set ts then ticket_row ts n else tb (j, n))"
    using put_tickets_rows [OF assms(1) order_refl assms(2)] by blast
  have "tb (i, n) = ticket_row ts n" if "n \<notin> number ` set ts" for n
    using ticket_row_none [OF that] behindD [OF assms(2), of n] that by (cases "tb (i, n)") force+
  then show ?thesis using t by auto
qed

lemma put_tickets_behind:
  "in_step tb \<Longrightarrow> Apply (map_of (draws_table tb) i) e = Inr d' \<Longrightarrow> behind i (tickets d') (tickets_table tb)"
proof -
  assume s: "in_step tb" and a: "Apply (map_of (draws_table tb) i) e = Inr d'"
  show ?thesis
    unfolding behind_def
  proof (intro allI impI)
    fix n w r
    assume "tickets_table tb (i, n) = Some (w, r)"
    then obtain d where d: "map_of (draws_table tb) i = Some d" and "ticket_row (tickets d) n = Some (w, r)"
      using s by (auto simp: in_step_def split: option.splits)
    then obtain t where t: "t \<in> set (tickets d)" "number t = n" "wallet t = Some w"
      by (auto simp: ticket_row_def split: option.splits dest!: find_SomeD)
    have wt: "well_typed d" using s map_of_SomeD [OF d] by (auto simp: in_step_def)
    show "\<exists>t \<in> set (tickets d'). number t = n \<and> wallet t = Some w"
    proof (rule Apply_keeps [OF a [unfolded d] wt t(1), THEN bexE])
      show "wallet t \<noteq> None" using t by simp
    qed (use t in auto)
  qed
qed

text \<open>The one an event pays.\<close>

definition claimant :: "Event \<Rightarrow> string" where
  "claimant e = (if ev_name e = ''RefundClaimed'' then val e ''participant'' else val e ''winner'')"

lemma put_claim_result:
  assumes "ev_name e \<in> {''PrizeClaimed'', ''RefundClaimed''} \<longrightarrow> ct (i, claimant e, ev_name e) = None"
  shows "put_claim i e ct \<noteq> Inl Constraint_violated" and
    "put_claim i e ct = Inr ct' \<Longrightarrow> (ct' (j, w, k) \<noteq> None \<longleftrightarrow> ct (j, w, k) \<noteq> None \<or>
       j = i \<and> w = claimant e \<and> k = ev_name e \<and> k \<in> {''PrizeClaimed'', ''RefundClaimed''})"
  using assms by (auto simp: put_claim_def claimant_def Let_def numeric_def split: if_splits sum.splits option.splits)

text \<open>What an event adds to the claims of a round.\<close>

lemma bex_update:
  assumes "m < length xs"
  shows "(\<exists>y \<in> set (xs[m := x]). Q y) \<or> Q (xs ! m) \<longleftrightarrow> (\<exists>y \<in> set xs. Q y) \<or> Q x"
  using assms by (induction xs arbitrary: m) (auto split: nat.split)

abbreviation refunded_wallet :: "Ticket list \<Rightarrow> string \<Rightarrow> bool" where
  "refunded_wallet ts w \<equiv> \<exists>t \<in> set ts. wallet t = Some w \<and> refunded t"

lemma sale_refunds:
  assumes "board ts" and "length ts = 10" and "m < 10" and "wallet (ts ! m) = None"
  shows "refunded_wallet (ts[m := (ts ! m)\<lparr>wallet := Some b\<rparr>]) w \<longleftrightarrow> refunded_wallet ts w"
proof -
  have "\<not> refunded (ts ! m)" using assms by (auto simp: board_def)
  then show ?thesis
    using bex_update [of m ts "(ts ! m)\<lparr>wallet := Some b\<rparr>" "\<lambda>t. wallet t = Some w \<and> refunded t"] assms by simp
qed

lemma refund_refunds:
  assumes b: "board ts" "length ts = 10" and m: "m < 10" "wallet (ts ! m) = Some v" "\<not> refunded (ts ! m)"
  shows "refunded_wallet (ts[m := (ts ! m)\<lparr>refunded := True\<rparr>]) w \<longleftrightarrow> refunded_wallet ts w \<or> w = v"
    and "\<not> refunded_wallet ts v"
proof -
  show "refunded_wallet (ts[m := (ts ! m)\<lparr>refunded := True\<rparr>]) w \<longleftrightarrow> refunded_wallet ts w \<or> w = v"
    using bex_update [of m ts "(ts ! m)\<lparr>refunded := True\<rparr>" "\<lambda>t. wallet t = Some w \<and> refunded t"] m b(2) by auto
  show "\<not> refunded_wallet ts v"
  proof
    assume "refunded_wallet ts v"
    then obtain t where t: "t \<in> set ts" "wallet t = Some v" "refunded t" by blast
    have n: "ts ! m \<in> set ts" using m(1) b(2) by simp
    then have "number t = number (ts ! m)" using b(1) t m(2) unfolding board_def by (metis option.distinct(1))
    then have "t = ts ! m" by (rule board_unique [OF b(1) t(1) n])
    then show False using t(3) m(3) by simp
  qed
qed

lemma claims_added:
  assumes "Apply (Some d) e = Inr d'" and "well_typed d"
  shows "claimed_row d' w k \<longleftrightarrow> claimed_row d w k \<or>
      w = claimant e \<and> k = ev_name e \<and> k \<in> {''PrizeClaimed'', ''RefundClaimed''}"
    and "ev_name e \<in> {''PrizeClaimed'', ''RefundClaimed''} \<Longrightarrow> \<not> claimed_row d (claimant e) (ev_name e)"
proof -
  have b: "board (tickets d)" and l: "length (tickets d) = 10" using assms(2) by (simp_all add: well_typed_def board_length)
  have "(claimed_row d' w k \<longleftrightarrow> claimed_row d w k \<or>
      w = claimant e \<and> k = ev_name e \<and> k \<in> {''PrizeClaimed'', ''RefundClaimed''}) \<and>
    (ev_name e \<in> {''PrizeClaimed'', ''RefundClaimed''} \<longrightarrow> \<not> claimed_row d (claimant e) (ev_name e))"
    using assms(1)
  proof (cases rule: Apply_cases)
    case (ticket c)
    obtain m where m: "m < 10" "wallet (tickets d ! m) = None" "prizeClaimed d' = prizeClaimed d" "winner d' = winner d"
      "tickets d' = (tickets d)[m := (tickets d ! m)\<lparr>wallet := Some (val e ''buyer'')\<rparr>]"
      using ticket_typed [OF assms(2), of e d'] ticket by auto
    have "refunded_wallet (tickets d') w \<longleftrightarrow> refunded_wallet (tickets d) w"
      unfolding m(5) by (rule sale_refunds [OF b l m(1,2)])
    then show ?thesis using m ticket by (auto simp: claimed_row_def)
  next
    case (refund c)
    obtain m where m: "m < 10" "wallet (tickets d ! m) = Some (val e ''participant'')" "\<not> refunded (tickets d ! m)"
      "prizeClaimed d' = prizeClaimed d" "winner d' = winner d"
      "tickets d' = (tickets d)[m := (tickets d ! m)\<lparr>refunded := True\<rparr>]"
      using refund_typed [OF assms(2), of e d'] refund by auto
    note R = refund_refunds [OF b l m(1-3)]
    have "refunded_wallet (tickets d') v \<longleftrightarrow> refunded_wallet (tickets d) v \<or> v = val e ''participant''" for v
      unfolding m(6) by (rule R(1))
    moreover note R(2)
    ultimately show ?thesis using m(4,5) refund(2) by (auto simp: claimed_row_def claimant_def)
  next
    case (prize c)
    then show ?thesis using assms(2) by (auto simp: apply_prize_def claimed_row_def claimant_def well_typed_def split: if_splits)
  next
    case (requested c)
    then have "tickets d' = tickets d" "prizeClaimed d' = prizeClaimed d" "winner d' = winner d"
      by (auto simp: apply_requested_def split: if_splits)
    then show ?thesis using requested(2) by (auto simp: claimed_row_def)
  next
    case (cancelled c)
    then have "tickets d' = tickets d" "prizeClaimed d' = prizeClaimed d" "winner d' = winner d"
      by (auto simp: apply_cancelled_def split: if_splits)
    then show ?thesis using cancelled(2) by (auto simp: claimed_row_def)
  next
    case (drawn c)
    then have "status d = ''DRAWING''" "tickets d' = tickets d" "prizeClaimed d' = prizeClaimed d"
      by (auto simp: apply_drawn_def Let_def split: if_splits sum.splits)
    moreover have "\<not> prizeClaimed d" using assms(2) calculation(1) by (simp add: well_typed_def)
    ultimately show ?thesis using drawn(2) by (auto simp: claimed_row_def)
  qed simp
  then show "claimed_row d' w k \<longleftrightarrow> claimed_row d w k \<or>
      w = claimant e \<and> k = ev_name e \<and> k \<in> {''PrizeClaimed'', ''RefundClaimed''}"
    and "ev_name e \<in> {''PrizeClaimed'', ''RefundClaimed''} \<Longrightarrow> \<not> claimed_row d (claimant e) (ev_name e)"
    by blast+
qed

section \<open>Projecting an event keeps the tables in step\<close>

lemma started_claims:
  assumes "Apply None e = Inr d'"
  shows "\<not> claimed_row d' w k \<and> ev_name e = ''DrawStarted''"
  using assms
proof (cases rule: Apply_cases)
  case started
  then show ?thesis
    by (auto simp: apply_started_def claimed_row_def fresh_tickets_def split: sum.splits)
qed simp_all

lemma in_step_row: "in_step tb \<Longrightarrow> map_of (draws_table tb) i = Some d \<Longrightarrow> well_typed d"
  unfolding in_step_def by (metis map_of_SomeD snd_conv)

lemma in_step_claim:
  "in_step tb \<Longrightarrow> claims_table tb (i, w, k) \<noteq> None \<longleftrightarrow>
     (case map_of (draws_table tb) i of None \<Rightarrow> False | Some d \<Rightarrow> claimed_row d w k)"
  by (simp add: in_step_def)

lemma claims_step:
  assumes s: "in_step tb" and a: "Apply (map_of (draws_table tb) i) e = Inr d'"
  shows "ev_name e \<in> {''PrizeClaimed'', ''RefundClaimed''} \<Longrightarrow> claims_table tb (i, claimant e, ev_name e) = None"
    and "claimed_row d' w k \<longleftrightarrow> claims_table tb (i, w, k) \<noteq> None \<or>
      w = claimant e \<and> k = ev_name e \<and> k \<in> {''PrizeClaimed'', ''RefundClaimed''}"
proof -
  note I = in_step_claim [OF s]
  show "claims_table tb (i, claimant e, ev_name e) = None" if n: "ev_name e \<in> {''PrizeClaimed'', ''RefundClaimed''}"
  proof (cases "map_of (draws_table tb) i")
    case None
    then show ?thesis using I [of i "claimant e" "ev_name e"] by (simp del: not_None_eq)
  next
    case (Some d)
    have "\<not> claimed_row d (claimant e) (ev_name e)"
      by (rule claims_added(2) [OF a [unfolded Some] in_step_row [OF s Some] n])
    then show ?thesis using I [of i "claimant e" "ev_name e"] Some by (simp del: not_None_eq)
  qed
  show "claimed_row d' w k \<longleftrightarrow> claims_table tb (i, w, k) \<noteq> None \<or>
      w = claimant e \<and> k = ev_name e \<and> k \<in> {''PrizeClaimed'', ''RefundClaimed''}"
  proof (cases "map_of (draws_table tb) i")
    case None
    then show ?thesis using started_claims [of e d' w k] a I [of i w k] by auto
  next
    case (Some d)
    show ?thesis
      unfolding I Some option.case by (rule claims_added(1) [OF a [unfolded Some] in_step_row [OF s Some]])
  qed
qed

lemma project_in_step:
  assumes s: "in_step tb"
  shows "project e tb \<noteq> Inl Constraint_violated" and "project e tb = Inr tb' \<Longrightarrow> in_step tb'"
proof -
  have "project e tb \<noteq> Inl Constraint_violated \<and> (project e tb = Inr tb' \<longrightarrow> in_step tb')"
  proof (cases "\<exists>i d. numeric (val e ''drawId'') = Inr i \<and> Apply (map_of (draws_table tb) i) e = Inr d")
    case False
    then show ?thesis by (auto simp: project_def numeric_def split: sum.splits option.splits if_splits)
  next
    case True
    then obtain i d where i: "numeric (val e ''drawId'') = Inr i" and a: "Apply (map_of (draws_table tb) i) e = Inr d" by blast
    have j: "numeric (draw_id d) = Inr i" using i Apply_id [OF a] by simp
    have w: "well_typed d" using Apply_typed [OF a] in_step_row [OF s] by blast
    then have b: "board (tickets d)" by (simp add: well_typed_def)
    obtain tt where t: "put_tickets i (tickets d) (tickets_table tb) = Inr tt"
      "\<forall>j n. tt (j, n) = (if j = i then ticket_row (tickets d) n else tickets_table tb (j, n))"
      using put_all_tickets [OF b put_tickets_behind [OF s a]] by blast
    have "ev_name e \<in> {''PrizeClaimed'', ''RefundClaimed''} \<longrightarrow> claims_table tb (i, claimant e, ev_name e) = None"
      using claims_step(1) [OF s a] by blast
    note C = put_claim_result [of e "claims_table tb" i, OF this]
    show ?thesis
    proof (intro conjI impI)
      show "project e tb \<noteq> Inl Constraint_violated"
        using C(1) i a j t(1) by (auto simp: project_def numeric_def split: sum.splits option.splits if_splits)
    next
      assume p: "project e tb = Inr tb'"
      then obtain ct where c: "put_claim i e (claims_table tb) = Inr ct"
        and tb': "tb' = \<lparr>draws_table = AList.update i d (draws_table tb), tickets_table = tt, claims_table = ct\<rparr>"
        using i a j t(1) by (auto simp: project_def split: sum.splits)
      have k: "keyed (draws_table tb')" using project_keyed [OF p] s by (simp add: in_step_def)
      have "well_typed (snd r)" if "r \<in> set (draws_table tb')" for r
      proof -
        have "map_of (draws_table tb') (fst r) = Some (snd r)" using that k by (simp add: keyed_def)
        then show ?thesis using w in_step_row [OF s] by (auto simp: tb' update_conv split: if_splits)
      qed
      moreover have "tickets_table tb' (j, n) =
          (case map_of (draws_table tb') j of None \<Rightarrow> None | Some d \<Rightarrow> ticket_row (tickets d) n)" for j n
        using t(2) s by (simp add: tb' update_conv in_step_def)
      moreover have "claims_table tb' (j, v, k) \<noteq> None \<longleftrightarrow>
          (case map_of (draws_table tb') j of None \<Rightarrow> False | Some d \<Rightarrow> claimed_row d v k)" for j v k
      proof (cases "j = i")
        case True
        have "claims_table tb' (j, v, k) \<noteq> None \<longleftrightarrow> claimed_row d v k"
          unfolding claims_step(2) [OF s a] using C(2) [OF c] True by (simp add: tb')
        then show ?thesis using True by (simp add: tb' update_conv)
      next
        case False
        have "claims_table tb' (j, v, k) \<noteq> None \<longleftrightarrow> claims_table tb (j, v, k) \<noteq> None"
          using C(2) [OF c] False by (simp add: tb')
        then show ?thesis using False in_step_claim [OF s] by (simp add: tb' update_conv)
      qed
      ultimately show "in_step tb'" using k by (simp add: in_step_def)
    qed
  qed
  then show "project e tb \<noteq> Inl Constraint_violated" and "project e tb = Inr tb' \<Longrightarrow> in_step tb'" by blast+
qed

lemma project_all_in_step: "in_step tb \<Longrightarrow> project_all es tb = Inr tb' \<Longrightarrow> in_step tb'"
  by (induction es arbitrary: tb) (auto dest: project_in_step(2) split: sum.splits)

lemma well_kept_in_step: "well_kept s \<Longrightarrow> in_step (tables s)"
  using project_all_in_step [OF in_step_empty] by (auto simp: well_kept_def)

lemma commit_events_unviolated:
  "in_step (tables s) \<Longrightarrow> commit_events b es s \<noteq> Inl Constraint_violated"
proof (induction es arbitrary: s)
  case (Cons e es)
  then show ?case using project_in_step [of "tables s" e] by (auto split: sum.splits)
qed simp

text \<open>C27: The constraints of the database never fire: whatever block is presented to a store as it is kept, with
  whatever logs, it is committed, skipped, or refused for what is wrong with the block or its events, and
  not because a ticket, a wallet or a claim would be stored twice.\<close>

theorem constraints_never_fire:
  assumes "well_kept s"
  shows "CommitBlock b es s \<noteq> Inl Constraint_violated"
proof (cases "b_number b = st_cursor s + 1")
  case True
  have "blocks s (b_number b) = None"
  proof (cases "blocks s (b_number b)")
    case (Some c)
    have "chained s" using assms by (simp add: well_kept_def)
    from chained_block [OF this Some] True show ?thesis by simp
  qed
  then show ?thesis
    using commit_events_unviolated [of "s\<lparr>blocks := (blocks s)(b_number b \<mapsto> b)\<rparr>" b es] well_kept_in_step [OF assms]
    by (auto simp: CommitBlock_def split: sum.split)
qed (auto simp: CommitBlock_def split: option.split)

text \<open>C24: Every round that is read from the store is well-formed: it has ten numbered tickets, as many sold as it
  counts and no wallet with two; its drawn number, winner, request, time of settlement, claimed prize and
  paid fee, and its refunds, are present exactly in the states they belong to; and the remaining time and
  the readiness for the draw are those at the time of the block.\<close>

theorem rounds_well_typed:
  assumes "well_kept s" and "Read_store s mode limit = Inr sn" and "d \<in> set (sn_draws sn)"
  shows "well_typed d \<and> remainingSeconds d = (if status d = ''ACTIVE'' then max 0 (deadline d - int (sn_time sn)) else 0) \<and>
    (draw_canPerformDraw d \<longleftrightarrow> status d = ''ACTIVE'' \<and> (sold (tickets d) = 5 \<or> remainingSeconds d = 0))"
proof -
  obtain ds where q: "query s mode limit = Inr ds" and ds: "sn_draws sn = (if limit < length ds then take limit (map (Refresh (sn_time sn)) ds) else map (Refresh (sn_time sn)) ds)"
    using assms(2) by (auto simp: Read_store_def Let_def split: sum.splits if_splits)
  then obtain c where c: "c \<in> set ds" "d = Refresh (sn_time sn) c" using assms(3) by (auto simp: take_map split: if_splits dest: in_set_takeD)
  have "\<exists>i. (i, c) \<in> set (draws_table (tables s))"
    using q c(1) by (auto simp: query_def Let_def split: read_mode.splits sum.splits if_splits dest!: in_set_takeD) (blast+)?
  then have w: "well_typed c" using well_kept_in_step [OF assms(1)] by (auto simp: in_step_def)
  then have "well_typed d" by (simp add: c(2) Refresh_def well_typed_def)
  then show ?thesis using w by (auto simp: c(2) Refresh_def well_typed_def)
qed

end
