(* ===== verification/CatchUp.thy ===== *)
theory CatchUp
  imports Shape
begin

text \<open>
  The indexer catches up: against a node that keeps answering from one chain, the passes reach the newest
  confirmed block, whatever orphaned blocks the store held before.
\<close>

section \<open>A node with one chain\<close>

text \<open>
  \<open>H\<close> names the blocks of the chain from \<open>start\<close> to \<open>head\<close>: each on its parent, with logs the contract can have
  emitted.
\<close>

definition serves ::
  "indexer \<Rightarrow> (addr \<Rightarrow> string) \<Rightarrow> (string \<rightharpoonup> chain_block) \<Rightarrow> int \<Rightarrow> nat \<Rightarrow> (int \<Rightarrow> string) \<Rightarrow> chain_view \<Rightarrow> bool" where
  "serves ix sa B start head H v \<longleftrightarrow>
     v_head v = Some head \<and>
     (\<forall>n. start \<le> n \<and> n \<le> int head \<longrightarrow> H n \<noteq> [] \<and>
        (\<exists>c es. B (H n) = Some c \<and> cb_number c = n \<and> (start < n \<longrightarrow> cb_parent c = H (n - 1)) \<and>
           distinct (map (\<lambda>l. (log_txHash l, log_index l)) (cb_logs c)) \<and>
           v_header v n = Some (header_of (H n) c) \<and> v_logs v (H n) = Some (cb_logs c) \<and>
           block_events ix sa (H n) c = Inr es))"

lemma servesD:
  assumes "serves ix sa B start head H v" and "start \<le> n" and "n \<le> int head"
  obtains c es where "H n \<noteq> []" "B (H n) = Some c" "cb_number c = n" "start < n \<longrightarrow> cb_parent c = H (n - 1)"
    "distinct (map (\<lambda>l. (log_txHash l, log_index l)) (cb_logs c))" "v_header v n = Some (header_of (H n) c)"
    "v_logs v (H n) = Some (cb_logs c)" "block_events ix sa (H n) c = Inr es"
  using assms unfolding serves_def by blast

text \<open>The events of the chain up to a block.\<close>

definition chain_events :: "indexer \<Rightarrow> (addr \<Rightarrow> string) \<Rightarrow> (string \<rightharpoonup> chain_block) \<Rightarrow> int \<Rightarrow> (int \<Rightarrow> string) \<Rightarrow> int \<Rightarrow> Event list" where
  "chain_events ix sa B start H n = lineage ix sa B (nat (n - start + 1)) (H n)"

lemma chain_events_step:
  assumes v: "serves ix sa B start head H v" and n: "start \<le> n" "n \<le> int head"
    and c: "B (H n) = Some c" "block_events ix sa (H n) c = Inr es"
  shows "chain_events ix sa B start H n = chain_events ix sa B start H (n - 1) @ es"
proof -
  have s: "nat (n - start + 1) = Suc (nat (n - 1 - start + 1))" using n by linarith
  have "lineage ix sa B (nat (n - 1 - start + 1)) (cb_parent c) = lineage ix sa B (nat (n - 1 - start + 1)) (H (n - 1))"
  proof (cases "start < n")
    case True
    obtain c' where "B (H n) = Some c'" "cb_parent c' = H (n - 1)" using servesD [OF v n] True by metis
    then show ?thesis using c(1) by simp
  next
    case False
    then have "nat (n - 1 - start + 1) = 0" by simp
    then show ?thesis by (simp only: lineage.simps)
  qed
  then show ?thesis unfolding chain_events_def s using c by simp
qed

lemma chain_events_prefix:
  assumes v: "serves ix sa B start head H v" and n: "start - 1 \<le> n" "n \<le> m" "m \<le> int head"
  shows "\<exists>es. chain_events ix sa B start H m = chain_events ix sa B start H n @ es"
  using n(2,3)
proof (induction m rule: int_ge_induct)
  case (step m)
  then obtain es where e: "chain_events ix sa B start H m = chain_events ix sa B start H n @ es" by auto
  have m: "start \<le> m + 1" "m + 1 \<le> int head" using step n(1) by auto
  obtain c fs where c: "B (H (m + 1)) = Some c" "block_events ix sa (H (m + 1)) c = Inr fs" using servesD [OF v m] by metis
  show ?case using chain_events_step [OF v m c] e by simp
qed simp

section \<open>Committing succeeds\<close>

lemma commit_events_succeed:
  assumes "\<forall>e \<in> set es. int (ev_blockNumber e) = b_number b mod 2 ^ 64 \<and> ev_blockHash e = b_hash b"
    and "distinct (map event_key es)" and "event_key ` set es \<inter> event_key ` set (events s) = {}"
    and "project_all es (tables s) = Inr tb"
  shows "commit_events b es s = Inr (s\<lparr>events := events s @ es, tables := tb\<rparr>)"
  using assms
proof (induction es arbitrary: s)
  case (Cons e es)
  obtain u where p: "project e (tables s) = Inr u" "project_all es u = Inr tb" using Cons.prems(4) by (auto split: sum.splits)
  have "event_key e \<notin> event_key ` set (events s)" using Cons.prems(3) by auto
  moreover have "commit_events b es (s\<lparr>events := events s @ [e], tables := u\<rparr>) =
      Inr (s\<lparr>events := events s @ [e], tables := u, events := events (s\<lparr>events := events s @ [e], tables := u\<rparr>) @ es, tables := tb\<rparr>)"
    by (rule Cons.IH) (use Cons.prems p in auto)
  ultimately show ?case using Cons.prems(1) p(1) by simp
qed simp

text \<open>The blocks of the store are those of the chain.\<close>

definition on_chain :: "(int \<Rightarrow> string) \<Rightarrow> store \<Rightarrow> bool" where
  "on_chain H s \<longleftrightarrow> (\<forall>n b. blocks s n = Some b \<longrightarrow> b_hash b = H n)"

lemma on_chain_hash: "well_kept s \<Longrightarrow> on_chain H s \<Longrightarrow> st_start s \<le> st_cursor s \<Longrightarrow> st_hash s = H (st_cursor s)"
  using chained_reach [of s "st_cursor s"] by (auto simp: well_kept_def chained_def on_chain_def)

lemma on_chain_events:
  assumes g: "grounded ix sa B s" and o: "on_chain H s"
  shows "events s = chain_events ix sa B (st_start s) H (st_cursor s)"
proof (cases "st_start s \<le> st_cursor s")
  case True
  then show ?thesis
    using events_are_lineage [OF g] on_chain_hash [OF _ o] g by (simp add: chain_events_def grounded_def)
next
  case False
  then show ?thesis using events_are_lineage [OF g] by (simp add: chain_events_def)
qed

lemma next_block:
  assumes g: "grounded ix sa B s" and o: "on_chain H s" and v: "serves ix sa B (st_start s) head H v"
    and n: "st_cursor s < int head" "int head < 2 ^ 63"
    and p: "project_all (chain_events ix sa B (st_start s) H (st_cursor s + 1)) no_tables = Inr tb"
    and c: "B (H (st_cursor s + 1)) = Some c" "block_events ix sa (H (st_cursor s + 1)) c = Inr es"
  shows "\<exists>s'. CommitBlock (block_at (st_cursor s + 1) (header_of (H (st_cursor s + 1)) c)) es s = Inr s' \<and>
    grounded ix sa B s' \<and> on_chain H s' \<and> st_cursor s' = st_cursor s + 1 \<and> st_start s' = st_start s"
proof -
  let ?n = "st_cursor s + 1"
  let ?h = "header_of (H ?n) c"
  let ?b = "block_at ?n ?h"
  have s: "well_kept s" and ch: "chained s" using g by (simp_all add: grounded_def well_kept_def)
  have st: "st_start s \<le> ?n" "0 \<le> st_start s" using ch by (simp_all add: chained_def)
  have le: "?n \<le> int head" using n by simp
  obtain c' es' where cb: "H ?n \<noteq> []" "cb_number c = ?n" "st_start s < ?n \<Longrightarrow> cb_parent c = H (?n - 1)"
    "distinct (map (\<lambda>l. (log_txHash l, log_index l)) (cb_logs c))"
    using servesD [OF v st(1) le] c(1) by (metis option.inject)
  have d: "decode_logs ix sa ?h ?n (sort_key log_place (cb_logs c)) = Inr es"
    using c(2) cb(2) by (simp add: block_events_def)
  have "distinct (map (\<lambda>l. (log_txHash l, log_index l)) (sort_key log_place (cb_logs c)))"
    using cb(4) by (metis distinct_map distinct_sort set_sort)
  note K = decoded_keys [OF d this]
  have "ev_blockHash f \<noteq> H ?n" if f: "f \<in> set (events s)" for f
  proof -
    obtain b where "blocks s (int (ev_blockNumber f)) = Some b" "ev_blockHash f = b_hash b"
      using s f by (auto simp: well_kept_def)
    then show ?thesis using grounded_hash [OF g c(1)] cb(2) by simp
  qed
  then have dis: "event_key ` set es \<inter> event_key ` set (events s) = {}"
    using K(2) by (fastforce simp: event_key_def header_of_def)
  have none: "blocks s ?n = None" using chained_block [OF ch, of ?n] by (cases "blocks s ?n") auto
  have "chain_events ix sa B (st_start s) H ?n = events s @ es"
    using chain_events_step [OF v st(1) le c] on_chain_events [OF g o] by simp
  then have pr: "project_all es (tables s) = Inr tb" using p s by (simp add: well_kept_def project_all_append)
  let ?t = "s\<lparr>blocks := (blocks s)(?n \<mapsto> ?b)\<rparr>"
  have "commit_events ?b es ?t = Inr (?t\<lparr>events := events ?t @ es, tables := tb\<rparr>)"
    by (rule commit_events_succeed) (use K dis pr in \<open>simp_all add: block_at_def\<close>)
  moreover have "st_hash s = [] \<or> st_hash s = b_parentHash ?b"
  proof (cases "st_start s \<le> st_cursor s")
    case True
    then show ?thesis using on_chain_hash [OF s o True] cb(3) by (simp add: block_at_def header_of_def)
  next
    case False
    then show ?thesis using ch by (simp add: chained_def)
  qed
  ultimately obtain s' where C: "CommitBlock ?b es s = Inr s'"
    using none by (auto simp: CommitBlock_def block_at_def)
  have m: "b_number ?b = st_cursor s + 1" by (simp add: block_at_def)
  have "grounded ix sa B s'"
    by (rule grounded_commit [where B = B and h = ?h, OF g _ _ _ _ _ _ _ d cb(4) C])
      (use le n c cb in \<open>simp_all add: header_of_def\<close>)
  moreover have "on_chain H s'"
    using o committed_blocks(1) [OF C m] by (auto simp: on_chain_def block_at_def header_of_def)
  ultimately show ?thesis using C committed_cursor [OF C m] by (auto simp: block_at_def)
qed

section \<open>A pass\<close>

text \<open>What the passes rest on: the chain reaches beyond the confirmed block, and the store accepts its events.\<close>

definition followed ::
  "indexer \<Rightarrow> (addr \<Rightarrow> string) \<Rightarrow> (string \<rightharpoonup> chain_block) \<Rightarrow> int \<Rightarrow> nat \<Rightarrow> (int \<Rightarrow> string) \<Rightarrow> int \<Rightarrow> chain_view \<Rightarrow> bool" where
  "followed ix sa B start head H safe v \<longleftrightarrow>
     serves ix sa B start head H v \<and> start - 1 \<le> int head \<and> int head < 2 ^ 63 \<and> safe \<le> int head \<and>
     (start \<le> safe \<longrightarrow> (\<exists>tb. project_all (chain_events ix sa B start H safe) no_tables = Inr tb))"

definition caught :: "indexer \<Rightarrow> (addr \<Rightarrow> string) \<Rightarrow> (string \<rightharpoonup> chain_block) \<Rightarrow> int \<Rightarrow> (int \<Rightarrow> string) \<Rightarrow> store \<Rightarrow> bool" where
  "caught ix sa B start H s \<longleftrightarrow> grounded ix sa B s \<and> on_chain H s \<and> st_start s = start"

lemma scan_reaches:
  assumes f: "followed ix sa B start head H safe v" and s: "caught ix sa B start H s"
  shows "\<exists>s' st'. scan ix sa (\<lambda>_. v) safe f k (st_cursor s) (st_hash s) s st = (st_cursor s', s', st', None) \<and>
    caught ix sa B start H s' \<and> st_cursor s' = max (st_cursor s) (min safe (st_cursor s + int f)) \<and>
    ix_recovering st' = ix_recovering st"
  using s
proof (induction f arbitrary: k s st)
  case 0
  then show ?case by (intro exI [of _ s] exI [of _ st]) (simp add: min_def)
next
  case (Suc f)
  let ?n = "st_cursor s + 1"
  have v: "serves ix sa B start head H v" and big: "int head < 2 ^ 63" and le: "safe \<le> int head"
    using f by (simp_all add: followed_def)
  have g: "grounded ix sa B s" and o: "on_chain H s" and st: "st_start s = start" using Suc.prems by (simp_all add: caught_def)
  have w: "well_kept s" and ch: "chained s" using g by (simp_all add: grounded_def well_kept_def)
  show ?case
  proof (cases "st_cursor s < safe")
    case False
    then show ?thesis using Suc.prems by (intro exI [of _ s] exI [of _ st]) simp
  next
    case True
    have n: "start \<le> ?n" "?n \<le> int head" using ch st True le by (auto simp: chained_def)
    obtain c es where "H ?n \<noteq> []" and c: "B (H ?n) = Some c" "cb_number c = ?n" "start < ?n \<longrightarrow> cb_parent c = H (?n - 1)"
      and "distinct (map (\<lambda>l. (log_txHash l, log_index l)) (cb_logs c))"
      and c': "v_header v ?n = Some (header_of (H ?n) c)" "v_logs v (H ?n) = Some (cb_logs c)"
        "block_events ix sa (H ?n) c = Inr es" by (rule servesD [OF v n])
    have "start \<le> safe" using n True by linarith
    then obtain tb where "project_all (chain_events ix sa B start H safe) no_tables = Inr tb" using f by (auto simp: followed_def)
    moreover obtain rest where "chain_events ix sa B start H safe = chain_events ix sa B start H ?n @ rest"
      using chain_events_prefix [OF v, of ?n safe] n True le by auto
    ultimately obtain u where u: "project_all (chain_events ix sa B (st_start s) H ?n) no_tables = Inr u"
      using prefix_projects st by metis
    have nh: "st_cursor s < int head" using True le by linarith
    obtain s1 where s1: "CommitBlock (block_at ?n (header_of (H ?n) c)) es s = Inr s1" "caught ix sa B start H s1"
      "st_cursor s1 = ?n"
      using next_block [OF g o v [folded st] nh big u c(1) c'(3)] st by (auto simp: caught_def)
    have p: "st_hash s = [] \<or> h_parent (header_of (H ?n) c) = st_hash s"
    proof (cases "start \<le> st_cursor s")
      case True
      then show ?thesis using on_chain_hash [OF w o] c(3) st by (simp add: header_of_def)
    next
      case False
      then show ?thesis using ch st by (simp add: chained_def)
    qed
    have h1: "st_hash s1 = H ?n"
      using on_chain_hash [of s1 H] s1(2,3) n by (simp add: caught_def grounded_def)
    have d: "decode_logs ix sa (header_of (H ?n) c) ?n (sort_key log_place (cb_logs c)) = Inr es"
      using c(2) c'(3) by (simp add: block_events_def)
    have hh: "h_hash (header_of (H ?n) c) = H ?n" by (simp add: header_of_def)
    have "scan ix sa (\<lambda>_. v) safe (Suc f) k (st_cursor s) (st_hash s) s st =
        scan ix sa (\<lambda>_. v) safe f (k + 3) (st_cursor s1) (st_hash s1) s1 (st\<lparr>ix_indexedBlock := ?n\<rparr>)"
      unfolding scan.simps(2) using True c'(1,2) p d s1(1) [unfolded block_at_def] s1(3) h1 hh by (simp, blast)
    moreover obtain s' st' where
      "scan ix sa (\<lambda>_. v) safe f (k + 3) (st_cursor s1) (st_hash s1) s1 (st\<lparr>ix_indexedBlock := ?n\<rparr>) =
        (st_cursor s', s', st', None)"
      "caught ix sa B start H s'" "st_cursor s' = max ?n (min safe (?n + int f))" "ix_recovering st' = ix_recovering st"
      using Suc.IH [OF s1(2), of "k + 3" "st\<lparr>ix_indexedBlock := ?n\<rparr>"] s1(3) by fastforce
    moreover have "max ?n (min safe (?n + int f)) = max (st_cursor s) (min safe (st_cursor s + int (Suc f)))"
      using True by linarith
    ultimately show ?thesis by metis
  qed
qed

text \<open>A block on the chain has only blocks of the chain below it.\<close>

lemma below_on_chain:
  assumes g: "grounded ix sa B s" and v: "serves ix sa B (st_start s) head H v" and a: "a \<le> int head" "a \<le> st_cursor s"
    and b: "b_hash (the (blocks s a)) = H a"
  shows "st_start s \<le> m \<Longrightarrow> m \<le> a \<Longrightarrow> b_hash (the (blocks s m)) = H m"
proof (rotate_tac 1, induction m rule: int_le_induct)
  case (step m)
  have ch: "chained s" using g by (simp add: grounded_def well_kept_def)
  have m: "st_start s \<le> m" "m \<le> int head" "st_start s < m" using step a by simp_all
  obtain x where x: "blocks s m = Some x" using chained_reach [OF ch m(1)] step a by auto
  have e: "b_hash x = H m" using step x by simp
  obtain c where c: "B (b_hash x) = Some c" "cb_parent c = b_parentHash x" using g x unfolding grounded_def by blast
  obtain c' where "B (H m) = Some c'" "cb_parent c' = H (m - 1)" using servesD [OF v m(1,2)] m(3) by metis
  then have "b_parentHash x = H (m - 1)" using c e by simp
  then show ?case using ch x m(3) unfolding chained_def by simp
qed (rule b)

lemma ancestor_found:
  assumes g: "grounded ix sa B s" and v: "serves ix sa B (st_start s) head H v" and a: "a \<le> int head" "a \<le> st_cursor s"
  shows "\<exists>a' k'. find_ancestor (\<lambda>_. v) k s a = Inr (a', k') \<and> a' \<le> a \<and>
    (st_start s \<le> a' \<longrightarrow> b_hash (the (blocks s a')) = H a') \<and>
    (st_start s \<le> a \<and> b_hash (the (blocks s a)) = H a \<longrightarrow> a' = a)"
  using a
proof (induction "nat (a + 1 - st_start s)" arbitrary: k a)
  case 0
  then show ?case by (subst find_ancestor.simps) auto
next
  case (Suc m)
  have n: "st_start s \<le> a" "a \<le> int head" using Suc.hyps(2) Suc.prems by simp_all
  obtain c where c: "v_header v a = Some (header_of (H a) c)" using servesD [OF v n] by metis
  have "chained s" using g by (simp add: grounded_def well_kept_def)
  then obtain b where b: "blocks s a = Some b" using chained_reach [OF _ n(1)] Suc.prems by blast
  show ?case
  proof (cases "b_hash b = H a")
    case True
    then show ?thesis using n c b by (subst find_ancestor.simps) (simp add: header_of_def)
  next
    case False
    have "m = nat (a - 1 + 1 - st_start s)" "a - 1 \<le> int head" "a - 1 \<le> st_cursor s" using Suc.hyps(2) Suc.prems by simp_all
    then obtain a' k' where "find_ancestor (\<lambda>_. v) (Suc k) s (a - 1) = Inr (a', k')" "a' \<le> a - 1"
      "st_start s \<le> a' \<longrightarrow> b_hash (the (blocks s a')) = H a'" using Suc.hyps(1) by metis
    moreover have "find_ancestor (\<lambda>_. v) k s a = find_ancestor (\<lambda>_. v) (Suc k) s (a - 1)"
      using n c b False by (subst find_ancestor.simps) (simp add: header_of_def)
    ultimately show ?thesis using False b by auto
  qed
qed

lemma cut_on_chain:
  assumes g: "grounded ix sa B s" and v: "serves ix sa B (st_start s) head H v" and a: "a \<le> int head" "a \<le> st_cursor s"
    and b: "st_start s \<le> a \<longrightarrow> b_hash (the (blocks s a)) = H a" and t: "cut_off a s t"
  shows "on_chain H t"
  unfolding on_chain_def
proof (intro allI impI)
  fix n x
  assume "blocks t n = Some x"
  then have n: "n \<le> a" "blocks s n = Some x" using t by (auto simp: cut_off_def split: if_splits)
  have "st_start s \<le> n" using chained_block [OF _ n(2)] g by (simp add: grounded_def well_kept_def)
  then show "b_hash x = H n" using below_on_chain [OF g v a _ _ n(1)] b n by force
qed

lemma follow_reaches:
  assumes f: "followed ix sa B start head H safe v" and s: "caught ix sa B start H s"
  shows "\<exists>s' st'. follow ix sa (\<lambda>_. v) tm safe k s st = (s', st', None) \<and> caught ix sa B start H s' \<and>
    st_cursor s' = max (st_cursor s) (min safe (st_cursor s + 100)) \<and>
    (ix_synced st' \<longleftrightarrow> safe \<le> st_cursor s') \<and> \<not> ix_recovering st' \<and> ix_lastSuccess st' = Some tm"
proof -
  obtain s' st' where "scan ix sa (\<lambda>_. v) safe 100 k (st_cursor s) (st_hash s) s (st\<lparr>ix_recovering := False\<rparr>) =
      (st_cursor s', s', st', None)" "caught ix sa B start H s'"
    "st_cursor s' = max (st_cursor s) (min safe (st_cursor s + int 100))" "\<not> ix_recovering st'"
    using scan_reaches [OF f s, of 100 k "st\<lparr>ix_recovering := False\<rparr>"] by auto
  then show ?thesis by (simp add: follow_def)
qed

lemma cut_nothing:
  assumes "well_kept s"
  shows "cut_off (st_cursor s) s s"
  unfolding cut_off_def
proof (intro conjI ext)
  show "events s = filter (\<lambda>e. int (ev_blockNumber e) \<le> st_cursor s) (events s)"
    using event_number [OF assms] by (simp add: filter_id_conv)
  show "blocks s n = (if st_cursor s < n then None else blocks s n)" for n
    using chained_block [of s n] assms by (cases "blocks s n") (auto simp: well_kept_def)
qed simp_all

lemma tip_on_chain:
  assumes "chained s" and "on_chain H s" and "st_start s \<le> st_cursor s"
  shows "b_hash (the (blocks s (st_cursor s))) = H (st_cursor s)"
  using chained_reach [OF assms(1,3)] assms(2) by (auto simp: on_chain_def)

text \<open>
  Where the search for the ancestor ends, the store can be cut off, and what remains is on the chain; all of
  it remains when it was.
\<close>

lemma ancestor_cut:
  assumes f: "followed ix sa B (st_start s) head H safe v" and g: "grounded ix sa B s" and s: "st_start s \<le> st_cursor s"
  obtains a k t where "find_ancestor (\<lambda>_. v) 1 s (min (st_cursor s) (int head)) = Inr (a, k)"
    "Rewind (max a (st_start s - 1)) s = Inr t" "caught ix sa B (st_start s) H t"
    "st_cursor t = max a (st_start s - 1)" "st_start s - 1 \<le> st_cursor t" "st_cursor t \<le> int head" "st_cursor t \<le> st_cursor s"
    "on_chain H s \<and> st_cursor s \<le> int head \<longrightarrow> st_cursor t = st_cursor s"
    "st_cursor t = st_cursor s \<longrightarrow> on_chain H s"
proof -
  have v: "serves ix sa B (st_start s) head H v" and low: "st_start s - 1 \<le> int head" using f by (simp_all add: followed_def)
  have w: "well_kept s" and ch: "chained s" using g by (simp_all add: grounded_def well_kept_def)
  let ?a = "min (st_cursor s) (int head)"
  have le: "?a \<le> int head" "?a \<le> st_cursor s" by simp_all
  obtain a k where a: "find_ancestor (\<lambda>_. v) 1 s ?a = Inr (a, k)" "a \<le> ?a"
    "st_start s \<le> a \<longrightarrow> b_hash (the (blocks s a)) = H a"
    "st_start s \<le> ?a \<and> b_hash (the (blocks s ?a)) = H ?a \<longrightarrow> a = ?a"
    using ancestor_found [OF g v le, of 1] by metis
  let ?A = "max a (st_start s - 1)"
  have A: "?A \<le> int head" "?A \<le> st_cursor s" "st_start s \<le> ?A \<longrightarrow> b_hash (the (blocks s ?A)) = H ?A" "st_start s - 1 \<le> ?A"
    using a(2,3) low s by (auto simp: max_def)
  obtain t where t: "Rewind ?A s = Inr t" "cut_off ?A s t" "well_kept t" using Rewind_cut [OF w A(4,2)] .
  have c: "caught ix sa B (st_start s) H t" "st_cursor t = ?A"
    using grounded_cut [OF g t(2,3)] cut_on_chain [OF g v A(1-3) t(2)] t(2) by (simp_all add: caught_def cut_off_def)
  have kept: "on_chain H s \<and> st_cursor s \<le> int head \<longrightarrow> st_cursor t = st_cursor s"
    using a(4) tip_on_chain [OF ch _ s] s c(2) by (auto simp: min_def)
  have "st_cursor t = st_cursor s \<longrightarrow> on_chain H s"
    using cut_on_chain [OF g v A(1-3), of s] cut_nothing [OF w] c(2) by auto
  from that [OF a(1) t(1) c(1,2) _ _ _ kept this] show thesis using A(1,2,4) c(2) by simp
qed

text \<open>A pass first returns to the chain, then follows it.\<close>

lemma sync_follows:
  assumes f: "followed ix sa B (st_start s) head H safe v" and g: "grounded ix sa B s"
    and safe: "safe = int head - int (ix_confirmations ix)" "ix_confirmations ix \<le> head"
  obtains k t st2 where "Sync ix sa True (\<lambda>_. v) tm s st = follow ix sa (\<lambda>_. v) tm safe k t st2"
    "caught ix sa B (st_start s) H t" "st_start s - 1 \<le> st_cursor t" "st_cursor t \<le> int head"
    "on_chain H s \<and> st_cursor s \<le> int head \<longrightarrow> st_cursor t = st_cursor s"
proof -
  have hd: "v_head v = Some head" and big: "int head < 2 ^ 63" and low: "st_start s - 1 \<le> int head"
    using f by (simp_all add: followed_def serves_def)
  have ch: "chained s" and at: "st_start s - 1 \<le> st_cursor s" using g by (simp_all add: grounded_def well_kept_def chained_def)
  have i: "int64 (int head) = int head" "int64 (int (ix_confirmations ix)) = int (ix_confirmations ix)"
    "int64 safe = safe" using big safe by (auto intro!: int64_small)
  let ?st1 = "st\<lparr>ix_observedHead := int head, ix_safeHead := safe, ix_synced := False\<rparr>"
  show thesis
  proof (cases "st_cursor s < st_start s")
    case True
    then have "on_chain H s" using ch by (auto simp: on_chain_def chained_def)
    moreover have "Sync ix sa True (\<lambda>_. v) tm s st = follow ix sa (\<lambda>_. v) tm safe 1 s ?st1"
      using True hd i safe(1) by (simp add: Sync_def Let_def)
    ultimately show thesis using that [of 1 s ?st1] g low at True by (simp add: caught_def)
  next
    case False
    then obtain a k t where a: "find_ancestor (\<lambda>_. v) 1 s (min (st_cursor s) (int head)) = Inr (a, k)"
      and t: "Rewind (max a (st_start s - 1)) s = Inr t" "st_cursor t = max a (st_start s - 1)" "st_cursor t \<le> st_cursor s"
      and c: "caught ix sa B (st_start s) H t" "st_start s - 1 \<le> st_cursor t" "st_cursor t \<le> int head"
        "on_chain H s \<and> st_cursor s \<le> int head \<longrightarrow> st_cursor t = st_cursor s"
      and e: "st_cursor t = st_cursor s \<longrightarrow> on_chain H s"
      using ancestor_cut [OF f g] by (metis linorder_not_less)
    show thesis
    proof (cases "st_cursor t = st_cursor s")
      case True
      then have "Sync ix sa True (\<lambda>_. v) tm s st = follow ix sa (\<lambda>_. v) tm safe k s ?st1"
        using False hd i safe(1) a t(2) by (simp add: Sync_def Let_def del: max_less_iff_conj)
      from that [OF this] show thesis using True g e c(2,3) by (simp add: caught_def)
    next
      case cut: False
      then have "max a (st_start s - 1) < st_cursor s" using t(2,3) by linarith
      then have "Sync ix sa True (\<lambda>_. v) tm s st =
          follow ix sa (\<lambda>_. v) tm safe k t (?st1\<lparr>ix_recovering := True, ix_reorgs := Suc (ix_reorgs ?st1)\<rparr>)"
        using False hd i safe(1) a t(1) by (simp add: Sync_def Let_def del: max_less_iff_conj)
      then show thesis using that c by blast
    qed
  qed
qed

text \<open>One pass, from any store the indexer can have left behind.\<close>

lemma pass_reaches:
  assumes f: "followed ix sa B (st_start s) head H safe v" and g: "grounded ix sa B s"
    and safe: "safe = int head - int (ix_confirmations ix)" "ix_confirmations ix \<le> head"
  shows "\<exists>s' st'. Sync ix sa True (\<lambda>_. v) tm s st = (s', st', None) \<and> caught ix sa B (st_start s) H s' \<and>
    min safe (st_start s + 99) \<le> st_cursor s' \<and>
    (on_chain H s \<and> st_cursor s \<le> int head \<longrightarrow> min safe (st_cursor s + 100) \<le> st_cursor s') \<and>
    st_cursor s' \<le> int head \<and> (ix_synced st' \<longleftrightarrow> safe \<le> st_cursor s') \<and> \<not> ix_recovering st' \<and> ix_lastSuccess st' = Some tm"
proof -
  have le: "safe \<le> int head" using f by (simp add: followed_def)
  obtain k t st2 where t: "Sync ix sa True (\<lambda>_. v) tm s st = follow ix sa (\<lambda>_. v) tm safe k t st2"
    "caught ix sa B (st_start s) H t" "st_start s - 1 \<le> st_cursor t" "st_cursor t \<le> int head"
    "on_chain H s \<and> st_cursor s \<le> int head \<longrightarrow> st_cursor t = st_cursor s" by (rule sync_follows [OF f g safe])
  obtain s' st' where "Sync ix sa True (\<lambda>_. v) tm s st = (s', st', None)" "caught ix sa B (st_start s) H s'"
    "st_cursor s' = max (st_cursor t) (min safe (st_cursor t + 100))"
    "ix_synced st' \<longleftrightarrow> safe \<le> st_cursor s'" "\<not> ix_recovering st'" "ix_lastSuccess st' = Some tm"
    using follow_reaches [OF f t(2), of tm k st2] t(1) by auto
  then show ?thesis using t(3-5) le by (intro exI [of _ s'] exI [of _ st']) auto
qed

section \<open>Catching up\<close>

lemma sync_passes_append: "sync_passes ix sa (ps @ qs) x = sync_passes ix sa qs (sync_passes ix sa ps x)"
  by (induction ix sa ps x rule: sync_passes.induct) simp_all

lemma passes_reach:
  assumes f: "followed ix sa B (st_start s) head H safe v" and g: "grounded ix sa B s"
    and safe: "safe = int head - int (ix_confirmations ix)" "ix_confirmations ix \<le> head"
    and ps: "\<forall>p \<in> set ps. fst p \<and> fst (snd p) = (\<lambda>_. v)" "ps \<noteq> []"
  shows "caught ix sa B (st_start s) H (fst (sync_passes ix sa ps (s, st))) \<and>
    min safe (st_start s - 1 + 100 * int (length ps)) \<le> st_cursor (fst (sync_passes ix sa ps (s, st))) \<and>
    st_cursor (fst (sync_passes ix sa ps (s, st))) \<le> int head \<and>
    (let st' = snd (sync_passes ix sa ps (s, st)) in
      (ix_synced st' \<longleftrightarrow> safe \<le> st_cursor (fst (sync_passes ix sa ps (s, st)))) \<and> \<not> ix_recovering st' \<and>
      ix_lastSuccess st' = Some (snd (snd (last ps))))"
  using ps
proof (induction ps rule: rev_induct)
  case (snoc p ps)
  obtain tm where p: "p = (True, \<lambda>_. v, tm)" using snoc.prems(1) by (cases p) auto
  obtain t st1 where t: "sync_passes ix sa ps (s, st) = (t, st1)" by fastforce
  have q: "\<forall>p \<in> set ps. fst p \<and> fst (snd p) = (\<lambda>_. v)" using snoc.prems(1) by simp
  have T: "grounded ix sa B t \<and> st_start t = st_start s \<and>
    (ps \<noteq> [] \<longrightarrow> on_chain H t \<and> st_cursor t \<le> int head \<and> min safe (st_start s - 1 + 100 * int (length ps)) \<le> st_cursor t)"
  proof (cases "ps = []")
    case True
    then show ?thesis using g t by simp
  next
    case False
    then show ?thesis using snoc.IH [OF q False] t by (simp add: caught_def)
  qed
  obtain u st2 where u: "Sync ix sa True (\<lambda>_. v) tm t st1 = (u, st2, None)" "caught ix sa B (st_start s) H u"
    "min safe (st_start s + 99) \<le> st_cursor u"
    "on_chain H t \<and> st_cursor t \<le> int head \<longrightarrow> min safe (st_cursor t + 100) \<le> st_cursor u"
    "st_cursor u \<le> int head" "ix_synced st2 \<longleftrightarrow> safe \<le> st_cursor u" "\<not> ix_recovering st2" "ix_lastSuccess st2 = Some tm"
    using pass_reaches [of ix sa B t head H safe v tm st1] f T safe by auto
  have r: "sync_passes ix sa (ps @ [p]) (s, st) = (u, st2)"
    using sync_passes_append t u(1) p by (simp add: Run_once_def)
  have "min safe (st_start s - 1 + 100 * int (length (ps @ [p]))) \<le> st_cursor u"
  proof (cases "ps = []")
    case True
    then show ?thesis using u(3) by simp
  next
    case False
    then have "min safe (st_cursor t + 100) \<le> st_cursor u" "min safe (st_start s - 1 + 100 * int (length ps)) \<le> st_cursor t"
      using T u(4) by simp_all
    then show ?thesis by simp
  qed
  then show ?case unfolding r using u p by simp
qed simp

text \<open>C23: The indexer catches up: once a node keeps answering from one chain whose events the store accepts, then from
  whatever blocks, orphaned ones included, the store held before, one pass for every hundred blocks brings
  the cursor to the newest confirmed block of that chain, and the service calls itself synced again.\<close>

theorem indexer_catches_up:
  assumes "grounded ix sa B s" and "followed ix sa B (st_start s) head H safe v"
    and "safe = int head - int (ix_confirmations ix)" and "ix_confirmations ix \<le> head" and "st_start s \<le> safe"
    and "\<forall>p \<in> set ps. fst p \<and> fst (snd p) = (\<lambda>_. v)" and "safe - st_start s < 100 * int (length ps)"
    and "sync_passes ix sa ps (s, st) = (s', st')"
  shows "safe \<le> st_cursor s' \<and> st_hash s' = H (st_cursor s') \<and>
    events s' = chain_events ix sa B (st_start s) H (st_cursor s') \<and>
    (ms < snd (snd (last ps)) + 60000 \<longrightarrow> healthy ms st')"
proof -
  have "ps \<noteq> []" using assms(5,7) by auto
  note R = passes_reach [OF assms(2,1,3,4,6) this, of st, unfolded assms(8), simplified]
  have "safe \<le> st_start s - 1 + 100 * int (length ps)" using assms(7) by linarith
  then have c: "safe \<le> st_cursor s'" using R by simp
  have g: "grounded ix sa B s'" "on_chain H s'" "st_start s' = st_start s" using R by (simp_all add: caught_def)
  then show ?thesis
    using c R on_chain_hash [of s' H] on_chain_events [OF g(1,2)] assms(5)
    by (auto simp: grounded_def healthy_def Let_def)
qed

end
