(* ===== verification/ServiceSamples.thy ===== *)
theory ServiceSamples
  imports CatchUp
begin

text \<open>
  A chain with one block, in which the first round was started, followed by one pass of the indexer.
\<close>

definition sample_open :: "(addr \<Rightarrow> nat, nat \<times> nat) world" where
  "sample_open = after (transact sample_im plain_token counting_provider 1 (call_startDraw 0) sample_start)"

definition start_event :: event where
  "start_event = DrawStarted 1 1000 87400 10 2 0"

definition first_log :: chain_log where
  "first_log =
     \<lparr>log_content = Some start_event, log_blockNumber = 1, log_blockHash = ''0xA'', log_txHash = ''0x1'', log_txIndex = 0,
      log_index = 0, log_emitter = ''0xL'', log_removed = False\<rparr>"

definition first_block :: chain_block where
  "first_block = \<lparr>cb_number = 1, cb_parent = ''0x9'', cb_time = 1000, cb_logs = [first_log]\<rparr>"

definition sample_chain :: "string \<rightharpoonup> chain_block" where
  "sample_chain = [''0xA'' \<mapsto> first_block]"

definition sample_view :: chain_view where
  "sample_view =
     \<lparr>v_head = Some 1,
      v_header = (\<lambda>n. if n = 1 then Some (header_of ''0xA'' first_block) else None),
      v_logs = (\<lambda>x. map_option cb_logs (sample_chain x))\<rparr>"

definition sample_ix :: indexer where
  "sample_ix = \<lparr>ix_address = ''0xL'', ix_confirmations = 0\<rparr>"

definition sample_pass :: "bool \<times> (nat \<Rightarrow> chain_view) \<times> nat" where
  "sample_pass = (True, (\<lambda>_. sample_view), 5)"

definition sample_store :: store where
  "sample_store = fst (sync_passes sample_ix plain_text [sample_pass] (fresh_store 1, initial_sync))"

lemma first_run:
  "transact sample_im plain_token counting_provider 1 (call_startDraw 0) sample_start = Inr sample_open"
  by (simp add: sample_open_def contract_run)

lemma first_facts:
  "l_log (w_lottery sample_open) = [start_event]" "w_time sample_open = 1000" "l_currentDrawId (w_lottery sample_open) = 1"
  "s_startTime (l_draws (w_lottery sample_open) 1) = 1000"
  by (simp_all add: sample_open_def contract_run start_event_def)

lemma first_logged: "logged sample_im plain_token counting_provider [(start_event, 1000)] sample_open"
proof -
  have "logged sample_im plain_token counting_provider [] sample_start"
    unfolding sample_start_def by (rule logged.deployment)
  from logged.recording [OF this system_step.transaction [OF _ _ first_run]] show ?thesis
    by (simp add: first_facts sample_im_def) (simp add: sample_start_def fresh_lottery_def)
qed

lemma sample_honest: "\<forall>p \<in> set [sample_pass]. honest sample_chain (fst (snd p))"
  by (simp add: honest_def sample_pass_def sample_view_def sample_chain_def header_of_def first_block_def)

definition first_event :: Event where
  "first_event = the (Decode plain_text first_log 1000)"

lemma first_decoded: "Decode plain_text first_log 1000 = Some first_event"
  by (simp add: first_event_def) (simp add: Decode_def first_log_def)

lemma first_events: "block_events sample_ix plain_text ''0xA'' first_block = Inr [first_event]"
  using first_decoded
  by (simp add: block_events_def first_block_def header_of_def first_log_def sample_ix_def)

lemma first_tells: "tells_of plain_text (start_event, 1000) first_event"
  by (simp add: tells_of_def first_event_def Decode_def first_log_def)

lemma no_wallets: "list_all (\<lambda>t. wallet t = None) ts \<Longrightarrow> put_tickets i ts tb = Inr tb"
  by (induction ts) (simp_all add: put_ticket_def)

lemma first_projects: "\<exists>d. project first_event no_tables = Inr \<lparr>draws_table = [(1, d)], tickets_table = Map.empty, claims_table = Map.empty\<rparr>"
proof -
  let ?d = "projection plain_text sample_im (zero_draw\<lparr>s_id := 1, s_startTime := 1000, s_deadline := 87400,
      s_inheritedRollover := 0, s_pool := 0\<rparr>) (replicate 10 0) (\<lambda>_. False)"
  have "Apply None (bare plain_text (DrawStarted 1 1000 87400 (im_ticketPrice sample_im) (im_minimumParticipants sample_im) 0, 1000)) = Inr ?d"
    by (rule started_projection [OF refl]) (simp_all add: sample_im_def)
  then have "Apply None first_event = Inr ?d"
    unfolding Apply_bare [OF first_tells] by (simp add: start_event_def sample_im_def)
  moreover have "list_all (\<lambda>t. wallet t = None) (tickets ?d)"
    by (auto simp: list_all_length ticket_view_nth)
  moreover have "draw_id ?d = show_nat 10 1" "pool ?d = show_nat 10 0" by (simp_all add: projection_def)
  ultimately obtain d where d: "Apply None first_event = Inr d" "list_all (\<lambda>t. wallet t = None) (tickets d)"
    "draw_id d = show_nat 10 1" "pool d = show_nat 10 0" by blast
  have v: "val first_event ''drawId'' = show_nat 10 1" using tells_of_id [OF first_tells] by (simp add: start_event_def)
  have n: "ev_name first_event = ''DrawStarted''" using first_tells by (simp add: tells_of_def start_event_def)
  have c: "put_claim i first_event tb = Inr tb" for i tb by (simp add: put_claim_def n)
  have "project first_event no_tables = Inr \<lparr>draws_table = [(1, d)], tickets_table = Map.empty, claims_table = Map.empty\<rparr>"
    using d no_wallets [OF d(2)] by (simp add: project_def v c numeric_show no_tables_def del: show_zero)
  then show ?thesis by blast
qed

text \<open>The store after the pass.\<close>

lemma sample_committed:
  "\<exists>t. CommitBlock (block_at 1 (header_of ''0xA'' first_block)) [first_event] (fresh_store 1) = Inr t \<and>
     st_cursor t = 1 \<and> st_hash t = ''0xA'' \<and> st_start t = 1"
proof -
  obtain tb where p: "project first_event no_tables = Inr tb" using first_projects by blast
  have "ev_blockNumber first_event = 1" "ev_blockHash first_event = ''0xA''"
    by (simp_all add: first_event_def Decode_def first_log_def)
  then show ?thesis
    using p by (simp add: CommitBlock_def block_at_def header_of_def fresh_store_def first_block_def)
qed

lemma sample_synced: "st_cursor sample_store = 1 \<and> st_hash sample_store = ''0xA'' \<and> st_start sample_store = 1"
proof -
  let ?h = "header_of ''0xA'' first_block"
  obtain t where c: "CommitBlock (block_at 1 ?h) [first_event] (fresh_store 1) = Inr t"
    and t: "st_cursor t = 1" "st_hash t = ''0xA''" "st_start t = 1" using sample_committed by blast
  have d: "decode_logs sample_ix plain_text ?h 1 (sort_key log_place [first_log]) = Inr [first_event]"
    using first_events by (simp add: block_events_def first_block_def)
  have v: "v_header sample_view 1 = Some ?h" "v_logs sample_view (h_hash ?h) = Some [first_log]"
    by (simp_all add: sample_view_def sample_chain_def header_of_def first_block_def)
  have turn: "scan sample_ix plain_text (\<lambda>_. sample_view) 1 100 1 0 [] (fresh_store 1) st =
      (1, t, st\<lparr>ix_indexedBlock := 1\<rparr>, None)" for st
  proof -
    have e: "(100 :: nat) = Suc (Suc 98)" by simp
    show ?thesis
      unfolding e scan.simps(2) using c [unfolded block_at_def] d v by simp
  qed
  have i: "int64 1 = 1" "int64 0 = 0" by simp_all
  have "fst (Sync sample_ix plain_text True (\<lambda>_. sample_view) 5 (fresh_store 1) initial_sync) = t"
    using turn by (simp add: Sync_def sample_view_def follow_def fresh_store_def i Let_def sample_ix_def)
  then show ?thesis using t by (simp add: sample_store_def sample_pass_def Run_once_store)
qed

section \<open>The properties at work\<close>

lemma sample_lineage: "lineage sample_ix plain_text sample_chain 1 ''0xA'' = [first_event]"
  using first_events by (simp add: sample_chain_def)

lemma sample_grounded: "grounded sample_ix plain_text sample_chain sample_store"
  unfolding sample_store_def
  by (rule sync_passes_grounded [OF _ sample_honest]) (simp add: grounded_fresh)

theorem indexer_follows_chain_witness: "events sample_store = [first_event]"
  using indexer_follows_chain [OF _ _ sample_honest sample_store_def] sample_synced sample_lineage by simp

theorem service_shows_contract_witness:
  "\<exists>r. serve_detail initial_sync sample_store initial_sync 7 (show_nat 10 1) = (200, CurrentBody r) \<and>
     api_draw r = Some (lower_addresses (shown_round plain_text sample_im sample_open 1)) \<and> chainTime r = 1000"
proof -
  have h: "list_all2 (tells_of plain_text) [(start_event, 1000)]
      (lineage sample_ix plain_text sample_chain (nat (st_cursor sample_store - st_start sample_store + 1)) (st_hash sample_store))"
    using first_tells sample_synced sample_lineage by simp
  have c: "sample_chain (st_hash sample_store) = Some first_block" "cb_time first_block = w_time sample_open"
    "st_start sample_store \<le> st_cursor sample_store"
    using sample_synced by (simp_all add: sample_chain_def first_block_def first_facts)
  show ?thesis
    using service_shows_contract [OF _ _ sample_honest sample_store_def c(3,1,2) first_logged h plain_address_text
        sample_valid, of 1 initial_sync initial_sync 7] first_facts
    by (auto simp: initial_sync_def DURATION_def)
qed

theorem rewind_restores_witness:
  "\<exists>t. CommitBlock (block_at 1 (header_of ''0xA'' first_block)) [first_event] (fresh_store 1) = Inr t \<and>
     Rewind 0 t = Inr (fresh_store 1)"
proof -
  let ?b = "block_at 1 (header_of ''0xA'' first_block)"
  obtain t where t: "CommitBlock ?b [first_event] (fresh_store 1) = Inr t" using sample_committed by blast
  have "Rewind (st_cursor (fresh_store 1)) t = Inr (fresh_store 1)"
    by (rule rewind_restores [OF well_kept_fresh, of 1 "[(?b, [first_event])]"])
       (use t in \<open>simp_all add: presented_def block_at_def header_of_def\<close>)
  then show ?thesis using t by (simp add: fresh_store_def)
qed

theorem constraints_never_fire_witness:
  "CommitBlock (block_at 1 (header_of ''0xA'' first_block)) [first_event, first_event] (fresh_store 1) \<noteq> Inl Constraint_violated"
  by (rule constraints_never_fire [OF well_kept_fresh]) simp_all

theorem rounds_well_typed_witness:
  "\<exists>sn d. Read_store sample_store current_draw 1 = Inr sn \<and> sn_draws sn = [d] \<and> well_typed d"
proof -
  have k: "well_kept sample_store" using sample_grounded by (simp add: grounded_def)
  have "events sample_store = [first_event]"
    using events_are_lineage [OF sample_grounded] sample_synced sample_lineage by simp
  then have "project_all [first_event] no_tables = Inr (tables sample_store)" using k by (simp add: well_kept_def)
  moreover obtain d where
    "project first_event no_tables = Inr \<lparr>draws_table = [(1, d)], tickets_table = Map.empty, claims_table = Map.empty\<rparr>"
    using first_projects by blast
  ultimately have "tables sample_store = \<lparr>draws_table = [(1, d)], tickets_table = Map.empty, claims_table = Map.empty\<rparr>"
    by simp
  then have t: "draws_table (tables sample_store) = [(1, d)]" by simp
  obtain tm where "chain_time sample_store = Inr tm"
    using k sample_synced chained_reach [of sample_store 1] by (auto simp: chain_time_def well_kept_def)
  then have r: "\<exists>sn. Read_store sample_store current_draw 1 = Inr sn \<and> sn_draws sn = [Refresh tm d]"
    using t by (simp add: Read_store_def query_def by_id_def)
  then obtain sn where "Read_store sample_store current_draw 1 = Inr sn" "sn_draws sn = [Refresh tm d]" by blast
  then show ?thesis using rounds_well_typed [OF k, of current_draw 1 sn] by auto
qed

lemma sample_followed: "followed sample_ix plain_text sample_chain 1 1 (\<lambda>_. ''0xA'') 1 sample_view"
proof -
  have "serves sample_ix plain_text sample_chain 1 1 (\<lambda>_. ''0xA'') sample_view"
    using first_events
    by (simp add: serves_def sample_view_def sample_chain_def header_of_def first_block_def order_class.order_eq_iff [symmetric])
  moreover have "chain_events sample_ix plain_text sample_chain 1 (\<lambda>_. ''0xA'') 1 = [first_event]"
    using sample_lineage by (simp add: chain_events_def)
  ultimately show ?thesis using first_projects by (auto simp: followed_def)
qed

theorem indexer_catches_up_witness:
  "\<exists>s' st'. sync_passes sample_ix plain_text [sample_pass] (fresh_store 1, initial_sync) = (s', st') \<and>
     1 \<le> st_cursor s' \<and> events s' = chain_events sample_ix plain_text sample_chain 1 (\<lambda>_. ''0xA'') (st_cursor s') \<and> healthy 100 st'"
proof -
  obtain s' st' where r: "sync_passes sample_ix plain_text [sample_pass] (fresh_store 1, initial_sync) = (s', st')" by fastforce
  have g: "grounded sample_ix plain_text sample_chain (fresh_store 1)" by (simp add: grounded_fresh)
  have st: "st_start (fresh_store 1) = 1" by (simp add: fresh_store_def)
  show ?thesis
    using indexer_catches_up [OF g _ _ _ _ _ _ r, of 1 "\<lambda>_. ''0xA''" 1 sample_view 100] sample_followed r
    by (simp add: st sample_ix_def sample_pass_def)
qed

end
