(* ===== verification/Paging.thy ===== *)
theory Paging
  imports Service Buttons
begin

text \<open>
  The list of past rounds from end to end: the buttons of the page, \<^verbatim>\<open>loadHistory\<close> of
  \<^verbatim>\<open>frontend/src/main.tsx\<close>, the request it sends, the handler of \<^verbatim>\<open>backend/internal/service/http.go\<close> with its
  limit and cursor, the query of \<^verbatim>\<open>backend/internal/store/store.go\<close>, and the merge into the list.
\<close>

section \<open>The rows behind the list\<close>

definition settled_rows :: "store \<Rightarrow> (int \<times> Draw) list" where
  "settled_rows s = filter (\<lambda>r. settled_row (snd r)) (by_id (draws_table (tables s)))"

lemma by_id_descending: "keyed rows \<Longrightarrow> sorted_wrt (\<lambda>a b. fst b < fst a) (by_id rows)"
proof -
  assume k: "keyed rows"
  have "sorted (map fst (sort_key fst rows))" by simp
  moreover have "distinct (map fst (sort_key fst rows))" using k by (simp add: keyed_def distinct_map)
  ultimately have "sorted_wrt (<) (map fst (sort_key fst rows))" by (simp add: strict_sorted_iff)
  then show ?thesis by (simp add: by_id_def sorted_wrt_rev sorted_wrt_map)
qed

lemma settled_descending: "well_kept s \<Longrightarrow> sorted_wrt (\<lambda>a b. fst b < fst a) (settled_rows s)"
  using by_id_descending [OF well_kept_keyed] by (simp add: settled_rows_def sorted_wrt_filter)

lemma settled_numeric: "well_kept s \<Longrightarrow> r \<in> set (settled_rows s) \<Longrightarrow> numeric (draw_id (snd r)) = Inr (fst r)"
  using well_kept_keyed [of s] by (cases r) (auto simp: settled_rows_def keyed_def)

text \<open>The rows below the last one of a page are the rest.\<close>

lemma rows_below:
  assumes "sorted_wrt (\<lambda>a b. fst b < (fst a :: int)) rs" and "k < length rs"
  shows "filter (\<lambda>r. fst r < fst (rs ! k)) rs = drop (Suc k) rs"
proof -
  let ?P = "\<lambda>r. fst r < fst (rs ! k)"
  have "filter ?P rs = filter ?P (take (Suc k) rs) @ filter ?P (drop (Suc k) rs)"
    by (metis append_take_drop_id filter_append)
  moreover have "filter ?P (take (Suc k) rs) = []"
  proof -
    have "\<not> ?P (rs ! j)" if "j \<le> k" for j
      using assms that by (cases "j = k") (auto simp: sorted_wrt_iff_nth_less less_imp_not_less)
    then show ?thesis by (auto simp: filter_empty_conv in_set_conv_nth less_Suc_eq_le) (metis fst_conv)
  qed
  moreover have "filter ?P (drop (Suc k) rs) = drop (Suc k) rs"
  proof -
    have "?P r" if r: "r \<in> set (drop (Suc k) rs)" for r
    proof -
      obtain i where "i < length rs - Suc k" "r = rs ! (Suc k + i)" using r by (auto simp: in_set_conv_nth)
      then show ?thesis using assms(1) unfolding sorted_wrt_iff_nth_less by simp
    qed
    then show ?thesis by (simp add: filter_id_conv)
  qed
  ultimately show ?thesis by simp
qed

text \<open>The rows a history query returns after the first \<open>k\<close> settled ones.\<close>

definition page_key :: "store \<Rightarrow> nat \<Rightarrow> string option" where
  "page_key s k = (if k = 0 then None else Some (draw_id (snd (settled_rows s ! (k - 1)))))"

lemma history_query:
  assumes s: "well_kept s" and k: "k \<le> length (settled_rows s)"
  shows "query s (draw_history (case page_key s k of None \<Rightarrow> [] | Some c \<Rightarrow> c)) limit =
    Inr (map snd (take (limit + 1) (drop k (settled_rows s))))"
proof (cases k)
  case 0
  then show ?thesis by (simp add: page_key_def query_def settled_rows_def Let_def)
next
  case (Suc j)
  let ?R = "settled_rows s"
  have j: "j < length ?R" using k Suc by simp
  then have n: "numeric (draw_id (snd (?R ! j))) = Inr (fst (?R ! j))" by (intro settled_numeric [OF s]) simp
  then have "draw_id (snd (?R ! j)) \<noteq> []" by (auto simp: numeric_def)
  then show ?thesis
    using n rows_below [OF settled_descending [OF s] j] Suc
    by (simp add: page_key_def query_def settled_rows_def [symmetric] Let_def del: filter_filter)
qed

lemma read_page:
  assumes s: "well_kept s" and tm: "chain_time s = Inr tm" and k: "k \<le> length (settled_rows s)" and l: "0 < limit"
  shows "\<exists>sn. Read_store s (draw_history (case page_key s k of None \<Rightarrow> [] | Some c \<Rightarrow> c)) limit = Inr sn \<and>
    sn_draws sn = map (\<lambda>r. Refresh tm (snd r)) (take limit (drop k (settled_rows s))) \<and>
    sn_next sn = (if k + limit < length (settled_rows s) then page_key s (k + limit) else None)"
proof -
  let ?R = "settled_rows s" and ?c = "draw_history (case page_key s k of None \<Rightarrow> [] | Some c \<Rightarrow> c)"
  define page where "page = map (Refresh tm) (map snd (take (limit + 1) (drop k ?R)))"
  define ds where "ds = map (\<lambda>r. Refresh tm (snd r)) (take limit (drop k ?R))"
  have R: "Read_store s ?c limit = Inr (if limit < length page
      then \<lparr>sn_cursor = st_cursor s, sn_hash = st_hash s, sn_time = tm, sn_draws = take limit page,
            sn_next = Some (draw_id (last (take limit page)))\<rparr>
      else \<lparr>sn_cursor = st_cursor s, sn_hash = st_hash s, sn_time = tm, sn_draws = page, sn_next = None\<rparr>)"
    unfolding Read_store_def tm history_query [OF s k] page_def by (simp add: Let_def)
  have more: "limit < length page \<longleftrightarrow> k + limit < length ?R" by (auto simp: page_def)
  have t: "take limit page = ds" by (simp add: page_def ds_def take_map comp_def)
  have "Some (draw_id (last ds)) = page_key s (k + limit)" if "k + limit < length ?R"
  proof -
    have ne: "take limit (drop k ?R) \<noteq> []" using that l by simp
    then have "last (take limit (drop k ?R)) = ?R ! (k + limit - 1)" using that l by (simp add: last_conv_nth)
    then show ?thesis using ne l by (simp add: ds_def last_map page_key_def Refresh_def)
  qed
  moreover have "page = ds" if "\<not> k + limit < length ?R"
    using that by (simp add: page_def ds_def comp_def)
  ultimately show ?thesis by (auto simp: R more t ds_def [symmetric])
qed

text \<open>Pages never overlap, so the client's merge adds every round of a page.\<close>

lemma merge_page:
  assumes s: "well_kept s" and k: "k \<le> length (settled_rows s)"
  shows "merge_history (page_key s k) (if k = 0 then [] else map (\<lambda>r. Refresh tm (snd r)) (take k (settled_rows s)))
      (map (\<lambda>r. Refresh tm (snd r)) (take l (drop k (settled_rows s)))) =
    map (\<lambda>r. Refresh tm (snd r)) (take (k + l) (settled_rows s))"
proof (cases k)
  case (Suc j)
  let ?R = "settled_rows s"
  have new: "draw_id (snd a) \<noteq> draw_id (snd b)" if "a \<in> set (take k ?R)" "b \<in> set (drop k ?R)" for a b
  proof -
    have "fst b < fst a"
      using settled_descending [OF s] that by (metis append_take_drop_id sorted_wrt_append)
    moreover have "a \<in> set ?R" "b \<in> set ?R" using that by (auto dest: in_set_takeD in_set_dropD)
    ultimately show ?thesis using settled_numeric [OF s] by (metis less_irrefl sum.inject(2))
  qed
  have "filter (\<lambda>d. \<not> list_ex (\<lambda>e. draw_id e = draw_id d) (map (\<lambda>r. Refresh tm (snd r)) (take k ?R)))
      (map (\<lambda>r. Refresh tm (snd r)) (take l (drop k ?R))) = map (\<lambda>r. Refresh tm (snd r)) (take l (drop k ?R))"
    using new by (auto simp: filter_id_conv list_ex_iff Refresh_def dest!: in_set_takeD [where n = l])
  moreover have "truthy (page_key s k)"
  proof -
    have "?R ! j \<in> set ?R" using k Suc by simp
    from settled_numeric [OF s this] show ?thesis by (auto simp: page_key_def Suc numeric_def truthy_def)
  qed
  moreover have "k \<noteq> 0" using Suc by simp
  ultimately show ?thesis by (simp add: merge_history_def take_add)
qed (simp add: merge_history_def page_key_def truthy_def)

section \<open>The request and its answer\<close>

text \<open>
  \<^verbatim>\<open>r.URL.Query().Get(key)\<close> of Go's library: the pairs behind the question mark, the first one of the
  name. Percent escapes and \<^verbatim>\<open>+\<close>, which the client never sends here, are not decoded.
\<close>

fun split_at_char :: "char \<Rightarrow> string \<Rightarrow> string list" where
  "split_at_char c [] = [[]]"
| "split_at_char c (x # xs) =
     (if x = c then [] # split_at_char c xs
      else case split_at_char c xs of [] \<Rightarrow> [[x]] | y # ys \<Rightarrow> (x # y) # ys)"

definition before_char :: "char \<Rightarrow> string \<Rightarrow> string" where
  "before_char c = takeWhile (\<lambda>x. x \<noteq> c)"

definition behind_char :: "char \<Rightarrow> string \<Rightarrow> string" where
  "behind_char c t = drop 1 (dropWhile (\<lambda>x. x \<noteq> c) t)"

definition query_value :: "string \<Rightarrow> string \<Rightarrow> string" where
  "query_value key url =
     (case map_of (map (\<lambda>t. (before_char (CHR ''='') t, behind_char (CHR ''='') t))
          (split_at_char (CHR ''&'') (behind_char (CHR ''?'') url))) key of
        None \<Rightarrow> [] | Some v \<Rightarrow> v)"

lemma behind_append: "c \<notin> set xs \<Longrightarrow> behind_char c (xs @ c # ys) = ys"
  by (induction xs) (auto simp: behind_char_def)

lemma split_none: "c \<notin> set xs \<Longrightarrow> split_at_char c xs = [xs]"
  by (induction xs) auto

lemma split_append: "c \<notin> set xs \<Longrightarrow> split_at_char c (xs @ c # ys) = xs # split_at_char c ys"
  by (induction xs) auto

text \<open>The answer of the service to a request of the page, while the indexer's state is as given: the handler of
  the history reads its two parameters from the address.\<close>

type_synonym moment = "sync_state \<times> sync_state \<times> nat"

definition history_answers :: "moment \<Rightarrow> store \<Rightarrow> string \<Rightarrow> resp list" where
  "history_answers x s url =
     (case x of (st, st', ms) \<Rightarrow>
        (case serve_history st s st' ms (query_value ''limit'' url) (query_value ''cursor'' url) of
           (code, b) \<Rightarrow> [RHttp (200 \<le> code \<and> code < 300) code, RBody b]))"

text \<open>A click on a button of the page whose handler begins with a request, answered by the service.\<close>

definition served :: "(string \<Rightarrow> resp list) \<Rightarrow> (app, unit) prog \<Rightarrow> app \<Rightarrow> app" where
  "served srv p a =
     (case outcome p [] a of
        Waiting (Fetch url) \<Rightarrow> final p (calm (srv url)) a
      | _ \<Rightarrow> final p [] a)"

text \<open>The list is loaded, and then the button for older rounds is clicked as long as the page has it.\<close>

definition older_clicked :: "build \<Rightarrow> store \<Rightarrow> moment \<Rightarrow> app \<Rightarrow> app" where
  "older_clicked b s x a =
     (if truthy (cursor a) then served (history_answers x s) (handler b a (LoadOlder (the (cursor a)))) a else a)"

definition paged :: "build \<Rightarrow> store \<Rightarrow> moment \<Rightarrow> moment list \<Rightarrow> app \<Rightarrow> app" where
  "paged b s x xs a =
     fold (older_clicked b s) xs (served (history_answers x s) (handler b a ReloadHistory) a)"

lemma limit_10: "atoi ''10'' = Some 10"
  by (simp add: atoi_def read_nat_def digit_val_def)

text \<open>The parameters arrive as they were sent.\<close>

lemma decimal_chars: "list_all decimal c \<Longrightarrow> CHR ''&'' \<notin> set c \<and> CHR ''='' \<notin> set c \<and> CHR ''?'' \<notin> set c"
  by (auto simp: list_all_iff decimal_def)

lemma history_parameters:
  assumes "CHR ''?'' \<notin> set url" and "truthy nxt \<Longrightarrow> list_all decimal (the nxt)"
  shows "query_value ''limit'' (url @ history_path nxt) = ''10''"
    and "query_value ''cursor'' (url @ history_path nxt) = (if truthy nxt then the nxt else [])"
proof -
  have q: "behind_char (CHR ''?'') (url @ history_path nxt) =
      ''limit=10'' @ (if truthy nxt then CHR ''&'' # ''cursor='' @ the nxt else [])"
    using behind_append [of "CHR ''?''" "url @ ''/api/v1/draws/history''"] assms(1)
    by (cases "truthy nxt") (simp_all add: history_path_def)
  have c: "CHR ''&'' \<notin> set (''cursor='' @ the nxt)" if "truthy nxt"
    using decimal_chars [OF assms(2) [OF that]] by simp
  have "split_at_char (CHR ''&'') (behind_char (CHR ''?'') (url @ history_path nxt)) =
      ''limit=10'' # (if truthy nxt then [''cursor='' @ the nxt] else [])"
    unfolding q using split_append [of "CHR ''&''" "''limit=10''"] split_none [OF c] split_none [of "CHR ''&''" "''limit=10''"]
    by simp
  then show "query_value ''limit'' (url @ history_path nxt) = ''10''"
    "query_value ''cursor'' (url @ history_path nxt) = (if truthy nxt then the nxt else [])"
    by (simp_all add: query_value_def before_char_def behind_char_def)
qed

section \<open>One page\<close>

text \<open>The state of the list after the first \<open>k\<close> settled rounds.\<close>

definition shows_first :: "store \<Rightarrow> nat \<Rightarrow> nat \<Rightarrow> app \<Rightarrow> bool" where
  "shows_first s tm k a \<longleftrightarrow>
     history a = map (\<lambda>r. Refresh tm (snd r)) (take k (settled_rows s)) \<and>
     cursor a = (if k < length (settled_rows s) then page_key s k else None) \<and> historyError a = []"

lemma served_load:
  assumes s: "well_kept s" and tm: "chain_time s = Inr tm" and x: "\<not> ix_recovering (fst x)"
    and c: "config a = Some cf" and url: "CHR ''?'' \<notin> set (API_URL b)"
    and ids: "\<forall>r \<in> set (settled_rows s). validID (draw_id (snd r))"
    and k: "k \<le> length (settled_rows s)"
    and a: "k \<noteq> 0 \<Longrightarrow> history a = map (\<lambda>r. Refresh tm (snd r)) (take k (settled_rows s))"
  shows "shows_first s tm (k + 10) (served (history_answers x s) (loadHistory b a (page_key s k)) a)"
    and "config (served (history_answers x s) (loadHistory b a (page_key s k)) a) = config a"
proof -
  let ?nxt = "page_key s k" and ?p = "loadHistory b a (page_key s k)"
  obtain st st' ms where xs: "x = (st, st', ms)" by (cases x)
  have v: "validID (the ?nxt)" if "truthy ?nxt"
    using that ids k by (auto simp: page_key_def truthy_def split: if_splits)
  have d: "list_all decimal (the ?nxt)" if "truthy ?nxt" using v [OF that] by (simp add: validID_def)
  note pars = history_parameters [OF url d]
  obtain sn where r: "Read_store s (draw_history (case ?nxt of None \<Rightarrow> [] | Some c \<Rightarrow> c)) 10 = Inr sn"
    and ds: "sn_draws sn = map (\<lambda>r. Refresh tm (snd r)) (take 10 (drop k (settled_rows s)))"
    and nx: "sn_next sn = (if k + 10 < length (settled_rows s) then page_key s (k + 10) else None)"
    using read_page [OF s tm k, of 10] by auto
  have cur: "(case ?nxt of None \<Rightarrow> [] | Some c \<Rightarrow> c) = (if truthy ?nxt then the ?nxt else [])"
    by (auto simp: truthy_def split: option.split)
  define fine where "fine = (healthy ms st' \<and> ix_safeHead st' \<le> sn_cursor sn)"
  define data where "data = \<lparr>hist_draws = sn_draws sn, nextCursor = sn_next sn, hist_synced = fine,
      hist_indexedBlock = sn_cursor sn\<rparr>"
  have srv: "history_answers x s (API_URL b @ history_path ?nxt) = [RHttp True 200, RBody (HistoryBody data)]"
    using x v r by (auto simp: history_answers_def xs pars serve_history_def limit_10 respond_def cur data_def fine_def Let_def)
  have f: "served (history_answers x s) ?p a = (store_page ?nxt data (a\<lparr>historyBusy := True\<rparr>))\<lparr>historyBusy := False\<rparr>"
    by (simp add: served_def loadHistory_def c api_def await_def reply_def srv calm_def cast_body_def update_def)
  have h: "merge_history ?nxt (history a) (hist_draws data) = map (\<lambda>r. Refresh tm (snd r)) (take (k + 10) (settled_rows s))"
    using merge_page [OF s k, of tm 10] a
    by (cases "k = 0") (simp_all add: data_def ds merge_history_def page_key_def truthy_def)
  show "shows_first s tm (k + 10) (served (history_answers x s) ?p a)"
    unfolding f by (simp add: shows_first_def store_page_def h) (simp add: data_def nx)
  show "config (served (history_answers x s) ?p a) = config a"
    unfolding f by (simp add: store_page_def)
qed

lemma served_reload:
  assumes "well_kept s" and "chain_time s = Inr tm" and "\<not> ix_recovering (fst x)" and "config a = Some cf"
    and "CHR ''?'' \<notin> set (API_URL b)" and "\<forall>r \<in> set (settled_rows s). validID (draw_id (snd r))"
  shows "shows_first s tm 10 (served (history_answers x s) (handler b a ReloadHistory) a)"
    and "config (served (history_answers x s) (handler b a ReloadHistory) a) = config a"
  using served_load [OF assms, of 0] by (simp_all add: page_key_def)

lemma older_step:
  assumes s: "well_kept s" and tm: "chain_time s = Inr tm" and x: "\<not> ix_recovering (fst x)"
    and c: "config a = Some cf" and url: "CHR ''?'' \<notin> set (API_URL b)"
    and ids: "\<forall>r \<in> set (settled_rows s). validID (draw_id (snd r))"
    and a: "shows_first s tm k a" and k: "0 < k"
  shows "shows_first s tm (k + 10) (older_clicked b s x a) \<and> config (older_clicked b s x a) = config a"
proof (cases "k < length (settled_rows s)")
  case True
  have m: "settled_rows s ! (k - 1) \<in> set (settled_rows s)" using True k by simp
  then have "cursor a = page_key s k" "truthy (page_key s k)"
    using a True k ids by (auto simp: shows_first_def page_key_def truthy_def validID_def)
  then show ?thesis
    using served_load [OF s tm x c url ids, of k] a True
    by (auto simp: older_clicked_def shows_first_def truthy_def split: option.splits)
next
  case False
  then have "\<not> truthy (cursor a)" using a by (simp add: shows_first_def truthy_def)
  then show ?thesis using a False by (simp add: older_clicked_def shows_first_def)
qed

text \<open>Every row carries the identifier of an event.\<close>

lemma updated_row: "(i, d) \<in> set (AList.update j c al) \<Longrightarrow> (i, d) \<in> set al \<or> d = c"
  by (induction al) (auto split: if_splits)

lemma project_all_ids:
  assumes "project_all es tb = Inr tb'" and "(i, d) \<in> set (draws_table tb')"
  shows "(i, d) \<in> set (draws_table tb) \<or> (\<exists>e \<in> set es. draw_id d = val e ''drawId'')"
  using assms
proof (induction es arbitrary: tb)
  case (Cons e es)
  then obtain u where p: "project e tb = Inr u" and r: "project_all es u = Inr tb'" by (auto split: sum.splits)
  obtain j c where c: "Apply (map_of (draws_table tb) j) e = Inr c" "draws_table u = AList.update j c (draws_table tb)"
    using project_row [OF p] by metis
  have "(i, d) \<in> set (draws_table tb) \<or> d = c" if "(i, d) \<in> set (draws_table u)"
    using that unfolding c(2) by (rule updated_row)
  then show ?case using Cons.IH [OF r Cons.prems(2)] Apply_id [OF c(1)] by auto
qed simp

text \<open>C26: The list of past rounds is complete: with a store that the indexer has kept and that
  stays as it is, a service that is not recovering and a list that is loaded once, the button for older rounds, clicked as long as the page
  has it, ends after one click for every further ten rounds with every settled round of the store
  exactly once, newest first, without an error and without a cursor for a further page.\<close>

theorem history_is_complete:
  assumes "well_kept s" and "\<forall>e \<in> set (events s). validID (val e ''drawId'')"
    and "\<forall>y \<in> set (x # xs). \<not> ix_recovering (fst y)" and "config a = Some cf"
    and "CHR ''?'' \<notin> set (API_URL b)" and "length (settled_rows s) \<le> 10 * (1 + length xs)"
  shows "\<exists>tm. chain_time s = Inr tm \<and>
    history (paged b s x xs a) = map (\<lambda>r. Refresh tm (snd r)) (settled_rows s) \<and>
    cursor (paged b s x xs a) = None \<and> historyError (paged b s x xs a) = [] \<and>
    sorted_wrt (\<lambda>r q. fst q < fst r) (settled_rows s) \<and>
    set (settled_rows s) = {r \<in> set (draws_table (tables s)). settled_row (snd r)}"
proof -
  have ch: "chained s" using assms(1) by (simp add: well_kept_def)
  have "\<exists>tm. chain_time s = Inr tm"
    using chained_reach [OF ch, of "st_cursor s"] by (auto simp: chain_time_def)
  then obtain tm where tm: "chain_time s = Inr tm" by blast
  have "project_all (events s) no_tables = Inr (tables s)" using assms(1) by (simp add: well_kept_def)
  then have ids: "\<forall>r \<in> set (settled_rows s). validID (draw_id (snd r))"
    using project_all_ids assms(2) by (fastforce simp: settled_rows_def no_tables_def)
  have clicks: "shows_first s tm (k + 10 * length ys) (fold (older_clicked b s) ys u)"
    if "shows_first s tm k u" "0 < k" "config u = Some cf" "\<forall>y \<in> set ys. \<not> ix_recovering (fst y)" for ys k u
    using that
  proof (induction ys arbitrary: k u)
    case (Cons y ys)
    from older_step [OF assms(1) tm _ Cons.prems(3) assms(5) ids Cons.prems(1,2), of y] Cons.prems
    show ?case using Cons.IH [of "k + 10" "older_clicked b s y u"] by (simp add: algebra_simps)
  qed simp
  have x: "\<not> ix_recovering (fst x)" using assms(3) by simp
  note start = served_reload [OF assms(1) tm x assms(4,5) ids]
  have "shows_first s tm (10 + 10 * length xs) (paged b s x xs a)"
    unfolding paged_def using start assms(3,4) by (intro clicks) simp_all
  then show ?thesis
    using tm assms(6) settled_descending [OF assms(1)] by (auto simp: shows_first_def settled_rows_def)
qed

section \<open>Eleven settled rounds\<close>

text \<open>A store after one block in which eleven rounds were started and cancelled, one after the other.\<close>

definition event_at :: "nat \<Rightarrow> event \<Rightarrow> Event" where
  "event_at k e =
     \<lparr>ev_name = event_name e, ev_values = event_values plain_text e, ev_blockNumber = 1, ev_blockHash = ''0xA'',
      ev_txHash = ''0x1'', ev_txIndex = 0, ev_logIndex = k, ev_timestamp = 1000\<rparr>"

definition opened :: "nat \<Rightarrow> Event" where
  "opened i = event_at (2 * i) (DrawStarted i 1000 1000 10 2 0)"

definition called_off :: "nat \<Rightarrow> Event" where
  "called_off i = event_at (2 * i + 1) (DrawCancelled i 0 0 0)"

definition opened_row :: "nat \<Rightarrow> Draw" where
  "opened_row i =
     \<lparr>draw_id = show_nat 10 i, status = ''ACTIVE'', startTime = 1000, deadline = 1000, finalizedAt = None,
      ticketPrice = show_nat 10 10, minimumParticipants = 2, participantCount = 0, luckyNumber = None, winner = None,
      pool = show_nat 10 0, inheritedRollover = show_nat 10 0, rollover = ''0'', daoFee = ''0'', winnerPrize = ''0'',
      prizeClaimed = False, daoFeePaid = ''0'', requestId = None, tickets = fresh_tickets, remainingSeconds = 0,
      draw_canPerformDraw = False\<rparr>"

definition closed_row :: "nat \<Rightarrow> Draw" where
  "closed_row i = (opened_row i)\<lparr>status := ''CANCELLED'', rollover := show_nat 10 0, finalizedAt := Some 1000\<rparr>"

abbreviation rows_only :: "(int \<times> Draw) list \<Rightarrow> tables" where
  "rows_only rs \<equiv> \<lparr>draws_table = rs, tickets_table = Map.empty, claims_table = Map.empty\<rparr>"

lemma empty_tickets: "list_all (\<lambda>t. wallet t = None) ts \<Longrightarrow> put_tickets i ts tb = Inr tb"
  by (induction ts) (simp_all add: put_ticket_def)

lemma fresh_empty: "put_tickets i fresh_tickets tb = Inr tb"
  by (rule empty_tickets) (simp add: fresh_tickets_def list_all_iff)

lemma update_new: "k \<notin> fst ` set xs \<Longrightarrow> AList.update k v xs = xs @ [(k, v)]"
  by (induction xs) auto

lemma update_last: "k \<notin> fst ` set xs \<Longrightarrow> AList.update k v (xs @ [(k, u)]) = xs @ [(k, v)]"
  by (induction xs) auto

lemma map_of_new: "k \<notin> fst ` set xs \<Longrightarrow> map_of (xs @ [(k, v)]) k = Some v" "k \<notin> fst ` set xs \<Longrightarrow> map_of xs k = None"
  by (simp_all add: map_add_Some_iff map_of_eq_None_iff)

lemma event_facts:
  "val (opened i) ''drawId'' = show_nat 10 i" "val (called_off i) ''drawId'' = show_nat 10 i"
  "ev_name (opened i) = ''DrawStarted''" "ev_name (called_off i) = ''DrawCancelled''"
  by (simp_all add: val_def opened_def called_off_def event_at_def)

lemma apply_opened: "Apply None (opened i) = Inr (opened_row i)"
  by (simp add: Apply_def event_facts apply_started_def opened_row_def del: show_zero)
     (simp add: val_def opened_def event_at_def del: show_zero)

lemma apply_called_off: "Apply (Some (opened_row i)) (called_off i) = Inr (closed_row i)"
  by (simp add: Apply_def event_facts apply_cancelled_def closed_row_def Let_def opened_row_def del: show_zero)
     (simp add: val_def called_off_def event_at_def del: show_zero)

lemma project_round:
  assumes "int i < 10 ^ 78" and "int i \<notin> fst ` set xs"
  shows "project_all [opened i, called_off i] (rows_only xs) = Inr (rows_only (xs @ [(int i, closed_row i)]))"
proof -
  have c: "put_claim j (opened i) tb = Inr tb" "put_claim j (called_off i) tb = Inr tb" for j tb
    by (simp_all add: put_claim_def event_facts)
  have r: "draw_id (opened_row i) = show_nat 10 i" "draw_id (closed_row i) = show_nat 10 i"
    "pool (opened_row i) = show_nat 10 0" "pool (closed_row i) = show_nat 10 0"
    "tickets (opened_row i) = fresh_tickets" "tickets (closed_row i) = fresh_tickets"
    by (simp_all add: opened_row_def closed_row_def del: show_zero)
  have "project (opened i) (rows_only xs) = Inr (rows_only (xs @ [(int i, opened_row i)]))"
    using assms apply_opened [of i]
    by (simp add: project_def event_facts numeric_show map_of_new r c fresh_empty update_new del: show_zero)
  moreover have "project (called_off i) (rows_only (xs @ [(int i, opened_row i)])) = Inr (rows_only (xs @ [(int i, closed_row i)]))"
    using assms apply_called_off [of i] map_of_new(1) [OF assms(2)]
    by (simp add: project_def event_facts numeric_show r c fresh_empty update_last del: show_zero map_of_append)
  ultimately show ?thesis by simp
qed

definition eleven_events :: "Event list" where
  "eleven_events = concat (map (\<lambda>i. [opened i, called_off i]) [1..<12])"

definition eleven_rows :: "(int \<times> Draw) list" where
  "eleven_rows = map (\<lambda>i. (int i, closed_row i)) [1..<12]"

lemma eleven_projected: "project_all eleven_events no_tables = Inr (rows_only eleven_rows)"
proof -
  have "project_all (concat (map (\<lambda>i. [opened i, called_off i]) [1..<Suc n])) no_tables =
      Inr (rows_only (map (\<lambda>i. (int i, closed_row i)) [1..<Suc n]))" if "n < 12" for n
    using that
  proof (induction n)
    case (Suc n)
    have "int (Suc n) < 10 ^ 78" using Suc.prems by simp
    moreover have "int (Suc n) \<notin> fst ` set (map (\<lambda>i. (int i, closed_row i)) [1..<Suc n])" by auto
    ultimately have "project_all [opened (Suc n), called_off (Suc n)] (rows_only (map (\<lambda>i. (int i, closed_row i)) [1..<Suc n])) =
        Inr (rows_only (map (\<lambda>i. (int i, closed_row i)) [1..<Suc n] @ [(int (Suc n), closed_row (Suc n))]))"
      by (rule project_round)
    then show ?case using Suc.IH Suc.prems by (simp add: project_all_append del: project_all.simps)
  qed (simp add: no_tables_def)
  from this [of 11] show ?thesis by (simp add: eleven_events_def eleven_rows_def)
qed

definition eleven :: store where
  "eleven =
     \<lparr>st_start = 1, st_cursor = 1, st_hash = ''0xA'',
      blocks = [1 \<mapsto> \<lparr>b_number = 1, b_hash = ''0xA'', b_parentHash = ''0x9'', b_timestamp = 1000\<rparr>],
      events = eleven_events, tables = rows_only eleven_rows\<rparr>"

lemma eleven_kept: "well_kept eleven"
proof -
  have p: "map place eleven_events = map (\<lambda>k. (1, 0, k)) [2..<24]"
    by (simp add: eleven_events_def upt_rec opened_def called_off_def event_at_def place_def)
  have k: "map event_key eleven_events = map (\<lambda>k. (''0xA'', ''0x1'', k)) [2..<24]"
    by (simp add: eleven_events_def upt_rec opened_def called_off_def event_at_def event_key_def)
  have "sorted (map place eleven_events)" unfolding p by (simp add: upt_rec)
  moreover have "distinct (map event_key eleven_events)" unfolding k by (simp add: distinct_map inj_on_def)
  moreover have "ev_blockNumber e = 1 \<and> ev_blockHash e = ''0xA''" if "e \<in> set eleven_events" for e
    using that by (auto simp: eleven_events_def opened_def called_off_def event_at_def)
  ultimately show ?thesis
    using eleven_projected by (auto simp: well_kept_def chained_def eleven_def)
qed

lemma eleven_settled: "length (settled_rows eleven) = 11"
proof -
  have "settled_row (snd r)" if "r \<in> set (by_id eleven_rows)" for r
    using that by (auto simp: by_id_set eleven_rows_def closed_row_def settled_row_def)
  then have "settled_rows eleven = by_id eleven_rows" by (simp add: settled_rows_def eleven_def)
  then show ?thesis by (simp add: by_id_def eleven_rows_def)
qed

text \<open>The first page has ten of the eleven rounds; one click on the button for older rounds brings the last.\<close>

theorem history_is_complete_witness:
  "let x = (initial_sync, initial_sync, 7) in
     length (history (paged sample_build eleven x [] sample_app)) = 10 \<and>
     length (history (paged sample_build eleven x [x] sample_app)) = 11 \<and>
     cursor (paged sample_build eleven x [x] sample_app) = None"
proof -
  let ?x = "(initial_sync, initial_sync, 7)"
  have i: "\<forall>e \<in> set (events eleven). validID (val e ''drawId'')"
    by (auto simp: eleven_def eleven_events_def event_facts intro!: validID_show)
  have st: "\<forall>y \<in> set [?x, ?x]. \<not> ix_recovering (fst y)" by (simp add: initial_sync_def)
  have c: "config sample_app = Some sample_config" "CHR ''?'' \<notin> set (API_URL sample_build)"
    by (simp_all add: sample_app_def state_defs initial_app_def sample_build_def API_URL_def or_str_def or_opt_def)
  have l: "length (settled_rows eleven) \<le> 10 * (1 + length [?x])" by (simp add: eleven_settled)
  obtain tm where tm: "chain_time eleven = Inr tm"
    and h: "history (paged sample_build eleven ?x [?x] sample_app) = map (\<lambda>r. Refresh tm (snd r)) (settled_rows eleven)"
    "cursor (paged sample_build eleven ?x [?x] sample_app) = None"
    using history_is_complete [OF eleven_kept i st c l] by blast
  have "\<forall>r \<in> set (settled_rows eleven). validID (draw_id (snd r))"
    by (auto simp: settled_rows_def eleven_def eleven_rows_def closed_row_def opened_row_def intro!: validID_show)
  from served_reload(1) [OF eleven_kept tm _ c this, of ?x] st
  have "shows_first eleven tm 10 (paged sample_build eleven ?x [] sample_app)" by (simp add: paged_def)
  then show ?thesis using h by (simp add: shows_first_def eleven_settled Let_def)
qed

end
