(* ===== verification/EndToEnd.thy ===== *)
theory EndToEnd
  imports Demo Stack
begin

text \<open>
  \<^verbatim>\<open>scripts/e2e.mjs\<close>, the scenario through every outcome of a round, a claim that is orphaned and recovered, and
  the pages of the history; \<^verbatim>\<open>scripts/verify.mjs\<close>, which runs it on a stack of its own; and
  \<^verbatim>\<open>contracts/scripts/export.cjs\<close>, which hands the contract's ABI to the client and the indexer.
\<close>

section \<open>Helpers of the scenario\<close>

text \<open>\<open>st_manifest\<close> is the deployment file, \<open>st_api\<close> the address of the history service.\<close>

record setting =
  st_manifest :: manifest
  st_api :: string

definition check_that :: "bool \<Rightarrow> ('s, unit) prog" where
  "check_that b = (if b then Ret () else Throw (new_Error ''AssertionError''))"

text \<open>The six accounts, asked for together.\<close>

fun pick_users :: "nat \<Rightarrow> resp list \<Rightarrow> ('s, string list) prog" where
  "pick_users i [] = Ret []"
| "pick_users i (r # rs) =
     (case as_strs r of
        None \<Rightarrow> Throw TypeError
      | Some accounts \<Rightarrow>
          if length accounts \<le> i then Throw (new_Error ''no such account'')
          else bind (pick_users (Suc i) rs) (\<lambda>us. Ret (accounts ! i # us)))"

definition test_users :: "('s, string list) prog" where
  "test_users =
     bind (await as_all (Batch (replicate 6 (Some (RpcCall ''eth_accounts'' []))))) (\<lambda>rs.
       if length rs = 6 then pick_users 0 rs else Throw TypeError)"

text \<open>\<^verbatim>\<open>get(path)\<close>: the text of the response is read for the message of the assertion.\<close>

definition get_api :: "setting \<Rightarrow> string \<Rightarrow> ('s, body) prog" where
  "get_api x path =
     bind (await as_http (Fetch (st_api x @ path))) (\<lambda>(ok, code).
       seq (await as_any BodyText) (seq (check_that (code = 200)) (await as_body BodyJson)))"

text \<open>\<^verbatim>\<open>indexed(id, predicate)\<close>: at most a hundred attempts; whatever goes wrong in one is ignored.\<close>

definition attempt :: "setting \<Rightarrow> nat \<Rightarrow> (Draw \<Rightarrow> bool) \<Rightarrow> ('s, Draw option) prog" where
  "attempt x i pred =
     catch (bind (get_api x (''/api/v1/draws/'' @ show_nat 10 i)) (\<lambda>b.
       case b of
         CurrentBody r \<Rightarrow>
           if synced r
           then (case api_draw r of None \<Rightarrow> Throw TypeError | Some d \<Rightarrow> Ret (if pred d then Some d else None))
           else Ret None
       | HistoryBody h \<Rightarrow> Ret None
       | ConfigBody c \<Rightarrow> Ret None
       | ErrorBody m \<Rightarrow> Ret None)) (\<lambda>_. Ret None)"

fun poll_index :: "nat \<Rightarrow> setting \<Rightarrow> nat \<Rightarrow> (Draw \<Rightarrow> bool) \<Rightarrow> ('s, Draw) prog" where
  "poll_index 0 x i pred = Throw (new_Error (''Index did not converge for draw '' @ show_nat 10 i))"
| "poll_index (Suc n) x i pred =
     bind (attempt x i pred) (\<lambda>found.
       case found of
         Some d \<Rightarrow> Ret d
       | None \<Rightarrow> seq (await as_any (Sleep 100)) (poll_index n x i pred))"

definition indexed_draw :: "setting \<Rightarrow> nat \<Rightarrow> (Draw \<Rightarrow> bool) \<Rightarrow> ('s, Draw) prog" where
  "indexed_draw x i pred = poll_index 100 x i pred"

definition awaits_status :: "setting \<Rightarrow> nat \<Rightarrow> string \<Rightarrow> ('s, Draw) prog" where
  "awaits_status x i st = indexed_draw x i (\<lambda>d. status d = st)"

text \<open>Transactions of the scenario; \<open>us\<close> are the accounts, the first of which signs what names no other.\<close>

definition on_lottery :: "setting \<Rightarrow> string \<Rightarrow> tx_call \<Rightarrow> ('s, unit) prog" where
  "on_lottery x u call = bind (send_and_wait u (mf_lotteryAddress (st_manifest x)) call) (\<lambda>_. Ret ())"

definition read_round :: "setting \<Rightarrow> string list \<Rightarrow> nat \<Rightarrow> ('s, string SolDraw) prog" where
  "read_round x us i = draw_of (us ! 0) (mf_lotteryAddress (st_manifest x)) i"

definition token_balance :: "setting \<Rightarrow> string list \<Rightarrow> string \<Rightarrow> ('s, nat) prog" where
  "token_balance x us a = await as_nat (SignerRead (us ! 0) (mf_tokenAddress (st_manifest x)) (balanceOf a))"

fun approve_all :: "setting \<Rightarrow> string list \<Rightarrow> ('s, unit) prog" where
  "approve_all x [] = Ret ()"
| "approve_all x (u # us) =
     seq (send_and_wait u (mf_tokenAddress (st_manifest x)) (approve (mf_lotteryAddress (st_manifest x)) max_uint256))
       (approve_all x us)"

fun buy_each :: "setting \<Rightarrow> nat \<Rightarrow> string list \<Rightarrow> ('s, unit) prog" where
  "buy_each x i [] = Ret ()"
| "buy_each x i (u # us) = seq (on_lottery x u (buyTicket (show_nat 10 i))) (buy_each x i us)"

definition buy :: "setting \<Rightarrow> string list \<Rightarrow> nat \<Rightarrow> nat \<Rightarrow> ('s, unit) prog" where
  "buy x us n i = buy_each x i (take n us)"

definition expire :: "setting \<Rightarrow> string list \<Rightarrow> nat \<Rightarrow> ('s, unit) prog" where
  "expire x us i =
     bind (read_round x us i) (\<lambda>d. await as_any (RpcCall ''evm_setNextBlockTimestamp'' [int (s_deadline d)]))"

definition settle :: "setting \<Rightarrow> string list \<Rightarrow> nat \<Rightarrow> int \<Rightarrow> ('s, unit) prog" where
  "settle x us i lucky =
     seq (on_lottery x (us ! 0) (performDraw (show_nat 10 i)))
       (bind (read_round x us i) (\<lambda>d.
          if s_status d = DRAWING
          then bind (send_and_wait (us ! 0) (mf_randomnessProvider (st_manifest x))
                 (fulfill (show_nat 10 (s_requestId d)) (lucky - 1))) (\<lambda>_. Ret ())
          else Ret ()))"

definition solvent :: "setting \<Rightarrow> string list \<Rightarrow> ('s, unit) prog" where
  "solvent x us =
     bind (token_balance x us (mf_lotteryAddress (st_manifest x))) (\<lambda>b.
     bind (await as_nat (SignerRead (us ! 0) (mf_lotteryAddress (st_manifest x)) call_liabilities)) (\<lambda>l.
       check_that (b = l)))"

definition next_round :: "setting \<Rightarrow> string list \<Rightarrow> nat \<Rightarrow> ('s, nat) prog" where
  "next_round x us i = seq (on_lottery x (us ! 0) (startDraw (show_nat 10 i))) (Ret (Suc i))"

section \<open>The scenario\<close>

text \<open>Network, accounts, price and approvals; then the current round, active and empty.\<close>

definition begin_test :: "setting \<Rightarrow> ('s, string list \<times> nat) prog" where
  "begin_test x =
     bind (await as_nat GetNetwork) (\<lambda>chain.
     seq (check_that (chain = 31337))
    (bind test_users (\<lambda>us.
     bind (await as_nat (SignerRead (us ! 0) (mf_lotteryAddress (st_manifest x)) call_ticketPrice)) (\<lambda>price.
     seq (approve_all x us) (Ret (us, price))))))"

definition empty_round :: "setting \<Rightarrow> string list \<Rightarrow> ('s, nat) prog" where
  "empty_round x us =
     bind (await as_nat (SignerRead (us ! 0) (mf_lotteryAddress (st_manifest x)) currentDrawId)) (\<lambda>i.
     bind (read_round x us i) (\<lambda>d.
     seq (check_that (s_status d = ACTIVE)) (seq (check_that (s_participantCount d = 0)) (Ret i))))"

text \<open>A rollover without a winner, then a winner.\<close>

definition rollover_and_winner :: "setting \<Rightarrow> string list \<Rightarrow> nat \<Rightarrow> nat \<Rightarrow> ('s, nat) prog" where
  "rollover_and_winner x us unit i =
     seq (buy x us 2 i) (seq (expire x us i) (seq (settle x us i 10)
    (bind (awaits_status x i ''NO_WINNER'') (\<lambda>d.
     seq (check_that (rollover d = show_nat 10 (20 * unit)))
    (seq (solvent x us)
    (bind (next_round x us i) (\<lambda>j.
     seq (buy x us 5 j) (seq (settle x us j 1)
    (bind (awaits_status x j ''WINNER_DECLARED'') (\<lambda>d.
     seq (check_that ([pool d, daoFee d, winnerPrize d] =
            [show_nat 10 (70 * unit), show_nat 10 (3 * unit), show_nat 10 (67 * unit)]))
         (Ret j)))))))))))"

text \<open>A claim is indexed, orphaned and recovered.\<close>

definition orphan_claim :: "setting \<Rightarrow> string list \<Rightarrow> nat \<Rightarrow> ('s, unit) prog" where
  "orphan_claim x us j =
     bind (await as_str (RpcCall ''evm_snapshot'' [])) (\<lambda>snapshot.
     seq (on_lottery x (us ! 0) (claimPrize (show_nat 10 j)))
    (seq (awaits_status x j ''COMPLETED'')
    (bind (await as_bool (RpcText ''evm_revert'' snapshot)) (\<lambda>reverted.
     seq (check_that reverted)
    (seq (await as_any (RpcCall ''evm_increaseTime'' [9]))
    (seq (await as_any (RpcCall ''evm_mine'' []))
    (seq (indexed_draw x j (\<lambda>d. status d = ''WINNER_DECLARED'' \<and> \<not> prizeClaimed d)) (Ret ()))))))))"

text \<open>The prize of an old round is paid while the next one is open, which is then cancelled.\<close>

definition claim_old_prize :: "setting \<Rightarrow> string list \<Rightarrow> nat \<Rightarrow> nat \<Rightarrow> nat \<Rightarrow> ('s, nat) prog" where
  "claim_old_prize x us price unit j =
     bind (next_round x us j) (\<lambda>i.
     seq (buy x us 1 i)
    (bind (token_balance x us (us ! 0)) (\<lambda>before.
     bind (token_balance x us (mf_daoAddress (st_manifest x))) (\<lambda>dao.
     seq (on_lottery x (us ! 0) (claimPrize (show_nat 10 j)))
    (bind (token_balance x us (us ! 0)) (\<lambda>won.
     seq (check_that (int won - int before = 67 * int unit))
    (bind (token_balance x us (mf_daoAddress (st_manifest x))) (\<lambda>fee.
     seq (check_that (int fee - int dao = 3 * int unit))
    (bind (read_round x us i) (\<lambda>d.
     seq (check_that (s_pool d = price))
    (seq (solvent x us) (seq (expire x us i) (seq (settle x us i 1)
    (seq (awaits_status x i ''CANCELLED'') (Ret i)))))))))))))))"

text \<open>A refund from the cancelled round, a round without a winner, and one cancelled with a rollover.\<close>

definition refunds_and_rollover :: "setting \<Rightarrow> string list \<Rightarrow> nat \<Rightarrow> nat \<Rightarrow> ('s, nat) prog" where
  "refunds_and_rollover x us unit c =
     bind (next_round x us c) (\<lambda>i.
     seq (on_lottery x (us ! 0) (claimRefund (show_nat 10 c)))
    (seq (indexed_draw x c (\<lambda>d. case tickets d of [] \<Rightarrow> False | t # ts \<Rightarrow> refunded t))
    (seq (buy x us 5 i) (seq (settle x us i 10) (seq (awaits_status x i ''NO_WINNER'')
    (bind (next_round x us i) (\<lambda>j.
     seq (buy x us 1 j) (seq (expire x us j) (seq (settle x us j 1)
    (bind (awaits_status x j ''CANCELLED'') (\<lambda>d.
     seq (check_that (rollover d = show_nat 10 (50 * unit)))
    (seq (on_lottery x (us ! 0) (claimRefund (show_nat 10 j)))
    (bind (next_round x us j) (\<lambda>k.
     bind (awaits_status x k ''ACTIVE'') (\<lambda>d.
     seq (check_that (pool d = show_nat 10 (50 * unit)))
    (seq (solvent x us) (Ret k)))))))))))))))))"

definition history_page :: "setting \<Rightarrow> string \<Rightarrow> ('s, HistoryResponse) prog" where
  "history_page x path =
     bind (get_api x (''/api/v1/draws/history?limit=2'' @ path)) (\<lambda>b.
       case b of HistoryBody h \<Rightarrow> Ret h | _ \<Rightarrow> Throw TypeError)"

definition check_pages :: "setting \<Rightarrow> ('s, unit) prog" where
  "check_pages x =
     bind (history_page x []) (\<lambda>page.
     seq (check_that (length (hist_draws page) = 2))
    (case nextCursor page of
        None \<Rightarrow> check_that False
      | Some c \<Rightarrow>
          seq (check_that (c \<noteq> []))
         (bind (history_page x (''&cursor='' @ c)) (\<lambda>page2.
            check_that (\<not> list_ex (\<lambda>d. list_ex (\<lambda>p. draw_id p = draw_id d) (hist_draws page)) (hist_draws page2))))))"

definition scenario :: "setting \<Rightarrow> ('s, nat \<times> nat) prog" where
  "scenario x =
     bind (begin_test x) (\<lambda>(us, price).
     bind (empty_round x us) (\<lambda>i.
     bind (rollover_and_winner x us (price div 10) i) (\<lambda>j.
     seq (orphan_claim x us j)
    (bind (claim_old_prize x us price (price div 10) j) (\<lambda>c.
     bind (refunds_and_rollover x us (price div 10) c) (\<lambda>k.
     seq (check_pages x) (Ret (k, price div 10))))))))"

text \<open>\<^verbatim>\<open>e2e\<close>; \<open>restart\<close> is the argument \<^verbatim>\<open>restartBackend\<close>.\<close>

definition after_restart :: "setting \<Rightarrow> nat \<Rightarrow> nat \<Rightarrow> ('s, unit) prog" where
  "after_restart x i unit =
     bind (get_api x ''/api/v1/draws/current'') (\<lambda>b.
       case b of
         CurrentBody r \<Rightarrow>
           (case api_draw r of
              None \<Rightarrow> Throw TypeError
            | Some d \<Rightarrow>
                seq (check_that (draw_id d = show_nat 10 i)) (check_that (pool d = show_nat 10 (50 * unit))))
       | _ \<Rightarrow> Throw TypeError)"

definition e2e :: "setting \<Rightarrow> ('s, 'b) prog option \<Rightarrow> ('s, unit) prog" where
  "e2e x restart =
     bind (scenario x) (\<lambda>(i, unit).
       case restart of None \<Rightarrow> Ret () | Some r \<Rightarrow> seq r (after_restart x i unit))"

section \<open>\<^verbatim>\<open>verify.mjs\<close>\<close>

text \<open>The deployment file of the stack is read when the scenario starts; \<open>m\<close> is what it holds then.\<close>

definition verify_on :: "string \<Rightarrow> manifest \<Rightarrow> ports \<Rightarrow> nat \<Rightarrow> (host, unit) prog" where
  "verify_on root m ps backend =
     finally_run
       (seq (e2e \<lparr>st_manifest = m, st_api = local_url (api_port ps)\<rparr>
               (Some (restartBackend root True ps (service_env root True ps (database_url (db_port ps))) backend)))
            (run_command ''npm'' [''run'', ''test:browser'']))
       shutdown"

definition verify_script :: "string \<Rightarrow> manifest \<Rightarrow> (host, unit) prog" where
  "verify_script root m =
     seq (run_command ''npm'' [''run'', ''check''])
    (bind (startStack root True None) (\<lambda>backend.
       case ports_of True None of None \<Rightarrow> Throw TypeError | Some ps \<Rightarrow> verify_on root m ps backend))"

section \<open>\<^verbatim>\<open>export.cjs\<close>\<close>

text \<open>
  Files by path; the content of an artifact is what its field \<^verbatim>\<open>abi\<close> holds, a written file is that in one of
  two layouts.
\<close>

datatype 'j written = Pretty 'j | Compact 'j

record 'j files =
  artifact :: "string \<rightharpoonup> 'j"
  disk :: "string \<rightharpoonup> 'j written"

definition exported :: "(string \<times> string) list" where
  "exported =
     [(''DLottery'', ''DLottery.sol''), (''MockUSD8'', ''mocks/MockUSD8.sol''),
      (''MockRandomnessProvider'', ''mocks/MockRandomnessProvider.sol''), (''VRFProvider'', ''VRFProvider.sol'')]"

fun export_all :: "string \<Rightarrow> (string \<times> string) list \<Rightarrow> ('j files, unit) prog" where
  "export_all root [] = Ret ()"
| "export_all root ((name, file) # xs) =
     Get (\<lambda>s. case artifact s (root @ ''/contracts/artifacts/src/'' @ file @ ''/'' @ name @ ''.json'') of
        None \<Rightarrow> Throw (new_Error ''ENOENT'')
      | Some abi \<Rightarrow>
          Upd (\<lambda>s. s\<lparr>disk := (disk s)(root @ ''/shared/'' @ name @ ''.json'' \<mapsto> Pretty abi)\<rparr>)
            (seq (if name = ''DLottery''
                  then update (\<lambda>s. s\<lparr>disk := (disk s)(root @ ''/backend/internal/lottery/abi.json'' \<mapsto> Compact abi)\<rparr>)
                  else Ret ())
               (export_all root xs)))"

definition export_cjs :: "string \<Rightarrow> ('j files, unit) prog" where
  "export_cjs root = export_all root exported"

end
