(* ===== verification/Verified.thy ===== *)
theory Verified
  imports EndToEnd Services
begin

text \<open>
  What the verification run promises, whatever the node, the history service and the commands answer: it ends,
  it touches no other network, and it leaves no process behind; and the exported ABIs agree.
\<close>

section \<open>The scenario starts no process\<close>

lemma assertion_rounds: "new_Error ''AssertionError'' \<noteq> out_of_rounds"
  by simp

lemma steady_check [steady_intros]: "steady (check_that b)"
  by (simp add: check_that_def steady_Ret steady_Throw)

lemma steady_signers [steady_intros]: "steady signers"
  unfolding signers_def by (intro steady_intros)

lemma steady_send_and_wait [steady_intros]: "steady (send_and_wait u t c)"
  unfolding send_and_wait_def by (intro steady_intros)

lemma steady_pick [steady_intros]: "steady (pick_users i rs)"
  by (induction rs arbitrary: i) (auto intro!: steady_intros split: option.split)

lemma steady_users [steady_intros]: "steady test_users"
  unfolding test_users_def by (auto intro!: steady_intros)

lemma steady_get [steady_intros]: "steady (get_api x path)"
  unfolding get_api_def by (auto intro!: steady_intros split: prod.split)

lemma steady_attempt [steady_intros]: "steady (attempt x i pred)"
  unfolding attempt_def by (auto intro!: steady_intros split: body.split option.split)

lemma steady_poll [steady_intros]: "steady (poll_index n x i pred)"
  by (induction n) (auto intro!: steady_intros split: option.split)

lemma steady_indexed [steady_intros]: "steady (indexed_draw x i pred)" "steady (awaits_status x i st)"
  unfolding awaits_status_def indexed_draw_def by (intro steady_intros)+

lemma steady_reads [steady_intros]: "steady (on_lottery x u c)" "steady (read_round x us i)" "steady (token_balance x us a)"
  unfolding on_lottery_def read_round_def draw_of_def token_balance_def by (intro steady_intros)+

lemma steady_approve [steady_intros]: "steady (approve_all x us)"
  by (induction us) (auto intro!: steady_intros)

lemma steady_buy [steady_intros]: "steady (buy x us n i)"
proof -
  have "steady (buy_each x i vs)" for vs by (induction vs) (auto intro!: steady_intros)
  then show ?thesis by (simp add: buy_def)
qed

lemma steady_moves [steady_intros]: "steady (expire x us i)" "steady (settle x us i l)" "steady (solvent x us)"
  "steady (next_round x us i)"
  unfolding expire_def settle_def solvent_def next_round_def by (auto intro!: steady_intros)

lemma steady_page [steady_intros]: "steady (history_page x path)"
  unfolding history_page_def by (auto intro!: steady_intros split: body.split)

lemma steady_pages [steady_intros]: "steady (check_pages x)"
  unfolding check_pages_def by (auto intro!: steady_intros split: option.split)

lemma steady_parts [steady_intros]: "steady (begin_test x)" "steady (empty_round x us)" "steady (rollover_and_winner x us n i)" "steady (orphan_claim x us j)"
  "steady (claim_old_prize x us price n j)" "steady (refunds_and_rollover x us n c)"
  unfolding begin_test_def empty_round_def rollover_and_winner_def orphan_claim_def claim_old_prize_def refunds_and_rollover_def
  by (auto intro!: steady_intros)

lemma steady_scenario [steady_intros]: "steady (scenario x)"
  unfolding scenario_def by (auto intro!: steady_intros split: prod.split)

lemma steady_after [steady_intros]: "steady (after_restart x i n)"
  unfolding after_restart_def by (auto intro!: steady_intros split: body.split option.split)

section \<open>The service that is restarted\<close>

lemma wp_anything: "wp R (\<lambda>_ _. True) p (\<lambda>_ _. True) (\<lambda>_ _. True) s"
  by (induction p arbitrary: s) simp_all

lemma lasting_within: "lasting (\<lambda>s. p < length (procs s))"
  unfolding lasting_def os_step_def by auto

lemma within_spawn: "p < length (procs s) \<Longrightarrow> p < length (procs (spawn c args env s))"
  by (simp add: spawn_def)

text \<open>The number \<open>startStack\<close> returns is that of a process.\<close>

lemma backend_within: "does (start_backend root isolated ps env) (\<lambda>p t. p < length (procs t)) (\<lambda>_ _. True) s"
proof -
  have wait: "does (waitFor url is_ok) (\<lambda>_ t. p < length (procs t)) (\<lambda>_ _. True) t" if "p < length (procs t)" for p t url
    by (rule wp_mono [OF steadyD [OF steady_waitFor lasting_within that]]) (auto intro: steady_intros)
  then show ?thesis
    by (simp add: start_backend_def child_def push_child_def spawn_def wp_seq) (rule wp_mono, rule wait, simp_all)
qed

lemma web_within: "p < length (procs s) \<Longrightarrow> does (start_web root ps env) (\<lambda>_ t. p < length (procs t)) (\<lambda>_ _. True) s"
proof -
  assume p: "p < length (procs s)"
  have "does (waitFor url is_ok) (\<lambda>_ t. p < length (procs t)) (\<lambda>_ _. True) t" if "p < length (procs t)" for t url
    by (rule wp_mono [OF steadyD [OF steady_waitFor lasting_within that]]) (auto intro: steady_intros)
  then show ?thesis using p by (simp add: start_web_def child_def push_child_def spawn_def)
qed

lemma stack_within: "does (startStack root isolated w) (\<lambda>p t. p < length (procs t)) (\<lambda>_ _. True) s"
proof -
  have pair: "does (bind (start_backend root isolated ps env) (\<lambda>backend. seq (start_web root ps env) (Ret backend)))
      (\<lambda>p t. p < length (procs t)) (\<lambda>_ _. True) t" for ps env t
    unfolding wp_bind by (rule wp_mono [OF backend_within]) (auto simp: wp_seq intro: wp_mono [OF web_within])
  have services: "does (services_on root isolated ps env) (\<lambda>p t. p < length (procs t)) (\<lambda>_ _. True) t" for ps env t
    unfolding services_on_def wp_seq by (intro wp_mono [OF wp_anything] pair) (simp_all add: wp_anything)
  have any: "does (bind p f) Q (\<lambda>_ _. True) t"
    if "\<And>a u. does (f a) Q (\<lambda>_ _. True) u" for p :: "(host, 'a) prog" and f :: "'a \<Rightarrow> (host, nat) prog" and Q t
    unfolding wp_bind by (rule wp_mono [OF wp_anything]) (simp_all add: that)
  have all: "does (start_services root isolated ps) (\<lambda>p t. p < length (procs t)) (\<lambda>_ _. True) t" for ps t
    unfolding start_services_def seq_def by (intro any) (auto intro!: any services split: prod.split)
  have failed: "does (seq shutdown (Throw e)) (\<lambda>p t. p < length (procs t)) (\<lambda>_ _. True) t" for e t
    unfolding wp_seq by (rule wp_mono [OF wp_anything]) simp_all
  show ?thesis
    unfolding startStack_def by (auto simp: wp_catch failed intro!: wp_mono [OF all] split: option.split)
qed

lemma does_restart:
  assumes "registered b {} s" and "backend < length (procs s)"
  shows "does (restartBackend root isolated ps env backend) (\<lambda>_. registered b {}) (fails_with (registered b {})) s"
proof -
  have r: "reaped s" using assms(1) by (simp add: registered_def)
  have "registered b {} t" if "later s t" for t
    using registered_later [OF assms(1) that, of "{}" "{}"] by simp
  then show ?thesis
    unfolding restartBackend_def wp_seq
    by (intro wp_mono [OF does_stop [OF assms(2) r]]) (auto intro: does_start_backend)
qed

section \<open>Nothing is left behind\<close>

lemma does_e2e:
  assumes "registered b {} s" and "backend < length (procs s)"
  shows "does (e2e x (Some (restartBackend root isolated ps env backend))) (\<lambda>_. registered b {})
    (fails_with (registered b {})) s"
proof -
  let ?I = "\<lambda>s. registered b {} s \<and> backend < length (procs s)"
  have after: "does (seq (restartBackend root isolated ps env backend) (after_restart x i n)) (\<lambda>_. registered b {})
      (fails_with (registered b {})) t" if "?I t" for i n t
    using that by (intro does_then [OF does_restart] steadyD [OF steady_after lasting_registered]) simp_all
  show ?thesis
    unfolding e2e_def wp_bind
    by (rule wp_mono [OF steadyD [OF steady_scenario lasting_conj [OF lasting_registered lasting_within]]])
       (use assms after in auto)
qed

lemma does_verify:
  assumes "reaped s"
  shows "does (verify_script root m) (\<lambda>_. all_gone (length (procs s))) (\<lambda>_. all_gone (length (procs s))) s"
proof -
  let ?b = "length (procs s)"
  let ?start = "\<lambda>t. length (procs t) = ?b \<and> reaped t"
  have on: "does (verify_on root m ps backend) (\<lambda>_. all_gone ?b) (\<lambda>_. all_gone ?b) t"
    if "registered ?b {} t" "backend < length (procs t)" for ps backend t
  proof -
    have "does (seq (e2e x (Some (restartBackend root True ps env backend))) (run_command c as))
        (\<lambda>_. registered ?b {}) (fails_with (registered ?b {})) t" for x env c as
      by (intro does_then [OF does_e2e [OF that]] steadyD [OF steady_run lasting_registered])
    then have tests: "does (seq (e2e x (Some (restartBackend root True ps env backend))) (run_command c as))
        (\<lambda>_. registered ?b {}) (\<lambda>_. registered ?b {}) t" for x env c as
      by (rule wp_mono) simp_all
    have stop: "does shutdown (\<lambda>_. all_gone ?b) (\<lambda>_ _. False) u" if "registered ?b {} u" for u
      by (rule wp_mono [OF does_shutdown_registered [OF that]]) simp_all
    show ?thesis unfolding verify_on_def by (rule does_finally [OF tests stop])
  qed
  have start: "does (startStack root True None) (\<lambda>p t. registered ?b {} t \<and> p < length (procs t)) (\<lambda>_. all_gone ?b) t"
    if "?start t" for t
    using wp_conj [OF does_startStack stack_within, of t root True None] that by (auto elim: wp_mono)
  have "lasting ?start" unfolding lasting_def os_step_def reaped_def by auto
  from steadyD [OF steady_run this] have check: "does (run_command c as) (\<lambda>_. ?start) (fails_with ?start) s" for c as
    using assms by simp
  have ports: "ports_of True None = Some \<lparr>rpc_port = 18545, api_port = 18081, web_port = 15173, db_port = 55435\<rparr>"
    by (simp add: ports_of_def)
  have rest: "does (bind (startStack root True None) (\<lambda>backend.
      case ports_of True None of None \<Rightarrow> Throw TypeError | Some ps \<Rightarrow> verify_on root m ps backend))
      (\<lambda>_. all_gone ?b) (\<lambda>_. all_gone ?b) t" if "?start t" for t
    unfolding wp_bind ports option.case
    by (rule wp_mono [OF start [OF that]]) (simp_all add: on)
  show ?thesis
    unfolding verify_script_def wp_seq by (rule wp_mono [OF check]) (use rest in \<open>simp_all add: all_gone_def\<close>)
qed

definition verified_manifest :: manifest where
  "verified_manifest =
     \<lparr>mf_chainId = ''31337'', mf_lotteryAddress = ''0x1'', mf_tokenAddress = ''0x2'', mf_tokenDecimals = 8, mf_daoAddress = ''0x4'',
      mf_randomnessProvider = ''0x3'', mf_deploymentBlock = Some 1, mf_minimumParticipants = 2, mf_localMock = True,
      mf_testToken = True, mf_vrfSubscriptionId = None, mf_vrfNativePayment = False\<rparr>"

text \<open>C19: The verification run leaves no process behind: whether the checks, the start of the stack, the end-to-end
  scenario with its restart of the history service, or the browser tests fail or pass, in the end none of
  the processes it has started is running.\<close>

theorem verification_leaves_nothing:
  assumes "conforms os_step (verify_script root m) env s" and "reaped s"
    and "finished (outcome (verify_script root m) env s)"
  shows "all_gone (length (procs s)) (final (verify_script root m) env s)"
  using wp_outcome [OF does_verify [OF assms(2)] assms(1)] assms(3)
  by (cases "outcome (verify_script root m) env s") auto

lemmas verify_defs = verify_script_def verify_on_def start_defs

theorem verification_leaves_nothing_witness:
  "let t = final (verify_script ''/r'' verified_manifest) failing_start empty_host in length (procs t) = 1 \<and> all_gone 0 t"
proof -
  let ?p = "verify_script ''/r'' verified_manifest"
  have r: "reaped empty_host" "length (procs empty_host) = 0"
    by (simp_all add: empty_host_def sample_host_def reaped_def)
  have c: "conforms os_step ?p failing_start empty_host"
    by (simp add: verify_defs os_step_def del: dial_loop.simps)
  have f: "finished (outcome ?p failing_start empty_host)" "length (procs (final ?p failing_start empty_host)) = 1"
    by (simp_all add: verify_defs del: dial_loop.simps)
  show ?thesis
    using verification_leaves_nothing [OF c r(1) f(1)] r(2) f(2) by (simp add: Let_def)
qed

section \<open>The scenario ends\<close>

text \<open>The costs of the parts add up; of branches the greater one counts.\<close>

lemma cost_ends: "cost w (Ret a) 0" "cost w (Throw e) 0"
  by simp_all

lemma cost_if: "cost w p m \<Longrightarrow> cost w q n \<Longrightarrow> cost w (if b then p else q) (max m n)"
  by (auto elim: cost_mono)

lemma cost_option: "cost w p m \<Longrightarrow> (\<And>a. cost w (f a) n) \<Longrightarrow> cost w (case x of None \<Rightarrow> p | Some a \<Rightarrow> f a) (max m n)"
  by (cases x) (simp_all add: cost_mono [of w _ m "max m n"] cost_mono [of w _ n "max m n"])

lemma cost_pair: "(\<And>a b. cost w (f a b) n) \<Longrightarrow> cost w (case x of (a, b) \<Rightarrow> f a b) n"
  by (cases x) simp

lemma cost_each: "cost each_await (await c q) 1"
  by simp

lemma cost_quiet_catch: "cost w p m \<Longrightarrow> cost w (catch p (\<lambda>e. Ret (h e))) m"
  by (rule cost_0_catch) simp_all

lemmas costs = cost_ends cost_if cost_option cost_pair cost_each cost_quiet_catch cost_seq cost_bind

named_theorems awaits_test \<open>the number of answers the parts of the scenario wait for\<close>

lemma awaits_check [awaits_test]: "cost each_await (check_that b) 0"
  by (simp add: check_that_def)

lemma awaits_send_wait [awaits_test]: "cost each_await (send_and_wait u t c) 2"
  unfolding send_and_wait_def by (rule cost_mono, (rule costs)+) simp

lemma awaits_pick [awaits_test]: "cost each_await (pick_users i rs) 0"
proof (induction rs arbitrary: i)
  case (Cons r rs)
  show ?case unfolding pick_users.simps by (rule cost_mono, (rule costs Cons)+) simp
qed simp

lemma awaits_users [awaits_test]: "cost each_await test_users 1"
  unfolding test_users_def by (rule cost_mono, (rule costs awaits_pick)+) simp

lemma awaits_get [awaits_test]: "cost each_await (get_api x path) 3"
  unfolding get_api_def by (rule cost_mono, (rule costs awaits_test)+) simp

lemma cost_body:
  "(\<And>c. cost w (f c) k) \<Longrightarrow> (\<And>r. cost w (g r) k) \<Longrightarrow> (\<And>h. cost w (j h) k) \<Longrightarrow> (\<And>m. cost w (l m) k) \<Longrightarrow>
     cost w (case b of ConfigBody c \<Rightarrow> f c | CurrentBody r \<Rightarrow> g r | HistoryBody h \<Rightarrow> j h | ErrorBody m \<Rightarrow> l m) k"
  by (cases b) simp_all

lemma awaits_attempt [awaits_test]: "cost each_await (attempt x i pred) 3"
  unfolding attempt_def
  by (rule cost_mono, (rule cost_quiet_catch cost_bind awaits_get cost_body [where k = 0])+)
     (auto split: option.split)

lemma awaits_poll: "cost each_await (poll_index n x i pred) (4 * n)"
proof (induction n)
  case (Suc n)
  show ?case unfolding poll_index.simps by (rule cost_mono, (rule costs awaits_test Suc)+) simp
qed simp

lemma awaits_indexed [awaits_test]: "cost each_await (indexed_draw x i pred) 400" "cost each_await (awaits_status x i st) 400"
  using awaits_poll [of 100] by (simp_all only: awaits_status_def indexed_draw_def) simp_all

lemma awaits_reads [awaits_test]: "cost each_await (on_lottery x u c) 2" "cost each_await (read_round x us i) 1"
  "cost each_await (token_balance x us a) 1"
  unfolding on_lottery_def read_round_def draw_of_def token_balance_def
  by (rule cost_mono, (rule costs awaits_test)+, simp)+

lemma awaits_approve: "cost each_await (approve_all x us) (2 * length us)"
proof (induction us)
  case (Cons u us)
  show ?case unfolding approve_all.simps by (rule cost_mono, (rule costs awaits_test Cons)+) simp
qed simp

lemma awaits_buy [awaits_test]: "cost each_await (buy x us n i) (2 * n)"
proof -
  have "cost each_await (buy_each x i vs) (2 * length vs)" for vs
  proof (induction vs)
    case (Cons v vs)
    show ?case unfolding buy_each.simps by (rule cost_mono, (rule costs awaits_test Cons)+) simp
  qed simp
  then show ?thesis unfolding buy_def by (rule cost_mono) simp
qed

lemma awaits_moves [awaits_test]: "cost each_await (expire x us i) 2" "cost each_await (settle x us i l) 5"
  "cost each_await (solvent x us) 2" "cost each_await (next_round x us i) 2"
  unfolding expire_def settle_def solvent_def next_round_def
  by (rule cost_mono, (rule costs awaits_test)+, simp)+

lemma awaits_page [awaits_test]: "cost each_await (history_page x path) 3"
  unfolding history_page_def
  by (rule cost_mono, (rule cost_bind awaits_get cost_body [where k = 0])+) simp_all

lemma awaits_pages [awaits_test]: "cost each_await (check_pages x) 6"
  unfolding check_pages_def by (rule cost_mono, (rule costs awaits_test)+) simp

lemma awaits_parts [awaits_test]: "cost each_await (rollover_and_winner x us n i) 830"
  "cost each_await (orphan_claim x us j) 806" "cost each_await (claim_old_prize x us price n j) 420"
  "cost each_await (refunds_and_rollover x us n c) 1636"
  unfolding rollover_and_winner_def orphan_claim_def claim_old_prize_def refunds_and_rollover_def
  by (rule cost_mono, (rule costs awaits_test)+, simp)+

text \<open>Every account that is picked is approved.\<close>

lemma cost_picked:
  assumes "\<And>us. length us = length rs \<Longrightarrow> cost w (f us) n"
  shows "cost w (bind (pick_users i rs) f) n"
  using assms
proof (induction rs arbitrary: i f)
  case (Cons r rs)
  have "cost w (bind (pick_users (Suc i) rs) (\<lambda>us. f (a # us))) n" for a
    by (rule Cons.IH) (simp add: Cons.prems)
  then show ?case by (auto simp: bind_assoc split: option.split)
qed simp

lemma cost_users:
  assumes "\<And>us. length us = 6 \<Longrightarrow> cost each_await (f us) n"
  shows "cost each_await (bind test_users f) (1 + n)"
proof -
  have "cost each_await (bind (if length rs = 6 then pick_users 0 rs else Throw TypeError) f) n" for rs :: "resp list"
    using cost_picked [of rs each_await f n 0] assms by auto
  then show ?thesis unfolding test_users_def bind_assoc by (intro cost_bind) simp_all
qed

lemma awaits_begin [awaits_test]: "cost each_await (begin_test x) 15"
proof -
  have "cost each_await (bind (await as_nat (SignerRead (us ! 0) (mf_lotteryAddress (st_manifest x)) call_ticketPrice)) (\<lambda>price.
      seq (approve_all x us) (Ret (us, price)))) 13" if "length us = 6" for us
    by (rule cost_mono, (rule costs awaits_approve awaits_test)+) (simp add: that)
  note U = cost_users [OF this]
  show ?thesis unfolding begin_test_def by (rule cost_mono, (rule U costs awaits_test)+) simp_all
qed

lemma awaits_empty [awaits_test]: "cost each_await (empty_round x us) 2"
  unfolding empty_round_def by (rule cost_mono, (rule costs awaits_test)+) simp

lemma awaits_scenario [awaits_test]: "cost each_await (scenario x) 3715"
  unfolding scenario_def by (rule cost_mono, (rule costs awaits_test)+) simp

lemma awaits_after: "cost each_await (after_restart x i n) 3"
  unfolding after_restart_def
  by (rule cost_mono, (rule cost_bind awaits_get cost_body [where k = 0])+)
     (auto simp: check_that_def intro!: cost_seqI [of _ _ 0] split: option.split)

text \<open>The end-to-end scenario ends after at most 3715 answers of the node and the service, and those of the restart
  if it is given one, however long the index takes to converge; and on a network other than the local one
  it does nothing at all.\<close>

theorem scenario_ends:
  assumes "case restart of None \<Rightarrow> k = 0 | Some r \<Rightarrow> cost each_await r k" and "3718 + k \<le> length env"
  shows "finished (outcome (e2e x restart) env s) \<and>
    (n \<noteq> 31337 \<longrightarrow> map fst (trace (e2e x restart) ((RNat n, u) # env') s) = [GetNetwork])"
proof -
  have "cost each_await (case restart of None \<Rightarrow> Ret () | Some r \<Rightarrow> seq r (after_restart x i unit)) (3 + k)" for i unit
    using assms(1) by (auto intro!: cost_seqI [where m = k] awaits_after split: option.splits)
  then have "cost each_await (e2e x restart) (3715 + (3 + k))"
    unfolding e2e_def by (intro cost_bind awaits_scenario cost_pair)
  then have "finished (outcome (e2e x restart) env s)" by (rule cost_finished) (use assms(2) in simp)
  then show ?thesis
    by (simp add: e2e_def scenario_def begin_test_def check_that_def await_def reply_def seq_def)
qed

section \<open>The exported ABI\<close>

text \<open>The ABI the client reads and the one the indexer decodes with are that of the compiled contract.\<close>

theorem exported_abi_agrees:
  assumes "outcome (export_cjs root) env s = Returned ()" and "t = final (export_cjs root) env s"
  shows "\<exists>abi. artifact s (root @ ''/contracts/artifacts/src/DLottery.sol/DLottery.json'') = Some abi \<and>
    disk t (root @ ''/shared/DLottery.json'') = Some (Pretty abi) \<and>
    disk t (root @ ''/backend/internal/lottery/abi.json'') = Some (Compact abi)"
  using assms by (auto simp: export_cjs_def exported_def seq_def split: option.splits)

end
