(* ===== verification/Spec2Isabelle.thy ===== *)
theory Spec2Isabelle
  imports Complete Session Delivery Agreement Loading Access Deployments Services Demonstration TestTickets Staging ServiceSamples Paging Verified
begin

text \<open>
  DLottery is a lottery in rounds on an Ethereum chain. A contract (\<^verbatim>\<open>contracts/src/DLottery.sol\<close>) sells one
  ticket per account and round, asks a randomness provider for a word when the round is full or its time
  is over, declares a winner, a rollover or a cancellation, and pays prizes and refunds on demand. A page
  (\<^verbatim>\<open>frontend/src\<close>) shows the current round, read from a node or from the history service, and sends the
  transactions the visitor's wallet signs. The history service (\<^verbatim>\<open>backend\<close>) rebuilds the rounds from the
  contract's events. Scripts (\<^verbatim>\<open>scripts\<close>, \<^verbatim>\<open>contracts/scripts\<close>) deploy the contracts, start the local stack, play rounds,
  check the test network and run the end-to-end scenario.

  \<^bold>\<open>The client.\<close> An \<^verbatim>\<open>async\<close> function is a program of the type \<^verbatim>\<open>prog\<close> of the theory \<^verbatim>\<open>Async\<close>: it reads
  and updates a state, throws, returns, or awaits the answer to a request; the code between two awaits is
  one step. \<^verbatim>\<open>run\<close> executes a program against a script of answers, \<^verbatim>\<open>wp\<close> is its weakest precondition
  with a guarantee on every request, under an assumption on the environment that may also change the
  state, and \<^verbatim>\<open>cost\<close> bounds the awaits of every path.
  \<^item> \<^verbatim>\<open>Prelude\<close>, \<^verbatim>\<open>JsText\<close>: JavaScript's truthiness, numbers and addresses as text, \<^verbatim>\<open>BigInt\<close>.
  \<^item> \<^verbatim>\<open>Types\<close>: \<^verbatim>\<open>types.ts\<close>. \<^verbatim>\<open>Chain\<close>: \<^verbatim>\<open>chain.ts\<close> (\<^verbatim>\<open>api\<close>, \<^verbatim>\<open>chainDraw\<close>, \<^verbatim>\<open>confirmed\<close>, \<^verbatim>\<open>message\<close>).
  \<^item> \<^verbatim>\<open>AppState\<close>, \<^verbatim>\<open>Wallet\<close>, \<^verbatim>\<open>Rounds\<close>, \<^verbatim>\<open>Action\<close>: the component \<^verbatim>\<open>App\<close> of \<^verbatim>\<open>main.tsx\<close>. The record
    \<^typ>\<open>app\<close> has a field for each of its state cells and references; each handler and effect is a program.
  \<^item> \<^verbatim>\<open>View\<close>, \<^verbatim>\<open>Transactions\<close>: what it renders, as a tree of texts, links and buttons with the handlers
    they start (\<^verbatim>\<open>main.tsx\<close>, \<^verbatim>\<open>Transactions.tsx\<close>, \<^verbatim>\<open>Help.tsx\<close>).
  \<^item> \<^verbatim>\<open>Session\<close>: the page as a transition system. A step starts a handler of the last rendered snapshot,
    resumes one with an arbitrary answer, renders, or lets the browser change the wallet.
  \<^item> \<^verbatim>\<open>Guards\<close>, \<^verbatim>\<open>Samples\<close>, \<^verbatim>\<open>Purchase\<close>, \<^verbatim>\<open>Complete\<close>, \<^verbatim>\<open>Buttons\<close>, \<^verbatim>\<open>Loading\<close>, \<^verbatim>\<open>Access\<close>: what holds of them. Every
    action ends after at most 31 awaits and 2 transactions and a refresh after 8 awaits, which are the
    longest paths of the code; a purchase is preceded by its checks and approves exactly one
    ticket; one transaction is outstanding at a time; a refresh overtaken by the end of its reads of the
    chain leaves nothing behind.

  \<^bold>\<open>The contracts.\<close> An external call is a function from a world (the contract's record, the token, the
  provider and the time) to an error or a new world; an error undoes everything, as a revert does.
  Unsigned integers are naturals with the checks of Solidity 0.8. A token is a parameter with arbitrary
  state; its \<^verbatim>\<open>transferFrom\<close> and \<^verbatim>\<open>transfer\<close> may refuse, and they and the provider may call back into
  the contract before they return, with any sequence of calls.
  \<^item> \<^verbatim>\<open>Lottery\<close>: \<^verbatim>\<open>DLottery.sol\<close>. \<^verbatim>\<open>Accounts\<close>, \<^verbatim>\<open>Ledger\<close>, \<^verbatim>\<open>Solvency\<close>, \<^verbatim>\<open>Settlement\<close>: the books (the running
    totals are sums over rounds), what each function adds to or takes from them, the reachable worlds
    \<^const>\<open>deployed\<close>, and how rounds evolve. \<^verbatim>\<open>ContractSamples\<close>, \<^verbatim>\<open>ContractProps\<close>: worlds for the witnesses
    and the guarantees.
  \<^item> \<^verbatim>\<open>Provider\<close>, \<^verbatim>\<open>Delivery\<close>: \<^verbatim>\<open>VRFProvider.sol\<close> over any coordinator that numbers its requests freshly, the mock
    provider, and the joint system of lottery, provider, coordinator and clock. The call into the lottery
    may fail in any way, running out of gas included; the word it delivers stays the same. In that system
    the provider is bound to the one lottery, so its callback always goes there.
  \<^item> \<^verbatim>\<open>Acceptance\<close>: for each external function, exactly when a call goes through, the token and the provider
    included. \<^verbatim>\<open>Agreement\<close>: client and contract together. What \<^verbatim>\<open>chainDraw\<close> reads is the contract's round at one
    block, and a call goes through exactly when its button is enabled and the token or the provider does its part.

  \<^bold>\<open>The scripts\<close> are programs of the same type over a state of their own.
  \<^item> \<^verbatim>\<open>Report\<close>, \<^verbatim>\<open>Deploy\<close>: \<^verbatim>\<open>deploy-sepolia.mjs\<close>; the state holds the checkpoint in memory and on disk, the two
    manifests, and what the network has taken, with or without its answer reaching the script. \<^verbatim>\<open>Resume\<close>, \<^verbatim>\<open>Rerun\<close>,
    \<^verbatim>\<open>Deployments\<close>: any number of runs, each stopped at any await. A run has at most 22 awaits.
  \<^item> \<^verbatim>\<open>Processes\<close>, \<^verbatim>\<open>Stack\<close>: \<^verbatim>\<open>processes.mjs\<close>, \<^verbatim>\<open>stack.mjs\<close>, \<^verbatim>\<open>local.mjs\<close>, \<^verbatim>\<open>test-backend.mjs\<close> over a host with a table of
    processes. \<^verbatim>\<open>waitFor\<close> runs for 45 seconds with pauses of a quarter of a second, so its loop has fuel for
    181 rounds, and the database is dialled every tenth of a second for ten seconds, at most 101 times more;
    running out of fuel is the error \<^const>\<open>out_of_rounds\<close>, which \<^verbatim>\<open>Supervision\<close> shows never to occur when time
    passes. \<^verbatim>\<open>Services\<close>: whatever is started is stopped again.
  \<^item> \<^verbatim>\<open>Demo\<close>, \<^verbatim>\<open>Demonstration\<close>: \<^verbatim>\<open>round.mjs\<close> and \<^verbatim>\<open>contracts/scripts/deploy.cjs\<close>.
  \<^item> \<^verbatim>\<open>Concurrent\<close>: several \<^verbatim>\<open>async\<close> functions at once, whose steps interleave in any order (\<^verbatim>\<open>Promise.allSettled\<close>).
    \<^verbatim>\<open>Activity\<close>, \<^verbatim>\<open>ActivityRuns\<close>, \<^verbatim>\<open>TestTickets\<close>: \<^verbatim>\<open>check-sepolia.mjs\<close>, any number of runs over one journal; every answered
    submission is recorded under a label of its own, and a run ends after at most 763 answers. The wait for a draw is over after 61 pauses, fifteen
    minutes in steps of fifteen seconds. A recorded submission is waited for again; of the purchases, each of
    the five runs beside the others.
  \<^item> \<^verbatim>\<open>Staging\<close>: \<^verbatim>\<open>stage-railway.mjs\<close>, the copy of file trees per service, with what the filter keeps out.
  \<^item> \<^verbatim>\<open>EndToEnd\<close>, \<^verbatim>\<open>Verified\<close>: \<^verbatim>\<open>e2e.mjs\<close>, \<^verbatim>\<open>verify.mjs\<close> and \<^verbatim>\<open>export.cjs\<close>. The scenario polls the service at most
    100 times per expectation and has at most 3715 answers; verification leaves no process behind.

  \<^bold>\<open>The history service\<close> (\<^verbatim>\<open>backend/internal\<close>) answers with an error or a value in Go; here with \<^const>\<open>Inl\<close> or \<^const>\<open>Inr\<close>. Its widths
  are kept: times are \<^verbatim>\<open>uint64\<close> of what the chain says, block numbers are signed words of 64 bits.
  \<^item> \<^verbatim>\<open>Projection\<close>: \<^verbatim>\<open>model.go\<close>, decoding and applying an event. \<^verbatim>\<open>Replay\<close>, \<^verbatim>\<open>History\<close>: folding it over the events of a reachable
    world gives each round of the contract, and what \<^verbatim>\<open>chainDraw\<close> would read at that block.
  \<^item> \<^verbatim>\<open>Store\<close>: \<^verbatim>\<open>store.go\<close> and \<^verbatim>\<open>schema.sql\<close>, the tables of blocks, events and rounds, with their constraints; a transaction
    is taken whole or not at all, and rewinding restores the tables as they were at the ancestor.
  \<^item> \<^verbatim>\<open>Indexer\<close>: \<^verbatim>\<open>indexer.go\<close>, one pass: finding the newest block still on the chain, then at most 100 blocks of headers
    and logs. A node answers each request from a view of its own. \<^verbatim>\<open>Shape\<close>: the stored rounds always have the shape
    the schema and the page expect. \<^verbatim>\<open>CatchUp\<close>: the passes reach the newest confirmed block.
  \<^item> \<^verbatim>\<open>Service\<close>, \<^verbatim>\<open>ServiceSamples\<close>: \<^verbatim>\<open>http.go\<close>, the rounds and the history it answers, and the composition of all parts: a
    faithful service shows the rounds the contract holds. \<^verbatim>\<open>Paging\<close>: the list of past rounds, from the button over
    \<^verbatim>\<open>loadHistory\<close>, its address and the handler to the query and back. The remaining seconds of a settled round are the
    one number in which service and \<^verbatim>\<open>chainDraw\<close> differ; the page never reads it.

  \<^bold>\<open>Interfaces.\<close> The locale \<^verbatim>\<open>busy_flag\<close> (\<^verbatim>\<open>Guards\<close>) is the pattern shared by \<^verbatim>\<open>action\<close>, \<^verbatim>\<open>connect\<close> and
  \<^verbatim>\<open>refresh\<close>: a reference is tested, set, and cleared on every path. \<^verbatim>\<open>reentry_safe\<close> (\<^verbatim>\<open>Accounts\<close>) is what an
  assertion needs to survive calls from inside a call. \<^verbatim>\<open>randomness_source\<close> (\<^verbatim>\<open>Provider\<close>) is what the lottery
  expects of a provider, and \<^verbatim>\<open>coordinator\<close>, of which it is a consequence, what the provider expects of a
  coordinator. \<^verbatim>\<open>rely_guarantee\<close> (\<^verbatim>\<open>Concurrent\<close>) is the rule for functions that run side by side: each keeps an
  invariant under what the others may do. \<^verbatim>\<open>indexed\<close> (\<^verbatim>\<open>Indexer\<close>) is what a condition on the store needs to
  survive every pass; it is interpreted for the cursor that stands on a stored block and for the store that
  is a prefix of the chain. Each is interpreted on the definitions of the model.

  \<^bold>\<open>Hypotheses.\<close> \<^const>\<open>exact_token\<close>: a transfer takes exactly the amount from its sender. \<^const>\<open>honest_token\<close>:
  no call that comes out of the token has the provider as its sender. \<^const>\<open>own_account\<close>, \<^const>\<open>valid_deployment\<close>: the provider is
  another account, and what the constructor checks. \<^const>\<open>address_text\<close>: addresses are written without
  collisions. \<^const>\<open>node\<close>: a node answers a read with what the contract holds at the block asked for.
  \<^const>\<open>network\<close>: a submission answered with a hash has been taken; one that failed, or that was on its way when
  the run was stopped, may have been taken as well. \<^const>\<open>os_step\<close>, \<^const>\<open>patient\<close>: an
  operating system that loses no process, ends the killed, and lets time pass while a process sleeps.
  \<^const>\<open>testnet\<close>: the same of the test network, which reports a ticket only where there is one and does not run
  back in time.
  \<^const>\<open>honest\<close>: a block's hash identifies its number, parent, time and logs, and a log is identified by its
  transaction and index. \<^const>\<open>logged\<close>: a reachable world with the events emitted on the way. \<^const>\<open>followed\<close>: a node
  keeps to one chain whose events the store accepts. Times stay below \<^verbatim>\<open>2^53\<close> where JavaScript reads them.

  \<^bold>\<open>Not modelled.\<close> The texts of the questions of \<^verbatim>\<open>Help.tsx\<close> are an argument of the page; ARIA attributes, CSS
  and the scheduling of renders by React are left out (any render may happen at any time). ethers, React,
  OpenZeppelin and Chainlink are outside the repository: what they answer is a request's answer or a
  parameter. Gas is modelled only where \<^verbatim>\<open>VRFProvider.sol\<close> bounds it. Of the history service: the coding of
  rounds as JSON and of numbers in SQL, connections, advisory locks and their errors, \<^verbatim>\<open>main.go\<close>'s configuration,
  CORS, metrics, readiness and request identifiers, and the order \<^verbatim>\<open>sort.Slice\<close> gives to ties. Of the scripts: console
  output, the variables handed to browser tests, \<^verbatim>\<open>browser.mjs\<close>, and the configurations of the test runner and the
  build tools, which are settings. The browser tests and the other mock contracts are fixtures; the token
  parameter covers what those mocks do. Files are written whole, symbolic links are not
  followed, and the directories and log files of child processes are left out.
\<close>

end
